(* ===== verification/Ordered_Map.thy ===== *)
theory Ordered_Map
  imports Prelude
begin

text \<open>
  \<open>std::collections::BTreeMap\<close> as the sources use it: \<open>insert\<close>, \<open>get\<close>,
  \<open>contains_key\<close>, \<open>len\<close> and iteration in the order of the keys.  The contract the clients
  rely on is the locale \<open>ordered_map\<close>; the model is a list of pairs with strictly
  increasing keys, and the interpretation at the end of the theory discharges the contract.
\<close>

section \<open>The contract\<close>

locale ordered_map =
  fixes empty :: "'m"
    and get :: "'m \<Rightarrow> 'k::linorder \<Rightarrow> 'v option"
    and insert :: "'k \<Rightarrow> 'v \<Rightarrow> 'm \<Rightarrow> 'm"
    and entries :: "'m \<Rightarrow> ('k \<times> 'v) list"
    and invar :: "'m \<Rightarrow> bool"
  assumes invar_empty: "invar empty"
    and invar_insert: "invar m \<Longrightarrow> invar (insert k v m)"
    and get_empty: "get empty k = None"
    and get_insert: "invar m \<Longrightarrow> get (insert k v m) j = (if j = k then Some v else get m j)"
    and get_entries: "invar m \<Longrightarrow> get m = map_of (entries m)"
    and sorted_entries: "invar m \<Longrightarrow> sorted_wrt (<) (map fst (entries m))"
begin

lemma distinct_keys: "invar m \<Longrightarrow> distinct (map fst (entries m))"
  using sorted_entries by (auto simp: strict_sorted_iff)

lemma dom_entries: "invar m \<Longrightarrow> dom (get m) = fst ` set (entries m)"
  by (simp add: get_entries dom_map_of_conv_image_fst)

lemma len_entries: "invar m \<Longrightarrow> length (entries m) = card (dom (get m))"
  by (metis distinct_card distinct_keys dom_entries image_set length_map)

lemma entry_iff: "invar m \<Longrightarrow> (k, v) \<in> set (entries m) \<longleftrightarrow> get m k = Some v"
  by (metis distinct_keys get_entries map_of_eq_Some_iff)

lemma len_insert:
  assumes "invar m"
  shows "length (entries (insert k v m)) =
    (if get m k = None then Suc (length (entries m)) else length (entries m))"
proof -
  have "dom (get (insert k v m)) = Set.insert k (dom (get m))"
    using assms by (auto simp: get_insert split: if_splits)
  moreover have "finite (dom (get m))"
    using assms by (simp add: dom_entries)
  ultimately show ?thesis
    using assms by (auto simp: len_entries invar_insert card_insert_if domIff insert_absorb)
qed

text \<open>A map whose keys lie in a finite set and are as many as its elements has them all.\<close>

lemma full_domain:
  assumes "invar m" and "dom (get m) \<subseteq> K" and "finite K" and "length (entries m) = card K"
  shows "dom (get m) = K"
  using assms by (simp add: card_subset_eq len_entries)

lemma fold_insert_get:
  assumes "invar m"
  shows "invar (fold (\<lambda>(k, v). insert k v) kvs m) \<and>
    get (fold (\<lambda>(k, v). insert k v) kvs m) = get m ++ map_of (rev kvs)"
  using assms
proof (induction kvs arbitrary: m)
  case Nil
  then show ?case by simp
next
  case (Cons kv kvs)
  obtain k v where kv: "kv = (k, v)" by (cases kv)
  have "get (insert k v m) = (get m)(k \<mapsto> v)"
    using Cons.prems by (auto simp: get_insert)
  with Cons kv invar_insert show ?case
    by (simp add: map_add_def fun_eq_iff split: option.splits)
qed

end

section \<open>The model\<close>

type_synonym ('k, 'v) btree = "('k \<times> 'v) list"

fun bt_insert :: "'k::linorder \<Rightarrow> 'v \<Rightarrow> ('k, 'v) btree \<Rightarrow> ('k, 'v) btree" where
  "bt_insert k v [] = [(k, v)]"
| "bt_insert k v ((j, w) # m) =
     (if k < j then (k, v) # (j, w) # m
      else if k = j then (k, v) # m
      else (j, w) # bt_insert k v m)"

definition bt_get :: "('k, 'v) btree \<Rightarrow> 'k \<Rightarrow> 'v option" where
  "bt_get m = map_of m"

definition bt_contains :: "('k, 'v) btree \<Rightarrow> 'k \<Rightarrow> bool" where
  "bt_contains m k = (bt_get m k \<noteq> None)"

definition bt_entries :: "('k, 'v) btree \<Rightarrow> ('k \<times> 'v) list" where
  "bt_entries m = m"

definition bt_len :: "('k, 'v) btree \<Rightarrow> nat" where
  "bt_len m = length m"

definition bt_ok :: "('k::linorder, 'v) btree \<Rightarrow> bool" where
  "bt_ok m = sorted_wrt (<) (map fst m)"

lemma set_bt_insert: "fst ` set (bt_insert k v m) = insert k (fst ` set m)"
  by (induction k v m rule: bt_insert.induct) auto

lemma bt_ok_insert: "bt_ok m \<Longrightarrow> bt_ok (bt_insert k v m)"
proof (induction k v m rule: bt_insert.induct)
  case (2 k v j w m)
  then have "\<forall>x \<in> fst ` set (bt_insert k v m). k < j \<or> k = j \<or> j < x"
    by (auto simp: bt_ok_def set_bt_insert)
  with 2 show ?case by (auto simp: bt_ok_def)
qed (simp add: bt_ok_def)

lemma bt_get_insert: "bt_ok m \<Longrightarrow> bt_get (bt_insert k v m) j = (if j = k then Some v else bt_get m j)"
  by (induction k v m rule: bt_insert.induct) (auto simp: bt_ok_def bt_get_def)

interpretation bt: ordered_map "[]" bt_get bt_insert bt_entries bt_ok
  by unfold_locales (auto simp: bt_ok_def bt_get_def bt_entries_def
      bt_ok_insert [unfolded bt_ok_def] bt_get_insert [unfolded bt_ok_def bt_get_def])

lemmas bt_laws = bt.invar_empty bt.invar_insert bt.get_empty bt.get_insert

lemma bt_len_card: "bt_ok m \<Longrightarrow> bt_len m = card (dom (bt_get m))"
  using bt.len_entries [of m] by (simp add: bt_entries_def bt_len_def)

lemma bt_get_in_set: "bt_ok m \<Longrightarrow> bt_get m k = Some v \<longleftrightarrow> (k, v) \<in> set m"
  using bt.entry_iff [of m k v] by (simp add: bt_entries_def)

text \<open>The model is canonical: a map is the list of its entries in the order of the keys.\<close>

definition bt_tabulate :: "('k \<Rightarrow> 'v) \<Rightarrow> 'k list \<Rightarrow> ('k, 'v) btree" where
  "bt_tabulate f ks = map (\<lambda>k. (k, f k)) ks"

lemma bt_tabulate_ok: "sorted_wrt (<) ks \<Longrightarrow> bt_ok (bt_tabulate f ks)"
  by (simp add: bt_ok_def bt_tabulate_def comp_def)

lemma bt_get_tabulate: "bt_get (bt_tabulate f ks) k = (if k \<in> set ks then Some (f k) else None)"
  by (induction ks) (auto simp: bt_get_def bt_tabulate_def)

lemma bt_eqI:
  assumes "bt_ok m" and "bt_ok m'" and "bt_get m = bt_get m'"
  shows "m = m'"
proof -
  have s: "sorted (map fst m)" "distinct (map fst m)" "sorted (map fst m')" "distinct (map fst m')"
    using assms(1,2) by (simp_all add: bt_ok_def strict_sorted_iff)
  then have "set m = set m'" using assms(3) by (simp add: bt_get_def map_of_inject_set)
  then have keys: "map fst m = map fst m'"
    using s by (intro sorted_distinct_set_unique) simp_all
  show ?thesis
  proof (rule nth_equalityI)
    show "length m = length m'" using keys by (metis length_map)
    fix i assume i: "i < length m"
    then have "fst (m ! i) = fst (m' ! i)" using keys by (metis length_map nth_map)
    moreover have "m ! i \<in> set m'" "m' ! i \<in> set m'"
      using i \<open>set m = set m'\<close> keys by (metis nth_mem, metis length_map nth_mem)
    ultimately show "m ! i = m' ! i" using s(4) by (metis eq_key_imp_eq_value prod.collapse)
  qed
qed

text \<open>A loop that files one entry and pushes one message per element.\<close>

lemma for_each_insert_push:
  assumes "\<And>x keep tr. x \<in> set xs \<Longrightarrow> step x (keep, tr) = Inr (bt_insert (key x) (val x) keep, tr @ [msg x])"
    and "bt_ok keep" and "distinct (map key xs)"
  shows "\<exists>keep'. for_each step xs (keep, tr) = Inr (keep', tr @ map msg xs) \<and> bt_ok keep' \<and>
    (\<forall>x \<in> set xs. bt_get keep' (key x) = Some (val x)) \<and>
    (\<forall>k. k \<notin> key ` set xs \<longrightarrow> bt_get keep' k = bt_get keep k)"
  using assms
proof (induction xs arbitrary: keep tr)
  case (Cons x xs)
  let ?k = "bt_insert (key x) (val x) keep"
  have ok: "bt_ok ?k" using Cons.prems(2) by (rule bt.invar_insert)
  have "\<exists>keep'. for_each step xs (?k, tr @ [msg x]) = Inr (keep', (tr @ [msg x]) @ map msg xs) \<and> bt_ok keep' \<and>
    (\<forall>y \<in> set xs. bt_get keep' (key y) = Some (val y)) \<and>
    (\<forall>k. k \<notin> key ` set xs \<longrightarrow> bt_get keep' k = bt_get ?k k)"
    by (rule Cons.IH) (use Cons.prems ok in auto)
  then obtain keep' where k: "for_each step xs (?k, tr @ [msg x]) = Inr (keep', (tr @ [msg x]) @ map msg xs)"
    "bt_ok keep'" "\<forall>y \<in> set xs. bt_get keep' (key y) = Some (val y)"
    "\<forall>k. k \<notin> key ` set xs \<longrightarrow> bt_get keep' k = bt_get ?k k" by blast
  moreover have "key x \<notin> key ` set xs" using Cons.prems(3) by simp
  ultimately show ?case
    using Cons.prems(1) [of x] Cons.prems(2) by (auto simp: bt_laws)
qed simp

text \<open>Over increasing keys the loop tabulates.\<close>

lemma for_each_tabulate:
  assumes "\<And>x keep tr. x \<in> set xs \<Longrightarrow> step x (keep, tr) = Inr (bt_insert x (val x) keep, tr @ [msg x])"
    and "sorted_wrt (<) xs"
  shows "for_each step xs ([], []) = Inr (bt_tabulate val xs, map msg xs)"
proof -
  have "distinct (map (\<lambda>x. x) xs)" using assms(2) by (simp add: strict_sorted_iff)
  from for_each_insert_push [OF assms(1) bt.invar_empty this, of "[]"] obtain keep where
    k: "for_each step xs ([], []) = Inr (keep, map msg xs)" "bt_ok keep"
      "\<forall>x \<in> set xs. bt_get keep x = Some (val x)" "\<forall>k. k \<notin> set xs \<longrightarrow> bt_get keep k = bt_get [] k"
    by auto
  have "keep = bt_tabulate val xs"
    using k assms(2) by (intro bt_eqI bt_tabulate_ok) (auto simp: bt_get_tabulate bt_laws fun_eq_iff)
  with k(1) show ?thesis by simp
qed

text \<open>Entries computed from their keys, inserted in any order.\<close>

lemma fold_tabulate:
  assumes "set qs = set ks" and "sorted_wrt (<) ks"
  shows "fold (\<lambda>k. bt_insert k (h k)) qs [] = bt_tabulate h ks"
proof -
  have "bt_ok m \<Longrightarrow> bt_ok (fold (\<lambda>k. bt_insert k (h k)) qs m) \<and>
      bt_get (fold (\<lambda>k. bt_insert k (h k)) qs m) k = (if k \<in> set qs then Some (h k) else bt_get m k)" for k m
    by (induction qs arbitrary: m) (simp_all add: bt_laws)
  from this [OF bt.invar_empty] have "bt_ok (fold (\<lambda>k. bt_insert k (h k)) qs [])"
    "bt_get (fold (\<lambda>k. bt_insert k (h k)) qs []) = bt_get (bt_tabulate h ks)"
    using assms(1) by (simp_all add: fun_eq_iff bt_get_tabulate bt_laws)
  then show ?thesis by (intro bt_eqI bt_tabulate_ok assms(2))
qed

text \<open>A loop that fills two maps at once.\<close>

lemma for_each_tabulate2:
  assumes "\<And>k m m'. k \<in> set ks \<Longrightarrow> step k (m, m') = Inr (bt_insert k (f k) m, bt_insert k (g k) m')"
    and "sorted_wrt (<) ks"
  shows "for_each step ks ([], []) = Inr (bt_tabulate f ks, bt_tabulate g ks)"
proof -
  have "for_each step qs (m, m') = Inr (fold (\<lambda>k. bt_insert k (f k)) qs m, fold (\<lambda>k. bt_insert k (g k)) qs m')"
    if "set qs \<subseteq> set ks" for qs m m'
    using that assms(1) by (induction qs arbitrary: m m') auto
  then show ?thesis by (simp add: fold_tabulate [OF refl assms(2)])
qed

end
