(* ===== verification/Suite.thy ===== *)
theory Suite
  imports Complex_Main Prelude
begin

text \<open>
  The cryptographic back end.  The group, its scalar field and the hash functions come from
  the RustCrypto crates (\<open>elliptic-curve\<close>, \<open>k256\<close>, \<open>p256\<close>, \<open>sha2\<close>, \<open>hmac\<close>,
  \<open>ripemd\<close>, \<open>hex\<close>), which are not part of the repository: they are a parameter of the model, the
  record \<open>suite\<close>, and what the sources rely on is the predicate \<open>suite_ok\<close>.  Scalars are a
  field, points an abelian group written additively; affine and projective points are the
  same values here (\<open>to_affine\<close> is the identity), the point at infinity is 0.
\<close>

record ('s, 'p) suite =
  generator :: 'p
  pmul :: "'p \<Rightarrow> 's \<Rightarrow> 'p"              \<comment> \<open>\<open>point * scalar\<close>\<close>
  scalar_from :: "u64 \<Rightarrow> 's"            \<comment> \<open>\<open>Scalar::from(u64)\<close>\<close>
  reduce_bytes :: "bytes \<Rightarrow> 's"         \<comment> \<open>\<open>Reduce<FieldBytes>::reduce\<close>\<close>
  to_repr :: "'s \<Rightarrow> bytes"              \<comment> \<open>\<open>PrimeField::to_repr\<close>, big-endian\<close>
  from_repr :: "bytes \<Rightarrow> 's option"     \<comment> \<open>\<open>PrimeField::from_repr\<close>, canonical only\<close>
  is_high :: "'s \<Rightarrow> bool"               \<comment> \<open>\<open>IsHigh\<close>\<close>
  point_enc :: "'p \<Rightarrow> bytes"            \<comment> \<open>\<open>GroupEncoding::to_bytes\<close>, compressed\<close>
  x_bytes :: "'p \<Rightarrow> bytes"              \<comment> \<open>\<open>AffineCoordinates::x\<close>\<close>
  sha256 :: "bytes \<Rightarrow> bytes"
  hmac_sha512 :: "bytes \<Rightarrow> bytes \<Rightarrow> bytes"
  ripemd160 :: "bytes \<Rightarrow> bytes"
  hex_encode :: "bytes \<Rightarrow> string"      \<comment> \<open>\<open>hex::encode\<close>\<close>
  hex_decode_to_slice :: "nat \<Rightarrow> string \<Rightarrow> bytes option"
                                     \<comment> \<open>\<open>hex::decode_to_slice\<close> into a buffer of that length\<close>

definition group_ok :: "('s::field, 'p::ab_group_add) suite \<Rightarrow> bool" where
  "group_ok S \<longleftrightarrow>
     (\<forall>P Q k. pmul S (P + Q) k = pmul S P k + pmul S Q k) \<and>
     (\<forall>P j k. pmul S P (j + k) = pmul S P j + pmul S P k) \<and>
     (\<forall>P j k. pmul S P (j * k) = pmul S (pmul S P j) k) \<and>
     (\<forall>P. pmul S P 1 = P) \<and>
     generator S \<noteq> 0"

definition scalar_ok :: "('s::field, 'p) suite \<Rightarrow> bool" where
  "scalar_ok S \<longleftrightarrow>
     (\<forall>n. scalar_from S n = of_nat (unat n)) \<and>
     inj_on (of_nat :: nat \<Rightarrow> 's) {..<256} \<and>
     (\<forall>k. length (to_repr S k) = 32) \<and>
     (\<forall>k. reduce_bytes S (to_repr S k) = k) \<and>
     (\<forall>b k. from_repr S b = Some k \<longleftrightarrow> b = to_repr S k) \<and>
     (\<forall>k. is_high S k \<longrightarrow> \<not> is_high S (- k))"

definition encoding_ok :: "('s, 'p::ab_group_add) suite \<Rightarrow> bool" where
  "encoding_ok S \<longleftrightarrow>
     inj (point_enc S) \<and>
     (\<forall>P. length (point_enc S P) = 33) \<and>
     (\<forall>P. length (x_bytes S P) = 32) \<and>
     (\<forall>P. x_bytes S (- P) = x_bytes S P)"

definition digest_ok :: "('s, 'p) suite \<Rightarrow> bool" where
  "digest_ok S \<longleftrightarrow>
     (\<forall>m. length (sha256 S m) = 32) \<and>
     (\<forall>k m. length (hmac_sha512 S k m) = 64) \<and>
     (\<forall>m. length (ripemd160 S m) = 20)"

definition hex_ok :: "('s, 'p) suite \<Rightarrow> bool" where
  "hex_ok S \<longleftrightarrow>
     (\<forall>b. hex_decode_to_slice S (length b) (hex_encode S b) = Some b) \<and>
     (\<forall>n s b. hex_decode_to_slice S n s = Some b \<longrightarrow> length b = n)"

definition suite_ok :: "('s::field, 'p::ab_group_add) suite \<Rightarrow> bool" where
  "suite_ok S \<longleftrightarrow> group_ok S \<and> scalar_ok S \<and> encoding_ok S \<and> digest_ok S \<and> hex_ok S"

section \<open>The group action\<close>

named_theorems group_simps \<open>the laws of point multiplication\<close>

lemma pmul_add_point [group_simps]: "suite_ok S \<Longrightarrow> pmul S (P + Q) k = pmul S P k + pmul S Q k"
  by (simp add: suite_ok_def group_ok_def)

lemma pmul_add [group_simps]: "suite_ok S \<Longrightarrow> pmul S P (j + k) = pmul S P j + pmul S P k"
  by (simp add: suite_ok_def group_ok_def)

lemma pmul_mult: "suite_ok S \<Longrightarrow> pmul S P (j * k) = pmul S (pmul S P j) k"
  by (simp add: suite_ok_def group_ok_def)

lemma pmul_pmul [group_simps]: "suite_ok S \<Longrightarrow> pmul S (pmul S P j) k = pmul S P (j * k)"
  by (simp add: pmul_mult)

lemma pmul_one [group_simps]: "suite_ok S \<Longrightarrow> pmul S P 1 = P"
  by (simp add: suite_ok_def group_ok_def)

lemma generator_nonzero: "suite_ok S \<Longrightarrow> generator S \<noteq> 0"
  by (simp add: suite_ok_def group_ok_def)

lemma pmul_zero [group_simps]: "suite_ok S \<Longrightarrow> pmul S P 0 = 0"
  using pmul_add [of S P 0 0] by simp

lemma pmul_zero_point [group_simps]: "suite_ok S \<Longrightarrow> pmul S 0 k = 0"
  using pmul_add_point [of S 0 0 k] by simp

lemma pmul_minus [group_simps]: "suite_ok S \<Longrightarrow> pmul S P (- k) = - pmul S P k"
  using pmul_add [of S P k "- k"] by (simp add: pmul_zero eq_neg_iff_add_eq_0 add.commute)

lemma pmul_minus_point [group_simps]: "suite_ok S \<Longrightarrow> pmul S (- P) k = - pmul S P k"
  using pmul_add_point [of S P "- P" k]
  by (simp add: pmul_zero_point eq_neg_iff_add_eq_0 add.commute)

lemma pmul_diff [group_simps]: "suite_ok S \<Longrightarrow> pmul S P (j - k) = pmul S P j - pmul S P k"
  using pmul_add [of S P j "- k"] by (simp add: pmul_minus)

lemma pmul_diff_point [group_simps]: "suite_ok S \<Longrightarrow> pmul S (P - Q) k = pmul S P k - pmul S Q k"
  using pmul_add_point [of S P "- Q" k] by (simp add: pmul_minus_point)

lemma pmul_eq_0_iff: "suite_ok S \<Longrightarrow> pmul S P k = 0 \<longleftrightarrow> P = 0 \<or> k = 0"
proof
  assume ok: "suite_ok S" and z: "pmul S P k = 0"
  show "P = 0 \<or> k = 0"
  proof (rule disjCI)
    assume "k \<noteq> 0"
    then have "P = pmul S (pmul S P k) (1 / k)"
      using ok by (simp add: pmul_pmul pmul_one)
    with ok z show "P = 0" by (simp add: pmul_zero_point)
  qed
next
  assume "suite_ok S" "P = 0 \<or> k = 0"
  then show "pmul S P k = 0" by (auto simp: pmul_zero pmul_zero_point)
qed

lemma pmul_cancel: "suite_ok S \<Longrightarrow> P \<noteq> 0 \<Longrightarrow> pmul S P j = pmul S P k \<longleftrightarrow> j = k"
  using pmul_eq_0_iff [of S P "j - k"] by (auto simp: pmul_diff)

lemma pmul_gen_cancel: "suite_ok S \<Longrightarrow> pmul S (generator S) j = pmul S (generator S) k \<longleftrightarrow> j = k"
  by (rule pmul_cancel) (simp_all add: generator_nonzero)

lemma pmul_sum: "suite_ok S \<Longrightarrow> pmul S P (\<Sum>i \<in> A. f i) = (\<Sum>i \<in> A. pmul S P (f i))"
  by (induction A rule: infinite_finite_induct) (simp_all add: pmul_zero pmul_add)

section \<open>Scalars, encodings and digests\<close>

lemma scalar_from_eq: "suite_ok S \<Longrightarrow> scalar_from S n = of_nat (unat n)"
  by (simp add: suite_ok_def scalar_ok_def)

lemma of_nat_small_inj:
  "suite_ok (S :: ('s::field, 'p::ab_group_add) suite) \<Longrightarrow> m < 256 \<Longrightarrow> n < 256 \<Longrightarrow>
    (of_nat m :: 's) = of_nat n \<longleftrightarrow> m = n"
  by (auto simp: suite_ok_def scalar_ok_def inj_on_eq_iff)

lemma length_to_repr [len_simps]: "suite_ok S \<Longrightarrow> length (to_repr S k) = 32"
  by (simp add: suite_ok_def scalar_ok_def)

lemma reduce_to_repr: "suite_ok S \<Longrightarrow> reduce_bytes S (to_repr S k) = k"
  by (simp add: suite_ok_def scalar_ok_def)

lemma to_repr_inj: "suite_ok S \<Longrightarrow> to_repr S j = to_repr S k \<longleftrightarrow> j = k"
  by (metis reduce_to_repr)

lemma from_repr_iff: "suite_ok S \<Longrightarrow> from_repr S b = Some k \<longleftrightarrow> b = to_repr S k"
  by (simp add: suite_ok_def scalar_ok_def)

lemma from_repr_to_repr: "suite_ok S \<Longrightarrow> from_repr S (to_repr S k) = Some k"
  by (simp add: from_repr_iff)

lemma is_high_neg: "suite_ok S \<Longrightarrow> is_high S k \<Longrightarrow> \<not> is_high S (- k)"
  by (simp add: suite_ok_def scalar_ok_def)

lemma point_enc_inj: "suite_ok S \<Longrightarrow> point_enc S P = point_enc S Q \<longleftrightarrow> P = Q"
  by (auto simp: suite_ok_def encoding_ok_def inj_eq)

lemma length_point_enc [len_simps]: "suite_ok S \<Longrightarrow> length (point_enc S P) = 33"
  by (simp add: suite_ok_def encoding_ok_def)

lemma length_x_bytes [len_simps]: "suite_ok S \<Longrightarrow> length (x_bytes S P) = 32"
  by (simp add: suite_ok_def encoding_ok_def)

lemma x_bytes_neg: "suite_ok S \<Longrightarrow> x_bytes S (- P) = x_bytes S P"
  by (simp add: suite_ok_def encoding_ok_def)

lemma length_digests [len_simps]:
  "suite_ok S \<Longrightarrow> length (sha256 S m) = 32"
  "suite_ok S \<Longrightarrow> length (hmac_sha512 S k m) = 64"
  "suite_ok S \<Longrightarrow> length (ripemd160 S m) = 20"
  by (simp_all add: suite_ok_def digest_ok_def)

lemma hex_roundtrip: "suite_ok S \<Longrightarrow> n = length b \<Longrightarrow> hex_decode_to_slice S n (hex_encode S b) = Some b"
  by (simp add: suite_ok_def hex_ok_def)

lemma hex_decode_length: "suite_ok S \<Longrightarrow> hex_decode_to_slice S n s = Some b \<Longrightarrow> length b = n"
  by (simp add: suite_ok_def hex_ok_def)

lemma hex_encode_inj: "suite_ok S \<Longrightarrow> length b = length c \<Longrightarrow> hex_encode S b = hex_encode S c \<longleftrightarrow> b = c"
  by (metis hex_roundtrip option.inject)

end
