(* ===== verification/Sample_Suite.thy ===== *)
theory Sample_Suite
  imports Suite
begin

text \<open>
  A concrete back end for the witnesses: the field of 257 elements as scalars, its additive
  group as the points, and short digests.  It satisfies every law of \<open>suite_ok\<close>, so the
  hypotheses of the development's theorems can be met, and its operations compute.
\<close>

section \<open>The field of 257 elements\<close>

typedef gf257 = "{0..<257 :: int}"
  morphisms gf_int Gf
  by (rule exI [of _ 0]) simp

setup_lifting type_definition_gf257

lift_definition gf_of_int :: "int \<Rightarrow> gf257" is "\<lambda>n. n mod 257" by simp

lemma gf_int_bounds: "0 \<le> gf_int a" "gf_int a < 257"
  using gf_int [of a] by simp_all

lemma gf_int_of_int [simp]: "gf_int (gf_of_int n) = n mod 257"
  by transfer simp

lemma gf_of_int_gf_int [simp]: "gf_of_int (gf_int a) = a"
  by transfer simp

lemma gf_of_int_eq: "gf_of_int m = gf_of_int n \<longleftrightarrow> m mod 257 = n mod 257"
  by transfer simp

text \<open>257 is prime, so every nonzero residue has an inverse, found by Euclid's algorithm.\<close>

lemma dvd_257:
  fixes d :: nat
  assumes "d dvd 257"
  shows "d = 1 \<or> d = 257"
proof -
  from assms obtain e where e: "257 = d * e" by (rule dvdE)
  have small: "n dvd 257 \<Longrightarrow> n \<le> 16 \<Longrightarrow> n = 1" for n :: nat
  proof -
    assume n: "n dvd 257" "n \<le> 16"
    have "list_all (\<lambda>k. \<not> k dvd (257 :: nat)) [2..<17]" by code_simp
    with n(1) have "\<not> n \<in> set [2..<17]" unfolding list_all_iff by blast
    then have "n < 2 \<or> 16 < n" unfolding set_upt atLeastLessThan_iff by linarith
    moreover have "n \<noteq> 0" using n(1) by (metis dvd_0_left_iff zero_neq_numeral)
    ultimately show "n = 1" using n(2) by linarith
  qed
  have "d \<le> 16 \<or> e \<le> 16"
  proof (rule ccontr)
    assume "\<not> (d \<le> 16 \<or> e \<le> 16)"
    then have "17 * 17 \<le> d * e" by (intro mult_le_mono) simp_all
    with e show False by simp
  qed
  with small [of d] small [of e] assms e show ?thesis by auto
qed

lemma bezw_inverse_257:
  assumes "0 < a" and "a < 257"
  shows "a * fst (bezw (nat a) 257) mod 257 = (1 :: int)"
proof -
  have "gcd (nat a) 257 dvd 257" by (rule gcd_dvd2)
  then have "gcd (nat a) 257 = 1 \<or> gcd (nat a) 257 = 257" by (rule dvd_257)
  moreover have "gcd (nat a) 257 \<le> nat a"
    using assms by (intro gcd_le1_nat) simp
  ultimately have "gcd (nat a) 257 = 1" using assms by linarith
  with bezw_aux [of "nat a" 257] assms
  have "1 = a * fst (bezw (nat a) 257) + snd (bezw (nat a) 257) * 257"
    by (simp add: mult.commute)
  then have "a * fst (bezw (nat a) 257) = 1 + (- snd (bezw (nat a) 257)) * 257"
    by simp
  then show ?thesis by (simp only: mod_mult_self1) simp
qed

instantiation gf257 :: field
begin

lift_definition zero_gf257 :: gf257 is 0 by simp
lift_definition one_gf257 :: gf257 is 1 by simp
lift_definition plus_gf257 :: "gf257 \<Rightarrow> gf257 \<Rightarrow> gf257" is "\<lambda>a b. (a + b) mod 257" by simp
lift_definition minus_gf257 :: "gf257 \<Rightarrow> gf257 \<Rightarrow> gf257" is "\<lambda>a b. (a - b) mod 257" by simp
lift_definition uminus_gf257 :: "gf257 \<Rightarrow> gf257" is "\<lambda>a. (- a) mod 257" by simp
lift_definition times_gf257 :: "gf257 \<Rightarrow> gf257 \<Rightarrow> gf257" is "\<lambda>a b. (a * b) mod 257" by simp
lift_definition inverse_gf257 :: "gf257 \<Rightarrow> gf257" is
  "\<lambda>a. fst (bezw (nat a) 257) mod 257" by simp
definition divide_gf257 :: "gf257 \<Rightarrow> gf257 \<Rightarrow> gf257" where
  "divide_gf257 a b = a * inverse b"

instance
proof
  fix a b c :: gf257
  show "a + b + c = a + (b + c)" by transfer (simp add: mod_simps add.assoc)
  show "a + b = b + a" by transfer (simp add: add.commute)
  show "0 + a = a" by transfer simp
  show "- a + a = 0" by transfer (simp add: mod_simps)
  show "a - b = a + - b" by transfer (simp add: mod_simps)
  show "a * b * c = a * (b * c)" by transfer (simp add: mod_simps mult.assoc)
  show "a * b = b * a" by transfer (simp add: mult.commute)
  show "1 * a = a" by transfer simp
  show "(a + b) * c = a * c + b * c" by transfer (simp add: mod_simps algebra_simps)
  show "(0::gf257) \<noteq> 1" by transfer simp
  show "inverse (0::gf257) = 0" by transfer (simp add: bezw.simps)
  show "a div b = a * inverse b" by (rule divide_gf257_def)
  show "inverse a * a = 1" if "a \<noteq> 0"
    using that
  proof transfer
    fix a :: int
    assume "a \<in> {0..<257}" "a \<noteq> 0"
    then have "a * fst (bezw (nat a) 257) mod 257 = 1"
      by (intro bezw_inverse_257) simp_all
    then show "fst (bezw (nat a) 257) mod 257 * a mod 257 = 1"
      by (simp add: mult.commute mod_mult_right_eq)
  qed
qed

end

lemma gf_int_ring [simp]:
  "gf_int 0 = 0" "gf_int 1 = 1"
  "gf_int (a + b) = (gf_int a + gf_int b) mod 257"
  "gf_int (a - b) = (gf_int a - gf_int b) mod 257"
  "gf_int (- a) = (- gf_int a) mod 257"
  "gf_int (a * b) = (gf_int a * gf_int b) mod 257"
  by (transfer, simp)+

lemma gf_int_of_nat [simp]: "gf_int (of_nat n) = int n mod 257"
  by (induction n) (simp_all add: mod_simps)

lemma gf_int_numeral [simp]: "gf_int (numeral k) = numeral k mod 257"
  by (metis gf_int_of_nat of_nat_numeral)

lemma gf_eq_iff: "a = b \<longleftrightarrow> gf_int a = gf_int b"
  by (simp add: gf_int_inject)

section \<open>The back end\<close>

definition gf_repr :: "gf257 \<Rightarrow> bytes" where
  "gf_repr a = be_bytes 32 (nat (gf_int a))"

definition gf_reduce :: "bytes \<Rightarrow> gf257" where
  "gf_reduce b = gf_of_int (int (of_be b))"

definition gf_from_repr :: "bytes \<Rightarrow> gf257 option" where
  "gf_from_repr b = (if b = gf_repr (gf_reduce b) then Some (gf_reduce b) else None)"

definition sample_digest :: "nat \<Rightarrow> bytes \<Rightarrow> bytes" where
  "sample_digest n m = be_bytes n (of_be m)"

text \<open>Two lower-case hexadecimal digits per byte; decoding accepts both cases.\<close>

definition hex_digit :: "nat \<Rightarrow> char" where
  "hex_digit n = char_of (if n < 10 then 48 + n else 87 + n)"

definition hex_value :: "char \<Rightarrow> nat option" where
  "hex_value c = (let n = of_char c in
     if 48 \<le> n \<and> n \<le> 57 then Some (n - 48)
     else if 97 \<le> n \<and> n \<le> 102 then Some (n - 87)
     else if 65 \<le> n \<and> n \<le> 70 then Some (n - 55) else None)"

fun hex_bytes :: "string \<Rightarrow> bytes option" where
  "hex_bytes [] = Some []"
| "hex_bytes [c] = None"
| "hex_bytes (c # d # s) =
     (case (hex_value c, hex_value d, hex_bytes s) of
        (Some a, Some b, Some r) \<Rightarrow> Some (word_of_nat (16 * a + b) # r) | _ \<Rightarrow> None)"

definition sample_hex :: "bytes \<Rightarrow> string" where
  "sample_hex b = concat (map (\<lambda>x. [hex_digit (unat x div 16), hex_digit (unat x mod 16)]) b)"

definition sample_unhex :: "nat \<Rightarrow> string \<Rightarrow> bytes option" where
  "sample_unhex n s = (if length s = 2 * n then hex_bytes s else None)"

lemma hex_value_digit: "n < 16 \<Longrightarrow> hex_value (hex_digit n) = Some n"
  by (simp add: hex_digit_def hex_value_def Let_def)

lemma hex_bytes_hex: "hex_bytes (sample_hex b) = Some b"
proof (induction b)
  case Nil
  then show ?case by (simp add: sample_hex_def)
next
  case (Cons x b)
  have "unat x < 256" by (rule unat_byte_less)
  then have "unat x div 16 < 16" "unat x mod 16 < 16" by simp_all
  with Cons show ?case by (simp add: sample_hex_def hex_value_digit)
qed

lemma hex_bytes_length: "hex_bytes s = Some b \<Longrightarrow> length s = 2 * length b"
  by (induction s arbitrary: b rule: hex_bytes.induct) (auto split: option.splits)

lemma length_sample_hex: "length (sample_hex b) = 2 * length b"
  by (induction b) (simp_all add: sample_hex_def)

definition sample_suite :: "(gf257, gf257) suite" where
  "sample_suite = \<lparr>
     generator = 1,
     pmul = (*),
     scalar_from = (\<lambda>n. of_nat (unat n)),
     reduce_bytes = gf_reduce,
     to_repr = gf_repr,
     from_repr = gf_from_repr,
     is_high = (\<lambda>k. gf_int k > 128),
     point_enc = (\<lambda>P. be_bytes 33 (nat (gf_int P))),
     x_bytes = (\<lambda>P. gf_repr (P * P)),
     sha256 = sample_digest 32,
     hmac_sha512 = (\<lambda>k m. sample_digest 64 (k @ m)),
     ripemd160 = sample_digest 20,
     hex_encode = sample_hex,
     hex_decode_to_slice = sample_unhex \<rparr>"

lemma of_be_gf_repr: "of_be (gf_repr a) = nat (gf_int a)"
proof -
  have "nat (gf_int a) < 256 ^ 32"
    using gf_int_bounds [of a] by simp
  then show ?thesis by (simp add: gf_repr_def of_be_be_bytes)
qed

lemma gf_reduce_repr [simp]: "gf_reduce (gf_repr a) = a"
  using gf_int_bounds [of a] by (simp add: gf_reduce_def of_be_gf_repr)

lemma sample_suite_ok: "suite_ok sample_suite"
proof -
  have "group_ok sample_suite"
    by (simp add: group_ok_def sample_suite_def algebra_simps)
  moreover have "scalar_ok sample_suite"
  proof -
    have "inj_on (of_nat :: nat \<Rightarrow> gf257) {..<256}"
      by (auto simp: inj_on_def gf_eq_iff)
    moreover have "gf_int (- k) \<le> 128" if "128 < gf_int k" for k
      using that gf_int_bounds [of k] by (simp add: zmod_zminus1_eq_if)
    moreover have "gf_from_repr b = Some k \<longleftrightarrow> b = gf_repr k" for b k
      by (auto simp: gf_from_repr_def)
    ultimately show ?thesis
      by (auto simp: scalar_ok_def sample_suite_def gf_repr_def [THEN arg_cong [of _ _ length]]
          dest: leD)
  qed
  moreover have "encoding_ok sample_suite"
  proof -
    have "inj (\<lambda>P. be_bytes 33 (nat (gf_int P)))"
    proof (rule injI)
      fix P Q
      assume "be_bytes 33 (nat (gf_int P)) = be_bytes 33 (nat (gf_int Q))"
      then have "nat (gf_int P) = nat (gf_int Q)"
        using gf_int_bounds [of P] gf_int_bounds [of Q] by (elim be_bytes_inj) simp_all
      then show "P = Q"
        using gf_int_bounds [of P] gf_int_bounds [of Q] by (simp add: gf_eq_iff)
    qed
    moreover have "(- P) * (- P) = P * P" for P :: gf257
      by (rule minus_mult_minus)
    ultimately show ?thesis
      by (simp add: encoding_ok_def sample_suite_def gf_repr_def del: gf_int_ring)
  qed
  moreover have "digest_ok sample_suite"
    by (simp add: digest_ok_def sample_suite_def sample_digest_def)
  moreover have "hex_ok sample_suite"
    by (auto simp: hex_ok_def sample_suite_def sample_unhex_def hex_bytes_hex length_sample_hex
        dest: hex_bytes_length split: if_splits)
  ultimately show ?thesis by (simp add: suite_ok_def)
qed

lemma sample_suite_simps [simp]:
  "generator sample_suite = 1" "pmul sample_suite = (*)"
  "to_repr sample_suite = gf_repr" "reduce_bytes sample_suite = gf_reduce"
  by (simp_all add: sample_suite_def)

lemma sample_hash_ok: "(\<And>m. length (f m) = 32) \<Longrightarrow> suite_ok (sample_suite\<lparr>sha256 := f\<rparr>)"
  using sample_suite_ok
  by (simp add: suite_ok_def group_ok_def scalar_ok_def encoding_ok_def digest_ok_def hex_ok_def)

end
