(* ===== verification/Hashes.thy ===== *)
theory Hashes
  imports Sample_Suite
begin

text \<open>
  \<open>utilities/oracle_tags.rs\<close> and \<open>utilities/hashes.rs\<close>: the domain-separation tags, the
  length-delimited tagged hash every oracle of the protocols goes through, and the byte
  forms of scalars and points.  The lemmas show that the encoding in front of SHA-256 is
  injective in the tag and in the components, and that the tags are pairwise different.
\<close>

section \<open>Oracle tags\<close>

definition TAG_COMMITMENT :: bytes where "TAG_COMMITMENT = ascii ''dkls23/commitment/v1''"
definition TAG_DLOG_PROOF_FISCHLIN :: bytes where
  "TAG_DLOG_PROOF_FISCHLIN = ascii ''dkls23/proofs/dlog/fischlin/v1''"
definition TAG_DLOG_PROOF_COMMITMENT :: bytes where
  "TAG_DLOG_PROOF_COMMITMENT = ascii ''dkls23/proofs/dlog/commitment/v1''"
definition TAG_ENCPROOF_FS :: bytes where "TAG_ENCPROOF_FS = ascii ''dkls23/proofs/enc/fs/v1''"
definition TAG_ZERO_SHARE_FRAGMENT :: bytes where
  "TAG_ZERO_SHARE_FRAGMENT = ascii ''dkls23/zero-share/fragment/v1''"
definition TAG_ROOT_AGREEMENT :: bytes where
  "TAG_ROOT_AGREEMENT = ascii ''dkls23/sign/root-agreement/v1''"
definition TAG_OT_BASE_H :: bytes where "TAG_OT_BASE_H = ascii ''dkls23/ot/base/h/v1''"
definition TAG_OT_BASE_MSG :: bytes where "TAG_OT_BASE_MSG = ascii ''dkls23/ot/base/msg/v1''"
definition TAG_OTE_PRG :: bytes where "TAG_OTE_PRG = ascii ''dkls23/ot/extension/prg/v1''"
definition TAG_OTE_CHI :: bytes where "TAG_OTE_CHI = ascii ''dkls23/ot/extension/chi/v1''"
definition TAG_OTE_RANDOMIZE :: bytes where
  "TAG_OTE_RANDOMIZE = ascii ''dkls23/ot/extension/randomize/v1''"
definition TAG_MUL_GADGET :: bytes where "TAG_MUL_GADGET = ascii ''dkls23/mul/gadget/v1''"
definition TAG_MUL_CHI_TILDE :: bytes where
  "TAG_MUL_CHI_TILDE = ascii ''dkls23/mul/chi-tilde/v1''"
definition TAG_MUL_CHI_HAT :: bytes where "TAG_MUL_CHI_HAT = ascii ''dkls23/mul/chi-hat/v1''"
definition TAG_MUL_VERIFY :: bytes where "TAG_MUL_VERIFY = ascii ''dkls23/mul/verify/v1''"
definition TAG_REFRESH_FAST_R0 :: bytes where
  "TAG_REFRESH_FAST_R0 = ascii ''dkls23/refresh/fast/r0/v1''"
definition TAG_REFRESH_FAST_R1 :: bytes where
  "TAG_REFRESH_FAST_R1 = ascii ''dkls23/refresh/fast/r1/v1''"
definition TAG_REFRESH_FAST_B :: bytes where
  "TAG_REFRESH_FAST_B = ascii ''dkls23/refresh/fast/b/v1''"

definition ALL_TAGS :: "bytes list" where
  "ALL_TAGS = [TAG_COMMITMENT, TAG_DLOG_PROOF_FISCHLIN, TAG_DLOG_PROOF_COMMITMENT,
     TAG_ENCPROOF_FS, TAG_ZERO_SHARE_FRAGMENT, TAG_ROOT_AGREEMENT, TAG_OT_BASE_H,
     TAG_OT_BASE_MSG, TAG_OTE_PRG, TAG_OTE_CHI, TAG_OTE_RANDOMIZE, TAG_MUL_GADGET,
     TAG_MUL_CHI_TILDE, TAG_MUL_CHI_HAT, TAG_MUL_VERIFY, TAG_REFRESH_FAST_R0,
     TAG_REFRESH_FAST_R1, TAG_REFRESH_FAST_B]"

lemmas tag_defs = TAG_COMMITMENT_def TAG_DLOG_PROOF_FISCHLIN_def TAG_DLOG_PROOF_COMMITMENT_def
  TAG_ENCPROOF_FS_def TAG_ZERO_SHARE_FRAGMENT_def TAG_ROOT_AGREEMENT_def TAG_OT_BASE_H_def
  TAG_OT_BASE_MSG_def TAG_OTE_PRG_def TAG_OTE_CHI_def TAG_OTE_RANDOMIZE_def TAG_MUL_GADGET_def
  TAG_MUL_CHI_TILDE_def TAG_MUL_CHI_HAT_def TAG_MUL_VERIFY_def TAG_REFRESH_FAST_R0_def
  TAG_REFRESH_FAST_R1_def TAG_REFRESH_FAST_B_def

lemma distinct_tags: "distinct ALL_TAGS"
  by (simp add: ALL_TAGS_def tag_defs ascii_inj)

lemma tag_length: "t \<in> set ALL_TAGS \<Longrightarrow> length t < 2 ^ 64"
  by (auto simp: ALL_TAGS_def tag_defs)

section \<open>The tagged hash\<close>

definition append_len_prefixed :: "bytes \<Rightarrow> bytes \<Rightarrow> bytes" where
  "append_len_prefixed encoded component =
     encoded @ be64 (word_of_nat (length component)) @ component"

definition encode_tagged :: "bytes \<Rightarrow> bytes list \<Rightarrow> bytes" where
  "encode_tagged tag components =
     foldl append_len_prefixed (append_len_prefixed [] tag) components"

definition hash_bytes :: "('s, 'p) suite \<Rightarrow> bytes \<Rightarrow> bytes" where
  "hash_bytes S msg = sha256 S msg"

definition tagged_hash :: "('s, 'p) suite \<Rightarrow> bytes \<Rightarrow> bytes list \<Rightarrow> bytes" where
  "tagged_hash S tag components = hash_bytes S (encode_tagged tag components)"

definition reduce_hash_to_scalar :: "('s, 'p) suite \<Rightarrow> bytes \<Rightarrow> 's" where
  "reduce_hash_to_scalar S hash = reduce_bytes S hash"

definition tagged_hash_as_scalar :: "('s, 'p) suite \<Rightarrow> bytes \<Rightarrow> bytes list \<Rightarrow> 's" where
  "tagged_hash_as_scalar S tag components = reduce_hash_to_scalar S (tagged_hash S tag components)"

definition scalar_to_bytes :: "('s, 'p) suite \<Rightarrow> 's \<Rightarrow> bytes" where
  "scalar_to_bytes S k = to_repr S k"

definition point_to_bytes :: "('s, 'p) suite \<Rightarrow> 'p \<Rightarrow> bytes" where
  "point_to_bytes S P = point_enc S P"

text \<open>Two given inputs on which SHA-256 collides.\<close>

definition collision :: "('s, 'p) suite \<Rightarrow> bytes \<Rightarrow> bytes \<Rightarrow> bool" where
  "collision S m m' \<longleftrightarrow> m \<noteq> m' \<and> sha256 S m = sha256 S m'"

lemma length_tagged_hash [len_simps]: "suite_ok S \<Longrightarrow> length (tagged_hash S t cs) = 32"
  by (simp add: tagged_hash_def hash_bytes_def len_simps)

lemma length_scalar_to_bytes [len_simps]: "suite_ok S \<Longrightarrow> length (scalar_to_bytes S k) = 32"
  by (simp add: scalar_to_bytes_def len_simps)

lemma length_point_to_bytes [len_simps]: "suite_ok S \<Longrightarrow> length (point_to_bytes S P) = 33"
  by (simp add: point_to_bytes_def len_simps)

lemma scalar_to_bytes_inj: "suite_ok S \<Longrightarrow> scalar_to_bytes S a = scalar_to_bytes S b \<longleftrightarrow> a = b"
  by (simp add: scalar_to_bytes_def to_repr_inj)

lemma point_to_bytes_inj: "suite_ok S \<Longrightarrow> point_to_bytes S P = point_to_bytes S Q \<longleftrightarrow> P = Q"
  by (simp add: point_to_bytes_def point_enc_inj)

section \<open>The encoding is injective\<close>

definition block :: "bytes \<Rightarrow> bytes" where
  "block c = be64 (word_of_nat (length c)) @ c"

lemma encode_tagged_blocks: "encode_tagged tag cs = concat (map block (tag # cs))"
proof -
  have "foldl append_len_prefixed e cs = e @ concat (map block cs)" for e
    by (induction cs arbitrary: e) (auto simp: append_len_prefixed_def block_def)
  then show ?thesis
    by (simp add: encode_tagged_def append_len_prefixed_def block_def)
qed

lemma block_append_inj:
  assumes "block c @ r = block d @ q" and "length c < 2 ^ 64" and "length d < 2 ^ 64"
  shows "c = d \<and> r = q"
proof -
  have "be64 (word_of_nat (length c)) = be64 (word_of_nat (length d))"
    and rest: "c @ r = d @ q"
    using assms(1) by (simp_all add: block_def append_eq_append_conv)
  then have "length c = length d"
    using assms(2,3) by (simp add: be_inj word_of_nat_eq_iff take_bit_nat_eq_self)
  with rest show ?thesis by simp
qed

lemma concat_blocks_inj:
  assumes "concat (map block cs) = concat (map block ds)"
    and "\<forall>c \<in> set cs. length c < 2 ^ 64" and "\<forall>d \<in> set ds. length d < 2 ^ 64"
  shows "cs = ds"
  using assms
proof (induction cs arbitrary: ds)
  case Nil
  then show ?case by (cases ds) (auto simp: block_def dest: arg_cong [of _ _ length])
next
  case (Cons c cs)
  from Cons.prems obtain d es where ds: "ds = d # es"
    by (cases ds) (auto simp: block_def dest: arg_cong [of _ _ length])
  with Cons.prems have "block c @ concat (map block cs) = block d @ concat (map block es)"
    by simp
  then have "c = d \<and> concat (map block cs) = concat (map block es)"
    by (rule block_append_inj) (use Cons.prems ds in auto)
  with Cons ds show ?case by auto
qed

lemma tagged_hash_eq:
  assumes "\<forall>c \<in> set (t # cs @ t' # cs'). length c < 2 ^ 64" and "tagged_hash S t cs = tagged_hash S t' cs'"
  shows "(t, cs) = (t', cs') \<or> collision S (encode_tagged t cs) (encode_tagged t' cs')"
  using concat_blocks_inj [of "t # cs" "t' # cs'"] assms
  by (auto simp: encode_tagged_blocks collision_def tagged_hash_def hash_bytes_def)

text \<open>The byte string hashed by an oracle determines the oracle's tag and every component:
  if two different oracle calls give equal outputs, their two encodings are a SHA-256 collision.\<close>

theorem tagged_hash_domain_separation:
  assumes "\<forall>c \<in> set (t # cs @ t' # cs'). length c < 2 ^ 64"
    and "(t, cs) \<noteq> (t', cs')" and "tagged_hash S t cs = tagged_hash S t' cs'"
  shows "collision S (encode_tagged t cs) (encode_tagged t' cs')"
  using tagged_hash_eq [OF assms(1,3)] assms(2) by blast

lemma tagged_hash_domain_separation_witness:
  "collision (sample_suite\<lparr>sha256 := \<lambda>_. []\<rparr>) (encode_tagged [1] [[2], [3]]) (encode_tagged [1] [[2, 3]])"
  by (rule tagged_hash_domain_separation) (simp_all add: tagged_hash_def hash_bytes_def)

end
