(* ===== verification/Commits.thy ===== *)
theory Commits
  imports Hashes
begin

text \<open>
  \<open>utilities/commits.rs\<close>: commitments to byte strings and to points under a random salt.
  The salt the code draws from its generator is an argument.  The contract other components
  use (honest openings verify; one commitment has one opening up to hash collisions) is the
  locale \<open>commitment_scheme\<close>, interpreted for both kinds of message.
\<close>

definition SECURITY :: nat where "SECURITY = 32"

definition commit :: "('s, 'p) suite \<Rightarrow> bytes \<Rightarrow> bytes \<Rightarrow> bytes \<times> bytes" where
  "commit S salt msg = (tagged_hash S TAG_COMMITMENT [salt, msg], salt)"

definition verify_commitment :: "('s, 'p) suite \<Rightarrow> bytes \<Rightarrow> bytes \<Rightarrow> bytes \<Rightarrow> bool" where
  "verify_commitment S msg commitment salt =
     (let expected_commitment = tagged_hash S TAG_COMMITMENT [salt, msg]
      in commitment = expected_commitment)"

definition commit_point :: "('s, 'p) suite \<Rightarrow> bytes \<Rightarrow> 'p \<Rightarrow> bytes \<times> bytes" where
  "commit_point S salt P = commit S salt (point_to_bytes S P)"

definition verify_commitment_point :: "('s, 'p) suite \<Rightarrow> 'p \<Rightarrow> bytes \<Rightarrow> bytes \<Rightarrow> bool" where
  "verify_commitment_point S P commitment salt =
     verify_commitment S (point_to_bytes S P) commitment salt"

section \<open>The contract of a salted hash commitment\<close>

locale commitment_scheme =
  fixes env_ok :: "'e \<Rightarrow> bool"
    and fits :: "'m \<Rightarrow> bytes \<Rightarrow> bool"
    and make :: "'e \<Rightarrow> bytes \<Rightarrow> 'm \<Rightarrow> bytes \<times> bytes"
    and check :: "'e \<Rightarrow> 'm \<Rightarrow> bytes \<Rightarrow> bytes \<Rightarrow> bool"
    and digest :: "'e \<Rightarrow> bytes \<Rightarrow> bytes"
    and opened :: "'e \<Rightarrow> 'm \<Rightarrow> bytes \<Rightarrow> bytes"
  assumes make_eq: "make e salt m = (digest e (opened e m salt), salt)"
    and check_iff: "check e m c salt \<longleftrightarrow> c = digest e (opened e m salt)"
    and opening_inj: "env_ok e \<Longrightarrow> fits m s \<Longrightarrow> fits m' s' \<Longrightarrow>
      opened e m s = opened e m' s' \<Longrightarrow> m = m' \<and> s = s'"
begin

lemma honest_opening: "make e salt m = (c, s) \<Longrightarrow> check e m c s"
  by (auto simp: make_eq check_iff)

lemma commitment_is_function: "check e m c s \<Longrightarrow> check e m c' s \<Longrightarrow> c = c'"
  by (simp add: check_iff)

lemma two_openings_collide:
  assumes "env_ok e" "fits m s" "fits m' s'" "check e m c s" "check e m' c s'" "m \<noteq> m' \<or> s \<noteq> s'"
  shows "opened e m s \<noteq> opened e m' s' \<and> digest e (opened e m s) = digest e (opened e m' s')"
proof
  show "opened e m s \<noteq> opened e m' s'"
    using assms(1,2,3,6) opening_inj by blast
  show "digest e (opened e m s) = digest e (opened e m' s')"
    using assms(4,5) by (simp add: check_iff)
qed

end

lemma commit_opening_inj:
  assumes "length s < 2 ^ 64" "length m < 2 ^ 64" "length s' < 2 ^ 64" "length m' < 2 ^ 64"
    and "encode_tagged TAG_COMMITMENT [s, m] = encode_tagged TAG_COMMITMENT [s', m']"
  shows "m = m' \<and> s = s'"
proof -
  have "length TAG_COMMITMENT < 2 ^ 64"
    by (simp add: TAG_COMMITMENT_def)
  with assms concat_blocks_inj [of "[TAG_COMMITMENT, s, m]" "[TAG_COMMITMENT, s', m']"]
  show ?thesis by (simp add: encode_tagged_blocks)
qed

interpretation byte_commit: commitment_scheme "\<lambda>S. True" "\<lambda>m s. length m < 2 ^ 64 \<and> length s < 2 ^ 64"
  commit verify_commitment sha256 "\<lambda>S m s. encode_tagged TAG_COMMITMENT [s, m]"
proof (unfold_locales, goal_cases)
  case (3 S m s m' s')
  then show ?case by (intro commit_opening_inj) simp_all
qed (simp_all add: commit_def verify_commitment_def tagged_hash_def hash_bytes_def)

interpretation point_commit: commitment_scheme
  "suite_ok :: ('s::field, 'p::ab_group_add) suite \<Rightarrow> bool" "\<lambda>P s. length s < 2 ^ 64"
  commit_point verify_commitment_point sha256
  "\<lambda>S P s. encode_tagged TAG_COMMITMENT [s, point_to_bytes S P]"
proof (unfold_locales, goal_cases)
  case (3 S P s P' s')
  then have "point_to_bytes S P = point_to_bytes S P' \<and> s = s'"
    by (intro commit_opening_inj) (simp_all add: len_simps)
  with 3 show ?case by (simp add: point_to_bytes_inj)
qed (simp_all add: commit_point_def verify_commitment_point_def commit_def verify_commitment_def
    tagged_hash_def hash_bytes_def)

lemmas commit_verifies = byte_commit.honest_opening point_commit.honest_opening

text \<open>A commitment to a point opens to that point only: if it also opens to another point or
  with another salt, the byte strings hashed by the two openings are a SHA-256 collision.\<close>

theorem point_commitment_binding:
  fixes S :: "('s::field, 'p::ab_group_add) suite"
  assumes "suite_ok S" and "commit_point S salt P = (c, salt)"
    and "length salt < 2 ^ 64" and "length salt' < 2 ^ 64"
    and "verify_commitment_point S P' c salt'" and "P \<noteq> P' \<or> salt \<noteq> salt'"
  shows "collision S (encode_tagged TAG_COMMITMENT [salt, point_to_bytes S P])
    (encode_tagged TAG_COMMITMENT [salt', point_to_bytes S P'])"
proof -
  have "verify_commitment_point S P c salt"
    using assms(2) by (rule point_commit.honest_opening)
  then show ?thesis unfolding collision_def
    by (rule point_commit.two_openings_collide [OF assms(1,3,4) _ assms(5,6)])
qed

lemma point_commitment_binding_witness:
  "collision (sample_suite\<lparr>sha256 := \<lambda>_. replicate 32 0\<rparr>)
     (encode_tagged TAG_COMMITMENT [[7], point_to_bytes (sample_suite\<lparr>sha256 := \<lambda>_. replicate 32 0\<rparr>) 1])
     (encode_tagged TAG_COMMITMENT [[9], point_to_bytes (sample_suite\<lparr>sha256 := \<lambda>_. replicate 32 0\<rparr>) 2])"
proof (rule point_commitment_binding)
  show "suite_ok (sample_suite\<lparr>sha256 := \<lambda>_. replicate 32 0\<rparr>)" by (rule sample_hash_ok) simp
qed (simp_all add: commit_point_def commit_def verify_commitment_point_def verify_commitment_def
    tagged_hash_def hash_bytes_def)

end
