(* ===== verification/Protocol_Types.thy ===== *)
theory Protocol_Types
  imports Ordered_Map Commits
begin

text \<open>
  The types of \<open>protocols.rs\<close> that every protocol shares: party indices, parameters, aborts
  with their classification and their printed form, message routing, and the public key
  package.  \<open>collect_by_sender\<close> is the loop that phase 4 of key generation and of both
  refreshes runs over each vector of received messages.
\<close>

section \<open>Party indices and parameters\<close>

datatype party_index = PartyIndex (as_u8: u8)

datatype invalid_party_index = InvalidPartyIndexError
datatype invalid_parameters = InvalidParametersError

instantiation party_index :: linorder
begin

definition less_eq_party_index :: "party_index \<Rightarrow> party_index \<Rightarrow> bool" where
  "less_eq_party_index i j \<longleftrightarrow> as_u8 i \<le> as_u8 j"

definition less_party_index :: "party_index \<Rightarrow> party_index \<Rightarrow> bool" where
  "less_party_index i j \<longleftrightarrow> as_u8 i < as_u8 j"

instance
  by standard (auto simp: less_eq_party_index_def less_party_index_def party_index.expand)

end

definition PartyIndex_new :: "u8 \<Rightarrow> invalid_party_index + party_index" where
  "PartyIndex_new value = (if value = 0 then Inl InvalidPartyIndexError else Inr (PartyIndex value))"

definition PartyIndex_try_from :: "u8 \<Rightarrow> invalid_party_index + party_index" where
  "PartyIndex_try_from value = PartyIndex_new value"

definition u8_from_PartyIndex :: "party_index \<Rightarrow> u8" where
  "u8_from_PartyIndex p = as_u8 p"

text \<open>\<open>PartyIndex::new(i).unwrap()\<close> on the loop counters \<open>1..=n\<close>, which are never 0.\<close>

definition index_of_nat :: "nat \<Rightarrow> party_index" where
  "index_of_nat i = PartyIndex (word_of_nat i)"

record parameters =
  threshold :: u8
  share_count :: u8

definition Parameters_new :: "u8 \<Rightarrow> u8 \<Rightarrow> invalid_parameters + parameters" where
  "Parameters_new t n =
     (if t < 2 \<or> t > n then Inl InvalidParametersError
      else Inr \<lparr>threshold = t, share_count = n\<rparr>)"

definition Parameters_try_from :: "u8 \<times> u8 \<Rightarrow> invalid_parameters + parameters" where
  "Parameters_try_from raw = Parameters_new (fst raw) (snd raw)"

definition params_ok :: "parameters \<Rightarrow> bool" where
  "params_ok p \<longleftrightarrow> 2 \<le> threshold p \<and> threshold p \<le> share_count p"

text \<open>The range \<open>1..=share_count\<close>, and the same range as party indices.\<close>

definition share_range :: "parameters \<Rightarrow> nat list" where
  "share_range p = [1..<Suc (unat (share_count p))]"

definition party_range :: "parameters \<Rightarrow> party_index list" where
  "party_range p = map index_of_nat (share_range p)"

lemma Parameters_new_ok: "Parameters_new t n = Inr p \<longleftrightarrow> p = \<lparr>threshold = t, share_count = n\<rparr> \<and> params_ok p"
  by (auto simp: Parameters_new_def params_ok_def not_less)

lemma PartyIndex_roundtrip: "PartyIndex_try_from v = Inr p \<longleftrightarrow> v \<noteq> 0 \<and> u8_from_PartyIndex p = v"
  by (cases p) (auto simp: PartyIndex_try_from_def PartyIndex_new_def u8_from_PartyIndex_def)

lemma index_of_nat_inj:
  "i < 256 \<Longrightarrow> j < 256 \<Longrightarrow> index_of_nat i = index_of_nat j \<longleftrightarrow> i = j"
  by (simp add: index_of_nat_def word_of_nat_eq_iff take_bit_nat_eq_self)

lemma unat_index_of_nat [simp]: "i < 256 \<Longrightarrow> unat (as_u8 (index_of_nat i)) = i"
  by (simp add: index_of_nat_def unsigned_of_nat take_bit_nat_eq_self)

lemma index_of_nat_unat [simp]: "index_of_nat (unat (as_u8 p)) = p"
  by (cases p) (simp add: index_of_nat_def)

lemma share_range_bound: "i \<in> set (share_range p) \<Longrightarrow> 0 < i \<and> i < 256"
  using unat_byte_less [of "share_count p"] by (auto simp: share_range_def)

lemma distinct_party_range: "distinct (party_range p)"
proof -
  have "inj_on index_of_nat (set (share_range p))"
    using share_range_bound by (auto simp: inj_on_def index_of_nat_inj)
  then show ?thesis by (simp add: party_range_def distinct_map share_range_def)
qed

lemma set_party_range:
  "q \<in> set (party_range p) \<longleftrightarrow> 1 \<le> unat (as_u8 q) \<and> unat (as_u8 q) \<le> unat (share_count p)"
proof
  assume "q \<in> set (party_range p)"
  then obtain i where "i \<in> set (share_range p)" "q = index_of_nat i"
    by (auto simp: party_range_def)
  then show "1 \<le> unat (as_u8 q) \<and> unat (as_u8 q) \<le> unat (share_count p)"
    using share_range_bound [of i p] by (auto simp: share_range_def)
next
  assume "1 \<le> unat (as_u8 q) \<and> unat (as_u8 q) \<le> unat (share_count p)"
  then have "unat (as_u8 q) \<in> set (share_range p)"
    unfolding share_range_def set_upt by simp
  then have "index_of_nat (unat (as_u8 q)) \<in> set (party_range p)"
    unfolding party_range_def set_map by (rule imageI)
  then show "q \<in> set (party_range p)" by simp
qed

section \<open>Aborts\<close>

datatype abort_kind = Recoverable | BanCounterparty party_index

datatype abort_reason =
    InvalidPartyIndex party_index
  | WrongCounterpartyCount nat nat
  | DuplicateCounterparty party_index
  | SelfInCounterparties
  | MalformedSessionId
  | MissingMulState party_index
  | MisroutedMessage party_index party_index
  | UnexpectedSender party_index
  | DuplicateSender party_index
  | WrongMessageCount nat nat
  | MissingMessageFromParty party_index
  | ProofVerificationFailed party_index
  | CommitmentMismatch party_index
  | PolynomialInconsistency
  | TrivialInstancePoint party_index
  | TrivialPublicKey
  | TrivialKeyShare
  | MissingCommittedPoint party_index
  | OtConsistencyCheckFailed party_index
  | MultiplicationVerificationFailed party_index string
  | GammaUInconsistency party_index
  | SignatureVerificationFailed
  | ZeroDenominator
  | LagrangeCoefficientFailed
  | InvalidXCoordinateHex
  | ZeroShareDecommitFailed party_index
  | ChainCodeCommitmentFailed party_index
  | RootAgreementMismatch party_index
  | ProtocolVersionMismatch party_index u16 u16
  | PhaseCalledOutOfOrder string
  | InvalidHex string

record abort =
  abort_index :: party_index
  abort_kind :: abort_kind
  abort_reason :: abort_reason

definition recoverable :: "party_index \<Rightarrow> abort_reason \<Rightarrow> abort" where
  "recoverable index reason =
     \<lparr>abort_index = index, abort_kind = Recoverable, abort_reason = reason\<rparr>"

definition ban :: "party_index \<Rightarrow> party_index \<Rightarrow> abort_reason \<Rightarrow> abort" where
  "ban index counterparty reason =
     \<lparr>abort_index = index, abort_kind = BanCounterparty counterparty, abort_reason = reason\<rparr>"

lemma abort_sel [simp]:
  "abort_kind (recoverable i r) = Recoverable" "abort_reason (recoverable i r) = r"
  "abort_index (recoverable i r) = i" "abort_kind (ban i c r) = BanCounterparty c"
  "abort_reason (ban i c r) = r" "abort_index (ban i c r) = i"
  by (simp_all add: recoverable_def ban_def)

text \<open>Decimal digits, as \<open>Display\<close> prints an unsigned integer.\<close>

fun show_nat :: "nat \<Rightarrow> string" where
  "show_nat n = (if n < 10 then [char_of (n + 48)] else show_nat (n div 10) @ [char_of (n mod 10 + 48)])"

declare show_nat.simps [simp del]

definition show_party :: "party_index \<Rightarrow> string" where
  "show_party p = show_nat (unat (as_u8 p))"

fun show_reason :: "abort_reason \<Rightarrow> string" where
  "show_reason (InvalidPartyIndex i) = ''party index '' @ show_party i @ '' is out of valid range''"
| "show_reason (WrongCounterpartyCount e g) =
     ''wrong counterparty count: expected '' @ show_nat e @ '', got '' @ show_nat g"
| "show_reason (DuplicateCounterparty i) = ''duplicate counterparty: '' @ show_party i"
| "show_reason SelfInCounterparties = ''own index in counterparty list''"
| "show_reason MalformedSessionId = ''session_id / sign_id must be ID_LEN bytes''"
| "show_reason (MissingMulState c) = ''missing multiplication state for party '' @ show_party c"
| "show_reason (MisroutedMessage e a) =
     ''message addressed to '' @ show_party a @ '', expected '' @ show_party e"
| "show_reason (UnexpectedSender s) = ''unexpected sender: '' @ show_party s"
| "show_reason (DuplicateSender s) = ''duplicate message from party '' @ show_party s"
| "show_reason (WrongMessageCount e g) =
     ''wrong message count: expected '' @ show_nat e @ '', got '' @ show_nat g"
| "show_reason (MissingMessageFromParty p) = ''missing message from party '' @ show_party p"
| "show_reason (ProofVerificationFailed c) = ''proof verification failed for party '' @ show_party c"
| "show_reason (CommitmentMismatch c) = ''commitment mismatch for party '' @ show_party c"
| "show_reason PolynomialInconsistency = ''polynomial inconsistency''"
| "show_reason (TrivialInstancePoint c) = ''trivial instance point from party '' @ show_party c"
| "show_reason TrivialPublicKey = ''trivial public key''"
| "show_reason TrivialKeyShare = ''trivial key share''"
| "show_reason (MissingCommittedPoint p) = ''missing committed point for party '' @ show_party p"
| "show_reason (OtConsistencyCheckFailed c) = ''OT consistency check failed for party '' @ show_party c"
| "show_reason (MultiplicationVerificationFailed c d) =
     ''multiplication verification failed for party '' @ show_party c @ '': '' @ d"
| "show_reason (GammaUInconsistency c) = ''gamma-u inconsistency for party '' @ show_party c"
| "show_reason SignatureVerificationFailed = ''signature verification failed''"
| "show_reason ZeroDenominator = ''zero denominator in signature assembly''"
| "show_reason LagrangeCoefficientFailed = ''failed to compute Lagrange coefficient''"
| "show_reason InvalidXCoordinateHex = ''invalid x-coordinate hex''"
| "show_reason (ZeroShareDecommitFailed c) =
     ''zero-share decommitment failed for party '' @ show_party c"
| "show_reason (ChainCodeCommitmentFailed p) =
     ''chain code commitment failed for party '' @ show_party p"
| "show_reason (RootAgreementMismatch c) =
     ''root (chain-code/session-id) disagreement with party '' @ show_party c"
| "show_reason (ProtocolVersionMismatch c e g) =
     ''protocol version mismatch with party '' @ show_party c @ '': expected ''
       @ show_nat (unat e) @ '', got '' @ show_nat (unat g)"
| "show_reason (PhaseCalledOutOfOrder p) = p"
| "show_reason (InvalidHex d) = ''invalid hex: '' @ d"

definition description :: "abort \<Rightarrow> string" where
  "description a = show_reason (abort_reason a)"

text \<open>The version of the library, from \<open>lib.rs\<close>.\<close>

definition PROTOCOL_VERSION :: u16 where "PROTOCOL_VERSION = 1"

section \<open>Routing of messages\<close>

record parties_message =
  sender :: party_index
  receiver :: party_index

definition reverse :: "parties_message \<Rightarrow> parties_message" where
  "reverse m = \<lparr>sender = receiver m, receiver = sender m\<rparr>"

lemma reverse_reverse: "reverse (reverse m) = m"
  by (simp add: reverse_def)

text \<open>
  The loop over received messages of phase 4: a message for someone else, from a sender we
  kept nothing for, or a second one from the same sender aborts; otherwise the message is
  filed under its sender.
\<close>

definition collect_step ::
  "party_index \<Rightarrow> (party_index \<Rightarrow> bool) \<Rightarrow> ('m \<Rightarrow> parties_message) \<Rightarrow> 'm \<Rightarrow>
     (party_index, 'm) btree \<Rightarrow> abort + (party_index, 'm) btree" where
  "collect_step me known parties message by_sender =
     (let from_party = sender (parties message) in
      if receiver (parties message) \<noteq> me then
        Inl (recoverable me (MisroutedMessage me (receiver (parties message))))
      else if \<not> known from_party then Inl (recoverable me (UnexpectedSender from_party))
      else if bt_contains by_sender from_party then
        Inl (recoverable me (DuplicateSender from_party))
      else Inr (bt_insert from_party message by_sender))"

definition collect_by_sender ::
  "party_index \<Rightarrow> (party_index \<Rightarrow> bool) \<Rightarrow> ('m \<Rightarrow> parties_message) \<Rightarrow> 'm list \<Rightarrow>
     abort + (party_index, 'm) btree" where
  "collect_by_sender me known parties messages =
     for_each (collect_step me known parties) messages []"

lemma collect_by_sender_invariant:
  assumes "collect_by_sender me known parties ms = Inr t"
  shows "bt_ok t \<and> (\<forall>k m. bt_get t k = Some m \<longrightarrow>
    m \<in> set ms \<and> sender (parties m) = k \<and> receiver (parties m) = me \<and> known k)"
  using assms unfolding collect_by_sender_def
proof (rule for_each_invariant)
  show "bt_ok [] \<and> (\<forall>k m. bt_get [] k = Some m \<longrightarrow>
    m \<in> set ms \<and> sender (parties m) = k \<and> receiver (parties m) = me \<and> known k)"
    by (simp add: bt.get_empty bt.invar_empty)
next
  fix m s s'
  assume "m \<in> set ms" and "bt_ok s \<and> (\<forall>k m. bt_get s k = Some m \<longrightarrow>
    m \<in> set ms \<and> sender (parties m) = k \<and> receiver (parties m) = me \<and> known k)"
    and "collect_step me known parties m s = Inr s'"
  then show "bt_ok s' \<and> (\<forall>k m. bt_get s' k = Some m \<longrightarrow>
    m \<in> set ms \<and> sender (parties m) = k \<and> receiver (parties m) = me \<and> known k)"
    by (auto simp: collect_step_def Let_def bt_laws split: if_splits)
qed

lemma collect_by_sender_error:
  assumes "collect_by_sender me known parties ms = Inl e"
  shows "abort_kind e = Recoverable \<and> abort_index e = me"
  using for_each_error [OF assms [unfolded collect_by_sender_def]]
  by (auto simp: collect_step_def Let_def split: if_splits)

text \<open>Messages addressed to us from distinct known senders are all filed.\<close>

lemma collect_from:
  assumes "distinct (map (sender \<circ> parties) ms)" and "bt_ok s"
    and "\<forall>m \<in> set ms. receiver (parties m) = me \<and> known (sender (parties m)) \<and>
      bt_get s (sender (parties m)) = None"
  shows "\<exists>t. for_each (collect_step me known parties) ms s = Inr t \<and> bt_ok t \<and>
    (\<forall>k. bt_get t k = (case find (\<lambda>m. sender (parties m) = k) ms of
        Some m \<Rightarrow> Some m | None \<Rightarrow> bt_get s k))"
  using assms
proof (induction ms arbitrary: s)
  case Nil
  then show ?case by simp
next
  case (Cons m ms)
  let ?s = "bt_insert (sender (parties m)) m s"
  have step: "collect_step me known parties m s = Inr ?s"
    using Cons.prems by (simp add: collect_step_def Let_def bt_contains_def)
  have new: "sender (parties x) \<noteq> sender (parties m)" if "x \<in> set ms" for x
  proof
    assume "sender (parties x) = sender (parties m)"
    with that have "sender (parties m) \<in> (sender \<circ> parties) ` set ms"
      by (intro image_eqI [of _ _ x]) simp_all
    with Cons.prems(1) show False by simp
  qed
  have "\<forall>x \<in> set ms. receiver (parties x) = me \<and> known (sender (parties x)) \<and>
      bt_get ?s (sender (parties x)) = None"
    using Cons.prems(3) new by (simp add: bt_get_insert [OF Cons.prems(2)])
  then obtain t where t: "for_each (collect_step me known parties) ms ?s = Inr t" "bt_ok t"
    "\<forall>k. bt_get t k = (case find (\<lambda>m. sender (parties m) = k) ms of
        Some m \<Rightarrow> Some m | None \<Rightarrow> bt_get ?s k)"
    using Cons.IH [of ?s] Cons.prems by (auto simp: bt_laws)
  have "find (\<lambda>x. sender (parties x) = sender (parties m)) ms = None"
    using new by (auto simp: find_None_iff)
  with t step Cons.prems(2) show ?case by (auto simp: bt_laws split: option.splits)
qed

text \<open>One message from each of the known senders, in any order, gives the map of the messages.\<close>

lemma collect_messages:
  assumes "distinct qs" and "set qs = set ks" and "sorted_wrt (<) ks"
    and "\<And>q. q \<in> set qs \<Longrightarrow> parties (msg q) = \<lparr>sender = q, receiver = me\<rparr> \<and> known q"
  shows "collect_by_sender me known parties (map msg qs) = Inr (bt_tabulate msg ks)"
proof -
  have snd: "map (sender \<circ> parties) (map msg qs) = qs"
    using assms(4) by (simp add: map_idI)
  have "\<forall>m \<in> set (map msg qs). receiver (parties m) = me \<and> known (sender (parties m)) \<and>
      bt_get [] (sender (parties m)) = None"
    using assms(4) by (auto simp: bt_laws)
  then obtain t where t: "for_each (collect_step me known parties) (map msg qs) [] = Inr t" "bt_ok t"
    "\<forall>k. bt_get t k = (case find (\<lambda>m. sender (parties m) = k) (map msg qs) of
        Some m \<Rightarrow> Some m | None \<Rightarrow> bt_get [] k)"
    using collect_from [of parties "map msg qs" "[]" me known] assms(1) snd by (auto simp: bt_laws)
  have "find (\<lambda>m. sender (parties m) = k) (map msg qs) = (if k \<in> set ks then Some (msg k) else None)" for k
  proof (cases "k \<in> set ks")
    case False
    then have "find (\<lambda>m. sender (parties m) = k) (map msg qs) = None"
      using assms(2,4) by (auto simp: find_None_iff)
    with False show ?thesis by simp
  next
    case True
    then have "find (\<lambda>m. sender (parties m) = k) (map msg qs) \<noteq> None"
      using assms(2,4) by (auto simp: find_None_iff)
    then obtain m where m: "find (\<lambda>m. sender (parties m) = k) (map msg qs) = Some m" by auto
    then have "m \<in> set (map msg qs)" "sender (parties m) = k"
      unfolding find_Some_iff by (auto simp: in_set_conv_nth simp del: set_map)
    then have "m = msg k" using assms(4) by auto
    with m True show ?thesis by simp
  qed
  with t(3) have "t = bt_tabulate msg ks"
    by (intro bt_eqI [OF t(2)] bt_tabulate_ok assms(3)) (auto simp: bt_get_tabulate bt_laws fun_eq_iff)
  with t(1) show ?thesis by (simp add: collect_by_sender_def)
qed

lemma sorted_party_range: "sorted_wrt (<) (party_range p)"
proof -
  have "sorted_wrt (\<lambda>i j. index_of_nat i < index_of_nat j) (share_range p)"
  proof (rule sorted_wrt_mono_rel)
    show "sorted_wrt (<) (share_range p)"
      unfolding share_range_def by (rule sorted_wrt_upt)
  next
    fix i j assume "i \<in> set (share_range p)" "j \<in> set (share_range p)" "i < j"
    then show "index_of_nat i < index_of_nat j"
      using share_range_bound [of i p] share_range_bound [of j p]
      by (simp add: less_party_index_def word_less_nat_alt)
  qed
  then show ?thesis by (simp add: party_range_def sorted_wrt_map)
qed

section \<open>Public key package\<close>

record 'p public_key_package =
  verifying_key :: 'p
  verifying_shares :: "(party_index, 'p) btree"
  package_parameters :: parameters

definition PublicKeyPackage_new ::
  "'p \<Rightarrow> (party_index, 'p) btree \<Rightarrow> parameters \<Rightarrow> 'p public_key_package" where
  "PublicKeyPackage_new vk vs ps =
     \<lparr>verifying_key = vk, verifying_shares = vs, package_parameters = ps\<rparr>"

definition verifying_share :: "'p public_key_package \<Rightarrow> party_index \<Rightarrow> 'p option" where
  "verifying_share pkg party = bt_get (verifying_shares pkg) party"

definition package_threshold :: "'p public_key_package \<Rightarrow> u8" where
  "package_threshold pkg = threshold (package_parameters pkg)"

definition package_share_count :: "'p public_key_package \<Rightarrow> u8" where
  "package_share_count pkg = share_count (package_parameters pkg)"

definition verify_share :: "'p public_key_package \<Rightarrow> party_index \<Rightarrow> 'p \<Rightarrow> bool" where
  "verify_share pkg party verification_share =
     (case bt_get (verifying_shares pkg) party of
        None \<Rightarrow> False | Some stored \<Rightarrow> stored = verification_share)"

lemma verify_share_iff: "verify_share pkg i P \<longleftrightarrow> verifying_share pkg i = Some P"
  by (simp add: verify_share_def verifying_share_def split: option.splits)

end
