(* ===== verification/Zero_Shares.thy ===== *)
theory Zero_Shares
  imports Protocol_Types
begin

text \<open>
  \<open>utilities/zero_shares.rs\<close>: the pairwise seeds two parties derive from committed halves,
  and the additive shares of zero that any subset of the parties computes from them.  The
  random seed and the salt of its commitment are arguments.
\<close>

record seed_pair =
  lowest_index :: bool
  index_counterparty :: party_index
  seed :: bytes

record zero_share =
  seeds :: "seed_pair list"

definition generate_seed_with_commitment ::
  "('s, 'p) suite \<Rightarrow> bytes \<Rightarrow> bytes \<Rightarrow> bytes \<times> bytes \<times> bytes" where
  "generate_seed_with_commitment S sampled_seed salt0 =
     (case commit S salt0 sampled_seed of (commitment, salt) \<Rightarrow> (sampled_seed, commitment, salt))"

definition verify_seed :: "('s, 'p) suite \<Rightarrow> bytes \<Rightarrow> bytes \<Rightarrow> bytes \<Rightarrow> bool" where
  "verify_seed S sd commitment salt = verify_commitment S sd commitment salt"

definition generate_seed_pair ::
  "party_index \<Rightarrow> party_index \<Rightarrow> bytes \<Rightarrow> bytes \<Rightarrow> seed_pair" where
  "generate_seed_pair index_party counterparty seed_party seed_counterparty =
     \<lparr>lowest_index = (index_party \<le> counterparty),
      index_counterparty = counterparty,
      seed = map (\<lambda>i. seed_party ! i XOR seed_counterparty ! i) [0..<SECURITY]\<rparr>"

definition zero_share_initialize :: "seed_pair list \<Rightarrow> zero_share" where
  "zero_share_initialize sds = \<lparr>seeds = sds\<rparr>"

definition compute_step ::
  "('s::field, 'p) suite \<Rightarrow> party_index list \<Rightarrow> bytes \<Rightarrow> 's \<Rightarrow> seed_pair \<Rightarrow> 's" where
  "compute_step S counterparties session_id share sp =
     (if index_counterparty sp \<notin> set counterparties then share
      else let fragment =
             tagged_hash_as_scalar S TAG_ZERO_SHARE_FRAGMENT [session_id, seed sp]
           in if lowest_index sp then share - fragment else share + fragment)"

definition zero_share_compute ::
  "('s::field, 'p) suite \<Rightarrow> zero_share \<Rightarrow> party_index list \<Rightarrow> bytes \<Rightarrow> 's" where
  "zero_share_compute S zs counterparties session_id =
     foldl (compute_step S counterparties session_id) 0 (seeds zs)"

lemma generated_seed_verifies:
  "generate_seed_with_commitment S sd0 salt0 = (sd, c, salt) \<Longrightarrow> verify_seed S sd c salt"
  by (auto simp: generate_seed_with_commitment_def verify_seed_def split: prod.splits
      intro: byte_commit.honest_opening)

lemma generate_seed_pair_swap:
  "seed (generate_seed_pair i j a b) = seed (generate_seed_pair j i b a)"
  by (simp add: generate_seed_pair_def xor.commute)

section \<open>The shares of a set of signers add up to zero\<close>

definition fragment_of :: "('s::field, 'p) suite \<Rightarrow> bytes \<Rightarrow> seed_pair \<Rightarrow> 's" where
  "fragment_of S session_id sp =
     (let fragment = tagged_hash_as_scalar S TAG_ZERO_SHARE_FRAGMENT [session_id, seed sp]
      in if lowest_index sp then - fragment else fragment)"

lemma zero_share_compute_sum:
  "zero_share_compute S zs cps sid =
     (\<Sum>sp \<leftarrow> filter (\<lambda>sp. index_counterparty sp \<in> set cps) (seeds zs). fragment_of S sid sp)"
proof -
  have "foldl (compute_step S cps sid) a sds =
      a + (\<Sum>sp \<leftarrow> filter (\<lambda>sp. index_counterparty sp \<in> set cps) sds. fragment_of S sid sp)" for a sds
    by (induction sds arbitrary: a) (simp_all add: compute_step_def fragment_of_def Let_def)
  then show ?thesis by (simp add: zero_share_compute_def)
qed

lemma antisymmetric_sum_zero:
  fixes f :: "'a::linorder \<Rightarrow> 'a \<Rightarrow> 'b::ab_group_add"
  assumes "finite A" and anti: "\<And>i j. i \<in> A \<Longrightarrow> j \<in> A \<Longrightarrow> i \<noteq> j \<Longrightarrow> f i j = - f j i"
  shows "(\<Sum>i \<in> A. \<Sum>j \<in> A - {i}. f i j) = 0"
proof -
  have "(\<Sum>j \<in> A - {i}. f i j) = (\<Sum>j \<in> {j \<in> A. i < j}. f i j) + (\<Sum>j \<in> {j \<in> A. j < i}. f i j)" for i
  proof -
    have "A - {i} = {j \<in> A. i < j} \<union> {j \<in> A. j < i}" by auto
    moreover have "{j \<in> A. i < j} \<inter> {j \<in> A. j < i} = {}" by auto
    ultimately show ?thesis
      using assms(1) sum.union_disjoint [of "{j \<in> A. i < j}" "{j \<in> A. j < i}" "f i"] by simp
  qed
  then have "(\<Sum>i \<in> A. \<Sum>j \<in> A - {i}. f i j) =
      (\<Sum>i \<in> A. \<Sum>j \<in> {j \<in> A. i < j}. f i j) + (\<Sum>i \<in> A. \<Sum>j \<in> {j \<in> A. j < i}. f i j)"
    by (simp add: sum.distrib)
  also have "(\<Sum>i \<in> A. \<Sum>j \<in> {j \<in> A. j < i}. f i j) = (\<Sum>j \<in> A. \<Sum>i \<in> {i \<in> A. j < i}. f i j)"
    by (rule sum.swap_restrict) (use assms(1) in simp_all)
  also have "\<dots> = (\<Sum>j \<in> A. \<Sum>i \<in> {i \<in> A. j < i}. - f j i)"
    by (intro sum.cong refl) (use anti in auto)
  also have "\<dots> = - (\<Sum>i \<in> A. \<Sum>j \<in> {j \<in> A. i < j}. f i j)"
    by (simp add: sum_negf)
  finally show ?thesis by simp
qed

text \<open>What key generation leaves at a party: one seed pair for every other party of \<open>all\<close>, both
  ends built from the same two halves (\<open>half i j\<close> is the seed \<open>i\<close> sampled for \<open>j\<close>).\<close>

definition pairwise_seeds ::
  "party_index list \<Rightarrow> (party_index \<Rightarrow> party_index \<Rightarrow> bytes) \<Rightarrow> party_index \<Rightarrow> zero_share" where
  "pairwise_seeds all half i = zero_share_initialize
     (map (\<lambda>j. generate_seed_pair i j (half i j) (half j i)) (filter (\<lambda>j. j \<noteq> i) all))"

lemma compute_pairwise:
  assumes "distinct all" and "set signers \<subseteq> set all"
  shows "zero_share_compute S (pairwise_seeds all half i) (filter (\<lambda>j. j \<noteq> i) signers) sid =
    (\<Sum>j \<in> set signers - {i}. fragment_of S sid (generate_seed_pair i j (half i j) (half j i)))"
proof -
  let ?g = "\<lambda>j. generate_seed_pair i j (half i j) (half j i)"
  have idx: "index_counterparty (?g j) = j" for j
    by (simp add: generate_seed_pair_def)
  have "filter (\<lambda>sp. index_counterparty sp \<in> set (filter (\<lambda>j. j \<noteq> i) signers))
      (seeds (pairwise_seeds all half i)) =
    map ?g (filter (\<lambda>j. j \<in> set signers - {i}) all)"
    by (simp add: pairwise_seeds_def zero_share_initialize_def filter_map comp_def idx)
       (rule arg_cong [of _ _ "map ?g"], rule filter_cong, auto)
  moreover have "set (filter (\<lambda>j. j \<in> set signers - {i}) all) = set signers - {i}"
    using assms(2) by auto
  ultimately show ?thesis
    using assms(1) by (simp add: zero_share_compute_sum comp_def flip: sum.set_conv_list)
      (simp add: sum_list_distinct_conv_sum_set)
qed

lemma zero_shares_sum:
  assumes "distinct all" and "set signers \<subseteq> set all"
  shows "(\<Sum>i \<in> set signers. zero_share_compute S (pairwise_seeds all half i)
    (filter (\<lambda>j. j \<noteq> i) signers) sid) = 0"
proof -
  have anti: "fragment_of S sid (generate_seed_pair i j (half i j) (half j i)) =
      - fragment_of S sid (generate_seed_pair j i (half j i) (half i j))" if "i \<noteq> j" for i j
  proof -
    have "lowest_index (generate_seed_pair i j (half i j) (half j i)) \<longleftrightarrow>
        \<not> lowest_index (generate_seed_pair j i (half j i) (half i j))"
      using that by (auto simp: generate_seed_pair_def)
    with generate_seed_pair_swap [of i j "half i j" "half j i"] show ?thesis
      by (simp add: fragment_of_def Let_def)
  qed
  show ?thesis
    unfolding compute_pairwise [OF assms]
    by (rule antisymmetric_sum_zero [OF finite_set anti])
qed

text \<open>C35: the zero shares of any set of signers add up to zero, whatever the session id: each pair
  of signers derives its fragment from the same seed, once with each sign.\<close>

theorem zero_shares_cancel:
  assumes "distinct all" and "set signers \<subseteq> set all"
  shows "(\<Sum>i \<in> set signers. zero_share_compute S (pairwise_seeds all half i)
    (filter (\<lambda>j. j \<noteq> i) signers) sid) = 0"
  using assms by (rule zero_shares_sum)

lemma zero_shares_cancel_witness:
  "(\<Sum>i \<in> set [PartyIndex 1, PartyIndex 3]. zero_share_compute sample_suite
     (pairwise_seeds [PartyIndex 1, PartyIndex 2, PartyIndex 3]
        (\<lambda>i j. replicate 32 (as_u8 i + 7 * as_u8 j)) i)
     (filter (\<lambda>j. j \<noteq> i) [PartyIndex 1, PartyIndex 3]) [5]) = 0"
  by (rule zero_shares_cancel) simp_all

end
