(* ===== verification/Proofs.thy ===== *)
theory Proofs
  imports Protocol_Types
begin

text \<open>
  \<open>utilities/proofs.rs\<close>: Schnorr's protocol, its non-interactive form by the randomized
  Fischlin transform, the Chaum-Pedersen protocol, and the encryption proof that joins two of
  them by OR-composition and Fiat-Shamir.  Random scalars and challenges are arguments: the
  loop that rejects a zero scalar reads an infinite tape, the bounded search loops read
  tables of samples.  The contract of a three-move protocol (an honest run is accepted, a
  simulated one too, two accepted runs reveal the witness) is the locale \<open>sigma_protocol\<close>,
  interpreted on both protocols.
\<close>

section \<open>Sampling a scalar that is not zero\<close>

partial_function (option) sample_nonzero :: "(nat \<Rightarrow> 's::zero) \<Rightarrow> nat \<Rightarrow> ('s \<times> nat) option" where
  "sample_nonzero tape pos =
     (if tape pos = 0 then sample_nonzero tape (Suc pos) else Some (tape pos, Suc pos))"

declare sample_nonzero.simps [code]

lemma sample_nonzero_returns:
  "tape (pos + n) \<noteq> 0 \<Longrightarrow> \<exists>k pos'. sample_nonzero tape pos = Some (k, pos') \<and> k \<noteq> 0"
proof (induction n arbitrary: pos)
  case 0
  then show ?case by (subst sample_nonzero.simps) simp
next
  case (Suc n)
  then show ?case using Suc.IH [of "Suc pos"] by (subst sample_nonzero.simps) simp
qed

lemma sample_nonzero_nonzero: "sample_nonzero tape pos = Some r \<Longrightarrow> fst r \<noteq> 0"
  by (rule sample_nonzero.raw_induct [of "\<lambda>_ _ r. fst r \<noteq> 0"]) (auto split: if_splits)

section \<open>Schnorr's protocol\<close>

definition dlog_R :: nat where "dlog_R = 64"
definition dlog_L :: nat where "dlog_L = 4"
definition dlog_T :: nat where "dlog_T = 32"

record 's idlog_proof =
  idl_challenge :: bytes
  idl_response :: 's

definition challenge_to_scalar :: "('s, 'p) suite \<Rightarrow> bytes \<Rightarrow> 's" where
  "challenge_to_scalar S challenge =
     (let extended = replicate (32 - length challenge) 0 @ challenge in reduce_bytes S extended)"

text \<open>Step 1 after the sampling loop, and with it.\<close>

definition idl_commit :: "('s, 'p) suite \<Rightarrow> 's \<Rightarrow> 'p" where
  "idl_commit S scalar_rand_commitment = pmul S (generator S) scalar_rand_commitment"

definition idl_prove_step1 ::
  "('s::zero, 'p) suite \<Rightarrow> (nat \<Rightarrow> 's) \<Rightarrow> nat \<Rightarrow> (('s \<times> 'p) \<times> nat) option" where
  "idl_prove_step1 S tape pos =
     (case sample_nonzero tape pos of
        None \<Rightarrow> None | Some (k, pos') \<Rightarrow> Some ((k, idl_commit S k), pos'))"

definition idl_prove_step2 :: "('s::field, 'p) suite \<Rightarrow> 's \<Rightarrow> 's \<Rightarrow> bytes \<Rightarrow> 's idlog_proof" where
  "idl_prove_step2 S scalar scalar_rand_commitment challenge =
     (let challenge_scalar = challenge_to_scalar S challenge;
          response = scalar_rand_commitment - challenge_scalar * scalar
      in \<lparr>idl_challenge = challenge, idl_response = response\<rparr>)"

definition idl_verify :: "('s, 'p::ab_group_add) suite \<Rightarrow> 's idlog_proof \<Rightarrow> 'p \<Rightarrow> 'p \<Rightarrow> bool" where
  "idl_verify S proof0 point point_rand_commitment =
     (if idl_challenge proof0 = [] \<or> length (idl_challenge proof0) > dlog_T div 8 then False
      else let challenge_scalar = challenge_to_scalar S (idl_challenge proof0);
               point_verify = pmul S (generator S) (idl_response proof0) + pmul S point challenge_scalar
           in point_verify = point_rand_commitment)"

section \<open>Chaum-Pedersen\<close>

record 'p random_commitments =
  rc_g :: 'p
  rc_h :: 'p

record ('s, 'p) cp_proof =
  base_g :: 'p
  base_h :: 'p
  point_u :: 'p
  point_v :: 'p
  cp_response :: 's

definition cp_commit :: "('s, 'p) suite \<Rightarrow> 'p \<Rightarrow> 'p \<Rightarrow> 's \<Rightarrow> 'p random_commitments" where
  "cp_commit S g h k = \<lparr>rc_g = pmul S g k, rc_h = pmul S h k\<rparr>"

definition cp_prove_step1 ::
  "('s::zero, 'p) suite \<Rightarrow> 'p \<Rightarrow> 'p \<Rightarrow> (nat \<Rightarrow> 's) \<Rightarrow> nat \<Rightarrow>
     (('s \<times> 'p random_commitments) \<times> nat) option" where
  "cp_prove_step1 S g h tape pos =
     (case sample_nonzero tape pos of
        None \<Rightarrow> None | Some (k, pos') \<Rightarrow> Some ((k, cp_commit S g h k), pos'))"

definition cp_prove_step2 ::
  "('s::field, 'p) suite \<Rightarrow> 'p \<Rightarrow> 'p \<Rightarrow> 's \<Rightarrow> 's \<Rightarrow> 's \<Rightarrow> ('s, 'p) cp_proof" where
  "cp_prove_step2 S g h scalar scalar_rand_commitment challenge =
     \<lparr>base_g = g, base_h = h, point_u = pmul S g scalar, point_v = pmul S h scalar,
      cp_response = scalar_rand_commitment - challenge * scalar\<rparr>"

definition cp_verify ::
  "('s, 'p::ab_group_add) suite \<Rightarrow> ('s, 'p) cp_proof \<Rightarrow> 'p random_commitments \<Rightarrow> 's \<Rightarrow> bool" where
  "cp_verify S prf rcs challenge =
     (if point_u prf = 0 \<or> point_v prf = 0 \<or> base_h prf = 0 then False
      else let point_verify_g = pmul S (base_g prf) (cp_response prf) + pmul S (point_u prf) challenge;
               point_verify_h = pmul S (base_h prf) (cp_response prf) + pmul S (point_v prf) challenge
           in point_verify_g = rc_g rcs \<and> point_verify_h = rc_h rcs)"

definition cp_simulate ::
  "('s, 'p::ab_group_add) suite \<Rightarrow> 'p \<Rightarrow> 'p \<Rightarrow> 'p \<Rightarrow> 'p \<Rightarrow> 's \<Rightarrow> 's \<Rightarrow>
     'p random_commitments \<times> 's \<times> ('s, 'p) cp_proof" where
  "cp_simulate S g h u v challenge response =
     (\<lparr>rc_g = pmul S g response + pmul S u challenge, rc_h = pmul S h response + pmul S v challenge\<rparr>,
      challenge,
      \<lparr>base_g = g, base_h = h, point_u = u, point_v = v, cp_response = response\<rparr>)"

section \<open>The contract of a three-move protocol\<close>

locale sigma_protocol =
  fixes env_ok :: "'e \<Rightarrow> bool"
    and statement_ok :: "'st \<Rightarrow> bool"
    and related :: "'e \<Rightarrow> 'st \<Rightarrow> 's::field \<Rightarrow> bool"
    and first_move :: "'e \<Rightarrow> 'st \<Rightarrow> 's \<Rightarrow> 'c"
    and challenge_ok :: "'ch \<Rightarrow> bool"
    and challenge_value :: "'e \<Rightarrow> 'ch \<Rightarrow> 's"
    and respond :: "'e \<Rightarrow> 's \<Rightarrow> 's \<Rightarrow> 'ch \<Rightarrow> 's"
    and simulate :: "'e \<Rightarrow> 'st \<Rightarrow> 'ch \<Rightarrow> 's \<Rightarrow> 'c"
    and accepts :: "'e \<Rightarrow> 'st \<Rightarrow> 'c \<Rightarrow> 'ch \<Rightarrow> 's \<Rightarrow> bool"
  assumes accepts_iff: "accepts e st c ch r \<longleftrightarrow>
      statement_ok st \<and> challenge_ok ch \<and> c = simulate e st ch r"
    and respond_eq: "respond e w k ch = k - challenge_value e ch * w"
    and complete: "env_ok e \<Longrightarrow> related e st w \<Longrightarrow>
      simulate e st ch (k - challenge_value e ch * w) = first_move e st k"
    and extraction: "env_ok e \<Longrightarrow> simulate e st ch r = simulate e st ch' r' \<Longrightarrow>
      challenge_value e ch \<noteq> challenge_value e ch' \<Longrightarrow>
      related e st ((r - r') / (challenge_value e ch' - challenge_value e ch))"
begin

lemma honest_accepted:
  "env_ok e \<Longrightarrow> statement_ok st \<Longrightarrow> challenge_ok ch \<Longrightarrow> related e st w \<Longrightarrow>
    accepts e st (first_move e st k) ch (respond e w k ch)"
  by (simp add: accepts_iff respond_eq complete)

lemma simulated_accepted:
  "statement_ok st \<Longrightarrow> challenge_ok ch \<Longrightarrow> accepts e st (simulate e st ch r) ch r"
  by (simp add: accepts_iff)

lemma special_soundness:
  assumes "env_ok e" "accepts e st c ch r" "accepts e st c ch' r'"
    and "challenge_value e ch \<noteq> challenge_value e ch'"
  shows "related e st ((r - r') / (challenge_value e ch' - challenge_value e ch))"
  using assms by (intro extraction) (auto simp: accepts_iff)

end

lemma two_transcripts:
  assumes "suite_ok S" and "pmul S G r + pmul S P c = pmul S G r' + pmul S P c'" and "c \<noteq> c'"
  shows "P = pmul S G ((r - r') / (c' - c))"
proof -
  have "pmul S P (c' - c) = pmul S G (r - r')"
    using assms(1,2) by (simp add: pmul_diff algebra_simps)
  then have "pmul S (pmul S P (c' - c)) (1 / (c' - c)) = pmul S (pmul S G (r - r')) (1 / (c' - c))"
    by simp
  moreover have "(c' - c) * (1 / (c' - c)) = 1" "(r - r') * (1 / (c' - c)) = (r - r') / (c' - c)"
    using assms(3) by simp_all
  ultimately show ?thesis using assms(1) by (simp only: pmul_pmul pmul_one)
qed

lemma honest_equation:
  "suite_ok S \<Longrightarrow> pmul S G (k - c * w) + pmul S (pmul S G w) c = pmul S G k"
  by (simp add: group_simps mult.commute)

definition short_challenge :: "bytes \<Rightarrow> bool" where
  "short_challenge ch \<longleftrightarrow> ch \<noteq> [] \<and> length ch \<le> dlog_T div 8"

interpretation schnorr: sigma_protocol
  "suite_ok :: ('s::field, 'p::ab_group_add) suite \<Rightarrow> bool" "\<lambda>P. True"
  "\<lambda>S P w. P = pmul S (generator S) w" "\<lambda>S P k. idl_commit S k"
  short_challenge challenge_to_scalar "\<lambda>S w k ch. idl_response (idl_prove_step2 S w k ch)"
  "\<lambda>S P ch r. pmul S (generator S) r + pmul S P (challenge_to_scalar S ch)"
  "\<lambda>S P c ch r. idl_verify S \<lparr>idl_challenge = ch, idl_response = r\<rparr> P c"
proof (unfold_locales, goal_cases)
  case (4 S P ch r ch' r')
  then show ?case by (intro two_transcripts)
qed (auto simp: idl_verify_def short_challenge_def idl_prove_step2_def idl_commit_def
    honest_equation Let_def)

interpretation chaum_pedersen: sigma_protocol
  "suite_ok :: ('s::field, 'p::ab_group_add) suite \<Rightarrow> bool"
  "\<lambda>(g, h, u, v). u \<noteq> 0 \<and> v \<noteq> 0 \<and> h \<noteq> 0"
  "\<lambda>S (g, h, u, v) w. u = pmul S g w \<and> v = pmul S h w"
  "\<lambda>S (g, h, u, v) k. cp_commit S g h k"
  "\<lambda>ch. True" "\<lambda>S ch. ch" "\<lambda>S w k ch. cp_response (cp_prove_step2 S g0 h0 w k ch)"
  "\<lambda>S (g, h, u, v) ch r. fst (cp_simulate S g h u v ch r)"
  "\<lambda>S (g, h, u, v) c ch r. cp_verify S
     \<lparr>base_g = g, base_h = h, point_u = u, point_v = v, cp_response = r\<rparr> c ch"
  for g0 h0 :: "'p::ab_group_add"
proof (unfold_locales, goal_cases)
  case (1 S st c ch r)
  then show ?case by (cases st; cases c) (auto simp: cp_verify_def cp_simulate_def Let_def)
next
  case (3 S st w ch k)
  then show ?case by (cases st) (simp add: cp_commit_def cp_simulate_def honest_equation)
next
  case (4 S st ch r ch' r')
  then show ?case by (cases st) (auto simp: cp_simulate_def intro!: two_transcripts)
qed (simp add: cp_prove_step2_def)

section \<open>The randomized Fischlin transform\<close>

record ('s, 'p) dlog_proof =
  dlp_point :: 'p
  rand_commitments :: "'p list"
  dlp_proofs :: "'s idlog_proof list"

datatype proof_search_exhausted = ProofSearchExhausted

text \<open>The samples of one call of \<open>prove\<close>: the scalars the 64 calls of Step 1 accepted, the first
  challenge of every attempt in every round, and the second challenges tried against it.\<close>

record 's fischlin_coins =
  step1_states :: "'s list"
  first_samples :: "nat \<Rightarrow> nat \<Rightarrow> bytes"
  second_samples :: "nat \<Rightarrow> nat \<Rightarrow> nat \<Rightarrow> bytes"

definition points_bytes :: "('s, 'p) suite \<Rightarrow> 'p list \<Rightarrow> bytes" where
  "points_bytes S ps = concat (map (point_to_bytes S) ps)"

definition fischlin_hash ::
  "('s, 'p) suite \<Rightarrow> bytes \<Rightarrow> bytes \<Rightarrow> nat \<Rightarrow> 's idlog_proof \<Rightarrow> bytes" where
  "fischlin_hash S session_id rc_as_bytes i prf =
     (let msg = point_to_bytes S (generator S) @ rc_as_bytes @ be16 (word_of_nat i) @
                idl_challenge prf @ scalar_to_bytes S (idl_response prf)
      in take (dlog_L div 4) (tagged_hash S TAG_DLOG_PROOF_FISCHLIN [session_id, msg]))"

text \<open>The loops \<open>while second_counter < u16::MAX\<close> and \<open>while first_counter < u16::MAX && !flag\<close>;
  the first number counts the iterations left.\<close>

definition u16_MAX :: nat where "u16_MAX = 65535"

fun search_second ::
  "nat \<Rightarrow> (bytes \<Rightarrow> 's idlog_proof) \<Rightarrow> ('s idlog_proof \<Rightarrow> bytes) \<Rightarrow> bytes \<Rightarrow> (nat \<Rightarrow> bytes) \<Rightarrow>
     nat \<Rightarrow> 's idlog_proof option" where
  "search_second 0 step2 hash first_hash sample second_counter = None"
| "search_second (Suc n) step2 hash first_hash sample second_counter =
     (let second_proof = step2 (sample second_counter) in
      if first_hash = hash second_proof then Some second_proof
      else search_second n step2 hash first_hash sample (Suc second_counter))"

fun search_first ::
  "nat \<Rightarrow> ('s::field, 'p) suite \<Rightarrow> 's \<Rightarrow> bytes \<Rightarrow> bytes \<Rightarrow> 's fischlin_coins \<Rightarrow> nat \<Rightarrow> nat \<Rightarrow>
     ('s idlog_proof \<times> 's idlog_proof) option" where
  "search_first 0 S scalar session_id rc_as_bytes coins i first_counter = None"
| "search_first (Suc n) S scalar session_id rc_as_bytes coins i first_counter =
     (let j = i + dlog_R div 2;
          first_challenge = first_samples coins i first_counter;
          first_proof = idl_prove_step2 S scalar (step1_states coins ! i) first_challenge;
          first_hash = fischlin_hash S session_id rc_as_bytes i first_proof
      in case search_second u16_MAX (idl_prove_step2 S scalar (step1_states coins ! j))
           (fischlin_hash S session_id rc_as_bytes j) first_hash
           (second_samples coins i first_counter) 0 of
           Some second_proof \<Rightarrow> Some (first_proof, second_proof)
         | None \<Rightarrow> search_first n S scalar session_id rc_as_bytes coins i (Suc first_counter))"

definition dlog_prove ::
  "('s::field, 'p) suite \<Rightarrow> 's fischlin_coins \<Rightarrow> 's \<Rightarrow> bytes \<Rightarrow>
     proof_search_exhausted + ('s, 'p) dlog_proof" where
  "dlog_prove S coins scalar session_id =
     (let rcs = map (idl_commit S) (step1_states coins);
          rc_as_bytes = points_bytes S rcs
      in rbind (map_res (\<lambda>i. ok_or ProofSearchExhausted
                  (search_first u16_MAX S scalar session_id rc_as_bytes coins i 0))
                [0..<dlog_R div 2])
           (\<lambda>pairs. Inr \<lparr>dlp_point = pmul S (generator S) scalar, rand_commitments = rcs,
                          dlp_proofs = map fst pairs @ map snd pairs\<rparr>))"

text \<open>The sampling of the 64 nonces from the tape, one Step 1 after the other.\<close>

fun sample_states ::
  "('s::zero, 'p) suite \<Rightarrow> nat \<Rightarrow> (nat \<Rightarrow> 's) \<Rightarrow> nat \<Rightarrow> ('s list \<times> nat) option" where
  "sample_states S 0 tape pos = Some ([], pos)"
| "sample_states S (Suc n) tape pos =
     (case idl_prove_step1 S tape pos of
        None \<Rightarrow> None
      | Some ((state, rand_commitment), pos') \<Rightarrow>
          (case sample_states S n tape pos' of
             None \<Rightarrow> None | Some (states, pos'') \<Rightarrow> Some (state # states, pos'')))"

definition dlog_verify_round ::
  "('s, 'p::ab_group_add) suite \<Rightarrow> bytes \<Rightarrow> bytes \<Rightarrow> ('s, 'p) dlog_proof \<Rightarrow> nat \<Rightarrow> bool" where
  "dlog_verify_round S session_id rc_as_bytes prf i =
     (let j = i + dlog_R div 2;
          first_hash = fischlin_hash S session_id rc_as_bytes i (dlp_proofs prf ! i);
          second_hash = fischlin_hash S session_id rc_as_bytes j (dlp_proofs prf ! j)
      in if first_hash \<noteq> second_hash then False
         else idl_verify S (dlp_proofs prf ! i) (dlp_point prf) (rand_commitments prf ! i) \<and>
              idl_verify S (dlp_proofs prf ! j) (dlp_point prf) (rand_commitments prf ! j))"

definition dlog_verify :: "('s, 'p::ab_group_add) suite \<Rightarrow> ('s, 'p) dlog_proof \<Rightarrow> bytes \<Rightarrow> bool" where
  "dlog_verify S prf session_id =
     (if length (rand_commitments prf) \<noteq> dlog_R \<or> length (dlp_proofs prf) \<noteq> dlog_R then False
      else if dlp_point prf = 0 \<or> list_ex (\<lambda>rc. rc = 0) (rand_commitments prf) then False
      else let vec_rc_as_bytes = map (point_to_bytes S) (rand_commitments prf) in
        if \<not> distinct vec_rc_as_bytes then False
        else list_all (dlog_verify_round S session_id (concat vec_rc_as_bytes) prf)
               [0..<dlog_R div 2])"

definition dlog_commitment_msg :: "('s, 'p) suite \<Rightarrow> ('s, 'p) dlog_proof \<Rightarrow> bytes" where
  "dlog_commitment_msg S prf =
     point_to_bytes S (dlp_point prf) @ points_bytes S (rand_commitments prf) @
     concat (map idl_challenge (dlp_proofs prf)) @
     concat (map (\<lambda>x. scalar_to_bytes S (idl_response x)) (dlp_proofs prf))"

definition dlog_prove_commit ::
  "('s::field, 'p) suite \<Rightarrow> 's fischlin_coins \<Rightarrow> 's \<Rightarrow> bytes \<Rightarrow>
     proof_search_exhausted + ('s, 'p) dlog_proof \<times> bytes" where
  "dlog_prove_commit S coins scalar session_id =
     rbind (dlog_prove S coins scalar session_id) (\<lambda>prf.
       Inr (prf, tagged_hash S TAG_DLOG_PROOF_COMMITMENT [session_id, dlog_commitment_msg S prf]))"

definition dlog_decommit_verify ::
  "('s, 'p::ab_group_add) suite \<Rightarrow> ('s, 'p) dlog_proof \<Rightarrow> bytes \<Rightarrow> bytes \<Rightarrow> bool" where
  "dlog_decommit_verify S prf commitment session_id =
     (let expected_commitment =
        tagged_hash S TAG_DLOG_PROOF_COMMITMENT [session_id, dlog_commitment_msg S prf]
      in commitment = expected_commitment \<and> dlog_verify S prf session_id)"

text \<open>What a working generator delivers: 64 pairwise different nonces, none of them zero, and
  challenges of 4 bytes.\<close>

definition coins_ok :: "('s::zero) fischlin_coins \<Rightarrow> bool" where
  "coins_ok coins \<longleftrightarrow> length (step1_states coins) = dlog_R \<and> distinct (step1_states coins) \<and>
     0 \<notin> set (step1_states coins) \<and>
     (\<forall>i a. length (first_samples coins i a) = dlog_T div 8) \<and>
     (\<forall>i a b. length (second_samples coins i a b) = dlog_T div 8)"

lemma sample_states_ok:
  "sample_states S n tape pos = Some (states, pos') \<Longrightarrow> length states = n \<and> 0 \<notin> set states"
proof (induction n arbitrary: pos states)
  case (Suc n)
  then show ?case
    by (auto simp: idl_prove_step1_def split: option.splits prod.splits dest: sample_nonzero_nonzero)
qed simp

lemma search_second_find:
  "search_second n f h d s k = find (\<lambda>p. h p = d) (map (\<lambda>j. f (s j)) [k..<k + n])"
proof (induction n arbitrary: k)
  case (Suc n)
  have "[k..<k + Suc n] = k # [Suc k..<Suc k + n]"
    by (simp add: upt_conv_Cons)
  with Suc.IH [of "Suc k"] show ?case by (auto simp: Let_def simp del: upt_Suc)
qed simp

lemma search_second_Some:
  "search_second n f h d s k = Some p \<Longrightarrow> (\<exists>j. p = f (s j)) \<and> h p = d"
  by (auto simp: search_second_find find_Some_iff)

lemma search_second_None:
  "search_second n f h d s k = None \<longleftrightarrow> (\<forall>j. k \<le> j \<and> j < k + n \<longrightarrow> h (f (s j)) \<noteq> d)"
  by (auto simp: search_second_find find_None_iff)

lemma search_first_Some:
  assumes "search_first n S w sid rcb coins i k = Some (p, q)"
  shows "\<exists>a b. p = idl_prove_step2 S w (step1_states coins ! i) (first_samples coins i a) \<and>
    q = idl_prove_step2 S w (step1_states coins ! (i + dlog_R div 2)) (second_samples coins i a b) \<and>
    fischlin_hash S sid rcb i p = fischlin_hash S sid rcb (i + dlog_R div 2) q"
  using assms
proof (induction n arbitrary: k)
  case (Suc n)
  then show ?case
    by (fastforce simp: Let_def split: option.splits dest: search_second_Some)
qed simp

definition round_hit ::
  "('s::field, 'p) suite \<Rightarrow> 's fischlin_coins \<Rightarrow> 's \<Rightarrow> bytes \<Rightarrow> nat \<Rightarrow> nat \<Rightarrow> nat \<Rightarrow> bool" where
  "round_hit S coins w sid i a b =
     (let rcb = points_bytes S (map (idl_commit S) (step1_states coins)); j = i + dlog_R div 2 in
      fischlin_hash S sid rcb i
        (idl_prove_step2 S w (step1_states coins ! i) (first_samples coins i a)) =
      fischlin_hash S sid rcb j
        (idl_prove_step2 S w (step1_states coins ! j) (second_samples coins i a b)))"

lemma search_first_None:
  "search_first n S w sid (points_bytes S (map (idl_commit S) (step1_states coins))) coins i k = None
    \<longleftrightarrow> (\<forall>a b. k \<le> a \<and> a < k + n \<and> b < u16_MAX \<longrightarrow> \<not> round_hit S coins w sid i a b)"
proof (induction n arbitrary: k)
  case (Suc n)
  have split: "(\<forall>a b. k \<le> a \<and> a < k + Suc n \<and> b < u16_MAX \<longrightarrow> \<not> round_hit S coins w sid i a b) \<longleftrightarrow>
      (\<forall>b < u16_MAX. \<not> round_hit S coins w sid i k b) \<and>
      (\<forall>a b. Suc k \<le> a \<and> a < Suc k + n \<and> b < u16_MAX \<longrightarrow> \<not> round_hit S coins w sid i a b)"
    by (metis add_Suc_right add_Suc_shift le_eq_less_or_eq less_add_Suc1 Suc_le_eq)
  let ?rcb = "points_bytes S (map (idl_commit S) (step1_states coins))"
  have hit: "search_second u16_MAX (idl_prove_step2 S w (step1_states coins ! (i + dlog_R div 2)))
      (fischlin_hash S sid ?rcb (i + dlog_R div 2))
      (fischlin_hash S sid ?rcb i
        (idl_prove_step2 S w (step1_states coins ! i) (first_samples coins i k)))
      (second_samples coins i k) 0 = None \<longleftrightarrow> (\<forall>b < u16_MAX. \<not> round_hit S coins w sid i k b)"
    by (simp add: search_second_None round_hit_def Let_def) metis
  show ?case
    unfolding split Suc.IH [of "Suc k", symmetric] hit [symmetric]
    by (simp add: Let_def split: option.splits)
qed auto

lemma dlog_prove_shape:
  assumes "dlog_prove S coins w sid = Inr prf"
  obtains pairs where "length pairs = dlog_R div 2"
    "prf = \<lparr>dlp_point = pmul S (generator S) w,
      rand_commitments = map (idl_commit S) (step1_states coins),
      dlp_proofs = map fst pairs @ map snd pairs\<rparr>"
    "\<And>i. i < dlog_R div 2 \<Longrightarrow>
      search_first u16_MAX S w sid (points_bytes S (rand_commitments prf)) coins i 0 = Some (pairs ! i)"
proof -
  from assms obtain pairs where
    pairs: "map_res (\<lambda>i. ok_or ProofSearchExhausted (search_first u16_MAX S w sid
        (points_bytes S (map (idl_commit S) (step1_states coins))) coins i 0)) [0..<dlog_R div 2]
      = Inr pairs"
    and shape: "prf = \<lparr>dlp_point = pmul S (generator S) w,
      rand_commitments = map (idl_commit S) (step1_states coins),
      dlp_proofs = map fst pairs @ map snd pairs\<rparr>"
    by (auto simp: dlog_prove_def Let_def rbind_Inr_iff)
  show thesis
  proof (rule that [OF _ shape])
    show "length pairs = dlog_R div 2"
      using map_res_length [OF pairs] by simp
    show "search_first u16_MAX S w sid (points_bytes S (rand_commitments prf)) coins i 0 =
        Some (pairs ! i)" if "i < dlog_R div 2" for i
      using map_res_nth [OF pairs, of i] that by (simp add: shape ok_or_Inr_iff)
  qed
qed

lemma dlog_prove_Inl_iff:
  "dlog_prove S coins w sid = Inl e \<longleftrightarrow>
    (\<exists>i < dlog_R div 2. \<not> (\<exists>a < u16_MAX. \<exists>b < u16_MAX. round_hit S coins w sid i a b))"
proof -
  let ?rcb = "points_bytes S (map (idl_commit S) (step1_states coins))"
  let ?f = "\<lambda>i. ok_or ProofSearchExhausted (search_first u16_MAX S w sid ?rcb coins i 0)"
  have none: "search_first u16_MAX S w sid ?rcb coins i 0 = None \<longleftrightarrow>
      \<not> (\<exists>a < u16_MAX. \<exists>b < u16_MAX. round_hit S coins w sid i a b)" for i
    by (auto simp: search_first_None)
  have "dlog_prove S coins w sid = Inl e \<longleftrightarrow>
      map_res ?f [0..<dlog_R div 2] = Inl e"
    by (simp add: dlog_prove_def Let_def rbind_Inl_iff)
  also have "\<dots> \<longleftrightarrow> (\<exists>i < dlog_R div 2. ?f i = Inl e)"
  proof
    assume "map_res ?f [0..<dlog_R div 2] = Inl e"
    from map_res_Inl [OF this] show "\<exists>i < dlog_R div 2. ?f i = Inl e" by auto
  next
    assume "\<exists>i < dlog_R div 2. ?f i = Inl e"
    then obtain i where i: "i < dlog_R div 2" "?f i = Inl e" by blast
    show "map_res ?f [0..<dlog_R div 2] = Inl e"
    proof (cases "map_res ?f [0..<dlog_R div 2]")
      case (Inl e')
      then show ?thesis by (cases e'; cases e) simp
    next
      case (Inr ys)
      from map_res_nth [OF Inr, of i] i show ?thesis by simp
    qed
  qed
  finally show ?thesis by (cases e) (simp add: ok_or_Inl_iff none)
qed

lemma dlog_prove_verifies:
  fixes S :: "('s::field, 'p::ab_group_add) suite"
  assumes "suite_ok S" and "coins_ok coins" and "w \<noteq> 0"
    and "dlog_prove S coins w sid = Inr prf"
  shows "dlog_verify S prf sid"
proof -
  obtain pairs where len: "length pairs = dlog_R div 2"
    and shape: "prf = \<lparr>dlp_point = pmul S (generator S) w,
      rand_commitments = map (idl_commit S) (step1_states coins),
      dlp_proofs = map fst pairs @ map snd pairs\<rparr>"
    and found: "\<And>i. i < dlog_R div 2 \<Longrightarrow>
      search_first u16_MAX S w sid (points_bytes S (rand_commitments prf)) coins i 0 = Some (pairs ! i)"
    using assms(4) by (rule dlog_prove_shape) blast
  have half: "dlog_R div 2 + dlog_R div 2 = dlog_R" by (simp add: dlog_R_def)
  have states: "length (step1_states coins) = dlog_R" "distinct (step1_states coins)"
    "0 \<notin> set (step1_states coins)"
    using assms(2) by (auto simp: coins_ok_def)
  have accepted: "idl_verify S (idl_prove_step2 S w (step1_states coins ! j) ch)
      (dlp_point prf) (rand_commitments prf ! j)" if "length ch = dlog_T div 8" "j < dlog_R" for ch j
    using schnorr.honest_accepted [OF assms(1), of ch "dlp_point prf" w "step1_states coins ! j"]
      that states(1) by (auto simp: shape short_challenge_def idl_prove_step2_def Let_def dlog_T_def
        simp flip: length_greater_0_conv)
  have round: "dlog_verify_round S sid (points_bytes S (rand_commitments prf)) prf i"
    if i: "i < dlog_R div 2" for i
  proof -
    obtain a b where
      "fst (pairs ! i) = idl_prove_step2 S w (step1_states coins ! i) (first_samples coins i a)"
      "snd (pairs ! i) = idl_prove_step2 S w (step1_states coins ! (i + dlog_R div 2))
        (second_samples coins i a b)"
      "fischlin_hash S sid (points_bytes S (rand_commitments prf)) i (fst (pairs ! i)) =
        fischlin_hash S sid (points_bytes S (rand_commitments prf)) (i + dlog_R div 2) (snd (pairs ! i))"
      using search_first_Some [of u16_MAX S w sid "points_bytes S (rand_commitments prf)" coins i 0
          "fst (pairs ! i)" "snd (pairs ! i)"] found [OF i] by (metis prod.collapse)
    moreover have "dlp_proofs prf ! i = fst (pairs ! i)"
      "dlp_proofs prf ! (i + dlog_R div 2) = snd (pairs ! i)"
      using i len by (simp_all add: shape nth_append)
    moreover have "i < dlog_R" "i + dlog_R div 2 < dlog_R" using i half by linarith+
    ultimately show ?thesis
      using assms(2) accepted by (simp add: dlog_verify_round_def Let_def coins_ok_def)
  qed
  have "inj (\<lambda>k. point_to_bytes S (idl_commit S k))"
    using assms(1) by (auto intro!: injI simp: point_to_bytes_inj idl_commit_def pmul_gen_cancel)
  then have "distinct (map (point_to_bytes S) (rand_commitments prf))"
    using states(2) by (simp add: shape comp_def distinct_map inj_on_def)
  moreover have "dlp_point prf \<noteq> 0" "0 \<notin> set (rand_commitments prf)"
    using assms(1,3) states(3)
    by (auto simp: shape idl_commit_def pmul_eq_0_iff generator_nonzero)
  ultimately show ?thesis
    using round len states(1) half
    by (auto simp: dlog_verify_def Let_def list_ex_iff list_all_iff points_bytes_def shape)
qed

text \<open>\<open>prove\<close> gives up exactly when one of the 32 rounds has no collision of the two one-byte
  hashes among its \<open>u16::MAX\<close> times \<open>u16::MAX\<close> attempts; in every other case it returns a proof.\<close>

theorem dlog_prove_exhausted_iff:
  "dlog_prove S coins w sid = Inl ProofSearchExhausted \<longleftrightarrow>
    (\<exists>i < dlog_R div 2. \<not> (\<exists>a < u16_MAX. \<exists>b < u16_MAX. round_hit S coins w sid i a b))"
  by (rule dlog_prove_Inl_iff)

lemma encode_two_inj:
  assumes "length a < 2 ^ 64" "length b < 2 ^ 64" "length c < 2 ^ 64" "length d < 2 ^ 64"
    and "t \<in> set ALL_TAGS" and "encode_tagged t [a, b] = encode_tagged t [c, d]"
  shows "a = c \<and> b = d"
  using assms tag_length [OF assms(5)] concat_blocks_inj [of "[t, a, b]" "[t, c, d]"]
  by (simp add: encode_tagged_blocks)

lemma length_points_bytes [len_simps]: "suite_ok S \<Longrightarrow> length (points_bytes S ps) = 33 * length ps"
  by (induction ps) (simp_all add: points_bytes_def len_simps)

lemma points_bytes_inj:
  assumes "suite_ok S" "points_bytes S ps = points_bytes S qs" "length ps = length qs"
  shows "ps = qs"
proof -
  have "map (point_to_bytes S) ps = map (point_to_bytes S) qs"
    by (rule concat_eq_blocks [where n = 33])
       (use assms in \<open>auto simp: points_bytes_def len_simps\<close>)
  moreover have "inj (point_to_bytes S)"
    using assms(1) by (simp add: inj_def point_to_bytes_inj)
  ultimately show ?thesis by (simp add: inj_map_eq_map)
qed

text \<open>The message that is hashed determines the point, the random commitments and the responses of
  an accepted proof (not how the joined challenges are cut, see the lengths 1 to 4).\<close>

lemma dlog_commitment_msg_inj:
  fixes S :: "('s::field, 'p::ab_group_add) suite"
  assumes "suite_ok S" and "dlog_commitment_msg S p = dlog_commitment_msg S q"
    and "dlog_verify S p sid" and "dlog_verify S q sid'"
  shows "dlp_point p = dlp_point q \<and> rand_commitments p = rand_commitments q \<and>
    map idl_response (dlp_proofs p) = map idl_response (dlp_proofs q)"
proof -
  let ?resp = "\<lambda>p. map (\<lambda>x. scalar_to_bytes S (idl_response x)) (dlp_proofs p)"
  have len: "length (rand_commitments p) = length (rand_commitments q)"
    "length (dlp_proofs p) = length (dlp_proofs q)"
    using assms(3,4) by (auto simp: dlog_verify_def split: if_splits)
  have pt: "point_to_bytes S (dlp_point p) = point_to_bytes S (dlp_point q)"
    and rc: "points_bytes S (rand_commitments p) = points_bytes S (rand_commitments q)"
    and tail: "concat (map idl_challenge (dlp_proofs p)) @ concat (?resp p) =
      concat (map idl_challenge (dlp_proofs q)) @ concat (?resp q)"
    using assms(1,2) len(1)
    by (simp_all add: dlog_commitment_msg_def append_eq_append_conv len_simps)
  have "length (concat (?resp x)) = 32 * length (dlp_proofs x)" for x :: "('s, 'p) dlog_proof"
    using assms(1) by (simp add: length_concat comp_def len_simps sum_list_triv)
  with tail len(2) have "concat (?resp p) = concat (?resp q)"
    by (metis append_eq_append_conv)
  then have "?resp p = ?resp q"
    by (rule concat_eq_blocks [where n = 32]) (use assms(1) len(2) in \<open>auto simp: len_simps\<close>)
  then have "map (scalar_to_bytes S) (map idl_response (dlp_proofs p)) =
      map (scalar_to_bytes S) (map idl_response (dlp_proofs q))"
    by (simp add: comp_def)
  moreover have "inj (scalar_to_bytes S)"
    using assms(1) by (simp add: inj_def scalar_to_bytes_inj)
  ultimately have "map idl_response (dlp_proofs p) = map idl_response (dlp_proofs q)"
    by (simp only: inj_map_eq_map)
  with pt rc len(1) assms(1) show ?thesis
    by (auto simp: point_to_bytes_inj intro: points_bytes_inj)
qed

text \<open>The commitment a party broadcasts to its proof of discrete logarithm binds it: two proofs
  that both pass \<open>decommit_verify\<close> against it prove the same point with the same random
  commitments and responses, or the two byte strings they hash are a SHA-256 collision.\<close>

theorem dlog_decommit_binding:
  fixes S :: "('s::field, 'p::ab_group_add) suite"
  assumes "suite_ok S" and "dlog_decommit_verify S p c sid" and "dlog_decommit_verify S q c sid"
    and "length (dlog_commitment_msg S p) < 2 ^ 64" and "length (dlog_commitment_msg S q) < 2 ^ 64"
    and "length sid < 2 ^ 64"
  shows "(dlp_point p = dlp_point q \<and> rand_commitments p = rand_commitments q \<and>
      map idl_response (dlp_proofs p) = map idl_response (dlp_proofs q)) \<or>
    collision S (encode_tagged TAG_DLOG_PROOF_COMMITMENT [sid, dlog_commitment_msg S p])
      (encode_tagged TAG_DLOG_PROOF_COMMITMENT [sid, dlog_commitment_msg S q])"
proof (cases "dlog_commitment_msg S p = dlog_commitment_msg S q")
  case True
  with assms(1,2,3) show ?thesis
    using dlog_commitment_msg_inj [of S p q sid sid] by (simp add: dlog_decommit_verify_def Let_def)
next
  case False
  have "TAG_DLOG_PROOF_COMMITMENT \<in> set ALL_TAGS" by (simp add: ALL_TAGS_def)
  with False assms(4-6) have "encode_tagged TAG_DLOG_PROOF_COMMITMENT [sid, dlog_commitment_msg S p] \<noteq>
      encode_tagged TAG_DLOG_PROOF_COMMITMENT [sid, dlog_commitment_msg S q]"
    using encode_two_inj by blast
  moreover have "sha256 S (encode_tagged TAG_DLOG_PROOF_COMMITMENT [sid, dlog_commitment_msg S p]) =
      sha256 S (encode_tagged TAG_DLOG_PROOF_COMMITMENT [sid, dlog_commitment_msg S q])"
    using assms(2,3) by (simp add: dlog_decommit_verify_def Let_def tagged_hash_def hash_bytes_def)
  ultimately show ?thesis by (simp add: collision_def)
qed

lemma idl_verify_short: "idl_verify S x P c \<Longrightarrow> short_challenge (idl_challenge x)"
  by (auto simp: idl_verify_def short_challenge_def split: if_splits)

lemma dlog_verify_challenges:
  assumes "dlog_verify S p sid" and "x \<in> set (dlp_proofs p)"
  shows "short_challenge (idl_challenge x)"
proof -
  from assms(2) obtain k where k: "k < length (dlp_proofs p)" "x = dlp_proofs p ! k"
    by (auto simp: in_set_conv_nth)
  have all: "\<And>i. i < 32 \<Longrightarrow> short_challenge (idl_challenge (dlp_proofs p ! i)) \<and>
      short_challenge (idl_challenge (dlp_proofs p ! (i + 32)))" and "length (dlp_proofs p) = 64"
    using assms(1) by (auto simp: dlog_verify_def dlog_verify_round_def dlog_R_def list_all_iff
        Let_def split: if_splits dest: idl_verify_short)
  with k all [of k] all [of "k - 32"] show ?thesis by (cases "k < 32") auto
qed

lemma dlog_commitment_msg_length:
  assumes "suite_ok S" and "dlog_verify S p sid"
  shows "length (dlog_commitment_msg S p) \<le> 5000"
proof -
  have len: "length (dlp_proofs p) = 64" "length (rand_commitments p) = 64"
    using assms(2) by (auto simp: dlog_verify_def dlog_R_def split: if_splits)
  have "(\<Sum>x \<leftarrow> dlp_proofs p. length (idl_challenge x)) \<le> (\<Sum>x \<leftarrow> dlp_proofs p. 4)"
    using dlog_verify_challenges [OF assms(2)]
    by (intro sum_list_mono) (simp add: short_challenge_def dlog_T_def)
  with len assms(1) show ?thesis
    by (simp add: dlog_commitment_msg_def length_concat comp_def len_simps sum_list_triv)
qed

lemma dlog_prove_commit_verifies:
  fixes S :: "('s::field, 'p::ab_group_add) suite"
  assumes "suite_ok S" "coins_ok coins" "w \<noteq> 0" "dlog_prove_commit S coins w sid = Inr (p, c)"
  shows "dlog_verify S p sid \<and> dlog_decommit_verify S p c sid \<and>
    dlp_point p = pmul S (generator S) w"
proof -
  have p: "dlog_prove S coins w sid = Inr p"
    and c: "c = tagged_hash S TAG_DLOG_PROOF_COMMITMENT [sid, dlog_commitment_msg S p]"
    using assms(4) by (auto simp: dlog_prove_commit_def rbind_Inr_iff)
  have "dlp_point p = pmul S (generator S) w"
    using p by (rule dlog_prove_shape) simp
  with dlog_prove_verifies [OF assms(1-3) p] show ?thesis
    by (simp add: dlog_decommit_verify_def c)
qed

text \<open>An honest Fischlin proof verifies.  Whenever \<open>prove_commit\<close> returns a proof for a nonzero
  witness, with 64 different nonzero nonces and challenges of 4 bytes, \<open>verify\<close> accepts it under
  the same session id and \<open>decommit_verify\<close> accepts it against the commitment.\<close>

theorem dlog_proof_complete:
  fixes S :: "('s::field, 'p::ab_group_add) suite"
  assumes "suite_ok S" and "coins_ok coins" and "w \<noteq> 0"
    and "dlog_prove_commit S coins w sid = Inr (p, c)"
  shows "dlog_verify S p sid \<and> dlog_decommit_verify S p c sid \<and>
    dlp_point p = pmul S (generator S) w"
  using assms by (rule dlog_prove_commit_verifies)

definition sample_coins :: "byte \<Rightarrow> gf257 fischlin_coins" where
  "sample_coins b = \<lparr>step1_states = map of_nat [1..<65], first_samples = \<lambda>i a. [0, 0, 0, b],
     second_samples = \<lambda>i a c. [0, 0, 1, b]\<rparr>"

lemma sample_coins_ok: "coins_ok (sample_coins b)"
proof -
  have inj: "inj_on (of_nat :: nat \<Rightarrow> gf257) {..<65}"
    by (auto simp: inj_on_def of_nat_small_inj [OF sample_suite_ok])
  show ?thesis
    unfolding coins_ok_def dlog_R_def dlog_T_def sample_coins_def
    using inj of_nat_small_inj [OF sample_suite_ok, of 0]
    by (auto simp: distinct_map inj_on_def)
qed

lemma sample_prove_commit:
  assumes "\<And>m. d m = c0"
  shows "\<exists>p c. dlog_prove_commit (sample_suite\<lparr>sha256 := d\<rparr>) (sample_coins b) w sid = Inr (p, c)"
proof -
  let ?S = "sample_suite\<lparr>sha256 := d\<rparr>"
  have "round_hit ?S (sample_coins b) w sid i 0 0" for i
    by (simp add: round_hit_def fischlin_hash_def tagged_hash_def hash_bytes_def Let_def assms)
  moreover have "0 < u16_MAX" by (simp add: u16_MAX_def)
  ultimately have "\<not> dlog_prove ?S (sample_coins b) w sid = Inl e" for e
    unfolding dlog_prove_Inl_iff by blast
  then obtain p where "dlog_prove ?S (sample_coins b) w sid = Inr p"
    by (metis sum.exhaust)
  then show ?thesis by (simp add: dlog_prove_commit_def)
qed

lemma dlog_proof_complete_witness:
  "\<exists>p c. dlog_verify (sample_suite\<lparr>sha256 := \<lambda>_. replicate 32 0\<rparr>) p [1] \<and>
    dlog_decommit_verify (sample_suite\<lparr>sha256 := \<lambda>_. replicate 32 0\<rparr>) p c [1] \<and>
    dlp_point p = 5"
proof -
  let ?S = "sample_suite\<lparr>sha256 := \<lambda>_. replicate 32 0\<rparr>"
  obtain p c where r: "dlog_prove_commit ?S (sample_coins 7) 5 [1] = Inr (p, c)"
    using sample_prove_commit [of "\<lambda>_. replicate 32 0" "replicate 32 0"] by blast
  have "suite_ok ?S" by (rule sample_hash_ok) simp
  from dlog_proof_complete [OF this sample_coins_ok _ r] show ?thesis
    by (auto simp: gf_eq_iff)
qed

lemma dlog_decommit_binding_witness:
  "\<exists>p q. dlp_point p = 5 \<and> dlp_point q = 6 \<and>
    collision (sample_suite\<lparr>sha256 := \<lambda>_. replicate 32 0\<rparr>)
      (encode_tagged TAG_DLOG_PROOF_COMMITMENT
        [[1], dlog_commitment_msg (sample_suite\<lparr>sha256 := \<lambda>_. replicate 32 0\<rparr>) p])
      (encode_tagged TAG_DLOG_PROOF_COMMITMENT
        [[1], dlog_commitment_msg (sample_suite\<lparr>sha256 := \<lambda>_. replicate 32 0\<rparr>) q])"
proof -
  let ?S = "sample_suite\<lparr>sha256 := \<lambda>_. replicate 32 0\<rparr>"
  have S: "suite_ok ?S" by (rule sample_hash_ok) simp
  obtain p c q d where r: "dlog_prove_commit ?S (sample_coins 7) 5 [1] = Inr (p, c)"
    "dlog_prove_commit ?S (sample_coins 7) 6 [1] = Inr (q, d)"
    using sample_prove_commit [of "\<lambda>_. replicate 32 0" "replicate 32 0"] by blast
  have v: "dlog_verify ?S p [1]" "dlog_decommit_verify ?S p c [1]" "dlp_point p = 5"
    "dlog_verify ?S q [1]" "dlog_decommit_verify ?S q d [1]" "dlp_point q = 6"
    using dlog_prove_commit_verifies [OF S sample_coins_ok _ r(1)]
      dlog_prove_commit_verifies [OF S sample_coins_ok _ r(2)] by (simp_all add: gf_eq_iff)
  have "c = d"
    using r by (auto simp: dlog_prove_commit_def tagged_hash_def hash_bytes_def res_simps)
  moreover have "length (dlog_commitment_msg ?S p) \<le> 5000" "length (dlog_commitment_msg ?S q) \<le> 5000"
    using dlog_commitment_msg_length [OF S] v by blast+
  moreover have "(5 :: gf257) \<noteq> 6" by (simp add: gf_eq_iff)
  ultimately show ?thesis
    using dlog_decommit_binding [OF S, of p c "[1]" q] v by (intro exI [of _ p] exI [of _ q]) simp
qed

section \<open>The encryption proof\<close>

record ('s, 'p) enc_proof =
  proof0 :: "('s, 'p) cp_proof"
  proof1 :: "('s, 'p) cp_proof"
  commitments0 :: "'p random_commitments"
  commitments1 :: "'p random_commitments"
  challenge0 :: 's
  challenge1 :: 's

text \<open>The nonce Step 1 of the real proof accepted, and the sampled challenge and response of the
  simulated one.\<close>

record 's enc_coins =
  real_nonce :: 's
  fake_challenge :: 's
  fake_response :: 's

definition enc_challenge ::
  "('s, 'p) suite \<Rightarrow> bytes \<Rightarrow> 'p \<Rightarrow> 'p \<Rightarrow> 'p \<Rightarrow> 'p \<Rightarrow> 'p random_commitments \<Rightarrow>
     'p random_commitments \<Rightarrow> 's" where
  "enc_challenge S session_id g h u v rcs0 rcs1 =
     tagged_hash_as_scalar S TAG_ENCPROOF_FS [session_id,
       concat (map (point_to_bytes S) [g, h, u, v, rc_g rcs0, rc_h rcs0, rc_g rcs1, rc_h rcs1])]"

definition enc_prove ::
  "('s::field, 'p::ab_group_add) suite \<Rightarrow> 's enc_coins \<Rightarrow> bytes \<Rightarrow> 'p \<Rightarrow> 's \<Rightarrow> bool \<Rightarrow>
     ('s, 'p) enc_proof" where
  "enc_prove S coins session_id h scalar choice =
     (let g = generator S;
          u = pmul S h scalar;
          g_times_scalar = pmul S g scalar;
          v_if_true = g_times_scalar + h;
          v_if_false = g_times_scalar;
          fake_v_if_true = v_if_true;
          fake_v_if_false = g_times_scalar - h;
          (v, fake_v) = (if choice then (v_if_true, fake_v_if_true) else (v_if_false, fake_v_if_false));
          real_commitments = cp_commit S g h (real_nonce coins);
          (fake_commitments, fake_chal, fake_proof) =
            cp_simulate S g h fake_v u (fake_challenge coins) (fake_response coins);
          challenge = (if choice then enc_challenge S session_id g h u v fake_commitments real_commitments
                       else enc_challenge S session_id g h u v real_commitments fake_commitments);
          real_challenge = challenge - fake_chal;
          real_proof = cp_prove_step2 S g h scalar (real_nonce coins) real_challenge
      in if choice then
           \<lparr>proof0 = fake_proof, proof1 = real_proof,
            commitments0 = fake_commitments, commitments1 = real_commitments,
            challenge0 = fake_chal, challenge1 = real_challenge\<rparr>
         else
           \<lparr>proof0 = real_proof, proof1 = fake_proof,
            commitments0 = real_commitments, commitments1 = fake_commitments,
            challenge0 = real_challenge, challenge1 = fake_chal\<rparr>)"

definition enc_verify ::
  "('s::field, 'p::ab_group_add) suite \<Rightarrow> ('s, 'p) enc_proof \<Rightarrow> bytes \<Rightarrow> bool" where
  "enc_verify S prf session_id =
     (if base_g (proof0 prf) \<noteq> generator S
         \<or> base_g (proof0 prf) \<noteq> base_g (proof1 prf)
         \<or> base_h (proof0 prf) \<noteq> base_h (proof1 prf)
         \<or> point_v (proof0 prf) \<noteq> point_v (proof1 prf)
         \<or> point_u (proof0 prf) \<noteq> point_u (proof1 prf) + base_h (proof1 prf)
      then False
      else
        let expected_challenge = enc_challenge S session_id (base_g (proof0 prf)) (base_h (proof0 prf))
              (point_v (proof0 prf)) (point_u (proof0 prf)) (commitments0 prf) (commitments1 prf)
        in if expected_challenge \<noteq> challenge0 prf + challenge1 prf then False
           else cp_verify S (proof0 prf) (commitments0 prf) (challenge0 prf) \<and>
                cp_verify S (proof1 prf) (commitments1 prf) (challenge1 prf))"

definition get_u_and_v :: "('s, 'p) enc_proof \<Rightarrow> 'p \<times> 'p" where
  "get_u_and_v prf = (point_v (proof0 prf), point_u (proof0 prf))"

lemma enc_prove_u_v:
  "get_u_and_v (enc_prove S coins sid h w choice) =
     (pmul S h w, if choice then pmul S (generator S) w + h else pmul S (generator S) w)"
  by (simp add: enc_prove_def get_u_and_v_def cp_simulate_def cp_prove_step2_def Let_def)

lemma enc_prove_bases:
  "base_h (proof0 (enc_prove S coins sid h w choice)) = h"
  "base_g (proof0 (enc_prove S coins sid h w choice)) = generator S"
  by (simp_all add: enc_prove_def cp_simulate_def cp_prove_step2_def Let_def)

lemma enc_prove_commitments:
  "commitments0 (enc_prove S coins sid h w False) = cp_commit S (generator S) h (real_nonce coins)"
  "commitments1 (enc_prove S coins sid h w False) = fst (cp_simulate S (generator S) h
     (pmul S (generator S) w - h) (pmul S h w) (fake_challenge coins) (fake_response coins))"
  by (simp_all add: enc_prove_def cp_simulate_def Let_def)

text \<open>The degenerate samples an honest receiver must avoid: its base point, its scalar or the
  simulated statement at infinity.\<close>

definition choice_ok :: "('s::field, 'p::ab_group_add) suite \<Rightarrow> 'p \<Rightarrow> 's \<Rightarrow> bool \<Rightarrow> bool" where
  "choice_ok S h r choice \<longleftrightarrow> h \<noteq> 0 \<and> r \<noteq> 0 \<and>
     (if choice then pmul S (generator S) r + h else pmul S (generator S) r - h) \<noteq> 0"

lemma enc_prove_verifies:
  fixes S :: "('s::field, 'p::ab_group_add) suite"
  assumes "suite_ok S" and "choice_ok S h w choice"
  shows "enc_verify S (enc_prove S coins sid h w choice) sid"
proof -
  have nz: "pmul S (generator S) w \<noteq> 0" "pmul S h w \<noteq> 0"
    using assms by (simp_all add: choice_ok_def pmul_eq_0_iff generator_nonzero)
  show ?thesis
    using nz assms unfolding choice_ok_def
    by (cases choice) (simp_all add: enc_prove_def enc_verify_def cp_simulate_def cp_prove_step2_def
        cp_verify_def cp_commit_def honest_equation Let_def)
qed

text \<open>An honest encryption proof verifies for either value of the choice bit.  The code rejects
  points at infinity, so the witness and the base are nonzero and the simulated statement must
  not fall on the point at infinity.\<close>

theorem enc_proof_complete:
  fixes S :: "('s::field, 'p::ab_group_add) suite"
  assumes "suite_ok S" and "h \<noteq> 0" and "w \<noteq> 0"
    and "(if choice then pmul S (generator S) w + h else pmul S (generator S) w - h) \<noteq> 0"
  shows "enc_verify S (enc_prove S coins sid h w choice) sid"
  using assms by (intro enc_prove_verifies) (simp_all add: choice_ok_def)

lemma enc_proof_complete_witness:
  "enc_verify sample_suite (enc_prove sample_suite
     \<lparr>real_nonce = 3, fake_challenge = 11, fake_response = 20\<rparr> [4] 9 6 True) [4]"
  by (rule enc_proof_complete) (simp_all add: sample_suite_ok gf_eq_iff)

text \<open>C34: two accepted encryption proofs with the same commitments whose Fiat-Shamir challenges
  differ reveal a witness: the prover knows the scalar behind \<open>v\<close> or the one behind \<open>v - h\<close>,
  with the same scalar behind \<open>u\<close>.\<close>

theorem enc_proof_or_soundness:
  fixes S :: "('s::field, 'p::ab_group_add) suite"
  assumes "suite_ok S" and "enc_verify S p sid" and "enc_verify S q sid'"
    and "get_u_and_v p = (u, v)" and "get_u_and_v q = (u, v)"
    and "base_h (proof0 p) = h" and "base_h (proof0 q) = h"
    and "commitments0 p = commitments0 q" and "commitments1 p = commitments1 q"
    and "challenge0 p + challenge1 p \<noteq> challenge0 q + challenge1 q"
  shows "\<exists>w. u = pmul S h w \<and> (v = pmul S (generator S) w \<or> v = pmul S (generator S) w + h)"
proof -
  let ?g = "generator S"
  note facts = assms(2-9) [unfolded enc_verify_def get_u_and_v_def cp_verify_def Let_def]
  have "challenge0 p \<noteq> challenge0 q \<or> challenge1 p \<noteq> challenge1 q"
    using assms(10) by auto
  then show ?thesis
  proof
    assume c: "challenge0 p \<noteq> challenge0 q"
    have "v = pmul S ?g ((cp_response (proof0 p) - cp_response (proof0 q)) / (challenge0 q - challenge0 p))"
      and "u = pmul S h ((cp_response (proof0 p) - cp_response (proof0 q)) / (challenge0 q - challenge0 p))"
      using facts by (intro two_transcripts [OF assms(1) _ c]; auto split: if_splits)+
    then show ?thesis by blast
  next
    assume c: "challenge1 p \<noteq> challenge1 q"
    have "v - h = pmul S ?g ((cp_response (proof1 p) - cp_response (proof1 q)) / (challenge1 q - challenge1 p))"
      and "u = pmul S h ((cp_response (proof1 p) - cp_response (proof1 q)) / (challenge1 q - challenge1 p))"
      using facts by (intro two_transcripts [OF assms(1) _ c]; auto split: if_splits)+
    then show ?thesis by (metis diff_eq_eq)
  qed
qed

lemma enc_proof_or_soundness_witness:
  "\<exists>w. pmul sample_suite 9 w = 54 \<and>
    (pmul sample_suite 1 w = 6 \<or> pmul sample_suite 1 w + 9 = 6)"
proof -
  let ?S = "sample_suite\<lparr>sha256 := \<lambda>m. be_bytes 32 (length m)\<rparr>"
  let ?p = "\<lambda>sid. enc_prove ?S \<lparr>real_nonce = 3, fake_challenge = 11, fake_response = 20\<rparr> sid 9 6 False"
  have S: "suite_ok ?S" by (rule sample_hash_ok) simp
  have v: "enc_verify ?S (?p sid) sid" for sid
    using S by (simp add: enc_prove_def enc_verify_def cp_simulate_def cp_prove_step2_def
        cp_verify_def cp_commit_def Let_def) (simp add: gf_eq_iff)
  have sum: "challenge0 (?p sid) + challenge1 (?p sid) = gf_of_int (311 + int (length sid))"
    if "length sid < 100" for sid
  proof -
    have "length (point_to_bytes ?S P) = 33" for P using S by (rule length_point_to_bytes)
    then have "enc_challenge ?S sid g h u v c d = gf_of_int (311 + int (length sid))" for g h u v c d
      using that by (simp add: enc_challenge_def tagged_hash_as_scalar_def tagged_hash_def
          hash_bytes_def reduce_hash_to_scalar_def encode_tagged_blocks block_def TAG_ENCPROOF_FS_def
          gf_reduce_def of_be_be_bytes)
    with v [of sid] show ?thesis
      by (auto simp: enc_verify_def Let_def split: if_splits)
  qed
  have "challenge0 (?p [4]) + challenge1 (?p [4]) \<noteq> challenge0 (?p [4, 4]) + challenge1 (?p [4, 4])"
    by (simp add: sum gf_of_int_eq)
  with enc_proof_or_soundness [OF S v [of "[4]"] v [of "[4, 4]"], of "54" 6 9]
  show ?thesis
    by (simp add: enc_prove_u_v enc_prove_bases enc_prove_commitments cp_simulate_def)
qed

end
