(* ===== verification/Base_OT.thy ===== *)
theory Base_OT
  imports Proofs
begin

text \<open>
  \<open>utilities/ot.rs\<close> and \<open>utilities/ot/base.rs\<close>: the endemic oblivious transfer that seeds the
  OT extension, single and batched.  The scalar the sender's loop accepted, the seed and the
  scalars the receiver samples are arguments.  The lemmas show that both parties of an honest
  batch return, and that the receiver obtains exactly the message of its choice bit.
\<close>

section \<open>Errors\<close>

datatype ot_error_kind = ConsistencyFailure | MalformedMessage

record error_ot =
  ot_description :: string
  ot_kind :: ot_error_kind

definition ErrorOT_malformed :: "string \<Rightarrow> error_ot" where
  "ErrorOT_malformed d = \<lparr>ot_description = d, ot_kind = MalformedMessage\<rparr>"

definition ErrorOT_consistency :: "string \<Rightarrow> error_ot" where
  "ErrorOT_consistency d = \<lparr>ot_description = d, ot_kind = ConsistencyFailure\<rparr>"

lemma ErrorOT_kind [simp]:
  "ot_kind (ErrorOT_malformed d) = MalformedMessage"
  "ot_kind (ErrorOT_consistency d) = ConsistencyFailure"
  by (simp_all add: ErrorOT_malformed_def ErrorOT_consistency_def)

section \<open>Sender\<close>

record ('s, 'p) ot_sender =
  ots_s :: 's
  ots_proof :: "('s, 'p) dlog_proof"

record ot_receiver =
  otr_seed :: bytes

text \<open>\<open>s\<close> is the nonzero scalar the sampling loop returned; \<open>None\<close> is the panic of the
  \<open>expect\<close> on an exhausted proof search.\<close>

definition ot_sender_init ::
  "('s::field, 'p) suite \<Rightarrow> 's \<Rightarrow> 's fischlin_coins \<Rightarrow> bytes \<Rightarrow> ('s, 'p) ot_sender option" where
  "ot_sender_init S s coins session_id =
     (case dlog_prove S coins s session_id of
        Inl e \<Rightarrow> None | Inr prf \<Rightarrow> Some \<lparr>ots_s = s, ots_proof = prf\<rparr>)"

definition ot_sender_phase1 :: "('s, 'p) ot_sender \<Rightarrow> ('s, 'p) dlog_proof" where
  "ot_sender_phase1 sender0 = ots_proof sender0"

definition base_ot_h :: "('s, 'p) suite \<Rightarrow> bytes \<Rightarrow> bytes \<Rightarrow> 'p" where
  "base_ot_h S session_id seed0 =
     pmul S (generator S) (tagged_hash_as_scalar S TAG_OT_BASE_H [session_id, seed0])"

definition ot_sender_phase2 ::
  "('s::field, 'p::ab_group_add) suite \<Rightarrow> ('s, 'p) ot_sender \<Rightarrow> bytes \<Rightarrow> bytes \<Rightarrow>
     ('s, 'p) enc_proof \<Rightarrow> error_ot + bytes \<times> bytes" where
  "ot_sender_phase2 S sender0 session_id seed0 prf =
     (let h = base_ot_h S session_id seed0;
          verification = enc_verify S prf session_id
      in if \<not> verification \<or> h \<noteq> base_h (proof0 prf)
         then Inl (ErrorOT_malformed ''Receiver cheated in OT: Encryption proof failed!'')
         else let v = snd (get_u_and_v prf);
                  value_for_m0 = pmul S v (ots_s sender0);
                  value_for_m1 = pmul S (v - h) (ots_s sender0)
              in Inr (tagged_hash S TAG_OT_BASE_MSG [session_id, point_to_bytes S value_for_m0],
                      tagged_hash S TAG_OT_BASE_MSG [session_id, point_to_bytes S value_for_m1]))"

text \<open>\<open>u16::try_from\<close> on a length, and the session id of one iteration.\<close>

definition batch_too_large :: error_ot where
  "batch_too_large = ErrorOT_malformed ''Batch size exceeds maximum (65535)''"

definition check_batch :: "'a list \<Rightarrow> error_ot + nat" where
  "check_batch xs = (if length xs \<le> u16_MAX then Inr (length xs) else Inl batch_too_large)"

definition batch_sid :: "nat \<Rightarrow> bytes \<Rightarrow> bytes" where
  "batch_sid i session_id = be16 (word_of_nat i) @ session_id"

definition ot_sender_phase2_batch ::
  "('s::field, 'p::ab_group_add) suite \<Rightarrow> ('s, 'p) ot_sender \<Rightarrow> bytes \<Rightarrow> bytes \<Rightarrow>
     ('s, 'p) enc_proof list \<Rightarrow> error_ot + bytes list \<times> bytes list" where
  "ot_sender_phase2_batch S sender0 session_id seed0 enc_proofs =
     rbind (check_batch enc_proofs) (\<lambda>batch_size.
       rbind (map_res (\<lambda>i. ot_sender_phase2 S sender0 (batch_sid i session_id) seed0 (enc_proofs ! i))
                [0..<batch_size])
         (\<lambda>ms. Inr (map fst ms, map snd ms)))"

section \<open>Receiver\<close>

definition ot_receiver_init :: "bytes \<Rightarrow> ot_receiver" where
  "ot_receiver_init sampled_seed = \<lparr>otr_seed = sampled_seed\<rparr>"

definition ot_receiver_phase1 ::
  "('s::field, 'p::ab_group_add) suite \<Rightarrow> ot_receiver \<Rightarrow> 's \<Rightarrow> 's enc_coins \<Rightarrow> bytes \<Rightarrow> bool \<Rightarrow>
     's \<times> ('s, 'p) enc_proof" where
  "ot_receiver_phase1 S receiver0 r coins session_id choice =
     (let h = base_ot_h S session_id (otr_seed receiver0)
      in (r, enc_prove S coins session_id h r choice))"

text \<open>The samples of iteration \<open>i\<close> are \<open>coins i\<close>.\<close>

definition ot_receiver_phase1_batch ::
  "('s::field, 'p::ab_group_add) suite \<Rightarrow> ot_receiver \<Rightarrow> (nat \<Rightarrow> 's \<times> 's enc_coins) \<Rightarrow> bytes \<Rightarrow>
     bool list \<Rightarrow> error_ot + 's list \<times> ('s, 'p) enc_proof list" where
  "ot_receiver_phase1_batch S receiver0 coins session_id bits =
     rbind (check_batch bits) (\<lambda>batch_size.
       let rs = map (\<lambda>i. ot_receiver_phase1 S receiver0 (fst (coins i)) (snd (coins i))
                       (batch_sid i session_id) (bits ! i)) [0..<batch_size]
       in Inr (map fst rs, map snd rs))"

definition ot_receiver_phase2_step1 ::
  "('s::field, 'p::ab_group_add) suite \<Rightarrow> bytes \<Rightarrow> ('s, 'p) dlog_proof \<Rightarrow> error_ot + 'p" where
  "ot_receiver_phase2_step1 S session_id dlog =
     (let verification = dlog_verify S dlog session_id
      in if \<not> verification
         then Inl (ErrorOT_malformed ''Sender cheated in OT: Proof of discrete logarithm failed!'')
         else Inr (dlp_point dlog))"

definition ot_receiver_phase2_step2 :: "('s, 'p) suite \<Rightarrow> bytes \<Rightarrow> 's \<Rightarrow> 'p \<Rightarrow> bytes" where
  "ot_receiver_phase2_step2 S session_id r z =
     (let value_for_mb = pmul S z r
      in tagged_hash S TAG_OT_BASE_MSG [session_id, point_to_bytes S value_for_mb])"

definition ot_receiver_phase2_batch ::
  "('s::field, 'p::ab_group_add) suite \<Rightarrow> bytes \<Rightarrow> 's list \<Rightarrow> ('s, 'p) dlog_proof \<Rightarrow>
     error_ot + bytes list" where
  "ot_receiver_phase2_batch S session_id vec_r dlog =
     rbind (ot_receiver_phase2_step1 S session_id dlog) (\<lambda>z.
       rbind (check_batch vec_r) (\<lambda>batch_size.
         Inr (map (\<lambda>i. ot_receiver_phase2_step2 S (batch_sid i session_id) (vec_r ! i) z)
                [0..<batch_size])))"

section \<open>Correctness\<close>

lemma check_batch_Inr [res_simps]: "check_batch xs = Inr n \<longleftrightarrow> n = length xs \<and> length xs \<le> u16_MAX"
  by (auto simp: check_batch_def)

lemma base_ot_single:
  fixes S :: "('s::field, 'p::ab_group_add) suite"
  assumes "suite_ok S" and "choice_ok S (base_ot_h S sid sd) r choice"
    and "ot_receiver_phase1 S \<lparr>otr_seed = sd\<rparr> r coins sid choice = (r', prf)"
  shows "\<exists>m. ot_sender_phase2 S snd0 sid sd prf = Inr m \<and>
    ot_receiver_phase2_step2 S sid r' (pmul S (generator S) (ots_s snd0)) =
      (if choice then snd m else fst m)"
proof -
  let ?h = "base_ot_h S sid sd"
  have p: "prf = enc_prove S coins sid ?h r choice" "r' = r"
    using assms(3) by (auto simp: ot_receiver_phase1_def Let_def)
  have "enc_verify S prf sid"
    using enc_prove_verifies [OF assms(1,2)] by (simp add: p)
  moreover have "snd (get_u_and_v prf) =
      (if choice then pmul S (generator S) r + ?h else pmul S (generator S) r)"
    by (simp add: p enc_prove_u_v)
  ultimately show ?thesis
    using assms(1) by (auto simp: ot_sender_phase2_def ot_receiver_phase2_step2_def Let_def p
        enc_prove_bases pmul_pmul mult.commute)
qed

definition batch_ok ::
  "('s::field, 'p::ab_group_add) suite \<Rightarrow> bytes \<Rightarrow> bytes \<Rightarrow> (nat \<Rightarrow> 's \<times> 's enc_coins) \<Rightarrow>
     bool list \<Rightarrow> bool" where
  "batch_ok S sid sd coins bits \<longleftrightarrow> length bits \<le> u16_MAX \<and>
     (\<forall>i < length bits. choice_ok S (base_ot_h S (batch_sid i sid) sd) (fst (coins i)) (bits ! i))"

lemma base_ot_batch:
  fixes S :: "('s::field, 'p::ab_group_add) suite"
  assumes "suite_ok S" and "dlog_verify S dlog sid"
    and "dlp_point dlog = pmul S (generator S) (ots_s snd0)"
    and "batch_ok S sid sd coins bits"
  shows "\<exists>rs proofs m0 m1 mb.
    ot_receiver_phase1_batch S \<lparr>otr_seed = sd\<rparr> coins sid bits = Inr (rs, proofs) \<and>
    ot_sender_phase2_batch S snd0 sid sd proofs = Inr (m0, m1) \<and>
    ot_receiver_phase2_batch S sid rs dlog = Inr mb \<and>
    length m0 = length bits \<and> length m1 = length bits \<and>
    mb = map (\<lambda>i. if bits ! i then m1 ! i else m0 ! i) [0..<length bits]"
proof -
  let ?n = "length bits"
  let ?r = "\<lambda>i. ot_receiver_phase1 S \<lparr>otr_seed = sd\<rparr> (fst (coins i)) (snd (coins i))
      (batch_sid i sid) (bits ! i)"
  let ?z = "pmul S (generator S) (ots_s snd0)"
  have n: "?n \<le> u16_MAX" using assms(4) by (simp add: batch_ok_def)
  have "\<exists>m. ot_sender_phase2 S snd0 (batch_sid i sid) sd (snd (?r i)) = Inr m \<and>
      ot_receiver_phase2_step2 S (batch_sid i sid) (fst (?r i)) ?z =
        (if bits ! i then snd m else fst m)" if "i < ?n" for i
    using base_ot_single [OF assms(1), of "batch_sid i sid" sd "fst (coins i)" "bits ! i"
        "snd (coins i)" "fst (?r i)" "snd (?r i)" snd0] assms(4) that
    by (simp add: batch_ok_def)
  then obtain m where m: "\<And>i. i < ?n \<Longrightarrow>
      ot_sender_phase2 S snd0 (batch_sid i sid) sd (snd (?r i)) = Inr (m i)"
    "\<And>i. i < ?n \<Longrightarrow> ot_receiver_phase2_step2 S (batch_sid i sid) (fst (?r i)) ?z =
        (if bits ! i then snd (m i) else fst (m i))"
    by metis
  let ?rs = "map fst (map ?r [0..<?n])" and ?ps = "map snd (map ?r [0..<?n])"
  have "ot_receiver_phase1_batch S \<lparr>otr_seed = sd\<rparr> coins sid bits = Inr (?rs, ?ps)"
    using n by (simp add: ot_receiver_phase1_batch_def check_batch_def Let_def)
  moreover have "ot_sender_phase2_batch S snd0 sid sd ?ps =
      Inr (map (fst \<circ> m) [0..<?n], map (snd \<circ> m) [0..<?n])"
  proof -
    have "map_res (\<lambda>i. ot_sender_phase2 S snd0 (batch_sid i sid) sd (?ps ! i)) [0..<?n] =
        Inr (map m [0..<?n])"
      by (rule map_res_total) (simp add: m(1))
    then show ?thesis using n by (simp add: ot_sender_phase2_batch_def check_batch_def)
  qed
  moreover have "ot_receiver_phase2_batch S sid ?rs dlog =
      Inr (map (\<lambda>i. if bits ! i then snd (m i) else fst (m i)) [0..<?n])"
    using n m(2) assms(2,3)
    by (simp add: ot_receiver_phase2_batch_def ot_receiver_phase2_step1_def check_batch_def)
  ultimately show ?thesis by (intro exI conjI) (auto intro!: map_cong)
qed

text \<open>C33: oblivious transfer, batched.  For an honest sender and receiver whose samples are not
  degenerate, all phases return, and the i-th seed the receiver obtains is the i-th message of
  the sender that its choice bit selects.\<close>

theorem base_ot_batch_correct:
  fixes S :: "('s::field, 'p::ab_group_add) suite"
  assumes "suite_ok S" and "s \<noteq> 0" and "coins_ok fcoins"
    and "ot_sender_init S s fcoins sid = Some snd0"
    and "batch_ok S sid sd coins bits"
  shows "\<exists>rs proofs m0 m1 mb.
    ot_receiver_phase1_batch S (ot_receiver_init sd) coins sid bits = Inr (rs, proofs) \<and>
    ot_sender_phase2_batch S snd0 sid sd proofs = Inr (m0, m1) \<and>
    ot_receiver_phase2_batch S sid rs (ot_sender_phase1 snd0) = Inr mb \<and>
    mb = map (\<lambda>i. if bits ! i then m1 ! i else m0 ! i) [0..<length bits]"
proof -
  have p: "dlog_prove S fcoins s sid = Inr (ots_proof snd0)" "ots_s snd0 = s"
    using assms(4) by (auto simp: ot_sender_init_def split: sum.splits)
  have "dlog_verify S (ots_proof snd0) sid"
    using assms(1,3,2) p(1) by (rule dlog_prove_verifies)
  moreover have "dlp_point (ots_proof snd0) = pmul S (generator S) (ots_s snd0)"
    using p by (auto elim: dlog_prove_shape)
  ultimately show ?thesis
    using base_ot_batch [OF assms(1) _ _ assms(5)]
    by (fastforce simp: ot_receiver_init_def ot_sender_phase1_def)
qed

lemma base_ot_batch_correct_witness:
  "\<exists>snd0 rs proofs m0 m1 mb.
    ot_sender_init (sample_suite\<lparr>sha256 := \<lambda>_. be_bytes 32 9\<rparr>) 5 (sample_coins 7) [1] = Some snd0 \<and>
    ot_receiver_phase1_batch (sample_suite\<lparr>sha256 := \<lambda>_. be_bytes 32 9\<rparr>) (ot_receiver_init [2])
      (\<lambda>i. (6, \<lparr>real_nonce = 3, fake_challenge = 11, fake_response = 20\<rparr>)) [1] [True, False] =
      Inr (rs, proofs) \<and>
    ot_sender_phase2_batch (sample_suite\<lparr>sha256 := \<lambda>_. be_bytes 32 9\<rparr>) snd0 [1] [2] proofs =
      Inr (m0, m1) \<and>
    ot_receiver_phase2_batch (sample_suite\<lparr>sha256 := \<lambda>_. be_bytes 32 9\<rparr>) [1] rs
      (ot_sender_phase1 snd0) = Inr mb \<and>
    mb = [m1 ! 0, m0 ! 1]"
proof -
  let ?S = "sample_suite\<lparr>sha256 := \<lambda>_. be_bytes 32 9\<rparr>"
  let ?c = "\<lambda>i :: nat. (6, \<lparr>real_nonce = 3, fake_challenge = 11, fake_response = 20\<rparr>)
    :: gf257 \<times> gf257 enc_coins"
  have S: "suite_ok ?S" by (rule sample_hash_ok) simp
  obtain p c where "dlog_prove_commit ?S (sample_coins 7) 5 [1] = Inr (p, c)"
    using sample_prove_commit [of "\<lambda>_. be_bytes 32 9" "be_bytes 32 9"] by blast
  then have init: "ot_sender_init ?S 5 (sample_coins 7) [1] = Some \<lparr>ots_s = 5, ots_proof = p\<rparr>"
    by (auto simp: ot_sender_init_def dlog_prove_commit_def rbind_Inr_iff)
  have h: "base_ot_h ?S sid sd = 9" for sid sd
    by (simp add: base_ot_h_def tagged_hash_as_scalar_def tagged_hash_def hash_bytes_def
        reduce_hash_to_scalar_def gf_reduce_def of_be_be_bytes gf_eq_iff)
  have ok: "batch_ok ?S [1] [2] ?c [True, False]"
    unfolding batch_ok_def h by (auto simp: choice_ok_def gf_eq_iff u16_MAX_def)
  have "(5 :: gf257) \<noteq> 0" by (simp add: gf_eq_iff)
  from base_ot_batch_correct [OF S this sample_coins_ok init ok] init
  show ?thesis by (auto simp: upt_rec)
qed

end
