(* ===== verification/Field_Mul.thy ===== *)
theory Field_Mul
  imports Base_OT
begin

text \<open>
  The function \<open>field_mul\<close> of \<open>utilities/ot/extension.rs\<close>: multiplication in the field of
  \<open>2^208\<close> elements by the right-to-left comb method on 64-bit limbs, with its reduction modulo
  \<open>X^208 + X^9 + X^3 + X + 1\<close>.  A polynomial over the two-element field is the number whose
  bits are its coefficients.  The lemmas relate every loop to the carry-less product \<open>clmul\<close>
  and show that the result is congruent to the product and has degree less than 208.
\<close>

section \<open>Constants and the algorithm\<close>

definition OT_SECURITY :: nat where "OT_SECURITY = 208"

definition OT_BYTES :: nat where "OT_BYTES = OT_SECURITY div 8"

text \<open>\<open>a[i >> 3] |= u64::from(left[i]) << ((i & 7) << 3)\<close>\<close>

definition load_limbs :: "nat \<Rightarrow> bytes \<Rightarrow> nat \<Rightarrow> u64 list" where
  "load_limbs len_a src len_src =
     foldl (\<lambda>a i. a[i div 8 := a ! (i div 8) OR push_bit ((i mod 8) * 8) (ucast (src ! i))])
       (replicate len_a 0) [0..<len_src]"

text \<open>One row of the comb, \<open>c[j + i] ^= b[i] & mask\<close>, and the rows of the four limbs of \<open>a\<close>.\<close>

definition comb_row :: "u64 list \<Rightarrow> u64 list \<Rightarrow> nat \<Rightarrow> u64 list \<Rightarrow> nat \<Rightarrow> u64 list" where
  "comb_row a b k c j =
     (let bit0 = drop_bit k (a ! j) AND 1; mask = 0 - bit0
      in foldl (\<lambda>c i. c[j + i := c ! (j + i) XOR (b ! i AND mask)]) c [0..<5])"

definition shift_limbs :: "nat \<Rightarrow> u64 list \<Rightarrow> u64 list" where
  "shift_limbs k b =
     (let b' = (if k \<noteq> 63 then
                  foldl (\<lambda>b i. b[i := push_bit 1 (b ! i) OR drop_bit 63 (b ! (i - 1))]) b (rev [1..<5])
                else b)
      in b'[0 := push_bit 1 (b' ! 0)])"

definition comb_step :: "u64 list \<Rightarrow> u64 list \<times> u64 list \<Rightarrow> nat \<Rightarrow> u64 list \<times> u64 list" where
  "comb_step a bc k = (case bc of (b, c) \<Rightarrow> (shift_limbs k b, foldl (comb_row a b k) c [0..<4]))"

definition reduce_block :: "u64 list \<Rightarrow> nat \<Rightarrow> u64 list" where
  "reduce_block c i =
     (let t = c ! i;
          c1 = c[i - 4 := c ! (i - 4) XOR
                 (push_bit 57 t XOR push_bit 51 t XOR push_bit 49 t XOR push_bit 48 t)];
          c2 = c1[i - 3 := c1 ! (i - 3) XOR
                 (drop_bit 7 t XOR drop_bit 13 t XOR drop_bit 15 t XOR drop_bit 16 t)]
      in c2[i := 0])"

definition reduce_last :: "u64 list \<Rightarrow> u64 list" where
  "reduce_last c =
     (let t = drop_bit 16 (c ! 3);
          c1 = c[0 := c ! 0 XOR (push_bit 9 t XOR push_bit 3 t XOR push_bit 1 t XOR t)]
      in c1[3 := c1 ! 3 AND 0xFFFF])"

definition store_limbs :: "u64 list \<Rightarrow> bytes" where
  "store_limbs c = map (\<lambda>i. ucast (drop_bit ((i mod 8) * 8) (c ! (i div 8)) AND 0xFF)) [0..<OT_BYTES]"

definition field_mul :: "bytes \<Rightarrow> bytes \<Rightarrow> error_ot + bytes" where
  "field_mul left right =
     (if length left \<noteq> OT_BYTES \<or> length right \<noteq> OT_BYTES then
        Inl (ErrorOT_malformed ''Binary field multiplication: entries don't have the correct length'')
      else
        let a = load_limbs 4 left OT_BYTES;
            b = load_limbs 5 right OT_BYTES;
            c = snd (foldl (comb_step a) (b, replicate 8 0) [0..<64]);
            c' = foldl reduce_block c (rev [4..<8])
        in Inr (store_limbs (reduce_last c')))"

section \<open>Carry-less products\<close>

fun clmul :: "nat \<Rightarrow> nat \<Rightarrow> nat" where
  "clmul a b = (if a = 0 then 0 else (if odd a then b else 0) XOR push_bit 1 (clmul (a div 2) b))"

declare clmul.simps [simp del]

lemma clmul_0 [simp]: "clmul 0 b = 0"
  by (subst clmul.simps) simp

lemma clmul_rec: "clmul a b = (if odd a then b else 0) XOR push_bit 1 (clmul (a div 2) b)"
  by (cases "a = 0") (simp, subst clmul.simps, simp)

lemma push_bit_xor_nat: "push_bit n (a XOR b) = push_bit n a XOR push_bit n (b :: nat)"
  by (rule bit_eqI) (auto simp: bit_simps)

lemma xor_cancel_nat [simp]: "a XOR (a XOR b) = (b :: nat)"
  by (simp flip: xor.assoc)

lemma xor_div_2: "(a XOR b) div 2 = (a div 2) XOR (b div 2 :: nat)"
  by (rule bit_eqI) (auto simp: bit_simps simp flip: bit_Suc)

lemma clmul_xor: "clmul (a XOR a') b = clmul a b XOR clmul a' b"
proof (induction "a + a'" arbitrary: a a' rule: less_induct)
  case less
  show ?case
  proof (cases "a = 0 \<or> a' = 0")
    case True
    then show ?thesis by auto
  next
    case False
    then have "a div 2 + a' div 2 < a + a'" by (simp add: add_less_mono)
    from less [OF this]
    have "clmul ((a XOR a') div 2) b = clmul (a div 2) b XOR clmul (a' div 2) b"
      by (simp add: xor_div_2)
    then show ?thesis
      by (subst (1 2 3) clmul_rec) (auto simp: push_bit_xor_nat even_xor_iff ac_simps)
  qed
qed

lemma clmul_push: "clmul (push_bit n a) b = push_bit n (clmul a b)"
proof (induction n)
  case (Suc n)
  have "clmul (push_bit 1 x) b = push_bit 1 (clmul x b)" for x
    by (subst clmul_rec) simp
  from this [of "push_bit n a"] Suc show ?case by (simp add: push_bit_push_bit)
qed simp

lemma clmul_of_bool: "clmul (of_bool x) b = (if x then b else 0)"
  by (subst clmul_rec) auto

lemma clmul_xor_right: "clmul a (b XOR b') = clmul a b XOR clmul a b'"
proof (induction a rule: less_induct)
  case (less a)
  show ?case
  proof (cases "a = 0")
    case False
    with less [of "a div 2"] show ?thesis
      by (subst (1 2 3) clmul_rec) (auto simp: push_bit_xor_nat ac_simps)
  qed simp
qed

lemma clmul_push_right: "clmul a (push_bit n b) = push_bit n (clmul a b)"
proof (induction a rule: less_induct)
  case (less a)
  show ?case
  proof (cases "a = 0")
    case False
    with less [of "a div 2"] show ?thesis
      by (subst (1 2) clmul_rec) (auto simp: push_bit_xor_nat push_bit_push_bit add.commute)
  qed simp
qed

lemma clmul_1_right: "clmul a 1 = a"
proof (induction a rule: less_induct)
  case (less a)
  show ?case
  proof (cases "a = 0")
    case False
    with less [of "a div 2"] have "clmul a 1 = of_bool (odd a) XOR push_bit 1 (a div 2)"
      by (subst clmul_rec) auto
    also have "\<dots> = a"
      by (auto simp: Suc_0_xor_eq) presburger+
    finally show ?thesis .
  qed simp
qed

section \<open>Limbs\<close>

text \<open>The number an array of 64-bit limbs denotes, least significant limb first.\<close>

fun lval :: "u64 list \<Rightarrow> nat" where
  "lval [] = 0"
| "lval (c # cs) = unat c XOR push_bit 64 (lval cs)"

lemma unat_xor: "unat (a XOR b) = unat a XOR unat (b :: 'a::len word)"
  by (rule bit_eqI) (auto simp: bit_simps dest: bit_imp_le_length)

lemma bit_unat: "bit (unat (w :: 'a::len word)) n \<longleftrightarrow> bit w n"
  by (auto simp: bit_simps dest: bit_imp_le_length)

lemma lval_update:
  "i < length c \<Longrightarrow> lval (c[i := c ! i XOR x]) = lval c XOR push_bit (64 * i) (unat x)"
proof (induction c arbitrary: i)
  case (Cons a c)
  show ?case
  proof (cases i)
    case 0
    then show ?thesis by (simp add: unat_xor ac_simps)
  next
    case (Suc j)
    with Cons show ?thesis by (simp add: push_bit_xor_nat push_bit_push_bit ac_simps)
  qed
qed simp

lemma lval_zero [simp]: "lval (replicate n 0) = 0"
  by (induction n) simp_all

lemma lval_snoc: "lval (xs @ [y]) = lval xs XOR push_bit (64 * length xs) (unat y)"
  by (induction xs) (simp_all add: push_bit_xor_nat push_bit_push_bit ac_simps)

lemma bit_lval: "bit (lval c) m \<longleftrightarrow> m div 64 < length c \<and> bit (c ! (m div 64)) (m mod 64)"
proof (induction c arbitrary: m)
  case (Cons a c)
  show ?case
  proof (cases "m < 64")
    case True
    then show ?thesis by (simp add: bit_simps bit_unat)
  next
    case False
    then have "m div 64 = Suc ((m - 64) div 64)" "m mod 64 = (m - 64) mod 64"
      by (simp_all add: le_div_geq le_mod_geq)
    moreover have "\<not> bit a m" using False bit_imp_le_length [of a m] by auto
    ultimately show ?thesis using False Cons [of "m - 64"] by (simp add: bit_simps bit_unat)
  qed
qed simp

lemma nat_less_by_bits:
  assumes "\<And>m. bit (x :: nat) m \<Longrightarrow> m < n"
  shows "x < 2 ^ n"
proof -
  have "take_bit n x = x" by (rule bit_eqI) (auto simp: bit_simps assms)
  then show ?thesis by (metis take_bit_nat_less_exp)
qed

lemma not_bit_of_less: "(x :: nat) < 2 ^ n \<Longrightarrow> n \<le> m \<Longrightarrow> \<not> bit x m"
  by (metis bit_take_bit_iff not_less take_bit_nat_eq_self)

lemma lval_less: "lval c < 2 ^ (64 * length c)"
  by (rule nat_less_by_bits) (auto simp: bit_lval div_less_iff_less_mult mult.commute)

lemma lval_map_and_mask:
  "lval (map (\<lambda>x. x AND (0 - of_bool t)) b) = (if t then lval b else 0)"
  by (induction b) simp_all

lemma foldl_xor_row:
  assumes "n \<le> length b" and "j + n \<le> length c"
  shows "lval (foldl (\<lambda>c i. c[j + i := c ! (j + i) XOR (b ! i AND m)]) c [0..<n]) =
      lval c XOR push_bit (64 * j) (lval (map (\<lambda>x. x AND m) (take n b))) \<and>
    length (foldl (\<lambda>c i. c[j + i := c ! (j + i) XOR (b ! i AND m)]) c [0..<n]) = length c"
  using assms
proof (induction n)
  case (Suc n)
  let ?c = "foldl (\<lambda>c i. c[j + i := c ! (j + i) XOR (b ! i AND m)]) c [0..<n]"
  have "take (Suc n) b = take n b @ [b ! n]"
    using Suc.prems by (simp add: take_Suc_conv_app_nth)
  moreover have "lval (?c[j + n := ?c ! (j + n) XOR (b ! n AND m)]) =
      lval ?c XOR push_bit (64 * (j + n)) (unat (b ! n AND m))"
    using Suc by (intro lval_update) simp
  ultimately show ?case
    using Suc by (simp add: lval_snoc push_bit_xor_nat push_bit_push_bit distrib_left xor.assoc min_def)
qed simp

lemma comb_row_lval:
  assumes "length b = 5" and "j + 5 \<le> length c"
  shows "lval (comb_row a b k c j) =
      lval c XOR (if bit (a ! j) k then push_bit (64 * j) (lval b) else 0) \<and>
    length (comb_row a b k c j) = length c"
proof -
  have "drop_bit k (a ! j) AND 1 = of_bool (bit (a ! j) k)"
    by (simp add: and_one_eq bit_iff_odd_drop_bit mod_2_eq_odd)
  with foldl_xor_row [of 5 b j c "0 - of_bool (bit (a ! j) k)"] assms
  show ?thesis by (simp only: comb_row_def Let_def lval_map_and_mask) simp
qed

lemma shift_limb:
  "n \<le> 64 \<Longrightarrow> push_bit n (unat (x :: u64)) = unat (push_bit n x) XOR push_bit 64 (unat (drop_bit (64 - n) x))"
  by (rule bit_eqI) (auto simp: bit_simps bit_unat dest: bit_imp_le_length)

lemma shift_limb_or:
  "n \<le> 64 \<Longrightarrow> unat (push_bit n x OR drop_bit (64 - n) (y :: u64)) =
    unat (push_bit n x) XOR unat (drop_bit (64 - n) y)"
  by (rule bit_eqI) (auto simp: bit_simps bit_unat dest: bit_imp_le_length)

lemma length_foldl_update: "length (foldl (\<lambda>b i. b[f i := g b i]) b xs) = length b"
  by (induction xs arbitrary: b) simp_all

lemma length_shift_limbs: "length (shift_limbs k b) = length b"
  by (simp add: shift_limbs_def Let_def length_foldl_update)

lemma list_of_length_5:
  "length b = 5 \<Longrightarrow> b = [b ! 0, b ! 1, b ! 2, b ! 3, b ! 4]"
  by (rule nth_equalityI) (auto simp: less_Suc_eq numeral_eq_Suc)

lemma shift_limbs_lval:
  assumes "length b = 5" and "k \<noteq> 63" and "\<not> bit (b ! 4) 63"
  shows "lval (shift_limbs k b) = push_bit 1 (lval b)"
proof -
  define b0 b1 b2 b3 b4 where d: "b0 = b ! 0" "b1 = b ! 1" "b2 = b ! 2" "b3 = b ! 3" "b4 = b ! 4"
  have b: "b = [b0, b1, b2, b3, b4]" using list_of_length_5 [OF assms(1)] by (simp add: d)
  have sh: "shift_limbs k b = [push_bit 1 b0, push_bit 1 b1 OR drop_bit 63 b0,
      push_bit 1 b2 OR drop_bit 63 b1, push_bit 1 b3 OR drop_bit 63 b2, push_bit 1 b4 OR drop_bit 63 b3]"
    using assms(2) unfolding b shift_limbs_def Let_def by (simp add: upt_rec)
  have top: "drop_bit 63 b4 = 0"
  proof (rule bit_word_eqI)
    fix n
    show "bit (drop_bit 63 b4) n \<longleftrightarrow> bit (0 :: u64) n"
      using assms(3) bit_imp_le_length [of b4 "63 + n"] by (cases n) (auto simp: bit_simps d)
  qed
  have l: "push_bit 1 (unat x) = unat (push_bit 1 x) XOR push_bit 64 (unat (drop_bit 63 x))" for x :: u64
    using shift_limb [of 1 x] by simp
  have o: "unat (push_bit 1 x OR drop_bit 63 y) = unat (push_bit 1 x) XOR unat (drop_bit 63 y)"
    for x y :: u64 using shift_limb_or [of 1 x y] by simp
  have "push_bit 1 (lval b) = push_bit 1 (unat b0) XOR push_bit 64 (push_bit 1 (unat b1) XOR
      push_bit 64 (push_bit 1 (unat b2) XOR push_bit 64 (push_bit 1 (unat b3) XOR
      push_bit 64 (push_bit 1 (unat b4)))))"
  proof -
    have swap: "push_bit 1 (push_bit 64 z) = push_bit 64 (push_bit 1 z)" for z :: nat
      by (simp only: push_bit_push_bit add.commute)
    show ?thesis
      by (simp only: b lval.simps push_bit_xor_nat swap push_bit_of_0 xor.right_neutral)
  qed
  then show ?thesis
    unfolding l sh lval.simps o top
    by (simp only: push_bit_xor_nat push_bit_push_bit unsigned_0 push_bit_of_0
        xor.right_neutral xor.assoc xor.commute xor.left_commute)
qed

lemma unat_bit_at: "k < 64 \<Longrightarrow> unat (push_bit k (of_bool t) :: u64) = push_bit k (of_bool t)"
  by (rule bit_eqI) (auto simp: bit_simps bit_unat split: if_splits)

lemma list_of_length_4:
  "length b = 4 \<Longrightarrow> b = [b ! 0, b ! 1, b ! 2, b ! 3]"
  by (rule nth_equalityI) (auto simp: less_Suc_eq numeral_eq_Suc)

lemma length_comb_row: "length (comb_row a b k c j) = length c"
  by (simp add: comb_row_def Let_def length_foldl_update)

lemma comb_rows_lval:
  assumes "length a = 4" and "length b = 5" and "length c = 8" and "k < 64"
    and "lval b = push_bit k B"
  shows "lval (foldl (comb_row a b k) c [0..<4]) =
      lval c XOR clmul (lval (map (\<lambda>x. push_bit k (of_bool (bit x k))) a)) B"
proof -
  define a0 a1 a2 a3 where d: "a0 = a ! 0" "a1 = a ! 1" "a2 = a ! 2" "a3 = a ! 3"
  have a: "a = [a0, a1, a2, a3]" using list_of_length_4 [OF assms(1)] by (simp add: d)
  have "clmul (lval (map (\<lambda>x. push_bit k (of_bool (bit x k))) a)) B =
      (if bit a0 k then lval b else 0) XOR (if bit a1 k then push_bit 64 (lval b) else 0) XOR
      (if bit a2 k then push_bit 128 (lval b) else 0) XOR (if bit a3 k then push_bit 192 (lval b) else 0)"
    by (simp add: a unat_bit_at [OF assms(4)] clmul_xor clmul_push clmul_of_bool push_bit_xor_nat
        push_bit_push_bit assms(5))
  moreover have "lval (foldl (comb_row a b k) c [0..<4]) = lval c XOR
      (if bit a0 k then lval b else 0) XOR (if bit a1 k then push_bit 64 (lval b) else 0) XOR
      (if bit a2 k then push_bit 128 (lval b) else 0) XOR (if bit a3 k then push_bit 192 (lval b) else 0)"
  proof -
    have r: "lval (comb_row a b k x j) = lval x XOR (if bit (a ! j) k then push_bit (64 * j) (lval b) else 0)"
      if "length x = 8" "j < 4" for x j
      using comb_row_lval [of b j x a k] assms(2) that by simp
    have "[0..<4] = [0, 1, 2, 3 :: nat]" by (simp add: upt_rec)
    then show ?thesis using assms(3) by (simp add: r length_comb_row d xor.assoc)
  qed
  ultimately show ?thesis by (simp only: xor.assoc)
qed

lemma take_bit_Suc_xor:
  "take_bit (Suc k) (x :: u64) = take_bit k x XOR push_bit k (of_bool (bit x k))"
  by (rule bit_word_eqI) (auto simp: bit_simps less_Suc_eq)

lemma lval_map_xor: "lval (map (\<lambda>x. f x XOR g x) a) = lval (map f a) XOR lval (map g a)"
  by (induction a) (simp_all add: unat_xor push_bit_xor_nat ac_simps)

text \<open>The invariant of the comb: after \<open>k\<close> steps \<open>c\<close> holds the product of \<open>b\<close> with the low \<open>k\<close>
  bits of every limb of \<open>a\<close>.\<close>

lemma comb_loop:
  assumes "length a = 4" and "length b = 5" and "lval b < 2 ^ 256" and "k \<le> 64"
  shows "\<exists>b' c. foldl (comb_step a) (b, replicate 8 0) [0..<k] = (b', c) \<and> length b' = 5 \<and>
    length c = 8 \<and> (k < 64 \<longrightarrow> lval b' = push_bit k (lval b)) \<and>
    lval c = clmul (lval (map (take_bit k) a)) (lval b)"
  using assms(4)
proof (induction k)
  case 0
  have "lval (map (\<lambda>_. 0) xs) = 0" for xs :: "u64 list"
    by (induction xs) simp_all
  then show ?case using assms(2) by simp
next
  case (Suc k)
  then obtain b' c where ih: "foldl (comb_step a) (b, replicate 8 0) [0..<k] = (b', c)"
    "length b' = 5" "length c = 8" "lval b' = push_bit k (lval b)"
    "lval c = clmul (lval (map (take_bit k) a)) (lval b)"
    by auto
  have len: "length (foldl (comb_row a b' k) c xs) = 8" for xs
    using ih(3) by (induction xs rule: rev_induct) (simp_all add: length_comb_row)
  have "lval (foldl (comb_row a b' k) c [0..<4]) = clmul (lval (map (take_bit (Suc k)) a)) (lval b)"
    using comb_rows_lval [OF assms(1) ih(2,3) _ ih(4)] Suc.prems
    by (simp add: take_bit_Suc_xor [abs_def] lval_map_xor clmul_xor ih(5))
  moreover have "lval (shift_limbs k b') = push_bit (Suc k) (lval b)" if "Suc k < 64"
  proof -
    have "\<not> bit (lval b') 319"
    proof -
      have "\<not> bit (lval b) (319 - k)"
        by (rule not_bit_of_less [OF assms(3)]) (use that in simp)
      then show ?thesis by (simp add: ih(4) bit_simps)
    qed
    then have "\<not> bit (b' ! 4) 63" using ih(2) by (simp add: bit_lval)
    then show ?thesis
      using shift_limbs_lval [OF ih(2), of k] that ih(4) by (simp add: push_bit_push_bit)
  qed
  moreover have "foldl (comb_step a) (b, replicate 8 0) [0..<Suc k] =
      (shift_limbs k b', foldl (comb_row a b' k) c [0..<4])"
    using ih(1) by (simp add: comb_step_def)
  ultimately show ?case
    using ih(2) len
    by (intro exI [of _ "shift_limbs k b'"] exI [of _ "foldl (comb_row a b' k) c [0..<4]"])
       (simp add: length_shift_limbs)
qed

section \<open>Loading and storing\<close>

text \<open>The number a byte string denotes, least significant byte first.\<close>

fun of_le :: "bytes \<Rightarrow> nat" where
  "of_le [] = 0"
| "of_le (b # bs) = unat b XOR push_bit 8 (of_le bs)"

lemma bit_of_le: "bit (of_le c) m \<longleftrightarrow> m div 8 < length c \<and> bit (c ! (m div 8)) (m mod 8)"
proof (induction c arbitrary: m)
  case (Cons a c)
  show ?case
  proof (cases "m < 8")
    case True
    then show ?thesis by (simp add: bit_simps bit_unat)
  next
    case False
    then have "m div 8 = Suc ((m - 8) div 8)" "m mod 8 = (m - 8) mod 8"
      by (simp_all add: le_div_geq le_mod_geq)
    moreover have "\<not> bit a m" using False bit_imp_le_length [of a m] by auto
    ultimately show ?thesis using False Cons [of "m - 8"] by (simp add: bit_simps bit_unat)
  qed
qed simp

lemma of_le_xor: "length a = length b \<Longrightarrow> of_le (xor_bytes a b) = of_le a XOR of_le b"
  by (rule bit_eqI) (auto simp: bit_of_le bit_simps)

lemma of_le_inj: "of_le a = of_le b \<Longrightarrow> length a = length b \<Longrightarrow> a = b"
proof (rule nth_equalityI)
  fix i
  assume eq: "of_le a = of_le b" and len: "length a = length b" "i < length a"
  show "a ! i = b ! i"
  proof (rule bit_word_eqI)
    fix n :: nat
    assume "n < LENGTH(8)"
    then show "bit (a ! i) n = bit (b ! i) n"
      using bit_of_le [of a "8 * i + n"] bit_of_le [of b "8 * i + n"] eq len by simp
  qed
qed

lemma of_le_zero [simp]: "of_le (replicate n 0) = 0"
  by (induction n) simp_all

lemma block_div: "r * 8 \<le> q \<and> q - r * 8 < 8 \<longleftrightarrow> q div 8 = (r :: nat)"
proof
  assume "r * 8 \<le> q \<and> q - r * 8 < 8"
  then show "q div 8 = r" by (intro div_nat_eqI) auto
next
  assume "q div 8 = r"
  then show "r * 8 \<le> q \<and> q - r * 8 < 8"
    using div_mult_mod_eq [of q 8] mod_less_divisor [of 8 q] by linarith
qed

lemma load_limbs_bits:
  assumes "n \<le> 8 * len" and "n \<le> length src"
  shows "length (load_limbs len src n) = len \<and>
    (\<forall>m. bit (lval (load_limbs len src n)) m \<longleftrightarrow> m div 8 < n \<and> bit (src ! (m div 8)) (m mod 8))"
  using assms
proof (induction n)
  case 0
  then show ?case by (simp add: load_limbs_def)
next
  case (Suc n)
  let ?a = "load_limbs len src n"
  let ?x = "push_bit ((n mod 8) * 8) (ucast (src ! n)) :: u64"
  have step: "load_limbs len src (Suc n) = ?a[n div 8 := ?a ! (n div 8) OR ?x]"
    by (simp add: load_limbs_def)
  have ih: "length ?a = len" "\<And>m. bit (lval ?a) m \<longleftrightarrow> m div 8 < n \<and> bit (src ! (m div 8)) (m mod 8)"
    using Suc by auto
  have len: "n div 8 < len" using Suc.prems by (simp add: div_less_iff_less_mult mult.commute)
  show ?case
  proof (intro conjI allI)
    show "length (load_limbs len src (Suc n)) = len" by (simp add: step ih(1))
    fix m
    have x: "bit ?x q \<longleftrightarrow> q div 8 = n mod 8 \<and> bit (src ! n) (q mod 8)" if "q < 64" for q
    proof -
      have "bit ?x q \<longleftrightarrow> n mod 8 * 8 \<le> q \<and> q - n mod 8 * 8 < 8 \<and> bit (src ! n) (q - n mod 8 * 8)"
        using that bit_imp_le_length [of "src ! n" "q - n mod 8 * 8"] by (auto simp: bit_simps)
      then show ?thesis
        using block_div [of "n mod 8" q] minus_div_mult_eq_mod [of q 8] by metis
    qed
    have "bit (lval (load_limbs len src (Suc n))) m \<longleftrightarrow>
        bit (lval ?a) m \<or> (m div 64 = n div 8 \<and> bit ?x (m mod 64))"
      using len by (auto simp: bit_lval step ih(1) nth_list_update bit_simps)
    also have "\<dots> \<longleftrightarrow> bit (lval ?a) m \<or> (m div 8 = n \<and> bit (src ! n) (m mod 8))"
    proof -
      have "m div 64 = m div 8 div 8" "m mod 64 div 8 = m div 8 mod 8" "m mod 64 mod 8 = m mod 8"
        using mod_mult2_eq [of m 8 8] by (simp_all add: div_mult2_eq [of m 8 8, simplified] mod_mod_cancel)
      then have "(m div 64 = n div 8 \<and> bit ?x (m mod 64)) \<longleftrightarrow>
          (m div 8 div 8 = n div 8 \<and> m div 8 mod 8 = n mod 8 \<and> bit (src ! n) (m mod 8))"
        by (simp add: x)
      also have "\<dots> \<longleftrightarrow> (m div 8 = n \<and> bit (src ! n) (m mod 8))"
        by (metis div_mult_mod_eq)
      finally show ?thesis by simp
    qed
    finally show "bit (lval (load_limbs len src (Suc n))) m \<longleftrightarrow>
        m div 8 < Suc n \<and> bit (src ! (m div 8)) (m mod 8)"
      by (auto simp: ih(2) less_Suc_eq)
  qed
qed

lemma load_limbs_lval:
  assumes "length src \<le> 8 * len"
  shows "lval (load_limbs len src (length src)) = of_le src"
    and "length (load_limbs len src (length src)) = len"
  using load_limbs_bits [of "length src" len src] assms by (auto simp: bit_of_le bit_eq_iff)

lemma store_limbs_le:
  assumes "4 \<le> length c" and "lval c < 2 ^ 208"
  shows "of_le (store_limbs c) = lval c" and "length (store_limbs c) = OT_BYTES"
proof -
  show "length (store_limbs c) = OT_BYTES" by (simp add: store_limbs_def)
  show "of_le (store_limbs c) = lval c"
  proof (rule bit_eqI)
    fix m :: nat
    have q: "m div 8 div 8 = m div 64" "m div 8 mod 8 * 8 + m mod 8 = m mod 64"
      using mod_mult2_eq [of m 8 8] by (simp_all add: div_mult2_eq [of m 8 8, simplified])
    have byte: "bit (ucast (drop_bit k x AND 0xFF) :: byte) r \<longleftrightarrow> bit (x :: u64) (k + r)" if "r < 8" for k x r
    proof -
      have "(0xFF :: u64) = mask 8" by (simp add: mask_eq_exp_minus_1)
      then have "bit (0xFF :: u64) r" using that by (simp only: bit_mask_iff) simp
      with that show ?thesis by (simp add: bit_simps)
    qed
    show "bit (of_le (store_limbs c)) m \<longleftrightarrow> bit (lval c) m"
    proof (cases "m < 208")
      case True
      then have "m div 8 < 26" "m div 64 < 4" by simp_all
      then show ?thesis
        using assms(1) by (simp add: bit_of_le bit_lval store_limbs_def OT_BYTES_def OT_SECURITY_def byte q)
    next
      case False
      then have "\<not> m div 8 < 26" by simp
      with False show ?thesis
        using not_bit_of_less [OF assms(2)] by (simp add: bit_of_le store_limbs_def OT_BYTES_def OT_SECURITY_def)
    qed
  qed
qed

section \<open>Reduction\<close>

text \<open>\<open>f(X) = X^208 + X^9 + X^3 + X + 1\<close>\<close>

definition OT_MODULUS :: nat where
  "OT_MODULUS = push_bit 208 1 XOR push_bit 9 1 XOR push_bit 3 1 XOR push_bit 1 1 XOR 1"

lemma clmul_modulus:
  "clmul t OT_MODULUS = push_bit 208 t XOR push_bit 9 t XOR push_bit 3 t XOR push_bit 1 t XOR t"
  by (simp only: OT_MODULUS_def clmul_xor_right clmul_push_right clmul_1_right)

lemma reduce_block_lval:
  assumes "length c = 8" and "4 \<le> i" and "i < 8"
  shows "lval (reduce_block c i) =
      lval c XOR clmul (push_bit (64 * (i - 4) + 48) (unat (c ! i))) OT_MODULUS"
    and "length (reduce_block c i) = 8" and "reduce_block c i ! i = 0"
    and "i < j \<Longrightarrow> j < 8 \<Longrightarrow> reduce_block c i ! j = c ! j"
proof -
  define t X Y where d: "t = c ! i"
    "X = push_bit 57 t XOR push_bit 51 t XOR push_bit 49 t XOR push_bit 48 t"
    "Y = drop_bit 7 t XOR drop_bit 13 t XOR drop_bit 15 t XOR drop_bit 16 t"
  define c1 c2 where c: "c1 = c[i - 4 := c ! (i - 4) XOR X]" "c2 = c1[i - 3 := c1 ! (i - 3) XOR Y]"
  have r: "reduce_block c i = c2[i := c2 ! i XOR t]"
    using assms by (simp add: reduce_block_def Let_def d c)
  have "lval (reduce_block c i) = lval c XOR push_bit (64 * (i - 4)) (unat X) XOR
      push_bit (64 * (i - 3)) (unat Y) XOR push_bit (64 * i) (unat t)"
  proof -
    have "lval c1 = lval c XOR push_bit (64 * (i - 4)) (unat X)"
      unfolding c(1) using assms by (intro lval_update) simp
    moreover have "lval c2 = lval c1 XOR push_bit (64 * (i - 3)) (unat Y)"
      unfolding c(2) using assms by (intro lval_update) (simp add: c(1))
    moreover have "lval (reduce_block c i) = lval c2 XOR push_bit (64 * i) (unat t)"
      unfolding r using assms by (intro lval_update) (simp add: c)
    ultimately show ?thesis by (simp only: xor.assoc)
  qed
  moreover have "64 * (i - 3) = 64 * (i - 4) + 64" "64 * i = 64 * (i - 4) + 256"
    using assms(2) by simp_all
  ultimately have "lval (reduce_block c i) = lval c XOR
      push_bit (64 * (i - 4)) ((unat X XOR push_bit 64 (unat Y)) XOR push_bit 256 (unat t))"
    by (simp add: push_bit_xor_nat push_bit_push_bit xor.assoc)
  also have "unat X XOR push_bit 64 (unat Y) =
      push_bit 57 (unat t) XOR push_bit 51 (unat t) XOR push_bit 49 (unat t) XOR push_bit 48 (unat t)"
    using shift_limb [of 57 t] shift_limb [of 51 t] shift_limb [of 49 t] shift_limb [of 48 t]
    by (simp add: d(2,3) unat_xor push_bit_xor_nat ac_simps)
  also have "(push_bit 57 (unat t) XOR push_bit 51 (unat t) XOR push_bit 49 (unat t) XOR
      push_bit 48 (unat t)) XOR push_bit 256 (unat t) = push_bit 48 (clmul (unat t) OT_MODULUS)"
    by (simp only: clmul_modulus push_bit_xor_nat push_bit_push_bit) (simp add: ac_simps)
  finally show "lval (reduce_block c i) =
      lval c XOR clmul (push_bit (64 * (i - 4) + 48) (unat (c ! i))) OT_MODULUS"
    by (simp add: clmul_push push_bit_push_bit d(1))
  show "length (reduce_block c i) = 8" "reduce_block c i ! i = 0"
    using assms by (simp_all add: reduce_block_def Let_def)
  show "reduce_block c i ! j = c ! j" if "i < j" "j < 8"
    using assms that by (simp add: reduce_block_def Let_def)
qed

lemma lval_zeros: "(\<And>j. j < length c \<Longrightarrow> c ! j = 0) \<Longrightarrow> lval c = 0"
  by (rule bit_eqI) (simp add: bit_lval)

lemma and_low16: "x AND 0xFFFF = take_bit 16 (x :: u64)"
proof -
  have m: "(0xFFFF :: u64) = mask 16" by (simp add: mask_eq_exp_minus_1)
  show ?thesis unfolding m by (simp only: take_bit_eq_mask)
qed

lemma reduce_last_lval:
  assumes "length c = 8" and high: "\<And>j. 4 \<le> j \<Longrightarrow> j < 8 \<Longrightarrow> c ! j = 0"
  shows "lval (reduce_last c) = lval c XOR clmul (unat (drop_bit 16 (c ! 3))) OT_MODULUS"
    and "lval (reduce_last c) < 2 ^ 208" and "length (reduce_last c) = 8"
proof -
  define t X where d: "t = drop_bit 16 (c ! 3)" "X = push_bit 9 t XOR push_bit 3 t XOR push_bit 1 t XOR t"
  define c1 where c1: "c1 = c[0 := c ! 0 XOR X]"
  have small: "unat (push_bit n t) = push_bit n (unat t)" if "n \<le> 16" for n
    using that bit_imp_le_length [of "c ! 3"]
    by (intro bit_eqI) (auto simp: bit_simps bit_unat d(1), fastforce)
  have low: "x AND 0xFFFF = x XOR push_bit 16 (drop_bit 16 x)" for x :: u64
    unfolding and_low16 by (rule bit_word_eqI) (auto simp: bit_simps)
  have r: "reduce_last c = c1[3 := c1 ! 3 XOR push_bit 16 t]"
    using assms(1) by (simp add: reduce_last_def Let_def d c1 low)
  have "lval c1 = lval c XOR push_bit (64 * 0) (unat X)"
    unfolding c1 using assms(1) by (intro lval_update) simp
  moreover have "lval (reduce_last c) = lval c1 XOR push_bit (64 * 3) (unat (push_bit 16 t))"
    unfolding r using assms(1) by (intro lval_update) (simp add: c1)
  moreover have "unat X = push_bit 9 (unat t) XOR push_bit 3 (unat t) XOR push_bit 1 (unat t) XOR unat t"
    using small [of 9] small [of 3] small [of 1] by (simp add: d(2) unat_xor)
  ultimately show "lval (reduce_last c) = lval c XOR clmul (unat (drop_bit 16 (c ! 3))) OT_MODULUS"
    using small [of 16] by (simp add: clmul_modulus push_bit_push_bit d(1) ac_simps)
  show len: "length (reduce_last c) = 8"
    using assms(1) by (simp add: reduce_last_def Let_def)
  have top: "reduce_last c ! 3 = take_bit 16 (c ! 3)" "\<And>j. 4 \<le> j \<Longrightarrow> j < 8 \<Longrightarrow> reduce_last c ! j = 0"
    using assms by (simp_all add: reduce_last_def Let_def and_low16)
  show "lval (reduce_last c) < 2 ^ 208"
  proof (rule nat_less_by_bits)
    fix m
    assume "bit (lval (reduce_last c)) m"
    then have m: "m div 64 < 8" "bit (reduce_last c ! (m div 64)) (m mod 64)"
      using len by (simp_all add: bit_lval)
    then have "\<not> 4 \<le> m div 64" using top(2) [of "m div 64"] by auto
    moreover have "m div 64 = 3 \<Longrightarrow> m mod 64 < 16"
      using m(2) by (simp add: top(1) bit_simps)
    ultimately show "m < 208" using div_mult_mod_eq [of m 64] mod_less_divisor [of 64 m] by linarith
  qed
qed

text \<open>What the whole reduction adds is a multiple of the modulus.\<close>

lemma reduction:
  assumes "length c = 8"
  shows "\<exists>q. lval (reduce_last (foldl reduce_block c (rev [4..<8]))) =
      lval c XOR clmul q OT_MODULUS \<and>
    lval (reduce_last (foldl reduce_block c (rev [4..<8]))) < 2 ^ 208 \<and>
    length (reduce_last (foldl reduce_block c (rev [4..<8]))) = 8"
proof -
  note R = reduce_block_lval
  define c7 c6 c5 c4 where d: "c7 = reduce_block c 7" "c6 = reduce_block c7 6"
    "c5 = reduce_block c6 5" "c4 = reduce_block c5 4"
  have e: "foldl reduce_block c (rev [4..<8]) = c4"
    by (simp add: upt_rec d)
  have len: "length c7 = 8" "length c6 = 8" "length c5 = 8" "length c4 = 8"
    unfolding d by (simp_all add: R(2) assms)
  have "c7 ! 7 = 0" "c6 ! 6 = 0" "c5 ! 5 = 0" "c4 ! 4 = 0"
    unfolding d by (simp_all add: R(2,3) assms)
  moreover have "c6 ! 7 = c7 ! 7"
    unfolding d(2) by (simp add: R(4) len)
  moreover have "c5 ! 7 = c6 ! 7" "c5 ! 6 = c6 ! 6"
    unfolding d(3) by (simp_all add: R(4) len)
  moreover have "c4 ! 7 = c5 ! 7" "c4 ! 6 = c5 ! 6" "c4 ! 5 = c5 ! 5"
    unfolding d(4) by (simp_all add: R(4) len)
  ultimately have zero: "c4 ! 4 = 0" "c4 ! 5 = 0" "c4 ! 6 = 0" "c4 ! 7 = 0" by simp_all
  have "c4 ! j = 0" if "4 \<le> j" "j < 8" for j
  proof -
    have "j = 4 \<or> j = 5 \<or> j = 6 \<or> j = 7" using that by linarith
    then show ?thesis using zero by auto
  qed
  note L = reduce_last_lval [OF len(4) this]
  obtain q7 where q7: "lval c7 = lval c XOR clmul q7 OT_MODULUS"
    unfolding d(1) using R(1) [OF assms, of 7] by simp
  obtain q6 where q6: "lval c6 = lval c7 XOR clmul q6 OT_MODULUS"
    unfolding d(2) using R(1) [OF len(1), of 6] by simp
  obtain q5 where q5: "lval c5 = lval c6 XOR clmul q5 OT_MODULUS"
    unfolding d(3) using R(1) [OF len(2), of 5] by simp
  obtain q4 where q4: "lval c4 = lval c5 XOR clmul q4 OT_MODULUS"
    unfolding d(4) using R(1) [OF len(3), of 4] by simp
  from q7 q6 q5 q4 have "lval (reduce_last c4) = lval c XOR
      clmul (q7 XOR q6 XOR q5 XOR q4 XOR unat (drop_bit 16 (c4 ! 3))) OT_MODULUS"
    using L(1) by (simp add: clmul_xor xor.assoc)
  with L(2,3) show ?thesis unfolding e by blast
qed

section \<open>The product in the field\<close>

lemma of_le_less: "of_le b < 2 ^ (8 * length b)"
  by (rule nat_less_by_bits) (auto simp: bit_of_le div_less_iff_less_mult mult.commute)

lemma field_mul_product:
  assumes "length left = OT_BYTES" and "length right = OT_BYTES"
  shows "\<exists>r q. field_mul left right = Inr r \<and> length r = OT_BYTES \<and>
    of_le r = clmul (of_le left) (of_le right) XOR clmul q OT_MODULUS"
proof -
  let ?a = "load_limbs 4 left OT_BYTES" and ?b = "load_limbs 5 right OT_BYTES"
  have bytes: "OT_BYTES = 26" by (simp add: OT_BYTES_def OT_SECURITY_def)
  have a: "lval ?a = of_le left" "length ?a = 4" and b: "lval ?b = of_le right" "length ?b = 5"
    using load_limbs_lval [of left 4] load_limbs_lval [of right 5] assms by (simp_all add: bytes)
  have "of_le right < 2 ^ 256"
    using of_le_less [of right] assms(2) by (auto simp: bytes elim: less_trans)
  then obtain b' c where c: "foldl (comb_step ?a) (?b, replicate 8 0) [0..<64] = (b', c)"
    "length c = 8" "lval c = clmul (lval (map (take_bit 64) ?a)) (of_le right)"
    using comb_loop [OF a(2) b(2), of 64] by (auto simp: b(1))
  have "map (take_bit 64) ?a = ?a"
    by (rule map_idI) (rule bit_word_eqI, simp add: bit_simps)
  then have prod: "lval c = clmul (of_le left) (of_le right)"
    using c(3) a(1) by simp
  let ?r = "reduce_last (foldl reduce_block c (rev [4..<8]))"
  obtain q where q: "lval ?r = lval c XOR clmul q OT_MODULUS" "lval ?r < 2 ^ 208" "length ?r = 8"
    using reduction [OF c(2)] by blast
  have "field_mul left right = Inr (store_limbs ?r)"
    using assms c(1) by (simp add: field_mul_def Let_def)
  moreover have "of_le (store_limbs ?r) = lval ?r" "length (store_limbs ?r) = OT_BYTES"
    using store_limbs_le [of ?r] q(2,3) by simp_all
  ultimately show ?thesis using q(1) prod by auto
qed

text \<open>A nonzero multiple of the modulus has degree at least 208, so remainders are unique.\<close>

lemma bit_modulus: "bit OT_MODULUS m \<longleftrightarrow> m \<in> {208, 9, 3, 1, 0}"
  by (simp only: OT_MODULUS_def bit_xor_iff bit_push_bit_iff bit_1_iff possible_bit_nat) auto

lemma modulus_bits: "bit OT_MODULUS m \<Longrightarrow> m \<le> 208" "bit OT_MODULUS 208"
  by (auto simp: bit_modulus)

lemma multiple_degree: "q \<noteq> 0 \<Longrightarrow> \<exists>m \<ge> 208. bit (clmul q OT_MODULUS) m"
proof (induction q rule: less_induct)
  case (less q)
  show ?case
  proof (cases "q div 2 = 0")
    case True
    with less.prems have "q = 1" by presburger
    then have "clmul q OT_MODULUS = OT_MODULUS" using clmul_of_bool [of True] by simp
    then show ?thesis using modulus_bits(2) by auto
  next
    case False
    with less.IH [of "q div 2"] obtain m where m: "208 \<le> m" "bit (clmul (q div 2) OT_MODULUS) m"
      by auto
    then have "bit (clmul q OT_MODULUS) (Suc m)"
    proof -
      have "bit (push_bit 1 x) (Suc m) = bit x m" for x :: nat
        by (simp only: bit_push_bit_iff possible_bit_nat) simp
      moreover have "\<not> bit OT_MODULUS (Suc m)"
        using modulus_bits(1) [of "Suc m"] m(1) by linarith
      ultimately show ?thesis
        using m(2) by (subst clmul_rec, cases "odd q") (simp_all only: bit_xor_iff if_True if_False, simp_all)
    qed
    with m(1) show ?thesis by (metis le_Suc_eq)
  qed
qed

lemma remainder_unique:
  assumes "length r = OT_BYTES" and "length s = OT_BYTES"
    and "of_le r = x XOR clmul q OT_MODULUS" and "of_le s = x XOR clmul p OT_MODULUS"
  shows "r = s"
proof -
  have "of_le r XOR of_le s = clmul (q XOR p) OT_MODULUS"
    using assms(3,4) by (simp add: clmul_xor ac_simps)
  moreover have "\<not> bit (of_le r XOR of_le s) m" if "208 \<le> m" for m
    using that assms(1,2) by (auto simp: bit_simps bit_of_le OT_BYTES_def OT_SECURITY_def
        div_less_iff_less_mult)
  ultimately have "q XOR p = 0" using multiple_degree by metis
  with assms(3,4) have "of_le r = of_le s"
    by (metis xor_cancel_nat xor.right_neutral)
  then show ?thesis using assms(1,2) by (intro of_le_inj) simp_all
qed

lemma field_mul_xor:
  assumes "length a = OT_BYTES" "length b = OT_BYTES" "length c = OT_BYTES"
    and "field_mul a c = Inr x" and "field_mul b c = Inr y"
  shows "field_mul (xor_bytes a b) c = Inr (xor_bytes x y)"
proof -
  obtain q where x: "length x = OT_BYTES" "of_le x = clmul (of_le a) (of_le c) XOR clmul q OT_MODULUS"
    using field_mul_product [OF assms(1,3)] assms(4) by auto
  obtain p where y: "length y = OT_BYTES" "of_le y = clmul (of_le b) (of_le c) XOR clmul p OT_MODULUS"
    using field_mul_product [OF assms(2,3)] assms(5) by auto
  obtain z s where z: "field_mul (xor_bytes a b) c = Inr z" "length z = OT_BYTES"
    "of_le z = clmul (of_le (xor_bytes a b)) (of_le c) XOR clmul s OT_MODULUS"
    using field_mul_product [of "xor_bytes a b" c] assms(1-3) by auto
  have "of_le (xor_bytes x y) =
      clmul (of_le (xor_bytes a b)) (of_le c) XOR clmul (q XOR p) OT_MODULUS"
    using x y assms(1,2) by (simp add: of_le_xor clmul_xor ac_simps)
  then have "z = xor_bytes x y"
    using remainder_unique [OF z(2) _ z(3)] x(1) y(1) by simp
  with z(1) show ?thesis by simp
qed

lemma field_mul_zero:
  assumes "length c = OT_BYTES"
  shows "field_mul (replicate OT_BYTES 0) c = Inr (replicate OT_BYTES 0)"
proof -
  obtain z s where z: "field_mul (replicate OT_BYTES 0) c = Inr z" "length z = OT_BYTES"
    "of_le z = clmul 0 (of_le c) XOR clmul s OT_MODULUS"
    using field_mul_product [of "replicate OT_BYTES 0" c] assms by auto
  have "z = replicate OT_BYTES 0"
    using remainder_unique [OF z(2) _ z(3), of "replicate OT_BYTES 0" 0] by simp
  with z(1) show ?thesis by simp
qed

text \<open>C21: \<open>field_mul\<close> multiplies in the field of \<open>2^208\<close> elements.  On two inputs of 26 bytes the
  comb and the block-wise reduction return 26 bytes that are congruent to the carry-less product
  modulo \<open>X^208 + X^9 + X^3 + X + 1\<close>; the result is the only such element.\<close>

theorem field_mul_correct:
  assumes "length left = OT_BYTES" and "length right = OT_BYTES"
  shows "\<exists>r. field_mul left right = Inr r \<and>
    {s. length s = OT_BYTES \<and>
      (\<exists>q. of_le s = clmul (of_le left) (of_le right) XOR clmul q OT_MODULUS)} = {r}"
proof -
  obtain r q where r: "field_mul left right = Inr r" "length r = OT_BYTES"
    "of_le r = clmul (of_le left) (of_le right) XOR clmul q OT_MODULUS"
    using field_mul_product [OF assms] by blast
  have "s = r" if "length s = OT_BYTES"
    "of_le s = clmul (of_le left) (of_le right) XOR clmul p OT_MODULUS" for s p
    using that r(2,3) by (intro remainder_unique)
  then have "{s. length s = OT_BYTES \<and>
      (\<exists>q. of_le s = clmul (of_le left) (of_le right) XOR clmul q OT_MODULUS)} = {r}"
    using r(2,3) by blast
  with r(1) show ?thesis by blast
qed

lemma field_mul_correct_witness:
  "\<exists>r. field_mul (replicate OT_BYTES 3) (replicate OT_BYTES 7) = Inr r \<and>
    {s. length s = OT_BYTES \<and>
      (\<exists>q. of_le s = clmul (of_le (replicate OT_BYTES 3)) (of_le (replicate OT_BYTES 7)) XOR
        clmul q OT_MODULUS)} = {r}"
  by (rule field_mul_correct) simp_all

end
