(* ===== verification/Correlated_OT.thy ===== *)
theory Correlated_OT
  imports Base_OT
begin

text \<open>
  What the multiplication protocol relies on: a batch of correlated oblivious transfers whose
  two ends hold \<open>linked\<close> states.  The law says that an honest execution is never refused and that
  the outputs of the two ends are additive shares of the choice bit times the correlation.  The
  lemmas of the contract are the sums the multiplication computes from such outputs.
\<close>

locale correlated_ot =
  fixes env_ok :: "'e \<Rightarrow> bool"
    and batch :: nat
    and linked :: "'snd \<Rightarrow> 'rcv \<Rightarrow> bool"
    and receive1 :: "'e \<Rightarrow> 'rcv \<Rightarrow> bool list \<Rightarrow> bytes \<Rightarrow> bool list \<Rightarrow> 'err + 'kept \<times> 'msg"
    and send :: "'e \<Rightarrow> 'snd \<Rightarrow> bytes \<Rightarrow> u8 \<Rightarrow> 's::field list list \<Rightarrow> 'msg \<Rightarrow>
      'err + 's list list \<times> 's list list"
    and receive2 :: "'e \<Rightarrow> bytes \<Rightarrow> u8 \<Rightarrow> bool list \<Rightarrow> 'kept \<Rightarrow> 's list list \<Rightarrow> 'err + 's list list"
  assumes honest: "env_ok e \<Longrightarrow> linked snd0 rcv \<Longrightarrow> length choice_bits = batch \<Longrightarrow>
    length inputs = unat w \<Longrightarrow> \<forall>c \<in> set inputs. length c = batch \<Longrightarrow>
    \<exists>kept msg v tau t. receive1 e rcv noise sid choice_bits = Inr (kept, msg) \<and>
      send e snd0 sid w inputs msg = Inr (v, tau) \<and>
      receive2 e sid w choice_bits kept tau = Inr t \<and>
      length v = unat w \<and> length t = unat w \<and>
      (\<forall>k < unat w. length (v ! k) = batch \<and> length (t ! k) = batch \<and>
        (\<forall>j < batch. v ! k ! j + t ! k ! j = (if choice_bits ! j then inputs ! k ! j else 0)))"
begin

text \<open>Every input correlation repeats one scalar.\<close>

lemma honest_constant:
  assumes "env_ok e" "linked snd0 rcv" "length choice_bits = batch" "length as = unat w"
  shows "\<exists>kept msg v tau t. receive1 e rcv noise sid choice_bits = Inr (kept, msg) \<and>
      send e snd0 sid w (map (replicate batch) as) msg = Inr (v, tau) \<and>
      receive2 e sid w choice_bits kept tau = Inr t \<and>
      length v = unat w \<and> length t = unat w \<and>
      (\<forall>k < unat w. \<forall>j < batch. v ! k ! j + t ! k ! j = (if choice_bits ! j then as ! k else 0))"
proof -
  have "length (map (replicate batch) as) = unat w" "\<forall>c \<in> set (map (replicate batch) as). length c = batch"
    using assms(4) by auto
  from honest [OF assms(1-3) this, of noise sid] assms(4) show ?thesis by fastforce
qed

end

lemma weighted_shares:
  fixes g v t :: "nat \<Rightarrow> 's::field"
  assumes "\<And>j. j < n \<Longrightarrow> v j + t j = (if bits j then a else 0)"
  shows "(\<Sum>j < n. g j * v j) + (\<Sum>j < n. g j * t j) = a * (\<Sum>j < n. if bits j then g j else 0)"
proof -
  have "(\<Sum>j < n. g j * v j) + (\<Sum>j < n. g j * t j) = (\<Sum>j < n. g j * (v j + t j))"
    by (simp add: sum.distrib distrib_left)
  also have "\<dots> = (\<Sum>j < n. a * (if bits j then g j else 0))"
    by (intro sum.cong refl) (use assms in auto)
  finally show ?thesis by (simp add: sum_distrib_left)
qed

lemma check_entry:
  fixes c d :: "'s::field"
  assumes "v + t = (if bit0 then a else 0)" and "v' + t' = (if bit0 then a' else 0)"
  shows "c * v + d * v' = (- (c * t) - d * t') + (if bit0 then c * a + d * a' else 0)"
proof -
  have v: "v = (if bit0 then a else 0) - t" and v': "v' = (if bit0 then a' else 0) - t'"
    using assms by (simp_all add: eq_diff_eq)
  show ?thesis unfolding v v' by (cases bit0) (simp_all add: algebra_simps)
qed

end
