(* ===== verification/OT_Extension.thy ===== *)
theory OT_Extension
  imports Field_Mul Correlated_OT
begin

text \<open>
  \<open>utilities/ot/extension.rs\<close>: the correlated oblivious transfer that stretches \<open>KAPPA\<close> base
  transfers into \<open>BATCH_SIZE\<close> correlated ones, with its consistency check over the field of
  \<open>2^208\<close> elements and its bit-matrix transposition.  The noise bits the receiver samples and
  the choice bits of the initialization are arguments.
\<close>

section \<open>Constants and data\<close>

definition KAPPA :: nat where "KAPPA = 256"
definition STAT_SECURITY :: nat where "STAT_SECURITY = 80"
definition BATCH_SIZE :: nat where "BATCH_SIZE = KAPPA + 2 * STAT_SECURITY"
definition EXTENDED_BATCH_SIZE :: nat where "EXTENDED_BATCH_SIZE = BATCH_SIZE + OT_SECURITY"

text \<open>The byte lengths of \<open>PRGOutput\<close>, of one row of the transposed matrix and of its columns.\<close>

definition PRG_BYTES :: nat where "PRG_BYTES = EXTENDED_BATCH_SIZE div 8"
definition KAPPA_BYTES :: nat where "KAPPA_BYTES = KAPPA div 8"

lemma ote_sizes:
  "KAPPA = 256" "BATCH_SIZE = 416" "EXTENDED_BATCH_SIZE = 624" "PRG_BYTES = 78"
  "KAPPA_BYTES = 32" "OT_BYTES = 26"
  by (simp_all add: KAPPA_def BATCH_SIZE_def STAT_SECURITY_def EXTENDED_BATCH_SIZE_def PRG_BYTES_def
      KAPPA_BYTES_def OT_BYTES_def OT_SECURITY_def)

record ote_sender =
  correlation :: "bool list"
  ote_seeds :: "bytes list"

record ote_receiver =
  seeds0 :: "bytes list"
  seeds1 :: "bytes list"

record ote_data_to_sender =
  ote_u :: "bytes list"
  verify_x :: bytes
  verify_t :: "bytes list"

section \<open>Initialization\<close>

text \<open>A sender of the extension is a receiver of the base transfer, and conversely.\<close>

definition ote_sender_init_phase1 ::
  "('s::field, 'p::ab_group_add) suite \<Rightarrow> bytes \<Rightarrow> bool list \<Rightarrow> (nat \<Rightarrow> 's \<times> 's enc_coins) \<Rightarrow> bytes \<Rightarrow>
     error_ot + ot_receiver \<times> bool list \<times> 's list \<times> ('s, 'p) enc_proof list" where
  "ote_sender_init_phase1 S sampled_seed sampled_bits coins session_id =
     (let receiver0 = ot_receiver_init sampled_seed in
      rbind (ot_receiver_phase1_batch S receiver0 coins session_id sampled_bits)
        (\<lambda>(vec_r, enc_proofs). Inr (receiver0, sampled_bits, vec_r, enc_proofs)))"

definition ote_sender_init_phase2 ::
  "('s::field, 'p::ab_group_add) suite \<Rightarrow> bytes \<Rightarrow> bool list \<Rightarrow> 's list \<Rightarrow> ('s, 'p) dlog_proof \<Rightarrow>
     error_ot + ote_sender" where
  "ote_sender_init_phase2 S session_id bits vec_r dlog =
     rbind (ot_receiver_phase2_batch S session_id vec_r dlog)
       (\<lambda>sds. Inr \<lparr>correlation = bits, ote_seeds = sds\<rparr>)"

definition ote_receiver_init_phase1 ::
  "('s::field, 'p) suite \<Rightarrow> 's \<Rightarrow> 's fischlin_coins \<Rightarrow> bytes \<Rightarrow>
     (('s, 'p) ot_sender \<times> ('s, 'p) dlog_proof) option" where
  "ote_receiver_init_phase1 S s coins session_id =
     (case ot_sender_init S s coins session_id of
        None \<Rightarrow> None | Some sender0 \<Rightarrow> Some (sender0, ot_sender_phase1 sender0))"

definition ote_receiver_init_phase2 ::
  "('s::field, 'p::ab_group_add) suite \<Rightarrow> ('s, 'p) ot_sender \<Rightarrow> bytes \<Rightarrow> bytes \<Rightarrow>
     ('s, 'p) enc_proof list \<Rightarrow> error_ot + ote_receiver" where
  "ote_receiver_init_phase2 S sender0 session_id sd enc_proofs =
     rbind (ot_sender_phase2_batch S sender0 session_id sd enc_proofs)
       (\<lambda>(m0, m1). Inr \<lparr>seeds0 = m0, seeds1 = m1\<rparr>)"

section \<open>Shared steps\<close>

text \<open>The pseudo-random generator: hash outputs are appended until there are enough bytes.  The
  first number bounds the iterations; three of them are needed.\<close>

fun prg_loop :: "nat \<Rightarrow> ('s, 'p) suite \<Rightarrow> bytes \<Rightarrow> nat \<Rightarrow> bytes \<Rightarrow> nat \<Rightarrow> bytes \<Rightarrow> bytes" where
  "prg_loop 0 S session_id i sd count prg = prg"
| "prg_loop (Suc n) S session_id i sd count prg =
     (if length prg < PRG_BYTES then
        let chunk = tagged_hash S TAG_OTE_PRG
              [session_id, be16 (word_of_nat i), be16 (word_of_nat count), sd]
        in prg_loop n S session_id i sd (Suc count) (prg @ chunk)
      else prg)"

definition extend_seed :: "('s, 'p) suite \<Rightarrow> bytes \<Rightarrow> nat \<Rightarrow> bytes \<Rightarrow> bytes" where
  "extend_seed S session_id i sd = take PRG_BYTES (prg_loop PRG_BYTES S session_id i sd 0 [])"

text \<open>Eight bits to a byte, the first bit least significant.\<close>

definition compress_byte :: "bool list \<Rightarrow> nat \<Rightarrow> byte" where
  "compress_byte bs i =
     of_bool (bs ! (i * 8)) OR push_bit 1 (of_bool (bs ! (i * 8 + 1)))
       OR push_bit 2 (of_bool (bs ! (i * 8 + 2))) OR push_bit 3 (of_bool (bs ! (i * 8 + 3)))
       OR push_bit 4 (of_bool (bs ! (i * 8 + 4))) OR push_bit 5 (of_bool (bs ! (i * 8 + 5)))
       OR push_bit 6 (of_bool (bs ! (i * 8 + 6))) OR push_bit 7 (of_bool (bs ! (i * 8 + 7)))"

definition compress_bits :: "bool list \<Rightarrow> nat \<Rightarrow> bytes" where
  "compress_bits bs n = map (compress_byte bs) [0..<n]"

definition chi_challenge :: "('s, 'p) suite \<Rightarrow> bytes \<Rightarrow> string \<Rightarrow> bytes list \<Rightarrow> bytes" where
  "chi_challenge S session_id label u =
     take OT_BYTES (tagged_hash S TAG_OTE_CHI [session_id, ascii label, concat u])"

text \<open>The linear combination of the three blocks of a row under the two challenges.\<close>

definition combine_row :: "bytes \<Rightarrow> bytes \<Rightarrow> bytes \<Rightarrow> error_ot + bytes" where
  "combine_row chi1 chi2 row =
     rbind (field_mul (take OT_BYTES row) chi1) (\<lambda>prod1.
       rbind (field_mul (take OT_BYTES (drop OT_BYTES row)) chi2) (\<lambda>prod2.
         Inr (map (\<lambda>k. prod1 ! k XOR prod2 ! k XOR row ! (2 * OT_BYTES + k)) [0..<OT_BYTES])))"

definition transpose_bit ::
  "bytes list \<Rightarrow> nat \<Rightarrow> nat \<Rightarrow> nat \<Rightarrow> bytes list \<Rightarrow> nat \<Rightarrow> bytes list" where
  "transpose_bit input row_byte row_bit_within_byte column_byte output column_bit_within_byte =
     (let row_bit = row_byte * 8 + row_bit_within_byte;
          column_bit = column_byte * 8 + column_bit_within_byte;
          entry = drop_bit column_bit_within_byte (input ! row_bit ! column_byte) AND 1;
          shifted_entry = push_bit row_bit_within_byte entry
      in output[column_bit := (output ! column_bit)
           [row_byte := output ! column_bit ! row_byte OR shifted_entry]])"

definition cut_and_transpose :: "bytes list \<Rightarrow> error_ot + bytes list" where
  "cut_and_transpose input =
     (if length input \<noteq> KAPPA then
        Inl (ErrorOT_malformed ''Transpose input matrix has incorrect dimensions'')
      else Inr
        (foldl (\<lambda>out1 row_byte.
           foldl (\<lambda>out2 row_bit_within_byte.
             foldl (\<lambda>out3 column_byte.
               foldl (transpose_bit input row_byte row_bit_within_byte column_byte) out3 [0..<8])
               out2 [0..<BATCH_SIZE div 8])
             out1 [0..<8])
           (replicate BATCH_SIZE (replicate KAPPA_BYTES 0)) [0..<KAPPA_BYTES]))"

definition ote_randomize ::
  "('s, 'p) suite \<Rightarrow> bytes \<Rightarrow> nat \<Rightarrow> nat \<Rightarrow> bytes \<Rightarrow> 's" where
  "ote_randomize S session_id j iteration row =
     tagged_hash_as_scalar S TAG_OTE_RANDOMIZE
       [session_id, be16 (word_of_nat j), [word_of_nat iteration], row]"

section \<open>The sender\<close>

definition sender_q :: "ote_sender \<Rightarrow> bytes list \<Rightarrow> bytes list \<Rightarrow> bytes list" where
  "sender_q snd0 u extended_seeds =
     map (\<lambda>i. map (\<lambda>j. of_bool (correlation snd0 ! i) * u ! i ! j XOR extended_seeds ! i ! j)
                [0..<PRG_BYTES])
       [0..<KAPPA]"

definition sender_checks :: "ote_sender \<Rightarrow> ote_data_to_sender \<Rightarrow> bytes list" where
  "sender_checks snd0 data =
     map (\<lambda>i. map (\<lambda>k. verify_t data ! i ! k XOR of_bool (correlation snd0 ! i) * verify_x data ! k)
                [0..<OT_BYTES])
       [0..<KAPPA]"

definition sender_outputs ::
  "('s::field, 'p) suite \<Rightarrow> ote_sender \<Rightarrow> bytes \<Rightarrow> u8 \<Rightarrow> 's list list \<Rightarrow> bytes list \<Rightarrow>
     's list list \<times> 's list list" where
  "sender_outputs S snd0 session_id ot_width input_correlations transposed_q =
     (let compressed_correlation = compress_bits (correlation snd0) KAPPA_BYTES;
          vector_of_v0 = map (\<lambda>iteration. map (\<lambda>j.
              ote_randomize S session_id j iteration (transposed_q ! j)) [0..<BATCH_SIZE])
            [0..<unat ot_width];
          vector_of_v1 = map (\<lambda>iteration. map (\<lambda>j.
              ote_randomize S session_id j iteration
                (map (\<lambda>i. transposed_q ! j ! i XOR compressed_correlation ! i) [0..<KAPPA_BYTES]))
              [0..<BATCH_SIZE])
            [0..<unat ot_width];
          vector_of_tau = map (\<lambda>iteration. map (\<lambda>j.
              vector_of_v1 ! iteration ! j - vector_of_v0 ! iteration ! j
                + input_correlations ! iteration ! j) [0..<BATCH_SIZE])
            [0..<unat ot_width]
      in (vector_of_v0, vector_of_tau))"

definition sender_dimensions ::
  "ote_sender \<Rightarrow> u8 \<Rightarrow> 's list list \<Rightarrow> ote_data_to_sender \<Rightarrow> error_ot + unit" where
  "sender_dimensions snd0 ot_width input_correlations data =
     (if length input_correlations \<noteq> unat ot_width then
        Inl (ErrorOT_malformed ''The vector of input correlations does not have the expected size!'')
      else rbind (check_each (\<lambda>corr. if length corr \<noteq> BATCH_SIZE
             then Some (ErrorOT_malformed ''A correlation vector has incorrect inner length'')
             else None) input_correlations) (\<lambda>_.
        if length (correlation snd0) \<noteq> KAPPA \<or> length (ote_seeds snd0) \<noteq> KAPPA then
          Inl (ErrorOT_malformed ''OTE sender state has incorrect dimensions'')
        else if length (ote_u data) \<noteq> KAPPA \<or> length (verify_t data) \<noteq> KAPPA then
          Inl (ErrorOT_malformed ''OTE data has incorrect dimensions'')
        else Inr ()))"

definition ote_sender_run ::
  "('s::field, 'p) suite \<Rightarrow> ote_sender \<Rightarrow> bytes \<Rightarrow> u8 \<Rightarrow> 's list list \<Rightarrow> ote_data_to_sender \<Rightarrow>
     error_ot + 's list list \<times> 's list list" where
  "ote_sender_run S snd0 session_id ot_width input_correlations data =
     rbind (sender_dimensions snd0 ot_width input_correlations data) (\<lambda>_.
       let extended_seeds = map (\<lambda>i. extend_seed S session_id i (ote_seeds snd0 ! i)) [0..<KAPPA];
           q = sender_q snd0 (ote_u data) extended_seeds;
           chi1 = chi_challenge S session_id ''chi1'' (ote_u data);
           chi2 = chi_challenge S session_id ''chi2'' (ote_u data)
       in rbind (map_res (combine_row chi1 chi2) q) (\<lambda>verify_q.
            if \<not> list_all2 (\<lambda>a b. a = b) verify_q (sender_checks snd0 data) then
              Inl (ErrorOT_consistency ''Receiver cheated in OTE: Consistency check failed!'')
            else rbind (cut_and_transpose q) (\<lambda>transposed_q.
              Inr (sender_outputs S snd0 session_id ot_width input_correlations transposed_q))))"

section \<open>The receiver\<close>

definition ote_receiver_phase1 ::
  "('s, 'p) suite \<Rightarrow> ote_receiver \<Rightarrow> bool list \<Rightarrow> bytes \<Rightarrow> bool list \<Rightarrow>
     error_ot + bytes list \<times> ote_data_to_sender" where
  "ote_receiver_phase1 S rcv random_choice_bits session_id choice_bits =
     (if length choice_bits \<noteq> BATCH_SIZE then
        Inl (ErrorOT_malformed ''Choice bits vector has incorrect length'')
      else if length (seeds0 rcv) \<noteq> KAPPA \<or> length (seeds1 rcv) \<noteq> KAPPA then
        Inl (ErrorOT_malformed ''OTE receiver seed vectors have incorrect dimensions'')
      else
        let extended_choice_bits = choice_bits @ random_choice_bits;
            compressed_extended_bits = compress_bits extended_choice_bits PRG_BYTES;
            extended_seeds0 = map (\<lambda>i. extend_seed S session_id i (seeds0 rcv ! i)) [0..<KAPPA];
            extended_seeds1 = map (\<lambda>i. extend_seed S session_id i (seeds1 rcv ! i)) [0..<KAPPA];
            u = map (\<lambda>i. map (\<lambda>j. extended_seeds0 ! i ! j XOR extended_seeds1 ! i ! j XOR
                     compressed_extended_bits ! j) [0..<PRG_BYTES]) [0..<KAPPA];
            chi1 = chi_challenge S session_id ''chi1'' u;
            chi2 = chi_challenge S session_id ''chi2'' u
        in rbind (combine_row chi1 chi2 compressed_extended_bits) (\<lambda>vx.
             rbind (map_res (combine_row chi1 chi2) extended_seeds0) (\<lambda>vt.
               Inr (extended_seeds0, \<lparr>ote_u = u, verify_x = vx, verify_t = vt\<rparr>))))"

definition receiver_outputs ::
  "('s::field, 'p) suite \<Rightarrow> bytes \<Rightarrow> u8 \<Rightarrow> bool list \<Rightarrow> bytes list \<Rightarrow> 's list list \<Rightarrow> 's list list" where
  "receiver_outputs S session_id ot_width choice_bits transposed_t vector_of_tau =
     (let vector_of_v = map (\<lambda>iteration. map (\<lambda>j.
              ote_randomize S session_id j iteration (transposed_t ! j)) [0..<BATCH_SIZE])
            [0..<unat ot_width]
      in map (\<lambda>iteration. map (\<lambda>j.
             let t_b_j = - (vector_of_v ! iteration ! j)
             in if choice_bits ! j then vector_of_tau ! iteration ! j + t_b_j else t_b_j)
           [0..<BATCH_SIZE]) [0..<unat ot_width])"

definition ote_receiver_phase2 ::
  "('s::field, 'p) suite \<Rightarrow> bytes \<Rightarrow> u8 \<Rightarrow> bool list \<Rightarrow> bytes list \<Rightarrow> 's list list \<Rightarrow>
     error_ot + 's list list" where
  "ote_receiver_phase2 S session_id ot_width choice_bits extended_seeds vector_of_tau =
     (if length choice_bits \<noteq> BATCH_SIZE then
        Inl (ErrorOT_malformed ''Choice bits vector has incorrect length'')
      else if length extended_seeds \<noteq> KAPPA then
        Inl (ErrorOT_malformed ''Extended seed matrix has incorrect dimensions'')
      else if length vector_of_tau \<noteq> unat ot_width then
        Inl (ErrorOT_malformed ''The vector sent by the sender does not have the expected size!'')
      else rbind (check_each (\<lambda>tau. if length tau \<noteq> BATCH_SIZE
             then Some (ErrorOT_malformed ''Tau vector has incorrect inner length'')
             else None) vector_of_tau) (\<lambda>_.
        rbind (cut_and_transpose extended_seeds) (\<lambda>transposed_t.
          Inr (receiver_outputs S session_id ot_width choice_bits transposed_t vector_of_tau))))"

section \<open>Lengths\<close>

lemma length_tagged_hash': "suite_ok S \<Longrightarrow> length (tagged_hash S t cs) = 32"
  by (rule length_tagged_hash)

lemma prg_loop_length:
  "suite_ok S \<Longrightarrow> PRG_BYTES \<le> length prg + 32 * n \<Longrightarrow> PRG_BYTES \<le> length (prg_loop n S sid i sd c prg)"
  by (induction n arbitrary: c prg) (auto simp: Let_def length_tagged_hash)

lemma length_extend_seed: "suite_ok S \<Longrightarrow> length (extend_seed S sid i sd) = PRG_BYTES"
  using prg_loop_length [of S "[]" PRG_BYTES sid i sd 0] by (simp add: extend_seed_def)

text \<open>Three chunks are enough, and no more are computed.\<close>

lemma extend_seed_three:
  assumes "suite_ok S"
  shows "extend_seed S sid i sd = take PRG_BYTES (concat (map (\<lambda>count.
    tagged_hash S TAG_OTE_PRG [sid, be16 (word_of_nat i), be16 (word_of_nat count), sd]) [0..<3]))"
proof -
  have three: "PRG_BYTES = Suc (Suc (Suc (Suc 74)))" by (simp add: ote_sizes)
  show ?thesis
    unfolding extend_seed_def three prg_loop.simps Let_def
    using length_tagged_hash [OF assms] by (simp add: ote_sizes upt_rec)
qed

lemma length_compress_bits [simp]: "length (compress_bits bs n) = n"
  by (simp add: compress_bits_def)

lemma bit_compress_byte:
  assumes "p < 8"
  shows "bit (compress_byte bs i) p \<longleftrightarrow> bs ! (i * 8 + p)"
proof -
  have "p = 0 \<or> p = 1 \<or> p = 2 \<or> p = 3 \<or> p = 4 \<or> p = 5 \<or> p = 6 \<or> p = 7"
    using assms by linarith
  then show ?thesis
    unfolding compress_byte_def by (elim disjE) (simp_all add: bit_simps)
qed

lemma length_chi: "suite_ok S \<Longrightarrow> length (chi_challenge S sid l u) = OT_BYTES"
  by (simp add: chi_challenge_def length_tagged_hash ote_sizes)

section \<open>Transposition\<close>

text \<open>The bit in row \<open>i\<close> and column \<open>j\<close> of a matrix whose rows are packed into bytes.\<close>

definition matrix_bit :: "bytes list \<Rightarrow> nat \<Rightarrow> nat \<Rightarrow> bool" where
  "matrix_bit m i j = bit (m ! i ! (j div 8)) (j mod 8)"

text \<open>The bits of the input that have been written to the output so far are those whose loop
  counters are in \<open>T\<close>.\<close>

definition written :: "bytes list \<Rightarrow> bytes list \<Rightarrow> (nat \<times> nat \<times> nat \<times> nat) set \<Rightarrow> bool" where
  "written input out T \<longleftrightarrow> length out = BATCH_SIZE \<and> (\<forall>r \<in> set out. length r = KAPPA_BYTES) \<and>
     (\<forall>c < BATCH_SIZE. \<forall>rb < KAPPA_BYTES. \<forall>p < 8.
        bit (out ! c ! rb) p \<longleftrightarrow>
          (rb, p, c div 8, c mod 8) \<in> T \<and> matrix_bit input (rb * 8 + p) c)"

lemma written_step:
  assumes "written input out T" and "rb < KAPPA_BYTES" "p < 8" "cb < BATCH_SIZE div 8" "q < 8"
  shows "written input (transpose_bit input rb p cb out q) (T \<union> {(rb, p, cb, q)})"
proof -
  let ?c = "cb * 8 + q"
  define e where "e = drop_bit q (input ! (rb * 8 + p) ! cb) AND 1"
  let ?row = "(out ! ?c)[rb := out ! ?c ! rb OR push_bit p e]"
  have c: "?c < BATCH_SIZE" "?c div 8 = cb" "?c mod 8 = q"
    using assms(4,5) by (simp_all add: ote_sizes)
  have len: "length out = BATCH_SIZE" "\<And>c. c < BATCH_SIZE \<Longrightarrow> length (out ! c) = KAPPA_BYTES"
    using assms(1) by (auto simp: written_def)
  have out: "transpose_bit input rb p cb out q = out[?c := ?row]"
    by (simp add: transpose_bit_def Let_def e_def)
  have entry: "bit e n \<longleftrightarrow> n = 0 \<and> matrix_bit input (rb * 8 + p) ?c" for n
    using c by (auto simp: e_def matrix_bit_def bit_simps)
  have new: "bit (out ! ?c ! rb OR push_bit p e) n \<longleftrightarrow>
      bit (out ! ?c ! rb) n \<or> (n = p \<and> matrix_bit input (rb * 8 + p) ?c)" if "n < 8" for n
    using that entry [of "n - p"] by (auto simp: bit_or_iff bit_push_bit_iff)
  have "bit (out[?c := ?row] ! c ! r) n \<longleftrightarrow>
      (r, n, c div 8, c mod 8) \<in> T \<union> {(rb, p, cb, q)} \<and> matrix_bit input (r * 8 + n) c"
    if "c < BATCH_SIZE" "r < KAPPA_BYTES" "n < 8" for c r n
  proof -
    have old: "bit (out ! c ! r) n \<longleftrightarrow> (r, n, c div 8, c mod 8) \<in> T \<and> matrix_bit input (r * 8 + n) c"
      using assms(1) that by (simp add: written_def)
    have same: "c = ?c \<longleftrightarrow> c div 8 = cb \<and> c mod 8 = q"
      using c(2,3) by (metis div_mult_mod_eq)
    show ?thesis
      using old new [OF that(3)] same len that c(1) assms(2)
      by (cases "c = ?c"; cases "r = rb") (auto simp: nth_list_update)
  qed
  moreover have "\<forall>r \<in> set (out[?c := ?row]). length r = KAPPA_BYTES"
    using assms(1) len(2) [OF c(1)] set_update_subset_insert [of out ?c ?row]
    by (auto simp: written_def)
  ultimately show ?thesis
    unfolding written_def out using len(1) by simp
qed

lemma written_foldl:
  assumes "written input out T"
    and "\<And>o' T' x. x \<in> set xs \<Longrightarrow> written input o' T' \<Longrightarrow> written input (f o' x) (T' \<union> A x)"
  shows "written input (foldl f out xs) (T \<union> (\<Union>x \<in> set xs. A x))"
  using assms
proof (induction xs arbitrary: out T)
  case (Cons x xs)
  have "written input (foldl f (f out x) xs) ((T \<union> A x) \<union> (\<Union>x \<in> set xs. A x))"
    by (rule Cons.IH) (use Cons.prems in auto)
  then show ?case by (simp add: Un_assoc)
qed simp

lemma cut_and_transpose_written:
  assumes "length input = KAPPA"
  shows "\<exists>out. cut_and_transpose input = Inr out \<and>
    written input out ({..<KAPPA_BYTES} \<times> {..<8} \<times> {..<BATCH_SIZE div 8} \<times> {..<8})"
proof -
  let ?f3 = "\<lambda>rb p out cb. foldl (transpose_bit input rb p cb) out [0..<8]"
  let ?f2 = "\<lambda>rb out p. foldl (?f3 rb p) out [0..<BATCH_SIZE div 8]"
  let ?f1 = "\<lambda>out rb. foldl (?f2 rb) out [0..<8]"
  let ?zero = "replicate BATCH_SIZE (replicate KAPPA_BYTES 0) :: bytes list"
  have init: "written input ?zero {}"
    by (simp add: written_def)
  have f3: "written input (?f3 rb p o' cb) (T' \<union> (\<Union>q \<in> {..<8}. {(rb, p, cb, q)}))"
    if "rb < KAPPA_BYTES" "p < 8" "cb < BATCH_SIZE div 8" "written input o' T'" for rb p cb o' T'
    using written_foldl [OF that(4), of "[0..<8]" "transpose_bit input rb p cb" "\<lambda>q. {(rb, p, cb, q)}"]
      written_step that(1-3) by (simp add: lessThan_atLeast0)
  have f2: "written input (?f2 rb o' p) (T' \<union> (\<Union>cb \<in> {..<BATCH_SIZE div 8}. \<Union>q \<in> {..<8}. {(rb, p, cb, q)}))"
    if "rb < KAPPA_BYTES" "p < 8" "written input o' T'" for rb p o' T'
    using written_foldl [OF that(3), of "[0..<BATCH_SIZE div 8]" "?f3 rb p"
        "\<lambda>cb. \<Union>q \<in> {..<8}. {(rb, p, cb, q)}"] f3 that(1,2) by (simp add: lessThan_atLeast0)
  have f1: "written input (?f1 o' rb)
      (T' \<union> (\<Union>p \<in> {..<8}. \<Union>cb \<in> {..<BATCH_SIZE div 8}. \<Union>q \<in> {..<8}. {(rb, p, cb, q)}))"
    if "rb < KAPPA_BYTES" "written input o' T'" for rb o' T'
    using written_foldl [OF that(2), of "[0..<8]" "?f2 rb"
        "\<lambda>p. \<Union>cb \<in> {..<BATCH_SIZE div 8}. \<Union>q \<in> {..<8}. {(rb, p, cb, q)}"] f2 that(1)
    by (simp add: lessThan_atLeast0)
  have "written input (foldl ?f1 ?zero [0..<KAPPA_BYTES]) ({} \<union> (\<Union>rb \<in> {..<KAPPA_BYTES}.
      \<Union>p \<in> {..<8}. \<Union>cb \<in> {..<BATCH_SIZE div 8}. \<Union>q \<in> {..<8}. {(rb, p, cb, q)}))"
    using written_foldl [OF init, of "[0..<KAPPA_BYTES]" ?f1
        "\<lambda>rb. \<Union>p \<in> {..<8}. \<Union>cb \<in> {..<BATCH_SIZE div 8}. \<Union>q \<in> {..<8}. {(rb, p, cb, q)}"] f1
    by (simp add: lessThan_atLeast0)
  moreover have "{} \<union> (\<Union>rb \<in> {..<KAPPA_BYTES}. \<Union>p \<in> {..<8 :: nat}. \<Union>cb \<in> {..<BATCH_SIZE div 8}.
      \<Union>q \<in> {..<8 :: nat}. {(rb, p, cb, q)}) =
      {..<KAPPA_BYTES} \<times> {..<8} \<times> {..<BATCH_SIZE div 8} \<times> {..<8}"
    by auto
  ultimately show ?thesis
    using assms by (simp only: cut_and_transpose_def) simp
qed

lemma cut_and_transpose_bits:
  assumes "length input = KAPPA"
  shows "\<exists>out. cut_and_transpose input = Inr out \<and> length out = BATCH_SIZE \<and>
    (\<forall>r \<in> set out. length r = KAPPA_BYTES) \<and>
    (\<forall>j < BATCH_SIZE. \<forall>i < KAPPA. matrix_bit out j i = matrix_bit input i j)"
proof -
  obtain out where out: "cut_and_transpose input = Inr out"
    "written input out ({..<KAPPA_BYTES} \<times> {..<8} \<times> {..<BATCH_SIZE div 8} \<times> {..<8})"
    using cut_and_transpose_written [OF assms] by blast
  have "matrix_bit out j i = matrix_bit input i j" if "j < BATCH_SIZE" "i < KAPPA" for i j
  proof -
    have "i div 8 < KAPPA_BYTES" "i mod 8 < 8" "j div 8 < BATCH_SIZE div 8" "j mod 8 < 8"
      using that by (simp_all add: ote_sizes)
    then have "bit (out ! j ! (i div 8)) (i mod 8) \<longleftrightarrow> matrix_bit input (i div 8 * 8 + i mod 8) j"
      using out(2) that(1) unfolding written_def by auto
    then show ?thesis by (simp add: matrix_bit_def)
  qed
  with out show ?thesis unfolding written_def by blast
qed

section \<open>The consistency check is linear\<close>

lemma map_xor3:
  "length a = n \<Longrightarrow> length b = n \<Longrightarrow> length c = 2 * n + n \<Longrightarrow>
    map (\<lambda>k. a ! k XOR b ! k XOR c ! (2 * n + k)) [0..<n] = xor_bytes (xor_bytes a b) (drop (2 * n) c)"
  by (rule nth_equalityI) (simp_all add: xor.assoc)

lemma take_xor_bytes: "take n (xor_bytes a b) = xor_bytes (take n a) (take n b)"
  by (simp add: xor_bytes_def take_map take_zip)

lemma drop_xor_bytes: "drop n (xor_bytes a b) = xor_bytes (drop n a) (drop n b)"
  by (simp add: xor_bytes_def drop_map drop_zip)

lemma xor_bytes_left_commute: "xor_bytes a (xor_bytes b c) = xor_bytes b (xor_bytes a c)"
  by (metis xor_bytes_assoc xor_bytes_commute)

lemmas xor_bytes_ac = xor_bytes_assoc xor_bytes_commute xor_bytes_left_commute

lemma combine_row_total:
  assumes "length row = PRG_BYTES" "length chi1 = OT_BYTES" "length chi2 = OT_BYTES"
  obtains p1 p2 where "field_mul (take OT_BYTES row) chi1 = Inr p1"
    "field_mul (take OT_BYTES (drop OT_BYTES row)) chi2 = Inr p2"
    "length p1 = OT_BYTES" "length p2 = OT_BYTES"
    "combine_row chi1 chi2 row = Inr (xor_bytes (xor_bytes p1 p2) (drop (2 * OT_BYTES) row))"
proof -
  obtain p1 where p1: "field_mul (take OT_BYTES row) chi1 = Inr p1" "length p1 = OT_BYTES"
    using field_mul_product [of "take OT_BYTES row" chi1] assms by (auto simp: ote_sizes)
  obtain p2 where p2: "field_mul (take OT_BYTES (drop OT_BYTES row)) chi2 = Inr p2"
    "length p2 = OT_BYTES"
    using field_mul_product [of "take OT_BYTES (drop OT_BYTES row)" chi2] assms
    by (auto simp: ote_sizes)
  have "length row = 2 * OT_BYTES + OT_BYTES" using assms(1) by (simp add: ote_sizes)
  from map_xor3 [OF p1(2) p2(2) this]
  have "combine_row chi1 chi2 row = Inr (xor_bytes (xor_bytes p1 p2) (drop (2 * OT_BYTES) row))"
    by (simp only: combine_row_def p1(1) p2(1) rbind.simps)
  then show thesis by (rule that [OF p1(1) p2(1) p1(2) p2(2)])
qed

lemma length_combine_row:
  assumes "length row = PRG_BYTES" "length chi1 = OT_BYTES" "length chi2 = OT_BYTES"
    and "combine_row chi1 chi2 row = Inr r"
  shows "length r = OT_BYTES"
proof -
  obtain p1 p2 where p: "length p1 = OT_BYTES" "length p2 = OT_BYTES"
    "combine_row chi1 chi2 row = Inr (xor_bytes (xor_bytes p1 p2) (drop (2 * OT_BYTES) row))"
    by (rule combine_row_total [OF assms(1-3)])
  with assms(4) have "r = xor_bytes (xor_bytes p1 p2) (drop (2 * OT_BYTES) row)" by simp
  with p(1,2) assms(1) show ?thesis by (simp add: ote_sizes)
qed

lemma combine_row_xor:
  assumes "length a = PRG_BYTES" "length b = PRG_BYTES" "length chi1 = OT_BYTES" "length chi2 = OT_BYTES"
    and "combine_row chi1 chi2 a = Inr x" and "combine_row chi1 chi2 b = Inr y"
  shows "combine_row chi1 chi2 (xor_bytes a b) = Inr (xor_bytes x y)"
proof -
  obtain p1 p2 where p: "field_mul (take OT_BYTES a) chi1 = Inr p1"
    "field_mul (take OT_BYTES (drop OT_BYTES a)) chi2 = Inr p2" "length p1 = OT_BYTES" "length p2 = OT_BYTES"
    "x = xor_bytes (xor_bytes p1 p2) (drop (2 * OT_BYTES) a)"
    using combine_row_total [OF assms(1,3,4)] assms(5) by auto
  obtain q1 q2 where q: "field_mul (take OT_BYTES b) chi1 = Inr q1"
    "field_mul (take OT_BYTES (drop OT_BYTES b)) chi2 = Inr q2" "length q1 = OT_BYTES" "length q2 = OT_BYTES"
    "y = xor_bytes (xor_bytes q1 q2) (drop (2 * OT_BYTES) b)"
    using combine_row_total [OF assms(2-4)] assms(6) by auto
  have n: "OT_BYTES \<le> PRG_BYTES" "OT_BYTES \<le> PRG_BYTES - OT_BYTES" by (simp_all add: ote_sizes)
  have r1: "field_mul (take OT_BYTES (xor_bytes a b)) chi1 = Inr (xor_bytes p1 q1)"
    using field_mul_xor [OF _ _ assms(3) p(1) q(1)] assms(1,2) n by (simp add: take_xor_bytes)
  have r2: "field_mul (take OT_BYTES (drop OT_BYTES (xor_bytes a b))) chi2 = Inr (xor_bytes p2 q2)"
    using field_mul_xor [OF _ _ assms(4) p(2) q(2)] assms(1,2) n
    by (simp add: take_xor_bytes drop_xor_bytes)
  have "length (xor_bytes a b) = PRG_BYTES" using assms(1,2) by simp
  then obtain r s where rs: "field_mul (take OT_BYTES (xor_bytes a b)) chi1 = Inr r"
    "field_mul (take OT_BYTES (drop OT_BYTES (xor_bytes a b))) chi2 = Inr s"
    "combine_row chi1 chi2 (xor_bytes a b) = Inr (xor_bytes (xor_bytes r s) (drop (2 * OT_BYTES) (xor_bytes a b)))"
    by (rule combine_row_total [OF _ assms(3,4)])
  have "r = xor_bytes p1 q1" "s = xor_bytes p2 q2" using rs(1,2) r1 r2 by simp_all
  moreover have "xor_bytes (xor_bytes (xor_bytes p1 q1) (xor_bytes p2 q2)) (xor_bytes da db) =
      xor_bytes (xor_bytes (xor_bytes p1 p2) da) (xor_bytes (xor_bytes q1 q2) db)" for da db
    by (simp only: xor_bytes_ac)
  ultimately show ?thesis using rs(3) by (simp only: p(5) q(5) drop_xor_bytes)
qed

section \<open>An honest execution\<close>

text \<open>What the initialization leaves at the two ends: the sender holds, for every bit of its
  correlation, the seed of the receiver that the bit selects.\<close>

definition ote_correlated :: "ote_sender \<Rightarrow> ote_receiver \<Rightarrow> bool" where
  "ote_correlated snd0 rcv \<longleftrightarrow> length (correlation snd0) = KAPPA \<and>
     length (seeds0 rcv) = KAPPA \<and> length (seeds1 rcv) = KAPPA \<and>
     ote_seeds snd0 = map (\<lambda>i. if correlation snd0 ! i then seeds1 rcv ! i else seeds0 rcv ! i) [0..<KAPPA]"

definition extended_rows :: "('s, 'p) suite \<Rightarrow> bytes \<Rightarrow> bytes list \<Rightarrow> bytes list" where
  "extended_rows S sid sds = map (\<lambda>i. extend_seed S sid i (sds ! i)) [0..<KAPPA]"

lemma receiver_phase1_honest:
  assumes "suite_ok S" and "length choice_bits = BATCH_SIZE"
    and "length (seeds0 rcv) = KAPPA" and "length (seeds1 rcv) = KAPPA"
  obtains chi1 chi2 u vx vt where
    "chi1 = chi_challenge S sid ''chi1'' u" "chi2 = chi_challenge S sid ''chi2'' u"
    "u = map (\<lambda>i. xor_bytes (xor_bytes (extended_rows S sid (seeds0 rcv) ! i)
        (extended_rows S sid (seeds1 rcv) ! i)) (compress_bits (choice_bits @ noise) PRG_BYTES)) [0..<KAPPA]"
    "combine_row chi1 chi2 (compress_bits (choice_bits @ noise) PRG_BYTES) = Inr vx"
    "map_res (combine_row chi1 chi2) (extended_rows S sid (seeds0 rcv)) = Inr vt"
    "ote_receiver_phase1 S rcv noise sid choice_bits =
      Inr (extended_rows S sid (seeds0 rcv), \<lparr>ote_u = u, verify_x = vx, verify_t = vt\<rparr>)"
proof -
  let ?x = "compress_bits (choice_bits @ noise) PRG_BYTES"
  let ?e0 = "extended_rows S sid (seeds0 rcv)" and ?e1 = "extended_rows S sid (seeds1 rcv)"
  define u where "u = map (\<lambda>i. xor_bytes (xor_bytes (?e0 ! i) (?e1 ! i)) ?x) [0..<KAPPA]"
  define chi1 where "chi1 = chi_challenge S sid ''chi1'' u"
  define chi2 where "chi2 = chi_challenge S sid ''chi2'' u"
  have chi: "length chi1 = OT_BYTES" "length chi2 = OT_BYTES"
    using assms(1) by (simp_all add: chi1_def chi2_def length_chi)
  have rows: "length (?e0 ! i) = PRG_BYTES" "length (?e1 ! i) = PRG_BYTES" if "i < KAPPA" for i
    using that assms(1) by (simp_all add: extended_rows_def length_extend_seed)
  obtain vx where vx: "combine_row chi1 chi2 ?x = Inr vx"
    by (rule combine_row_total [OF _ chi, of ?x]) auto
  have "\<exists>r. combine_row chi1 chi2 row = Inr r" if "row \<in> set ?e0" for row
  proof -
    have "length row = PRG_BYTES" using that assms(1) by (auto simp: extended_rows_def length_extend_seed)
    then show ?thesis by (rule combine_row_total [OF _ chi]) blast
  qed
  then obtain vt where vt: "map_res (combine_row chi1 chi2) ?e0 = Inr vt"
    using map_res_total [of ?e0 "combine_row chi1 chi2" "\<lambda>row. projr (combine_row chi1 chi2 row)"]
    by (metis sum.sel(2))
  have u: "map (\<lambda>i. map (\<lambda>j. ?e0 ! i ! j XOR ?e1 ! i ! j XOR ?x ! j) [0..<PRG_BYTES]) [0..<KAPPA] = u"
    unfolding u_def using rows by (intro map_cong refl nth_equalityI) (auto simp: xor.assoc)
  have "ote_receiver_phase1 S rcv noise sid choice_bits =
      Inr (?e0, \<lparr>ote_u = u, verify_x = vx, verify_t = vt\<rparr>)"
    using assms vx vt unfolding ote_receiver_phase1_def Let_def extended_rows_def [symmetric] u
      chi1_def [symmetric] chi2_def [symmetric] by simp
  with vx vt show thesis
    using that [OF chi1_def chi2_def u_def vx vt] by blast
qed

lemma nth_extended_rows: "i < KAPPA \<Longrightarrow> extended_rows S sid sds ! i = extend_seed S sid i (sds ! i)"
  by (simp add: extended_rows_def)

lemma length_extended_rows [simp]: "length (extended_rows S sid sds) = KAPPA"
  by (simp add: extended_rows_def)

lemma map_select_xor:
  "length a = n \<Longrightarrow> length b = n \<Longrightarrow>
    map (\<lambda>j. of_bool c * a ! j XOR b ! j) [0..<n] = (if c then xor_bytes a b else b)"
  "length a = n \<Longrightarrow> length b = n \<Longrightarrow>
    map (\<lambda>j. b ! j XOR of_bool c * a ! j) [0..<n] = (if c then xor_bytes b a else b)"
  by (auto intro!: nth_equalityI)

lemma nth_sender_q:
  "i < KAPPA \<Longrightarrow> length (u ! i) = PRG_BYTES \<Longrightarrow> length (ext ! i) = PRG_BYTES \<Longrightarrow>
    sender_q snd0 u ext ! i = (if correlation snd0 ! i then xor_bytes (u ! i) (ext ! i) else ext ! i)"
  unfolding sender_q_def by (simp only: nth_map length_upt nth_upt map_select_xor minus_nat.diff_0 add_0)

lemma nth_sender_checks:
  "i < KAPPA \<Longrightarrow> length (verify_t data ! i) = OT_BYTES \<Longrightarrow> length (verify_x data) = OT_BYTES \<Longrightarrow>
    sender_checks snd0 data ! i =
      (if correlation snd0 ! i then xor_bytes (verify_t data ! i) (verify_x data) else verify_t data ! i)"
  unfolding sender_checks_def by (simp only: nth_map length_upt nth_upt map_select_xor minus_nat.diff_0 add_0)

text \<open>The sender's matrix is the receiver's one, with the choice vector added to the rows that the
  correlation selects.\<close>

lemma sender_q_rows:
  assumes "suite_ok S" and "ote_correlated snd0 rcv" and "length x = PRG_BYTES" and "i < KAPPA"
    and "u = map (\<lambda>i. xor_bytes (xor_bytes (extended_rows S sid (seeds0 rcv) ! i)
        (extended_rows S sid (seeds1 rcv) ! i)) x) [0..<KAPPA]"
  shows "sender_q snd0 u (extended_rows S sid (ote_seeds snd0)) ! i =
    (if correlation snd0 ! i then xor_bytes (extended_rows S sid (seeds0 rcv) ! i) x
     else extended_rows S sid (seeds0 rcv) ! i)"
proof -
  let ?e0 = "extended_rows S sid (seeds0 rcv) ! i" and ?e1 = "extended_rows S sid (seeds1 rcv) ! i"
  have len: "length ?e0 = PRG_BYTES" "length ?e1 = PRG_BYTES"
    using assms(1,4) by (simp_all add: nth_extended_rows length_extend_seed)
  have "extended_rows S sid (ote_seeds snd0) ! i = (if correlation snd0 ! i then ?e1 else ?e0)"
    using assms(2,4) by (simp add: nth_extended_rows ote_correlated_def)
  moreover have "sender_q snd0 u (extended_rows S sid (ote_seeds snd0)) ! i =
      (if correlation snd0 ! i then xor_bytes (xor_bytes (xor_bytes ?e0 ?e1) x)
         (extended_rows S sid (ote_seeds snd0) ! i)
       else extended_rows S sid (ote_seeds snd0) ! i)"
    using assms(3,4,5) len calculation by (simp add: sender_q_def map_select_xor)
  moreover have "xor_bytes (xor_bytes (xor_bytes ?e0 ?e1) x) ?e1 = xor_bytes ?e0 x"
  proof -
    have "xor_bytes (xor_bytes (xor_bytes ?e0 ?e1) x) ?e1 = xor_bytes (xor_bytes (xor_bytes ?e0 x) ?e1) ?e1"
      by (simp only: xor_bytes_ac)
    then show ?thesis using len assms(3) by (simp add: xor_bytes_cancel)
  qed
  ultimately show ?thesis by simp
qed

lemma honest_check_passes:
  assumes "suite_ok S" and "ote_correlated snd0 rcv" and "length x = PRG_BYTES"
    and "length chi1 = OT_BYTES" "length chi2 = OT_BYTES"
    and u: "u = map (\<lambda>i. xor_bytes (xor_bytes (extended_rows S sid (seeds0 rcv) ! i)
        (extended_rows S sid (seeds1 rcv) ! i)) x) [0..<KAPPA]"
    and vx: "combine_row chi1 chi2 x = Inr vx"
    and vt: "map_res (combine_row chi1 chi2) (extended_rows S sid (seeds0 rcv)) = Inr vt"
  shows "map_res (combine_row chi1 chi2) (sender_q snd0 u (extended_rows S sid (ote_seeds snd0))) =
    Inr (sender_checks snd0 \<lparr>ote_u = u, verify_x = vx, verify_t = vt\<rparr>)"
proof -
  let ?q = "sender_q snd0 u (extended_rows S sid (ote_seeds snd0))"
  let ?checks = "sender_checks snd0 \<lparr>ote_u = u, verify_x = vx, verify_t = vt\<rparr>"
  have len: "length ?q = KAPPA" "length ?checks = KAPPA" "length vt = KAPPA"
    using map_res_length [OF vt] by (simp_all add: sender_q_def sender_checks_def)
  have "combine_row chi1 chi2 (?q ! i) = Inr (?checks ! i)" if i: "i < KAPPA" for i
  proof -
    let ?e0 = "extended_rows S sid (seeds0 rcv) ! i"
    have e0: "length ?e0 = PRG_BYTES" using assms(1) i by (simp add: nth_extended_rows length_extend_seed)
    have t: "combine_row chi1 chi2 ?e0 = Inr (vt ! i)" using map_res_nth [OF vt, of i] i by simp
    have "length vx = OT_BYTES" "length (vt ! i) = OT_BYTES"
      using length_combine_row [OF assms(3-5) vx] length_combine_row [OF e0 assms(4,5) t] by simp_all
    then have "?checks ! i = (if correlation snd0 ! i then xor_bytes (vt ! i) vx else vt ! i)"
      using i by (simp add: nth_sender_checks)
    then show ?thesis
      using sender_q_rows [OF assms(1-3) i u] t combine_row_xor [OF e0 assms(3-5) t vx] by simp
  qed
  then have "list_all2 (\<lambda>row r. combine_row chi1 chi2 row = Inr r) ?q ?checks"
    using len by (simp add: list_all2_conv_all_nth)
  then show ?thesis by (simp add: map_res_Inr_iff)
qed

lemma row_eqI:
  assumes "length a = KAPPA_BYTES" and "length b = KAPPA_BYTES"
    and "\<And>i. i < KAPPA \<Longrightarrow> bit (a ! (i div 8)) (i mod 8) = bit (b ! (i div 8)) (i mod 8)"
  shows "a = (b :: bytes)"
proof (rule nth_equalityI)
  fix k
  assume k: "k < length a"
  show "a ! k = b ! k"
  proof (rule bit_word_eqI)
    fix p :: nat
    assume "p < LENGTH(8)"
    then show "bit (a ! k) p = bit (b ! k) p"
      using assms(3) [of "k * 8 + p"] k assms(1) by (simp add: ote_sizes)
  qed
qed (simp add: assms)

text \<open>The transposed matrices differ by the correlation in exactly the rows of the choice bits.\<close>

lemma transposed_rows:
  assumes "suite_ok S" and "ote_correlated snd0 rcv" and "length choice_bits = BATCH_SIZE"
    and u: "u = map (\<lambda>i. xor_bytes (xor_bytes (extended_rows S sid (seeds0 rcv) ! i)
        (extended_rows S sid (seeds1 rcv) ! i)) (compress_bits (choice_bits @ noise) PRG_BYTES)) [0..<KAPPA]"
  shows "\<exists>tq tt. cut_and_transpose (sender_q snd0 u (extended_rows S sid (ote_seeds snd0))) = Inr tq \<and>
    cut_and_transpose (extended_rows S sid (seeds0 rcv)) = Inr tt \<and>
    (\<forall>j < BATCH_SIZE. length (tq ! j) = KAPPA_BYTES \<and> length (tt ! j) = KAPPA_BYTES \<and>
      tt ! j = (if choice_bits ! j then xor_bytes (tq ! j) (compress_bits (correlation snd0) KAPPA_BYTES)
                else tq ! j))"
proof -
  let ?q = "sender_q snd0 u (extended_rows S sid (ote_seeds snd0))"
  let ?t = "extended_rows S sid (seeds0 rcv)"
  let ?x = "compress_bits (choice_bits @ noise) PRG_BYTES"
  obtain tq where tq: "cut_and_transpose ?q = Inr tq" "length tq = BATCH_SIZE"
    "\<forall>r \<in> set tq. length r = KAPPA_BYTES"
    "\<forall>j < BATCH_SIZE. \<forall>i < KAPPA. matrix_bit tq j i = matrix_bit ?q i j"
    using cut_and_transpose_bits [of ?q] by (auto simp: sender_q_def)
  obtain tt where tt: "cut_and_transpose ?t = Inr tt" "length tt = BATCH_SIZE"
    "\<forall>r \<in> set tt. length r = KAPPA_BYTES"
    "\<forall>j < BATCH_SIZE. \<forall>i < KAPPA. matrix_bit tt j i = matrix_bit ?t i j"
    using cut_and_transpose_bits [of ?t] by auto
  have rows: "length (tq ! j) = KAPPA_BYTES" "length (tt ! j) = KAPPA_BYTES" if "j < BATCH_SIZE" for j
    using that tq(2,3) tt(2,3) by simp_all
  have "tt ! j = (if choice_bits ! j then xor_bytes (tq ! j) (compress_bits (correlation snd0) KAPPA_BYTES)
      else tq ! j)" if j: "j < BATCH_SIZE" for j
  proof (rule row_eqI)
    fix i
    assume i: "i < KAPPA"
    have jb: "j div 8 < PRG_BYTES" and ib: "i div 8 < KAPPA_BYTES" using i j by (simp_all add: ote_sizes)
    have x: "bit (?x ! (j div 8)) (j mod 8) = choice_bits ! j"
      using jb j assms(3) by (simp add: compress_bits_def bit_compress_byte nth_append)
    have c: "bit (compress_bits (correlation snd0) KAPPA_BYTES ! (i div 8)) (i mod 8) = correlation snd0 ! i"
      using ib by (simp add: compress_bits_def bit_compress_byte)
    have "length (?t ! i) = PRG_BYTES" using i assms(1) by (simp add: nth_extended_rows length_extend_seed)
    then have "matrix_bit ?q i j = (matrix_bit ?t i j \<noteq> (correlation snd0 ! i \<and> choice_bits ! j))"
      using sender_q_rows [OF assms(1,2) _ i u] jb x by (auto simp: matrix_bit_def bit_xor_iff)
    then have "matrix_bit tq j i = (matrix_bit tt j i \<noteq> (correlation snd0 ! i \<and> choice_bits ! j))"
      using tq(4) tt(4) i j by simp
    then show "bit (tt ! j ! (i div 8)) (i mod 8) = bit ((if choice_bits ! j then
        xor_bytes (tq ! j) (compress_bits (correlation snd0) KAPPA_BYTES) else tq ! j) ! (i div 8)) (i mod 8)"
      using ib rows [OF j] c by (auto simp: matrix_bit_def bit_xor_iff)
  qed (use rows j in auto)
  with tq(1) tt(1) rows show ?thesis by blast
qed

lemma ote_honest_run:
  fixes S :: "('s::field, 'p::ab_group_add) suite"
  assumes "suite_ok S" and "ote_correlated snd0 rcv" and "length choice_bits = BATCH_SIZE"
    and "length inputs = unat w" and "\<forall>c \<in> set inputs. length c = BATCH_SIZE"
  shows "\<exists>ext data v0 tau tb. ote_receiver_phase1 S rcv noise sid choice_bits = Inr (ext, data) \<and>
    ote_sender_run S snd0 sid w inputs data = Inr (v0, tau) \<and>
    ote_receiver_phase2 S sid w choice_bits ext tau = Inr tb \<and>
    length v0 = unat w \<and> length tb = unat w \<and>
    (\<forall>k < unat w. length (v0 ! k) = BATCH_SIZE \<and> length (tb ! k) = BATCH_SIZE \<and>
      (\<forall>j < BATCH_SIZE. v0 ! k ! j + tb ! k ! j = (if choice_bits ! j then inputs ! k ! j else 0)))"
proof -
  let ?x = "compress_bits (choice_bits @ noise) PRG_BYTES"
  have rl: "length (seeds0 rcv) = KAPPA" "length (seeds1 rcv) = KAPPA"
    using assms(2) by (simp_all add: ote_correlated_def)
  obtain chi1 chi2 u vx vt where
    chi: "chi1 = chi_challenge S sid ''chi1'' u" "chi2 = chi_challenge S sid ''chi2'' u"
    and u: "u = map (\<lambda>i. xor_bytes (xor_bytes (extended_rows S sid (seeds0 rcv) ! i)
        (extended_rows S sid (seeds1 rcv) ! i)) ?x) [0..<KAPPA]"
    and vx: "combine_row chi1 chi2 ?x = Inr vx"
    and vt: "map_res (combine_row chi1 chi2) (extended_rows S sid (seeds0 rcv)) = Inr vt"
    and p1: "ote_receiver_phase1 S rcv noise sid choice_bits =
      Inr (extended_rows S sid (seeds0 rcv), \<lparr>ote_u = u, verify_x = vx, verify_t = vt\<rparr>)"
    by (rule receiver_phase1_honest [OF assms(1,3) rl])
  let ?data = "\<lparr>ote_u = u, verify_x = vx, verify_t = vt\<rparr>"
  obtain tq tt where
    tq: "cut_and_transpose (sender_q snd0 u (extended_rows S sid (ote_seeds snd0))) = Inr tq"
    and tt: "cut_and_transpose (extended_rows S sid (seeds0 rcv)) = Inr tt"
    and rows: "\<forall>j < BATCH_SIZE. length (tq ! j) = KAPPA_BYTES \<and> length (tt ! j) = KAPPA_BYTES \<and>
      tt ! j = (if choice_bits ! j then xor_bytes (tq ! j) (compress_bits (correlation snd0) KAPPA_BYTES)
                else tq ! j)"
    using transposed_rows [OF assms(1-3) u] by blast
  obtain v0 tau where out: "sender_outputs S snd0 sid w inputs tq = (v0, tau)"
    by (cases "sender_outputs S snd0 sid w inputs tq")
  have lenchi: "length chi1 = OT_BYTES" "length chi2 = OT_BYTES"
    using assms(1) by (simp_all add: chi length_chi)
  have dims: "sender_dimensions snd0 w inputs ?data = Inr ()"
    using assms(2,4,5) u map_res_length [OF vt]
    by (auto simp: sender_dimensions_def ote_correlated_def check_each_Inr_iff rbind_Inr_iff)
  have "ote_sender_run S snd0 sid w inputs ?data = Inr (v0, tau)"
    unfolding ote_sender_run_def Let_def dims rbind.simps extended_rows_def [symmetric]
      ote_data_to_sender.simps chi [symmetric]
      honest_check_passes [OF assms(1,2) length_compress_bits lenchi u vx vt]
    by (simp add: list.rel_eq [unfolded fun_eq_iff] tq out)
  moreover
  have v0: "v0 = map (\<lambda>k. map (\<lambda>j. ote_randomize S sid j k (tq ! j)) [0..<BATCH_SIZE]) [0..<unat w]"
    and tau: "tau = map (\<lambda>k. map (\<lambda>j. ote_randomize S sid j k
        (map (\<lambda>i. tq ! j ! i XOR compress_bits (correlation snd0) KAPPA_BYTES ! i) [0..<KAPPA_BYTES])
        - v0 ! k ! j + inputs ! k ! j) [0..<BATCH_SIZE]) [0..<unat w]"
    using out by (auto simp: sender_outputs_def Let_def)
  have tau': "tau ! k ! j = ote_randomize S sid j k
      (xor_bytes (tq ! j) (compress_bits (correlation snd0) KAPPA_BYTES)) - v0 ! k ! j + inputs ! k ! j"
    if "k < unat w" "j < BATCH_SIZE" for k j
  proof -
    have "map (\<lambda>i. tq ! j ! i XOR compress_bits (correlation snd0) KAPPA_BYTES ! i) [0..<KAPPA_BYTES] =
        xor_bytes (tq ! j) (compress_bits (correlation snd0) KAPPA_BYTES)"
      using rows that by (intro nth_equalityI) simp_all
    with that show ?thesis by (simp add: tau)
  qed
  have lens: "length tau = unat w" "\<forall>t \<in> set tau. length t = BATCH_SIZE" by (auto simp: tau)
  define tb where "tb = receiver_outputs S sid w choice_bits tt tau"
  have "ote_receiver_phase2 S sid w choice_bits (extended_rows S sid (seeds0 rcv)) tau = Inr tb"
    using assms(3) lens tt by (simp add: ote_receiver_phase2_def tb_def rbind_Inr_iff check_each_Inr_iff)
  moreover have "v0 ! k ! j + tb ! k ! j = (if choice_bits ! j then inputs ! k ! j else 0)"
    if "k < unat w" "j < BATCH_SIZE" for k j
    using that rows tau' [OF that] by (simp add: tb_def receiver_outputs_def Let_def v0)
  moreover have "length v0 = unat w \<and> length tb = unat w \<and>
      (\<forall>k < unat w. length (v0 ! k) = BATCH_SIZE \<and> length (tb ! k) = BATCH_SIZE)"
    by (simp add: v0 tb_def receiver_outputs_def Let_def)
  ultimately show ?thesis using p1 by blast
qed

interpretation ote: correlated_ot
  "suite_ok :: ('s::field, 'p::ab_group_add) suite \<Rightarrow> bool" BATCH_SIZE ote_correlated
  ote_receiver_phase1 ote_sender_run ote_receiver_phase2
  by unfold_locales (rule ote_honest_run)

text \<open>C20: correlated oblivious transfer.  When the two ends hold correlated seeds, the three
  messages of an honest execution are all accepted, for every width, and the outputs are additive
  shares of the product of each choice bit with each input correlation.\<close>

theorem ote_correct:
  fixes S :: "('s::field, 'p::ab_group_add) suite"
  assumes "suite_ok S" and "ote_correlated snd0 rcv" and "length choice_bits = BATCH_SIZE"
    and "length inputs = unat w" and "\<forall>c \<in> set inputs. length c = BATCH_SIZE"
  shows "\<exists>ext data v0 tau tb. ote_receiver_phase1 S rcv noise sid choice_bits = Inr (ext, data) \<and>
    ote_sender_run S snd0 sid w inputs data = Inr (v0, tau) \<and>
    ote_receiver_phase2 S sid w choice_bits ext tau = Inr tb \<and>
    length v0 = unat w \<and> length tb = unat w \<and>
    (\<forall>k < unat w. length (v0 ! k) = BATCH_SIZE \<and> length (tb ! k) = BATCH_SIZE \<and>
      (\<forall>j < BATCH_SIZE. v0 ! k ! j + tb ! k ! j = (if choice_bits ! j then inputs ! k ! j else 0)))"
  using assms by (rule ote_honest_run)

definition sample_ote_receiver :: ote_receiver where
  "sample_ote_receiver = \<lparr>seeds0 = replicate KAPPA [1], seeds1 = replicate KAPPA [2]\<rparr>"

definition sample_ote_sender :: ote_sender where
  "sample_ote_sender = \<lparr>correlation = map even [0..<KAPPA],
     ote_seeds = map (\<lambda>i. if even i then [2] else [1]) [0..<KAPPA]\<rparr>"

lemma sample_ote_correlated: "ote_correlated sample_ote_sender sample_ote_receiver"
  by (simp add: ote_correlated_def sample_ote_sender_def sample_ote_receiver_def)

lemma ote_correct_witness:
  "\<exists>ext data v0 tau tb.
    ote_receiver_phase1 sample_suite sample_ote_receiver [] [7] (replicate BATCH_SIZE True) = Inr (ext, data) \<and>
    ote_sender_run sample_suite sample_ote_sender [7] 1 [replicate BATCH_SIZE 5] data = Inr (v0, tau) \<and>
    ote_receiver_phase2 sample_suite [7] 1 (replicate BATCH_SIZE True) ext tau = Inr tb \<and>
    v0 ! 0 ! 3 + tb ! 0 ! 3 = 5"
proof -
  have "3 < BATCH_SIZE" by (simp add: ote_sizes)
  with ote_correct [OF sample_suite_ok sample_ote_correlated, of "replicate BATCH_SIZE True"
      "[replicate BATCH_SIZE 5]" 1 "[]" "[7]"]
  show ?thesis by fastforce
qed

lemma ote_init:
  fixes S :: "('s::field, 'p::ab_group_add) suite"
  assumes "suite_ok S" and "s \<noteq> 0" and "coins_ok fcoins"
    and "ote_receiver_init_phase1 S s fcoins sid = Some (base_snd, dlog)"
    and "length bits = KAPPA" and "batch_ok S sid sd coins bits"
  shows "\<exists>base_rcv rs proofs snd0 rcv.
    ote_sender_init_phase1 S sd bits coins sid = Inr (base_rcv, bits, rs, proofs) \<and>
    ote_sender_init_phase2 S sid bits rs dlog = Inr snd0 \<and>
    ote_receiver_init_phase2 S base_snd sid (otr_seed base_rcv) proofs = Inr rcv \<and>
    correlation snd0 = bits \<and> ote_correlated snd0 rcv"
proof -
  have p: "ot_sender_init S s fcoins sid = Some base_snd" "dlog = ots_proof base_snd"
    using assms(4) by (auto simp: ote_receiver_init_phase1_def ot_sender_phase1_def split: option.splits)
  then have prove: "dlog_prove S fcoins s sid = Inr dlog" "ots_s base_snd = s"
    by (auto simp: ot_sender_init_def split: sum.splits)
  have v: "dlog_verify S dlog sid" using assms(1,3,2) prove(1) by (rule dlog_prove_verifies)
  have pt: "dlp_point dlog = pmul S (generator S) (ots_s base_snd)"
    using prove by (auto elim: dlog_prove_shape)
  obtain rs proofs m0 m1 mb where b:
    "ot_receiver_phase1_batch S \<lparr>otr_seed = sd\<rparr> coins sid bits = Inr (rs, proofs)"
    "ot_sender_phase2_batch S base_snd sid sd proofs = Inr (m0, m1)"
    "ot_receiver_phase2_batch S sid rs dlog = Inr mb"
    "length m0 = length bits" "length m1 = length bits"
    "mb = map (\<lambda>i. if bits ! i then m1 ! i else m0 ! i) [0..<length bits]"
    using base_ot_batch [OF assms(1) v pt assms(6)] by blast
  show ?thesis
    using b assms(5)
    by (intro exI [of _ "\<lparr>otr_seed = sd\<rparr>"] exI [of _ rs] exI [of _ proofs]
        exI [of _ "\<lparr>correlation = bits, ote_seeds = mb\<rparr>"] exI [of _ "\<lparr>seeds0 = m0, seeds1 = m1\<rparr>"])
      (simp add: ote_sender_init_phase1_def ote_sender_init_phase2_def ote_receiver_init_phase2_def
        ot_receiver_init_def ote_correlated_def)
qed

text \<open>Initialization establishes what the extension assumes.  An honest run of the base transfer
  with the roles reversed leaves the two ends with correlated seeds.\<close>

theorem ote_init_correlated:
  fixes S :: "('s::field, 'p::ab_group_add) suite"
  assumes "suite_ok S" and "s \<noteq> 0" and "coins_ok fcoins"
    and "ote_receiver_init_phase1 S s fcoins sid = Some (base_snd, dlog)"
    and "length bits = KAPPA" and "batch_ok S sid sd coins bits"
  shows "\<exists>base_rcv rs proofs snd0 rcv.
    ote_sender_init_phase1 S sd bits coins sid = Inr (base_rcv, bits, rs, proofs) \<and>
    ote_sender_init_phase2 S sid bits rs dlog = Inr snd0 \<and>
    ote_receiver_init_phase2 S base_snd sid (otr_seed base_rcv) proofs = Inr rcv \<and>
    correlation snd0 = bits \<and> ote_correlated snd0 rcv"
  using assms by (rule ote_init)

section \<open>Wire format of the matrix\<close>

text \<open>\<open>serialize_vec_prg\<close> and \<open>deserialize_vec_prg\<close> up to the byte string that \<open>serde_bytes\<close> carries:
  the rows are joined, and cut again into chunks of 78 bytes, the last of which must be full.\<close>

definition serialize_vec_prg :: "bytes list \<Rightarrow> bytes" where
  "serialize_vec_prg data = concat data"

function chunks :: "nat \<Rightarrow> bytes \<Rightarrow> bytes list" where
  "chunks n xs = (if xs = [] \<or> n = 0 then [] else take n xs # chunks n (drop n xs))"
  by auto
termination by (relation "measure (\<lambda>(n, xs). length xs)") auto

declare chunks.simps [simp del]

definition deserialize_vec_prg :: "bytes \<Rightarrow> unit + bytes list" where
  "deserialize_vec_prg concatenated =
     map_res (\<lambda>chunk. if length chunk = PRG_BYTES then Inr chunk else Inl ())
       (chunks PRG_BYTES concatenated)"

lemma chunks_concat:
  "0 < n \<Longrightarrow> \<forall>r \<in> set rows. length r = n \<Longrightarrow> chunks n (concat rows) = rows"
proof (induction rows)
  case Nil
  then show ?case by (simp add: chunks.simps)
next
  case (Cons r rows)
  then have "r @ concat rows \<noteq> []" by auto
  with Cons show ?case by (subst chunks.simps) simp
qed

lemma concat_chunks: "0 < n \<Longrightarrow> concat (chunks n xs) = xs"
proof (induction n xs rule: chunks.induct)
  case (1 n xs)
  then show ?case by (subst chunks.simps) auto
qed

lemma list_all2_eq_and: "list_all2 (\<lambda>c r. c = r \<and> P r) xs ys \<longleftrightarrow> xs = ys \<and> list_all P ys"
proof (induction xs arbitrary: ys)
  case (Cons x xs)
  then show ?case by (cases ys) auto
qed auto

lemma deserialize_iff:
  "deserialize_vec_prg b = Inr rows \<longleftrightarrow>
    chunks PRG_BYTES b = rows \<and> list_all (\<lambda>r. length r = PRG_BYTES) rows"
proof -
  have "(\<lambda>c r. (if length c = PRG_BYTES then Inr c else Inl ()) = (Inr r :: unit + bytes)) =
      (\<lambda>c r. c = r \<and> length r = PRG_BYTES)"
    by (auto simp: fun_eq_iff)
  then show ?thesis by (simp add: deserialize_vec_prg_def map_res_Inr_iff list_all2_eq_and)
qed

text \<open>The wire format of the matrix is faithful: reading back what was written gives the same
  rows, and a byte string that is accepted at all is the one its rows are written as.\<close>

theorem vec_prg_roundtrip:
  "deserialize_vec_prg b = Inr rows \<longleftrightarrow>
    b = serialize_vec_prg rows \<and> list_all (\<lambda>r. length r = PRG_BYTES) rows"
proof -
  have "0 < PRG_BYTES" by (simp add: ote_sizes)
  then show ?thesis
    using chunks_concat [of PRG_BYTES rows] concat_chunks [of PRG_BYTES b]
    by (auto simp: deserialize_iff serialize_vec_prg_def list_all_iff)
qed

section \<open>Errors of the sender\<close>

lemma combine_rows_total:
  assumes "\<forall>r \<in> set rows. length r = PRG_BYTES" "length chi1 = OT_BYTES" "length chi2 = OT_BYTES"
  shows "\<exists>rs. map_res (combine_row chi1 chi2) rows = Inr rs"
proof -
  have "\<exists>r. combine_row chi1 chi2 row = Inr r" if "row \<in> set rows" for row
    using combine_row_total [OF _ assms(2,3), of row] assms(1) that by metis
  then show ?thesis
    using map_res_total [of rows "combine_row chi1 chi2" "\<lambda>row. projr (combine_row chi1 chi2 row)"]
    by (metis sum.sel(2))
qed

text \<open>The check as an equation between what the sender computes and what it expects.\<close>

definition check_holds ::
  "('s, 'p) suite \<Rightarrow> ote_sender \<Rightarrow> bytes \<Rightarrow> ote_data_to_sender \<Rightarrow> bool" where
  "check_holds S snd0 sid data \<longleftrightarrow>
     map_res (combine_row (chi_challenge S sid ''chi1'' (ote_u data)) (chi_challenge S sid ''chi2'' (ote_u data)))
       (sender_q snd0 (ote_u data) (extended_rows S sid (ote_seeds snd0))) =
     Inr (sender_checks snd0 data)"

lemma sender_dimensions_error: "sender_dimensions snd0 w inputs data = Inl e \<Longrightarrow> ot_kind e = MalformedMessage"
  by (auto simp: sender_dimensions_def rbind_Inl_iff split: if_splits dest!: check_each_Inl)

lemma ote_sender_run_cases:
  fixes S :: "('s::field, 'p::ab_group_add) suite"
  assumes "suite_ok S"
  shows "(\<exists>e. sender_dimensions snd0 w inputs data = Inl e \<and>
      ote_sender_run S snd0 sid w inputs data = Inl e \<and> ot_kind e = MalformedMessage) \<or>
    (sender_dimensions snd0 w inputs data = Inr () \<and> \<not> check_holds S snd0 sid data \<and>
      ote_sender_run S snd0 sid w inputs data =
        Inl (ErrorOT_consistency ''Receiver cheated in OTE: Consistency check failed!'')) \<or>
    (sender_dimensions snd0 w inputs data = Inr () \<and> check_holds S snd0 sid data \<and>
      (\<exists>out. ote_sender_run S snd0 sid w inputs data = Inr out))"
proof (cases "sender_dimensions snd0 w inputs data")
  case (Inl e)
  then show ?thesis using sender_dimensions_error [OF Inl] by (simp add: ote_sender_run_def)
next
  case (Inr x)
  let ?q = "sender_q snd0 (ote_u data) (extended_rows S sid (ote_seeds snd0))"
  have "\<forall>r \<in> set ?q. length r = PRG_BYTES" by (auto simp: sender_q_def)
  then obtain vq where vq: "map_res (combine_row (chi_challenge S sid ''chi1'' (ote_u data))
      (chi_challenge S sid ''chi2'' (ote_u data))) ?q = Inr vq"
    using combine_rows_total [of ?q] length_chi [OF assms] by metis
  have "length ?q = KAPPA" by (simp add: sender_q_def)
  then obtain tq where tq: "cut_and_transpose ?q = Inr tq"
    using cut_and_transpose_bits by blast
  have run: "ote_sender_run S snd0 sid w inputs data =
      (if vq \<noteq> sender_checks snd0 data then
        Inl (ErrorOT_consistency ''Receiver cheated in OTE: Consistency check failed!'')
       else Inr (sender_outputs S snd0 sid w inputs tq))"
    using Inr vq tq by (simp add: ote_sender_run_def Let_def extended_rows_def [symmetric]
        list.rel_eq [unfolded fun_eq_iff])
  have "check_holds S snd0 sid data \<longleftrightarrow> vq = sender_checks snd0 data"
    by (simp add: check_holds_def vq)
  with run Inr show ?thesis by auto
qed

text \<open>What a row must equal, from the receiver's side.  \<open>t_deviation\<close> is by how much entry \<open>i\<close> of \<open>verify_t\<close>
  misses the combination of the receiver's first extended seed, and \<open>x_deviation\<close> by how much
  \<open>verify_x\<close> misses the combination of the choices that row \<open>i\<close> of \<open>u\<close> encodes; both vanish in an honest
  message.\<close>

definition row_digest :: "('s, 'p) suite \<Rightarrow> bytes \<Rightarrow> bytes list \<Rightarrow> bytes \<Rightarrow> bytes" where
  "row_digest S sid u row =
     (case combine_row (chi_challenge S sid ''chi1'' u) (chi_challenge S sid ''chi2'' u) row of
        Inl e \<Rightarrow> [] | Inr d \<Rightarrow> d)"

definition t_deviation :: "('s, 'p) suite \<Rightarrow> ote_receiver \<Rightarrow> bytes \<Rightarrow> ote_data_to_sender \<Rightarrow> nat \<Rightarrow> bytes" where
  "t_deviation S rcv sid data i =
     xor_bytes (row_digest S sid (ote_u data) (extend_seed S sid i (seeds0 rcv ! i))) (verify_t data ! i)"

definition x_deviation :: "('s, 'p) suite \<Rightarrow> ote_receiver \<Rightarrow> bytes \<Rightarrow> ote_data_to_sender \<Rightarrow> nat \<Rightarrow> bytes" where
  "x_deviation S rcv sid data i =
     xor_bytes (row_digest S sid (ote_u data) (xor_bytes (ote_u data ! i)
       (xor_bytes (extend_seed S sid i (seeds0 rcv ! i)) (extend_seed S sid i (seeds1 rcv ! i))))) (verify_x data)"

definition zero_row :: bytes where "zero_row = replicate OT_BYTES 0"

lemma row_digest_result:
  assumes "suite_ok S" and "length row = PRG_BYTES"
  shows "combine_row (chi_challenge S sid ''chi1'' u) (chi_challenge S sid ''chi2'' u) row =
      Inr (row_digest S sid u row)" and "length (row_digest S sid u row) = OT_BYTES"
proof -
  obtain d where d: "combine_row (chi_challenge S sid ''chi1'' u) (chi_challenge S sid ''chi2'' u) row = Inr d"
    using combine_rows_total [of "[row]" "chi_challenge S sid ''chi1'' u" "chi_challenge S sid ''chi2'' u"]
      length_chi [OF assms(1)] assms(2) by (auto simp: rbind_Inr_iff)
  then show "combine_row (chi_challenge S sid ''chi1'' u) (chi_challenge S sid ''chi2'' u) row =
      Inr (row_digest S sid u row)" by (simp add: row_digest_def)
  show "length (row_digest S sid u row) = OT_BYTES"
    using length_combine_row [OF assms(2) length_chi [OF assms(1)] length_chi [OF assms(1)] d] d
    by (simp add: row_digest_def)
qed

lemma row_digest_xor:
  assumes "suite_ok S" and "length a = PRG_BYTES" and "length b = PRG_BYTES"
  shows "row_digest S sid u (xor_bytes a b) = xor_bytes (row_digest S sid u a) (row_digest S sid u b)"
  using combine_row_xor [OF assms(2,3) length_chi [OF assms(1)] length_chi [OF assms(1)]
      row_digest_result(1) [OF assms(1,2)] row_digest_result(1) [OF assms(1,3)]]
  by (simp add: row_digest_def)

lemma xor_word_eqs:
  "a XOR b = 0 \<longleftrightarrow> a = (b :: byte)" "a XOR b = c XOR d \<longleftrightarrow> b XOR d = a XOR (c :: byte)"
  by (auto simp: bit_eq_iff bit_xor_iff)

lemma xor_rows_eqs:
  assumes "length a = OT_BYTES" and "length b = OT_BYTES" and "length c = OT_BYTES" and "length d = OT_BYTES"
  shows "xor_bytes a b = zero_row \<longleftrightarrow> a = b" "xor_bytes a b = xor_bytes c d \<longleftrightarrow> xor_bytes b d = xor_bytes a c"
proof -
  have "(a ! i XOR b ! i = c ! i XOR d ! i) = (b ! i XOR d ! i = a ! i XOR c ! i)" for i
    by (rule xor_word_eqs(2))
  with assms show "xor_bytes a b = zero_row \<longleftrightarrow> a = b"
    "xor_bytes a b = xor_bytes c d \<longleftrightarrow> xor_bytes b d = xor_bytes a c"
    by (simp_all add: list_eq_iff_nth_eq zero_row_def xor_word_eqs(1))
qed

text \<open>The check of one row, on seeds that are correlated.\<close>

lemma row_check_iff:
  assumes "suite_ok S" and "ote_correlated snd0 rcv" and "i < KAPPA"
    and "length (ote_u data ! i) = PRG_BYTES" and "length (verify_x data) = OT_BYTES"
    and "length (verify_t data ! i) = OT_BYTES"
  shows "combine_row (chi_challenge S sid ''chi1'' (ote_u data)) (chi_challenge S sid ''chi2'' (ote_u data))
      (sender_q snd0 (ote_u data) (extended_rows S sid (ote_seeds snd0)) ! i) = Inr (sender_checks snd0 data ! i) \<longleftrightarrow>
    t_deviation S rcv sid data i = (if correlation snd0 ! i then x_deviation S rcv sid data i else zero_row)"
proof -
  let ?e0 = "extend_seed S sid i (seeds0 rcv ! i)" and ?e1 = "extend_seed S sid i (seeds1 rcv ! i)"
  let ?u = "ote_u data ! i" and ?D = "row_digest S sid (ote_u data)"
  let ?x = "xor_bytes ?u (xor_bytes ?e0 ?e1)"
  have len: "length ?e0 = PRG_BYTES" "length ?e1 = PRG_BYTES" "length ?x = PRG_BYTES"
    using assms(1,4) by (simp_all add: length_extend_seed)
  note D = row_digest_result [OF assms(1)]
  have chk: "sender_checks snd0 data ! i =
      (if correlation snd0 ! i then xor_bytes (verify_t data ! i) (verify_x data) else verify_t data ! i)"
    using assms(3,5,6) by (simp add: nth_sender_checks)
  show ?thesis
  proof (cases "correlation snd0 ! i")
    case True
    then have "sender_q snd0 (ote_u data) (extended_rows S sid (ote_seeds snd0)) ! i = xor_bytes ?u ?e1"
      using assms(2-4) len by (simp add: nth_sender_q nth_extended_rows ote_correlated_def)
    moreover have "xor_bytes ?u ?e1 = xor_bytes ?e0 ?x"
    proof -
      have "xor_bytes ?e0 ?x = xor_bytes (xor_bytes (xor_bytes ?u ?e1) ?e0) ?e0" by (simp only: xor_bytes_ac)
      then show ?thesis using len assms(4) by (simp add: xor_bytes_cancel)
    qed
    ultimately show ?thesis
      using True chk D(1) [of "xor_bytes ?e0 ?x"] row_digest_xor [OF assms(1) len(1,3)]
        xor_rows_eqs(2) [OF D(2) [OF len(1)] D(2) [OF len(3)] assms(6,5)] len D(2) assms(5,6)
      by (simp add: t_deviation_def x_deviation_def) (metis xor_bytes_commute)
  next
    case False
    then have "sender_q snd0 (ote_u data) (extended_rows S sid (ote_seeds snd0)) ! i = ?e0"
      using assms(2-4) len by (simp add: nth_sender_q nth_extended_rows ote_correlated_def)
    then show ?thesis
      using False chk D(1) [OF len(1)] xor_rows_eqs(1) [OF D(2) [OF len(1)] assms(6,6,6)]
      by (simp add: t_deviation_def)
  qed
qed

text \<open>The sizes the message and the inputs must have.\<close>

definition ote_message_fits :: "u8 \<Rightarrow> 's list list \<Rightarrow> ote_data_to_sender \<Rightarrow> bool" where
  "ote_message_fits w inputs data \<longleftrightarrow>
     length inputs = unat w \<and> (\<forall>c \<in> set inputs. length c = BATCH_SIZE) \<and>
     length (ote_u data) = KAPPA \<and> length (verify_t data) = KAPPA"

text \<open>The values of the Rust array types.\<close>

definition ote_arrays_ok :: "ote_data_to_sender \<Rightarrow> bool" where
  "ote_arrays_ok data \<longleftrightarrow> (\<forall>r \<in> set (ote_u data). length r = PRG_BYTES) \<and>
     length (verify_x data) = OT_BYTES \<and> (\<forall>t \<in> set (verify_t data). length t = OT_BYTES)"

lemma sender_dimensions_fits:
  assumes "ote_correlated snd0 rcv"
  shows "sender_dimensions snd0 w inputs data = Inr () \<longleftrightarrow> ote_message_fits w inputs data"
  using assms by (auto simp: sender_dimensions_def ote_message_fits_def ote_correlated_def rbind_Inr_iff
      check_each_Inr_iff split: if_splits)

lemma check_holds_rows:
  "check_holds S snd0 sid data \<longleftrightarrow> (\<forall>i < KAPPA.
     combine_row (chi_challenge S sid ''chi1'' (ote_u data)) (chi_challenge S sid ''chi2'' (ote_u data))
       (sender_q snd0 (ote_u data) (extended_rows S sid (ote_seeds snd0)) ! i) = Inr (sender_checks snd0 data ! i))"
  by (simp add: check_holds_def map_res_Inr_iff list_all2_conv_all_nth sender_q_def sender_checks_def)

text \<open>An honest message has its sizes and passes, whatever its choices.\<close>

lemma receiver_message_sizes:
  assumes "suite_ok S" and "ote_receiver_phase1 S rcv noise sid choice_bits = Inr (ext, data)"
  shows "ote_arrays_ok data" "length (ote_u data) = KAPPA" "length (verify_t data) = KAPPA"
proof -
  have len: "length choice_bits = BATCH_SIZE" "length (seeds0 rcv) = KAPPA" "length (seeds1 rcv) = KAPPA"
    using assms(2) by (auto simp: ote_receiver_phase1_def split: if_splits)
  obtain chi1 chi2 u vx vt where
    chi: "chi1 = chi_challenge S sid ''chi1'' u" "chi2 = chi_challenge S sid ''chi2'' u"
    and u: "u = map (\<lambda>i. xor_bytes (xor_bytes (extended_rows S sid (seeds0 rcv) ! i)
        (extended_rows S sid (seeds1 rcv) ! i)) (compress_bits (choice_bits @ noise) PRG_BYTES)) [0..<KAPPA]"
    and vx: "combine_row chi1 chi2 (compress_bits (choice_bits @ noise) PRG_BYTES) = Inr vx"
    and vt: "map_res (combine_row chi1 chi2) (extended_rows S sid (seeds0 rcv)) = Inr vt"
    and p1: "ote_receiver_phase1 S rcv noise sid choice_bits =
      Inr (extended_rows S sid (seeds0 rcv), \<lparr>ote_u = u, verify_x = vx, verify_t = vt\<rparr>)"
    by (rule receiver_phase1_honest [OF assms(1) len])
  have lenchi: "length chi1 = OT_BYTES" "length chi2 = OT_BYTES" using assms(1) by (simp_all add: chi length_chi)
  have data: "data = \<lparr>ote_u = u, verify_x = vx, verify_t = vt\<rparr>" using p1 assms(2) by simp
  have row: "length (extended_rows S sid sds ! i) = PRG_BYTES" if "i < KAPPA" for i sds
    using that assms(1) by (simp add: nth_extended_rows length_extend_seed)
  have "length (vt ! i) = OT_BYTES" if "i < KAPPA" for i
    using length_combine_row [OF row [OF that] lenchi map_res_nth [OF vt]] that by simp
  then show "ote_arrays_ok data" "length (ote_u data) = KAPPA" "length (verify_t data) = KAPPA"
    using row length_combine_row [OF length_compress_bits lenchi vx] map_res_length [OF vt]
    by (auto simp: data u ote_arrays_ok_def in_set_conv_nth)
qed

lemma honest_message_checked:
  assumes "suite_ok S" and "ote_correlated snd0 rcv"
    and "ote_receiver_phase1 S rcv noise sid choice_bits = Inr (ext, data)"
  shows "check_holds S snd0 sid data"
proof -
  have len: "length choice_bits = BATCH_SIZE" "length (seeds0 rcv) = KAPPA" "length (seeds1 rcv) = KAPPA"
    using assms(3) by (auto simp: ote_receiver_phase1_def split: if_splits)
  obtain chi1 chi2 u vx vt where
    chi: "chi1 = chi_challenge S sid ''chi1'' u" "chi2 = chi_challenge S sid ''chi2'' u"
    and u: "u = map (\<lambda>i. xor_bytes (xor_bytes (extended_rows S sid (seeds0 rcv) ! i)
        (extended_rows S sid (seeds1 rcv) ! i)) (compress_bits (choice_bits @ noise) PRG_BYTES)) [0..<KAPPA]"
    and vx: "combine_row chi1 chi2 (compress_bits (choice_bits @ noise) PRG_BYTES) = Inr vx"
    and vt: "map_res (combine_row chi1 chi2) (extended_rows S sid (seeds0 rcv)) = Inr vt"
    and p1: "ote_receiver_phase1 S rcv noise sid choice_bits =
      Inr (extended_rows S sid (seeds0 rcv), \<lparr>ote_u = u, verify_x = vx, verify_t = vt\<rparr>)"
    by (rule receiver_phase1_honest [OF assms(1) len])
  have lenchi: "length chi1 = OT_BYTES" "length chi2 = OT_BYTES" using assms(1) by (simp_all add: chi length_chi)
  from p1 assms(3) have "data = \<lparr>ote_u = u, verify_x = vx, verify_t = vt\<rparr>" by simp
  with honest_check_passes [OF assms(1,2) length_compress_bits lenchi u vx vt] show ?thesis
    by (simp add: check_holds_def chi)
qed

lemma check_deviations:
  assumes "suite_ok S" and "ote_correlated snd0 rcv" and "ote_arrays_ok data" and "ote_message_fits w inputs data"
  shows "check_holds S snd0 sid data \<longleftrightarrow> (\<forall>i < KAPPA.
    t_deviation S rcv sid data i = (if correlation snd0 ! i then x_deviation S rcv sid data i else zero_row))"
  unfolding check_holds_rows
  using row_check_iff [OF assms(1,2)] assms(3,4) by (auto simp: ote_arrays_ok_def ote_message_fits_def)

text \<open>C22: who is banned.  On correlated seeds, the sender of the extension asks for a ban exactly when
  the inputs and the message have their sizes and some row deviates in a way its correlation bit
  reveals: by the receiver's own seeds, \<open>verify_t\<close> is wrong in a row whose bit is 0, or in a row whose
  bit is 1 it is wrong by another amount than \<open>verify_x\<close> is for the choices of that row.  A message of a
  wrong size is malformed, which is no reason for a ban; otherwise the sender returns.  What the
  honest receiver sends never gets it banned, for any choices and whatever else the sender was given.\<close>

theorem ote_sender_ban_iff:
  fixes S :: "('s::field, 'p::ab_group_add) suite"
  assumes "suite_ok S" and "ote_correlated snd0 rcv"
    and "\<forall>r \<in> set (ote_u data). length r = PRG_BYTES" and "length (verify_x data) = OT_BYTES"
    and "\<forall>t \<in> set (verify_t data). length t = OT_BYTES"
  shows "((case ote_sender_run S snd0 sid w inputs data of
        Inl e \<Rightarrow> ot_kind e = ConsistencyFailure | Inr out \<Rightarrow> False) \<longleftrightarrow>
      ote_message_fits w inputs data \<and>
      (\<exists>i < KAPPA. t_deviation S rcv sid data i \<noteq>
         (if correlation snd0 ! i then x_deviation S rcv sid data i else zero_row))) \<and>
    ((case ote_sender_run S snd0 sid w inputs data of
        Inl e \<Rightarrow> ot_kind e = MalformedMessage | Inr out \<Rightarrow> False) \<longleftrightarrow> \<not> ote_message_fits w inputs data) \<and>
    (\<forall>noise choice_bits ext. ote_receiver_phase1 S rcv noise sid choice_bits = Inr (ext, data) \<longrightarrow>
      \<not> (case ote_sender_run S snd0 sid w inputs data of
        Inl e \<Rightarrow> ot_kind e = ConsistencyFailure | Inr out \<Rightarrow> False))"
proof (intro conjI allI impI)
  have arrays: "ote_arrays_ok data" using assms(3-5) by (simp add: ote_arrays_ok_def)
  note cases = ote_sender_run_cases [OF assms(1), of snd0 w inputs data sid]
    sender_dimensions_fits [OF assms(2), of w inputs data]
  show "(case ote_sender_run S snd0 sid w inputs data of
      Inl e \<Rightarrow> ot_kind e = ConsistencyFailure | Inr out \<Rightarrow> False) \<longleftrightarrow>
      ote_message_fits w inputs data \<and>
      (\<exists>i < KAPPA. t_deviation S rcv sid data i \<noteq>
         (if correlation snd0 ! i then x_deviation S rcv sid data i else zero_row))"
  proof (cases "ote_message_fits w inputs data")
    case True
    have "(\<exists>i < KAPPA. t_deviation S rcv sid data i \<noteq>
        (if correlation snd0 ! i then x_deviation S rcv sid data i else zero_row)) \<longleftrightarrow> \<not> check_holds S snd0 sid data"
      unfolding check_deviations [OF assms(1,2) arrays True] by blast
    with cases True show ?thesis by auto
  qed (use cases in auto)
  show "(case ote_sender_run S snd0 sid w inputs data of
      Inl e \<Rightarrow> ot_kind e = MalformedMessage | Inr out \<Rightarrow> False) \<longleftrightarrow> \<not> ote_message_fits w inputs data"
    using cases by auto
  fix noise choice_bits ext
  assume "ote_receiver_phase1 S rcv noise sid choice_bits = Inr (ext, data)"
  from cases honest_message_checked [OF assms(1,2) this]
  show "\<not> (case ote_sender_run S snd0 sid w inputs data of
      Inl e \<Rightarrow> ot_kind e = ConsistencyFailure | Inr out \<Rightarrow> False)" by auto
qed

text \<open>One flipped byte of \<open>verify_t\<close> in an honest message.\<close>

lemma ote_sender_ban_iff_witness:
  "\<exists>ext data e.
    ote_receiver_phase1 sample_suite sample_ote_receiver [] [7] (replicate BATCH_SIZE True) = Inr (ext, data) \<and>
    ote_sender_run sample_suite sample_ote_sender [7] 1 [replicate BATCH_SIZE 5]
      (data\<lparr>verify_t := (verify_t data)[1 := map (\<lambda>b. b XOR 1) (verify_t data ! 1)]\<rparr>) = Inl e \<and>
    ot_kind e = ConsistencyFailure"
proof -
  have k: "1 < KAPPA" "0 < OT_BYTES" by (simp_all add: ote_sizes)
  obtain ext data where p1:
    "ote_receiver_phase1 sample_suite sample_ote_receiver [] [7] (replicate BATCH_SIZE True) = Inr (ext, data)"
    using ote_honest_run [OF sample_suite_ok sample_ote_correlated, of "replicate BATCH_SIZE True" "[]" 0 "[]" "[7]"] by auto
  note arrays = receiver_message_sizes [OF sample_suite_ok p1]
  let ?t = "verify_t data ! 1"
  let ?bad = "data\<lparr>verify_t := (verify_t data)[1 := map (\<lambda>b. b XOR 1) ?t]\<rparr>"
  have fits: "ote_message_fits 1 [replicate BATCH_SIZE (5 :: gf257)] data"
    "ote_message_fits 1 [replicate BATCH_SIZE (5 :: gf257)] ?bad"
    using arrays by (simp_all add: ote_message_fits_def)
  have t: "length ?t = OT_BYTES" using arrays k by (simp add: ote_arrays_ok_def)
  have c: "\<not> correlation sample_ote_sender ! 1" using k by (simp add: sample_ote_sender_def)
  have "t_deviation sample_suite sample_ote_receiver [7] data 1 = zero_row"
    using honest_message_checked [OF sample_suite_ok sample_ote_correlated p1]
      check_deviations [OF sample_suite_ok sample_ote_correlated arrays(1) fits(1)] k c by auto
  moreover have "t_deviation sample_suite sample_ote_receiver [7] ?bad 1 =
      map (\<lambda>b. b XOR 1) (t_deviation sample_suite sample_ote_receiver [7] data 1)"
    using arrays k t by (intro nth_equalityI) (simp_all add: t_deviation_def ac_simps)
  ultimately have dev: "t_deviation sample_suite sample_ote_receiver [7] ?bad 1 \<noteq> zero_row"
    using k(2) by (auto simp: zero_row_def list_eq_iff_nth_eq)
  have "\<forall>r \<in> set (verify_t ?bad). length r = OT_BYTES"
    using arrays(1) t by (auto simp: ote_arrays_ok_def dest!: subsetD [OF set_update_subset_insert])
  with ote_sender_ban_iff [OF sample_suite_ok sample_ote_correlated, of ?bad "[7]" 1 "[replicate BATCH_SIZE 5]"]
    arrays(1) fits(2) dev c k(1)
  have "case ote_sender_run sample_suite sample_ote_sender [7] 1 [replicate BATCH_SIZE 5] ?bad of
      Inl e \<Rightarrow> ot_kind e = ConsistencyFailure | Inr (out :: gf257 list list \<times> gf257 list list) \<Rightarrow> False"
    by (auto simp: ote_arrays_ok_def)
  with p1 show ?thesis by (auto split: sum.splits)
qed

text \<open>\<open>cut_and_transpose\<close> is the transposition of the first 416 columns: bit \<open>i\<close> of row \<open>j\<close> of the
  output is bit \<open>j\<close> of row \<open>i\<close> of the input, for all 256 by 416 positions.\<close>

theorem cut_and_transpose_correct:
  assumes "length input = KAPPA"
  shows "\<exists>out. cut_and_transpose input = Inr out \<and> length out = BATCH_SIZE \<and>
    (\<forall>r \<in> set out. length r = KAPPA_BYTES) \<and>
    (\<forall>j < BATCH_SIZE. \<forall>i < KAPPA. matrix_bit out j i = matrix_bit input i j)"
  using assms by (rule cut_and_transpose_bits)

lemma cut_and_transpose_correct_witness:
  "\<exists>out. cut_and_transpose (replicate KAPPA (replicate PRG_BYTES 255)) = Inr out \<and>
    matrix_bit out 415 255 = matrix_bit (replicate KAPPA (replicate PRG_BYTES 255)) 255 415"
proof -
  have "415 < BATCH_SIZE" "255 < KAPPA" by (simp_all add: ote_sizes)
  with cut_and_transpose_correct [of "replicate KAPPA (replicate PRG_BYTES 255)"]
  show ?thesis by auto
qed

text \<open>C32: the receiver cannot lie about its choices unnoticed.  A message whose \<open>i\<close>-th row differs
  from the honest one for the choices behind \<open>verify_x\<close> passes for at most one value of the
  \<open>i\<close>-th correlation bit: if two senders that differ only in that bit (and hold the matching
  seeds) both accept, the choices encoded in that row combine to \<open>verify_x\<close>.\<close>

theorem ote_check_binds_row:
  fixes S :: "('s::field, 'p::ab_group_add) suite"
  assumes "suite_ok S" and "ote_correlated snd0 rcv" and "ote_correlated snd1 rcv"
    and "i < KAPPA" and "\<not> correlation snd0 ! i" and "correlation snd1 ! i"
    and "check_holds S snd0 sid data" and "check_holds S snd1 sid data"
    and "length (ote_u data ! i) = PRG_BYTES" and "length (verify_x data) = OT_BYTES"
    and "length (verify_t data ! i) = OT_BYTES"
  shows "combine_row (chi_challenge S sid ''chi1'' (ote_u data)) (chi_challenge S sid ''chi2'' (ote_u data))
      (xor_bytes (ote_u data ! i) (xor_bytes (extend_seed S sid i (seeds0 rcv ! i))
        (extend_seed S sid i (seeds1 rcv ! i)))) = Inr (verify_x data)"
proof -
  let ?c = "combine_row (chi_challenge S sid ''chi1'' (ote_u data)) (chi_challenge S sid ''chi2'' (ote_u data))"
  let ?e0 = "extend_seed S sid i (seeds0 rcv ! i)" and ?e1 = "extend_seed S sid i (seeds1 rcv ! i)"
  let ?u = "ote_u data ! i"
  have chi: "length (chi_challenge S sid l u) = OT_BYTES" for l u
    using assms(1) by (rule length_chi)
  have len: "length ?e0 = PRG_BYTES" "length ?e1 = PRG_BYTES"
    using assms(1) by (simp_all add: length_extend_seed)
  have row: "?c (sender_q x (ote_u data) (extended_rows S sid (ote_seeds x)) ! i) =
      Inr (sender_checks x data ! i)" if "check_holds S x sid data" for x
    using map_res_nth [OF that [unfolded check_holds_def], of i] assms(4) by (simp add: sender_q_def)
  have q0: "sender_q snd0 (ote_u data) (extended_rows S sid (ote_seeds snd0)) ! i = ?e0"
    using assms(2,4,5,9) len by (simp add: nth_sender_q nth_extended_rows ote_correlated_def)
  have q1: "sender_q snd1 (ote_u data) (extended_rows S sid (ote_seeds snd1)) ! i = xor_bytes ?u ?e1"
    using assms(3,4,6,9) len by (simp add: nth_sender_q nth_extended_rows ote_correlated_def)
  have "sender_checks snd0 data ! i = verify_t data ! i"
    using assms(4,5,10,11) by (simp add: nth_sender_checks)
  with row [OF assms(7)] have r0: "?c ?e0 = Inr (verify_t data ! i)" by (simp add: q0)
  have "sender_checks snd1 data ! i = xor_bytes (verify_t data ! i) (verify_x data)"
    using assms(4,6,10,11) by (simp add: nth_sender_checks)
  with row [OF assms(8)] have r1: "?c (xor_bytes ?u ?e1) = Inr (xor_bytes (verify_t data ! i) (verify_x data))"
    by (simp add: q1)
  have "?c (xor_bytes (xor_bytes ?u ?e1) ?e0) =
      Inr (xor_bytes (xor_bytes (verify_t data ! i) (verify_x data)) (verify_t data ! i))"
    using combine_row_xor [OF _ len(1) chi chi r1 r0] assms(9) len by simp
  moreover have "xor_bytes (xor_bytes (verify_t data ! i) (verify_x data)) (verify_t data ! i) = verify_x data"
    using assms(10,11) xor_bytes_cancel [of "verify_x data" "verify_t data ! i"]
    by (simp add: xor_bytes_commute)
  moreover have "xor_bytes (xor_bytes ?u ?e1) ?e0 = xor_bytes ?u (xor_bytes ?e0 ?e1)"
    by (simp only: xor_bytes_ac)
  ultimately show ?thesis by simp
qed

lemma ote_check_binds_row_witness:
  "\<exists>data. check_holds sample_suite sample_ote_sender [7] data \<and>
    combine_row (chi_challenge sample_suite [7] ''chi1'' (ote_u data))
      (chi_challenge sample_suite [7] ''chi2'' (ote_u data))
      (xor_bytes (ote_u data ! 1) (xor_bytes (extend_seed sample_suite [7] 1 [1])
        (extend_seed sample_suite [7] 1 [2]))) = Inr (verify_x data)"
proof -
  let ?S = "sample_suite" and ?s0 = "sample_ote_sender" and ?r = "sample_ote_receiver"
  let ?s1 = "\<lparr>correlation = replicate KAPPA True, ote_seeds = replicate KAPPA [2]\<rparr>"
  let ?b = "replicate BATCH_SIZE True"
  have r: "length ?b = BATCH_SIZE" "length (seeds0 ?r) = KAPPA" "length (seeds1 ?r) = KAPPA"
    by (simp_all add: sample_ote_receiver_def)
  have c1: "ote_correlated ?s1 ?r"
    by (auto simp: ote_correlated_def sample_ote_receiver_def intro: nth_equalityI)
  obtain chi1 chi2 u vx vt where
    chi: "chi1 = chi_challenge ?S [7] ''chi1'' u" "chi2 = chi_challenge ?S [7] ''chi2'' u"
    and u: "u = map (\<lambda>i. xor_bytes (xor_bytes (extended_rows ?S [7] (seeds0 ?r) ! i)
        (extended_rows ?S [7] (seeds1 ?r) ! i)) (compress_bits (?b @ []) PRG_BYTES)) [0..<KAPPA]"
    and vx: "combine_row chi1 chi2 (compress_bits (?b @ []) PRG_BYTES) = Inr vx"
    and vt: "map_res (combine_row chi1 chi2) (extended_rows ?S [7] (seeds0 ?r)) = Inr vt"
    by (rule receiver_phase1_honest [OF sample_suite_ok r])
  let ?d = "\<lparr>ote_u = u, verify_x = vx, verify_t = vt\<rparr>"
  have lenchi: "length chi1 = OT_BYTES" "length chi2 = OT_BYTES"
    using sample_suite_ok by (simp_all add: chi length_chi)
  have holds: "check_holds ?S s [7] ?d" if "ote_correlated s ?r" for s
    using honest_check_passes [OF sample_suite_ok that length_compress_bits lenchi u vx vt]
    by (simp add: check_holds_def chi)
  have k: "1 < KAPPA" by (simp add: ote_sizes)
  have "length (u ! 1) = PRG_BYTES"
    using k by (simp add: u nth_extended_rows length_extend_seed [OF sample_suite_ok])
  moreover have "length vx = OT_BYTES" using length_combine_row [OF _ lenchi vx] by simp
  moreover have "length (vt ! 1) = OT_BYTES"
    using length_combine_row [OF _ lenchi map_res_nth [OF vt, of 1]] k
    by (simp add: nth_extended_rows length_extend_seed [OF sample_suite_ok])
  ultimately show ?thesis
    using ote_check_binds_row [OF sample_suite_ok sample_ote_correlated c1 k _ _
        holds [OF sample_ote_correlated] holds [OF c1]] holds [OF sample_ote_correlated] k
    by (intro exI [of _ ?d]) (simp add: sample_ote_sender_def sample_ote_receiver_def)
qed

lemma ote_init_correlated_witness:
  "\<exists>base_snd dlog rcv snd0.
    ote_receiver_init_phase1 (sample_suite\<lparr>sha256 := \<lambda>_. be_bytes 32 9\<rparr>) 5 (sample_coins 7) [1] =
      Some (base_snd, dlog) \<and>
    correlation snd0 = replicate KAPPA True \<and> ote_correlated snd0 rcv"
proof -
  let ?S = "sample_suite\<lparr>sha256 := \<lambda>_. be_bytes 32 9\<rparr>"
  let ?c = "\<lambda>i :: nat. (6, \<lparr>real_nonce = 3, fake_challenge = 11, fake_response = 20\<rparr>)
    :: gf257 \<times> gf257 enc_coins"
  have S: "suite_ok ?S" by (rule sample_hash_ok) simp
  obtain p c where "dlog_prove_commit ?S (sample_coins 7) 5 [1] = Inr (p, c)"
    using sample_prove_commit [of "\<lambda>_. be_bytes 32 9" "be_bytes 32 9"] by blast
  then have init: "ote_receiver_init_phase1 ?S 5 (sample_coins 7) [1] = Some (\<lparr>ots_s = 5, ots_proof = p\<rparr>, p)"
    by (auto simp: ote_receiver_init_phase1_def ot_sender_init_def ot_sender_phase1_def
        dlog_prove_commit_def rbind_Inr_iff)
  have h: "base_ot_h ?S sid sd = 9" for sid sd
    by (simp add: base_ot_h_def tagged_hash_as_scalar_def tagged_hash_def hash_bytes_def
        reduce_hash_to_scalar_def gf_reduce_def of_be_be_bytes gf_eq_iff)
  have ok: "batch_ok ?S [1] [2] ?c (replicate KAPPA True)"
    unfolding batch_ok_def h by (simp add: choice_ok_def gf_eq_iff u16_MAX_def ote_sizes)
  have "(5 :: gf257) \<noteq> 0" by (simp add: gf_eq_iff)
  from ote_init_correlated [OF S this sample_coins_ok init length_replicate ok] init
  show ?thesis by blast
qed

end
