(* ===== verification/Two_Party_Mul.thy ===== *)
theory Two_Party_Mul
  imports Correlated_OT
begin

text \<open>
  What signing relies on: a multiplication between two parties with \<open>linked\<close> states in which the
  receiver obtains a factor of its own, the sender inputs a vector, and an honest execution is
  never refused and gives additive shares of the products.
\<close>

locale two_party_mul =
  fixes env_ok :: "'e \<Rightarrow> bool"
    and width :: nat
    and linked :: "'snd \<Rightarrow> 'rcv \<Rightarrow> bool"
    and receiver_coins_ok :: "bool list \<Rightarrow> bool"
    and factor :: "'rcv \<Rightarrow> bool list \<Rightarrow> 's::field"
    and receive1 :: "'e \<Rightarrow> 'rcv \<Rightarrow> bool list \<Rightarrow> bool list \<Rightarrow> bytes \<Rightarrow> 'err + 's \<times> 'kept \<times> 'msg"
    and send :: "'e \<Rightarrow> 'snd \<Rightarrow> 's list \<Rightarrow> 's list \<Rightarrow> bytes \<Rightarrow> 's list \<Rightarrow> 'msg \<Rightarrow> 'err + 's list \<times> 'back"
    and receive2 :: "'e \<Rightarrow> 'rcv \<Rightarrow> bytes \<Rightarrow> 'kept \<Rightarrow> 'back \<Rightarrow> 'err + 's list"
  assumes honest: "env_ok e \<Longrightarrow> linked snd0 rcv \<Longrightarrow> receiver_coins_ok bits \<Longrightarrow>
    length pads = width \<Longrightarrow> length checks = width \<Longrightarrow>
    \<exists>b kept msg out back out'. receive1 e rcv bits noise sid = Inr (b, kept, msg) \<and>
      send e snd0 pads checks sid input msg = Inr (out, back) \<and>
      receive2 e rcv sid kept back = Inr out' \<and>
      b = factor rcv bits \<and> length out = width \<and> length out' = width \<and>
      (\<forall>i < width. out ! i + out' ! i = input ! i * b)"
begin

lemma receive1_accepts:
  "env_ok e \<Longrightarrow> linked snd0 rcv \<Longrightarrow> receiver_coins_ok bits \<Longrightarrow>
    \<exists>kept msg. receive1 e rcv bits noise sid = Inr (factor rcv bits, kept, msg)"
  using honest [of e snd0 rcv bits "replicate width 0" "replicate width 0" noise sid] by fastforce

lemma send_accepts:
  assumes "env_ok e" "linked snd0 rcv" "receiver_coins_ok bits" "length pads = width" "length checks = width"
    and "receive1 e rcv bits noise sid = Inr (b, kept, msg)"
  shows "\<exists>out back. send e snd0 pads checks sid input msg = Inr (out, back)"
  using honest [OF assms(1-5), of noise sid input] assms(6) by auto

lemma receive2_accepts:
  assumes "env_ok e" "linked snd0 rcv" "receiver_coins_ok bits" "length pads = width" "length checks = width"
    and "receive1 e rcv bits noise sid = Inr (b, kept, msg)"
    and "send e snd0 pads checks sid input msg = Inr (out, back)"
  shows "\<exists>out'. receive2 e rcv sid kept back = Inr out' \<and> length out = width \<and> length out' = width \<and>
    b = factor rcv bits \<and> (\<forall>i < width. out ! i + out' ! i = input ! i * b)"
  using honest [OF assms(1-5), of noise sid input] assms(6,7) by auto

text \<open>The correctness statement relating the two outputs once all three messages are accepted.\<close>

lemma shares_of_product:
  assumes "env_ok e" "linked snd0 rcv" "receiver_coins_ok bits" "length pads = width" "length checks = width"
    and "receive1 e rcv bits noise sid = Inr (b, kept, msg)"
    and "send e snd0 pads checks sid input msg = Inr (out, back)"
    and "receive2 e rcv sid kept back = Inr out'" and "i < width"
  shows "out ! i + out' ! i = input ! i * b"
  using receive2_accepts [OF assms(1-7)] assms(8,9) by auto

end

end
