(* ===== verification/Multiplication.thy ===== *)
theory Multiplication
  imports OT_Extension Two_Party_Mul
begin

text \<open>
  \<open>utilities/multiplication.rs\<close>: two-party multiplication from correlated oblivious transfer.
  The sender inputs two scalars, the receiver obtains a random \<open>b\<close>, and the two outputs add up to
  the products.  The pads and check values of the sender, the choice bits and noise of the
  receiver and its nonce are arguments.
\<close>

section \<open>Data and errors\<close>

definition mul_L :: nat where "mul_L = 2"

definition OT_WIDTH :: u8 where "OT_WIDTH = 2 * 2"

lemma unat_OT_WIDTH: "unat OT_WIDTH = mul_L + mul_L"
  by (simp add: OT_WIDTH_def mul_L_def)

record 's mul_sender =
  ms_public_gadget :: "'s list"
  ms_ote_sender :: ote_sender

record 's mul_receiver =
  mr_public_gadget :: "'s list"
  mr_ote_receiver :: ote_receiver

record 's mul_data_to_receiver =
  vector_of_tau :: "'s list list"
  verify_r :: bytes
  verify_u :: "'s list"
  gamma_sender :: "'s list"

record 's mul_data_to_keep_receiver =
  mk_b :: 's
  mk_choice_bits :: "bool list"
  mk_extended_seeds :: "bytes list"
  mk_chi_tilde :: "'s list"
  mk_chi_hat :: "'s list"

datatype mul_error_kind = MulConsistencyFailure | MulMalformedMessage

record error_mul =
  mul_description :: string
  mul_kind :: mul_error_kind

definition ErrorMul_consistency :: "string \<Rightarrow> error_mul" where
  "ErrorMul_consistency d = \<lparr>mul_description = d, mul_kind = MulConsistencyFailure\<rparr>"

definition ErrorMul_malformed :: "string \<Rightarrow> error_mul" where
  "ErrorMul_malformed d = \<lparr>mul_description = d, mul_kind = MulMalformedMessage\<rparr>"

text \<open>\<open>{:?}\<close> puts the description between double quotes; no description has a character that
  needs an escape.\<close>

definition ErrorMul_from_ot :: "error_ot \<Rightarrow> error_mul" where
  "ErrorMul_from_ot error0 =
     \<lparr>mul_description = ''OTE error during multiplication: '' @ [CHR 0x22] @ ot_description error0 @ [CHR 0x22],
      mul_kind = (case ot_kind error0 of
        ConsistencyFailure \<Rightarrow> MulConsistencyFailure | MalformedMessage \<Rightarrow> MulMalformedMessage)\<rparr>"

lemma ErrorMul_kind [simp]:
  "mul_kind (ErrorMul_consistency d) = MulConsistencyFailure"
  "mul_kind (ErrorMul_malformed d) = MulMalformedMessage"
  "mul_kind (ErrorMul_from_ot e) = MulConsistencyFailure \<longleftrightarrow> ot_kind e = ConsistencyFailure"
  by (simp_all add: ErrorMul_consistency_def ErrorMul_malformed_def ErrorMul_from_ot_def
      split: ot_error_kind.split)

section \<open>Initialization\<close>

text \<open>\<open>for _ in 0..BATCH_SIZE { counter += 1; push(hash(counter)) }\<close>\<close>

fun gadget_loop :: "nat \<Rightarrow> ('s::field, 'p) suite \<Rightarrow> bytes \<Rightarrow> 's \<Rightarrow> 's list" where
  "gadget_loop 0 S session_id counter = []"
| "gadget_loop (Suc n) S session_id counter =
     (let counter' = counter + 1
      in tagged_hash_as_scalar S TAG_MUL_GADGET [session_id, scalar_to_bytes S counter'] #
         gadget_loop n S session_id counter')"

definition public_gadget :: "('s::field, 'p) suite \<Rightarrow> bytes \<Rightarrow> 's \<Rightarrow> 's list" where
  "public_gadget S session_id nonce = gadget_loop BATCH_SIZE S session_id nonce"

definition mul_sender_init_phase1 ::
  "('s::field, 'p::ab_group_add) suite \<Rightarrow> bytes \<Rightarrow> bool list \<Rightarrow> (nat \<Rightarrow> 's \<times> 's enc_coins) \<Rightarrow> bytes \<Rightarrow>
     error_ot + ot_receiver \<times> bool list \<times> 's list \<times> ('s, 'p) enc_proof list" where
  "mul_sender_init_phase1 S sampled_seed sampled_bits coins session_id =
     ote_sender_init_phase1 S sampled_seed sampled_bits coins session_id"

definition mul_sender_init_phase2 ::
  "('s::field, 'p::ab_group_add) suite \<Rightarrow> bytes \<Rightarrow> bool list \<Rightarrow> 's list \<Rightarrow> ('s, 'p) dlog_proof \<Rightarrow>
     's \<Rightarrow> error_ot + 's mul_sender" where
  "mul_sender_init_phase2 S session_id bits vec_r dlog nonce =
     rbind (ote_sender_init_phase2 S session_id bits vec_r dlog) (\<lambda>ote.
       Inr \<lparr>ms_public_gadget = public_gadget S session_id nonce, ms_ote_sender = ote\<rparr>)"

definition mul_receiver_init_phase1 ::
  "('s::field, 'p) suite \<Rightarrow> 's \<Rightarrow> 's fischlin_coins \<Rightarrow> 's \<Rightarrow> bytes \<Rightarrow>
     (('s, 'p) ot_sender \<times> ('s, 'p) dlog_proof \<times> 's) option" where
  "mul_receiver_init_phase1 S s coins sampled_nonce session_id =
     (case ote_receiver_init_phase1 S s coins session_id of
        None \<Rightarrow> None | Some (sender0, dlog) \<Rightarrow> Some (sender0, dlog, sampled_nonce))"

definition mul_receiver_init_phase2 ::
  "('s::field, 'p::ab_group_add) suite \<Rightarrow> ('s, 'p) ot_sender \<Rightarrow> bytes \<Rightarrow> bytes \<Rightarrow>
     ('s, 'p) enc_proof list \<Rightarrow> 's \<Rightarrow> error_ot + 's mul_receiver" where
  "mul_receiver_init_phase2 S sender0 session_id sd enc_proofs nonce =
     rbind (ote_receiver_init_phase2 S sender0 session_id sd enc_proofs) (\<lambda>ote.
       Inr \<lparr>mr_public_gadget = public_gadget S session_id nonce, mr_ote_receiver = ote\<rparr>)"

section \<open>The sender\<close>

definition ote_session :: "bytes \<Rightarrow> bytes" where
  "ote_session session_id = ascii ''OT Extension protocol'' @ session_id"

definition mul_transcript :: "ote_data_to_sender \<Rightarrow> bytes" where
  "mul_transcript data = concat (ote_u data) @ verify_x data @ concat (verify_t data)"

definition mul_chi :: "('s, 'p) suite \<Rightarrow> bytes \<Rightarrow> bytes \<Rightarrow> bytes \<Rightarrow> 's list" where
  "mul_chi S tag session_id transcript =
     map (\<lambda>i. tagged_hash_as_scalar S tag [session_id, [word_of_nat i], transcript]) [0..<mul_L]"

text \<open>The loop \<open>for j in 0..BATCH_SIZE { summation += gadget[j] * z[j] }\<close>.\<close>

definition gadget_sum :: "'s::field list \<Rightarrow> 's list \<Rightarrow> 's" where
  "gadget_sum gadget z = foldl (\<lambda>summation j. summation + gadget ! j * z ! j) 0 [0..<BATCH_SIZE]"

text \<open>The bytes of the matrix \<open>r\<close>, row after row.\<close>

definition rows_bytes :: "('s, 'p) suite \<Rightarrow> (nat \<Rightarrow> nat \<Rightarrow> 's) \<Rightarrow> bytes" where
  "rows_bytes S entry =
     concat (map (\<lambda>i. concat (map (\<lambda>j. scalar_to_bytes S (entry i j)) [0..<BATCH_SIZE])) [0..<mul_L])"

definition mul_sender_run ::
  "('s::field, 'p) suite \<Rightarrow> 's mul_sender \<Rightarrow> 's list \<Rightarrow> 's list \<Rightarrow> bytes \<Rightarrow> 's list \<Rightarrow>
     ote_data_to_sender \<Rightarrow> error_mul + 's list \<times> 's mul_data_to_receiver" where
  "mul_sender_run S ms a_tilde a_hat session_id input data =
     (let correlation_tilde = map (replicate BATCH_SIZE) a_tilde;
          correlation_hat = map (replicate BATCH_SIZE) a_hat;
          correlations = correlation_tilde @ correlation_hat
      in rbind (map_err ErrorMul_from_ot
                  (ote_sender_run S (ms_ote_sender ms) (ote_session session_id) OT_WIDTH correlations data))
         (\<lambda>(ot_outputs, tau).
           let z_tilde = take mul_L ot_outputs;
               z_hat = drop mul_L ot_outputs;
               transcript = mul_transcript data;
               chi_tilde = mul_chi S TAG_MUL_CHI_TILDE session_id transcript;
               chi_hat = mul_chi S TAG_MUL_CHI_HAT session_id transcript;
               r_as_bytes = rows_bytes S
                 (\<lambda>i j. chi_tilde ! i * z_tilde ! i ! j + chi_hat ! i * z_hat ! i ! j);
               u = map (\<lambda>i. chi_tilde ! i * a_tilde ! i + chi_hat ! i * a_hat ! i) [0..<mul_L];
               gamma = map (\<lambda>i. input ! i - a_tilde ! i) [0..<mul_L];
               output = map (\<lambda>i. gadget_sum (ms_public_gadget ms) (z_tilde ! i)) [0..<mul_L]
           in Inr (output,
                \<lparr>vector_of_tau = tau,
                 verify_r = tagged_hash S TAG_MUL_VERIFY [session_id, r_as_bytes],
                 verify_u = u, gamma_sender = gamma\<rparr>)))"

section \<open>The receiver\<close>

definition sample_b :: "'s::field list \<Rightarrow> bool list \<Rightarrow> 's" where
  "sample_b gadget bits =
     foldl (\<lambda>b i. if bits ! i then b + gadget ! i else b) 0 [0..<BATCH_SIZE]"

definition mul_receiver_phase1 ::
  "('s::field, 'p) suite \<Rightarrow> 's mul_receiver \<Rightarrow> bool list \<Rightarrow> bool list \<Rightarrow> bytes \<Rightarrow>
     error_mul + 's \<times> 's mul_data_to_keep_receiver \<times> ote_data_to_sender" where
  "mul_receiver_phase1 S mr choice_bits noise session_id =
     (let b = sample_b (mr_public_gadget mr) choice_bits
      in rbind (map_err ErrorMul_from_ot
                  (ote_receiver_phase1 S (mr_ote_receiver mr) noise (ote_session session_id) choice_bits))
         (\<lambda>(extended_seeds, data_to_sender).
           let transcript = mul_transcript data_to_sender
           in Inr (b,
                \<lparr>mk_b = b, mk_choice_bits = choice_bits, mk_extended_seeds = extended_seeds,
                 mk_chi_tilde = mul_chi S TAG_MUL_CHI_TILDE session_id transcript,
                 mk_chi_hat = mul_chi S TAG_MUL_CHI_HAT session_id transcript\<rparr>,
                data_to_sender)))"

definition receiver_entry ::
  "'s::field mul_data_to_keep_receiver \<Rightarrow> 's list \<Rightarrow> 's list list \<Rightarrow> 's list list \<Rightarrow> nat \<Rightarrow> nat \<Rightarrow> 's" where
  "receiver_entry kept u z_tilde z_hat i j =
     (let entry = - (mk_chi_tilde kept ! i * z_tilde ! i ! j) - mk_chi_hat kept ! i * z_hat ! i ! j
      in if mk_choice_bits kept ! j then entry + u ! i else entry)"

definition mul_receiver_phase2 ::
  "('s::field, 'p) suite \<Rightarrow> 's mul_receiver \<Rightarrow> bytes \<Rightarrow> 's mul_data_to_keep_receiver \<Rightarrow>
     's mul_data_to_receiver \<Rightarrow> error_mul + 's list" where
  "mul_receiver_phase2 S mr session_id kept received =
     (if length (verify_u received) \<noteq> mul_L \<or> length (gamma_sender received) \<noteq> mul_L then
        Inl (ErrorMul_malformed ''Received data has incorrect dimensions'')
      else rbind (map_err ErrorMul_from_ot
             (ote_receiver_phase2 S (ote_session session_id) OT_WIDTH (mk_choice_bits kept)
                (mk_extended_seeds kept) (vector_of_tau received)))
        (\<lambda>ot_outputs.
          let z_tilde = take mul_L ot_outputs;
              z_hat = drop mul_L ot_outputs;
              r_as_bytes = rows_bytes S (receiver_entry kept (verify_u received) z_tilde z_hat);
              expected_verify_r = tagged_hash S TAG_MUL_VERIFY [session_id, r_as_bytes]
          in if verify_r received \<noteq> expected_verify_r then
               Inl (ErrorMul_consistency
                 ''Sender cheated in multiplication protocol: Consistency check failed!'')
             else Inr (map (\<lambda>i. mk_b kept * gamma_sender received ! i
                              + gadget_sum (mr_public_gadget mr) (z_tilde ! i)) [0..<mul_L])))"

section \<open>An honest multiplication\<close>

lemma gadget_sum_sum: "gadget_sum g z = (\<Sum>j < BATCH_SIZE. g ! j * z ! j)"
proof -
  have "foldl (\<lambda>summation j. summation + g ! j * z ! j) 0 [0..<n] = (\<Sum>j < n. g ! j * z ! j)" for n
    by (induction n) simp_all
  then show ?thesis by (simp add: gadget_sum_def)
qed

lemma sample_b_sum: "sample_b g bits = (\<Sum>j < BATCH_SIZE. if bits ! j then g ! j else 0)"
proof -
  have "foldl (\<lambda>b i. if bits ! i then b + g ! i else b) 0 [0..<n] =
      (\<Sum>j < n. if bits ! j then g ! j else 0)" for n
    by (induction n) simp_all
  then show ?thesis by (simp add: sample_b_def)
qed

lemma length_gadget [simp]: "length (public_gadget S sid nonce) = BATCH_SIZE"
proof -
  have "length (gadget_loop n S sid c) = n" for n c
    by (induction n arbitrary: c) (simp_all add: Let_def)
  then show ?thesis by (simp add: public_gadget_def)
qed

text \<open>Nothing is assumed of the two gadgets here: the exchange is accepted whatever they are, and
  only the sum of the outputs depends on them.\<close>

lemma mul_honest_run:
  fixes S :: "('s::field, 'p::ab_group_add) suite"
  assumes "suite_ok S" and "ote_correlated (ms_ote_sender ms) (mr_ote_receiver mr)"
    and "length choice_bits = BATCH_SIZE" and "length a_tilde = mul_L" and "length a_hat = mul_L"
  shows "\<exists>kept msg out received out' v t.
    mul_receiver_phase1 S mr choice_bits noise sid =
      Inr (sample_b (mr_public_gadget mr) choice_bits, kept, msg) \<and>
    mul_sender_run S ms a_tilde a_hat sid input msg = Inr (out, received) \<and>
    mul_receiver_phase2 S mr sid kept received = Inr out' \<and>
    gamma_sender received = map (\<lambda>i. input ! i - a_tilde ! i) [0..<mul_L] \<and>
    out = map (\<lambda>i. \<Sum>j < BATCH_SIZE. ms_public_gadget ms ! j * v i j) [0..<mul_L] \<and>
    out' = map (\<lambda>i. sample_b (mr_public_gadget mr) choice_bits * (input ! i - a_tilde ! i) +
      (\<Sum>j < BATCH_SIZE. mr_public_gadget mr ! j * t i j)) [0..<mul_L] \<and>
    (\<forall>i < mul_L. \<forall>j < BATCH_SIZE. v i j + t i j = (if choice_bits ! j then a_tilde ! i else 0))"
proof -
  let ?w = "OT_WIDTH" and ?sid = "ote_session sid"
  have lw: "length (a_tilde @ a_hat) = unat OT_WIDTH"
    using assms(4,5) by (simp add: unat_OT_WIDTH)
  obtain ext msg v tau t where
    p1: "ote_receiver_phase1 S (mr_ote_receiver mr) noise ?sid choice_bits = Inr (ext, msg)"
    and run: "ote_sender_run S (ms_ote_sender ms) ?sid ?w (map (replicate BATCH_SIZE) (a_tilde @ a_hat)) msg =
      Inr (v, tau)"
    and p2: "ote_receiver_phase2 S ?sid ?w choice_bits ext tau = Inr t"
    and len: "length v = unat ?w" "length t = unat ?w"
    and shares: "\<forall>k < unat ?w. \<forall>j < BATCH_SIZE.
      v ! k ! j + t ! k ! j = (if choice_bits ! j then (a_tilde @ a_hat) ! k else 0)"
    using ote.honest_constant [OF assms(1-3) lw, of noise ?sid] by blast
  have tilde: "v ! i ! j + t ! i ! j = (if choice_bits ! j then a_tilde ! i else 0)"
    and hat: "v ! (mul_L + i) ! j + t ! (mul_L + i) ! j = (if choice_bits ! j then a_hat ! i else 0)"
    if "i < mul_L" "j < BATCH_SIZE" for i j
    using shares that assms(4) by (simp_all add: unat_OT_WIDTH nth_append)
  let ?tr = "mul_transcript msg"
  let ?ct = "mul_chi S TAG_MUL_CHI_TILDE sid ?tr" and ?ch = "mul_chi S TAG_MUL_CHI_HAT sid ?tr"
  let ?u = "map (\<lambda>i. ?ct ! i * a_tilde ! i + ?ch ! i * a_hat ! i) [0..<mul_L]"
  let ?b = "sample_b (mr_public_gadget mr) choice_bits"
  let ?kept = "\<lparr>mk_b = ?b, mk_choice_bits = choice_bits, mk_extended_seeds = ext,
    mk_chi_tilde = ?ct, mk_chi_hat = ?ch\<rparr>"
  let ?r = "rows_bytes S (\<lambda>i j. ?ct ! i * take mul_L v ! i ! j + ?ch ! i * drop mul_L v ! i ! j)"
  let ?rec = "\<lparr>vector_of_tau = tau, verify_r = tagged_hash S TAG_MUL_VERIFY [sid, ?r], verify_u = ?u,
    gamma_sender = map (\<lambda>i. input ! i - a_tilde ! i) [0..<mul_L]\<rparr>"
  have ph1: "mul_receiver_phase1 S mr choice_bits noise sid = Inr (?b, ?kept, msg)"
    using p1 by (simp add: mul_receiver_phase1_def Let_def)
  have snd: "mul_sender_run S ms a_tilde a_hat sid input msg =
      Inr (map (\<lambda>i. gadget_sum (ms_public_gadget ms) (take mul_L v ! i)) [0..<mul_L], ?rec)"
    using run by (simp add: mul_sender_run_def Let_def)
  have entry: "receiver_entry ?kept ?u (take mul_L t) (drop mul_L t) i j =
      ?ct ! i * take mul_L v ! i ! j + ?ch ! i * drop mul_L v ! i ! j"
    if i: "i < mul_L" and j: "j < BATCH_SIZE" for i j
    using check_entry [OF tilde [OF i j] hat [OF i j], of "?ct ! i" "?ch ! i"] i len
    by (simp add: receiver_entry_def Let_def unat_OT_WIDTH)
  have "rows_bytes S (receiver_entry ?kept ?u (take mul_L t) (drop mul_L t)) = ?r"
    unfolding rows_bytes_def by (intro arg_cong [of _ _ concat] map_cong refl) (simp add: entry)
  then have ph2: "mul_receiver_phase2 S mr sid ?kept ?rec =
      Inr (map (\<lambda>i. ?b * (input ! i - a_tilde ! i) + gadget_sum (mr_public_gadget mr) (take mul_L t ! i))
        [0..<mul_L])"
    using p2 by (simp add: mul_receiver_phase2_def Let_def)
  show ?thesis
  proof (intro exI conjI)
    show "mul_receiver_phase1 S mr choice_bits noise sid = Inr (?b, ?kept, msg)" by (rule ph1)
    show "mul_sender_run S ms a_tilde a_hat sid input msg =
      Inr (map (\<lambda>i. gadget_sum (ms_public_gadget ms) (take mul_L v ! i)) [0..<mul_L], ?rec)" by (rule snd)
    show "mul_receiver_phase2 S mr sid ?kept ?rec =
      Inr (map (\<lambda>i. ?b * (input ! i - a_tilde ! i) + gadget_sum (mr_public_gadget mr) (take mul_L t ! i))
        [0..<mul_L])" by (rule ph2)
    show "\<forall>i < mul_L. \<forall>j < BATCH_SIZE. v ! i ! j + t ! i ! j = (if choice_bits ! j then a_tilde ! i else 0)"
      using tilde by blast
  qed (simp_all add: gadget_sum_sum)
qed

text \<open>The states the initialization leaves: correlated transfer states and one common gadget.\<close>

definition mul_linked :: "'s mul_sender \<Rightarrow> 's mul_receiver \<Rightarrow> bool" where
  "mul_linked ms mr \<longleftrightarrow> ms_public_gadget ms = mr_public_gadget mr \<and>
     ote_correlated (ms_ote_sender ms) (mr_ote_receiver mr)"

lemma mul_products:
  fixes S :: "('s::field, 'p::ab_group_add) suite"
  assumes "suite_ok S" and "mul_linked ms mr" and "length choice_bits = BATCH_SIZE"
    and "length a_tilde = mul_L" and "length a_hat = mul_L"
  shows "\<exists>b kept msg out received out'.
    mul_receiver_phase1 S mr choice_bits noise sid = Inr (b, kept, msg) \<and>
    mul_sender_run S ms a_tilde a_hat sid input msg = Inr (out, received) \<and>
    mul_receiver_phase2 S mr sid kept received = Inr out' \<and>
    b = sample_b (mr_public_gadget mr) choice_bits \<and>
    length out = mul_L \<and> length out' = mul_L \<and>
    (\<forall>i < mul_L. out ! i + out' ! i = input ! i * b)"
proof -
  let ?b = "sample_b (mr_public_gadget mr) choice_bits"
  have l: "ote_correlated (ms_ote_sender ms) (mr_ote_receiver mr)"
    and g: "ms_public_gadget ms = mr_public_gadget mr"
    using assms(2) by (simp_all add: mul_linked_def)
  obtain kept msg out received out' v t where run:
    "mul_receiver_phase1 S mr choice_bits noise sid = Inr (?b, kept, msg)"
    "mul_sender_run S ms a_tilde a_hat sid input msg = Inr (out, received)"
    "mul_receiver_phase2 S mr sid kept received = Inr out'"
    and out: "out = map (\<lambda>i. \<Sum>j < BATCH_SIZE. ms_public_gadget ms ! j * v i j) [0..<mul_L]"
    and out': "out' = map (\<lambda>i. ?b * (input ! i - a_tilde ! i) +
      (\<Sum>j < BATCH_SIZE. mr_public_gadget mr ! j * t i j)) [0..<mul_L]"
    and shares: "\<forall>i < mul_L. \<forall>j < BATCH_SIZE. v i j + t i j = (if choice_bits ! j then a_tilde ! i else 0)"
    using mul_honest_run [OF assms(1) l assms(3-5), of noise sid input] by blast
  have "out ! i + out' ! i = input ! i * ?b" if "i < mul_L" for i
  proof -
    have "(\<Sum>j < BATCH_SIZE. mr_public_gadget mr ! j * v i j) + (\<Sum>j < BATCH_SIZE. mr_public_gadget mr ! j * t i j) =
        a_tilde ! i * ?b"
      unfolding sample_b_sum using shares that by (intro weighted_shares) blast
    then have "(\<Sum>j < BATCH_SIZE. mr_public_gadget mr ! j * v i j) =
        a_tilde ! i * ?b - (\<Sum>j < BATCH_SIZE. mr_public_gadget mr ! j * t i j)"
      by (simp add: eq_diff_eq)
    then show ?thesis using that by (simp add: out out' g algebra_simps)
  qed
  with run show ?thesis by (intro exI conjI) (auto simp: out out')
qed

interpretation mul: two_party_mul
  "suite_ok :: ('s::field, 'p::ab_group_add) suite \<Rightarrow> bool" mul_L mul_linked
  "\<lambda>bits. length bits = BATCH_SIZE" "\<lambda>mr bits. sample_b (mr_public_gadget mr) bits"
  mul_receiver_phase1 mul_sender_run mul_receiver_phase2
  by unfold_locales (rule mul_products)

text \<open>C16: multiplication.  With linked states, an honest execution is accepted at every step, and
  the i-th outputs of sender and receiver add up to the sender's i-th input times the receiver's
  random factor.\<close>

theorem mul_correct:
  fixes S :: "('s::field, 'p::ab_group_add) suite"
  assumes "suite_ok S" and "mul_linked ms mr" and "length choice_bits = BATCH_SIZE"
    and "length a_tilde = mul_L" and "length a_hat = mul_L"
  shows "\<exists>b kept msg out received out'.
    mul_receiver_phase1 S mr choice_bits noise sid = Inr (b, kept, msg) \<and>
    mul_sender_run S ms a_tilde a_hat sid input msg = Inr (out, received) \<and>
    mul_receiver_phase2 S mr sid kept received = Inr out' \<and>
    (\<forall>i < mul_L. out ! i + out' ! i = input ! i * b)"
  using mul.honest [OF assms, of noise sid input] by blast

definition sample_mul_sender :: "gf257 mul_sender" where
  "sample_mul_sender = \<lparr>ms_public_gadget = public_gadget sample_suite [7] 3, ms_ote_sender = sample_ote_sender\<rparr>"

definition sample_mul_receiver :: "gf257 mul_receiver" where
  "sample_mul_receiver = \<lparr>mr_public_gadget = public_gadget sample_suite [7] 3, mr_ote_receiver = sample_ote_receiver\<rparr>"

lemma sample_mul_linked: "mul_linked sample_mul_sender sample_mul_receiver"
  by (simp add: mul_linked_def sample_mul_sender_def sample_mul_receiver_def sample_ote_correlated)

lemma mul_correct_witness:
  "\<exists>b kept msg out received out'.
    mul_receiver_phase1 sample_suite sample_mul_receiver (replicate BATCH_SIZE True) [] [7] = Inr (b, kept, msg) \<and>
    mul_sender_run sample_suite sample_mul_sender [5, 6] [8, 9] [7] [100, 200] msg = Inr (out, received) \<and>
    mul_receiver_phase2 sample_suite sample_mul_receiver [7] kept received = Inr out' \<and>
    out ! 1 + out' ! 1 = 200 * b"
  using mul_correct [OF sample_suite_ok sample_mul_linked, of "replicate BATCH_SIZE True" "[5, 6]" "[8, 9]"
      "[]" "[7]" "[100, 200]"]
  by (fastforce simp: mul_L_def)

text \<open>C38: the check of the receiver does not depend on the public gadget.  Two parties whose gadgets
  disagree, honest in everything else, still pass \<open>verify_r\<close>, and the outputs then differ from
  shares of the product by the difference of the gadgets weighted with the sender's transfer
  outputs.\<close>

theorem mul_gadget_not_checked:
  fixes S :: "('s::field, 'p::ab_group_add) suite"
  assumes "suite_ok S" and "ote_correlated (ms_ote_sender ms) (mr_ote_receiver mr)"
    and "length choice_bits = BATCH_SIZE" and "length a_tilde = mul_L" and "length a_hat = mul_L"
  shows "\<exists>b kept msg out received out' v.
    mul_receiver_phase1 S mr choice_bits noise sid = Inr (b, kept, msg) \<and>
    mul_sender_run S ms a_tilde a_hat sid input msg = Inr (out, received) \<and>
    mul_receiver_phase2 S mr sid kept received = Inr out' \<and>
    (\<forall>i < mul_L. out ! i + out' ! i = input ! i * b +
      (\<Sum>j < BATCH_SIZE. (ms_public_gadget ms ! j - mr_public_gadget mr ! j) * v i j))"
proof -
  let ?b = "sample_b (mr_public_gadget mr) choice_bits"
  obtain kept msg out received out' v t where run:
    "mul_receiver_phase1 S mr choice_bits noise sid = Inr (?b, kept, msg)"
    "mul_sender_run S ms a_tilde a_hat sid input msg = Inr (out, received)"
    "mul_receiver_phase2 S mr sid kept received = Inr out'"
    and out: "out = map (\<lambda>i. \<Sum>j < BATCH_SIZE. ms_public_gadget ms ! j * v i j) [0..<mul_L]"
    and out': "out' = map (\<lambda>i. ?b * (input ! i - a_tilde ! i) +
      (\<Sum>j < BATCH_SIZE. mr_public_gadget mr ! j * t i j)) [0..<mul_L]"
    and shares: "\<forall>i < mul_L. \<forall>j < BATCH_SIZE. v i j + t i j = (if choice_bits ! j then a_tilde ! i else 0)"
    using mul_honest_run [OF assms, of noise sid input] by blast
  have "out ! i + out' ! i = input ! i * ?b +
      (\<Sum>j < BATCH_SIZE. (ms_public_gadget ms ! j - mr_public_gadget mr ! j) * v i j)" if "i < mul_L" for i
  proof -
    have "(\<Sum>j < BATCH_SIZE. mr_public_gadget mr ! j * v i j) + (\<Sum>j < BATCH_SIZE. mr_public_gadget mr ! j * t i j) =
        a_tilde ! i * ?b"
      unfolding sample_b_sum using shares that by (intro weighted_shares) blast
    then have "(\<Sum>j < BATCH_SIZE. mr_public_gadget mr ! j * t i j) =
        a_tilde ! i * ?b - (\<Sum>j < BATCH_SIZE. mr_public_gadget mr ! j * v i j)"
      by (simp add: eq_diff_eq add.commute)
    then show ?thesis using that
      by (simp add: out out' left_diff_distrib sum_subtractf) (simp add: algebra_simps)
  qed
  with run show ?thesis by blast
qed

lemma mul_gadget_not_checked_witness:
  "\<exists>b kept msg out received out'.
    mul_receiver_phase1 sample_suite (sample_mul_receiver\<lparr>mr_public_gadget := replicate BATCH_SIZE 1\<rparr>)
      (replicate BATCH_SIZE True) [] [7] = Inr (b, kept, msg) \<and>
    mul_sender_run sample_suite sample_mul_sender [5, 6] [8, 9] [7] [100, 200] msg = Inr (out, received) \<and>
    mul_receiver_phase2 sample_suite (sample_mul_receiver\<lparr>mr_public_gadget := replicate BATCH_SIZE 1\<rparr>)
      [7] kept received = Inr out'"
  using mul_gadget_not_checked [OF sample_suite_ok, of sample_mul_sender
      "sample_mul_receiver\<lparr>mr_public_gadget := replicate BATCH_SIZE 1\<rparr>" "replicate BATCH_SIZE True"
      "[5, 6]" "[8, 9]" "[]" "[7]" "[100, 200]"] sample_mul_linked
  by (fastforce simp: mul_L_def mul_linked_def)

section \<open>Errors\<close>

lemma receiver_phase2_malformed:
  "ote_receiver_phase2 S sid w bits ext tau = Inl e \<Longrightarrow> ot_kind e = MalformedMessage"
  by (auto simp: ote_receiver_phase2_def rbind_Inl_iff cut_and_transpose_def split: if_splits
      dest!: check_each_Inl)

definition expected_r :: "('s::field, 'p) suite \<Rightarrow> bytes \<Rightarrow> 's mul_data_to_keep_receiver \<Rightarrow>
  's mul_data_to_receiver \<Rightarrow> 's list list \<Rightarrow> bytes" where
  "expected_r S sid kept received z =
     tagged_hash S TAG_MUL_VERIFY [sid,
       rows_bytes S (receiver_entry kept (verify_u received) (take mul_L z) (drop mul_L z))]"

text \<open>The receiver asks for a ban exactly when the message has the right dimensions and the hash
  of the reconstructed matrix differs from \<open>verify_r\<close>; a message of wrong dimensions is a
  recoverable error.\<close>

theorem mul_receiver_ban_iff:
  "(case mul_receiver_phase2 S mr sid kept received of
      Inl e \<Rightarrow> mul_kind e = MulConsistencyFailure | Inr out \<Rightarrow> False) \<longleftrightarrow>
    length (verify_u received) = mul_L \<and> length (gamma_sender received) = mul_L \<and>
    (\<exists>z. ote_receiver_phase2 S (ote_session sid) OT_WIDTH (mk_choice_bits kept)
        (mk_extended_seeds kept) (vector_of_tau received) = Inr z \<and>
      verify_r received \<noteq> expected_r S sid kept received z)"
proof (cases "ote_receiver_phase2 S (ote_session sid) OT_WIDTH (mk_choice_bits kept)
    (mk_extended_seeds kept) (vector_of_tau received)")
  case (Inl e)
  with receiver_phase2_malformed [OF Inl] show ?thesis
    by (simp add: mul_receiver_phase2_def)
next
  case (Inr z)
  then show ?thesis by (auto simp: mul_receiver_phase2_def expected_r_def Let_def)
qed

section \<open>Initialization\<close>

lemma mul_init:
  fixes S :: "('s::field, 'p::ab_group_add) suite"
  assumes "suite_ok S" and "s \<noteq> 0" and "coins_ok fcoins"
    and "mul_receiver_init_phase1 S s fcoins nonce sid = Some (base_snd, dlog, nonce')"
    and "length bits = KAPPA" and "batch_ok S sid sd coins bits"
  shows "\<exists>base_rcv rs proofs ms mr.
    mul_sender_init_phase1 S sd bits coins sid = Inr (base_rcv, bits, rs, proofs) \<and>
    mul_sender_init_phase2 S sid bits rs dlog nonce' = Inr ms \<and>
    mul_receiver_init_phase2 S base_snd sid (otr_seed base_rcv) proofs nonce' = Inr mr \<and>
    mul_linked ms mr"
proof -
  have "ote_receiver_init_phase1 S s fcoins sid = Some (base_snd, dlog)"
    using assms(4) by (auto simp: mul_receiver_init_phase1_def split: option.splits)
  from ote_init [OF assms(1-3) this assms(5,6)] show ?thesis
    by (fastforce simp: mul_sender_init_phase1_def mul_sender_init_phase2_def
        mul_receiver_init_phase2_def mul_linked_def)
qed

text \<open>Key generation leaves linked multiplication states: an honest initialization, in which both
  parties use the nonce of the receiver, succeeds and establishes the hypothesis of the
  multiplication.\<close>

theorem mul_init_linked:
  fixes S :: "('s::field, 'p::ab_group_add) suite"
  assumes "suite_ok S" and "s \<noteq> 0" and "coins_ok fcoins"
    and "mul_receiver_init_phase1 S s fcoins nonce sid = Some (base_snd, dlog, nonce')"
    and "length bits = KAPPA" and "batch_ok S sid sd coins bits"
  shows "\<exists>base_rcv rs proofs ms mr.
    mul_sender_init_phase1 S sd bits coins sid = Inr (base_rcv, bits, rs, proofs) \<and>
    mul_sender_init_phase2 S sid bits rs dlog nonce' = Inr ms \<and>
    mul_receiver_init_phase2 S base_snd sid (otr_seed base_rcv) proofs nonce' = Inr mr \<and>
    mul_linked ms mr"
  using assms by (rule mul_init)

lemma mul_init_linked_witness:
  "\<exists>base_snd dlog ms mr.
    mul_receiver_init_phase1 (sample_suite\<lparr>sha256 := \<lambda>_. be_bytes 32 9\<rparr>) 5 (sample_coins 7) 3 [1] =
      Some (base_snd, dlog, 3) \<and> mul_linked ms (mr :: gf257 mul_receiver)"
proof -
  let ?S = "sample_suite\<lparr>sha256 := \<lambda>_. be_bytes 32 9\<rparr>"
  let ?c = "\<lambda>i :: nat. (6, \<lparr>real_nonce = 3, fake_challenge = 11, fake_response = 20\<rparr>)
    :: gf257 \<times> gf257 enc_coins"
  have S: "suite_ok ?S" by (rule sample_hash_ok) simp
  obtain p c where "dlog_prove_commit ?S (sample_coins 7) 5 [1] = Inr (p, c)"
    using sample_prove_commit [of "\<lambda>_. be_bytes 32 9" "be_bytes 32 9"] by blast
  then have init: "mul_receiver_init_phase1 ?S 5 (sample_coins 7) 3 [1] =
      Some (\<lparr>ots_s = 5, ots_proof = p\<rparr>, p, 3)"
    by (auto simp: mul_receiver_init_phase1_def ote_receiver_init_phase1_def ot_sender_init_def
        ot_sender_phase1_def dlog_prove_commit_def rbind_Inr_iff)
  have h: "base_ot_h ?S sid sd = 9" for sid sd
    by (simp add: base_ot_h_def tagged_hash_as_scalar_def tagged_hash_def hash_bytes_def
        reduce_hash_to_scalar_def gf_reduce_def of_be_be_bytes gf_eq_iff)
  have ok: "batch_ok ?S [1] [2] ?c (replicate KAPPA True)"
    unfolding batch_ok_def h by (simp add: choice_ok_def gf_eq_iff u16_MAX_def ote_sizes)
  have "(5 :: gf257) \<noteq> 0" by (simp add: gf_eq_iff)
  from mul_init_linked [OF S this sample_coins_ok init length_replicate ok] init
  show ?thesis by blast
qed

end
