(* ===== verification/Derivation.thy ===== *)
theory Derivation
  imports Zero_Shares Multiplication
begin

text \<open>
  \<open>protocols/derivation.rs\<close>: BIP-32 derivation (without hardened keys) of a key share, of a whole
  \<open>Party\<close> and of a public key package, and the parser of derivation paths; and the record
  \<open>Party\<close> of \<open>protocols.rs\<close>.  The lemmas show that all parties of a key move by the same tweak,
  that the package follows the shares, and that the parser reads back every canonical path.
\<close>

section \<open>Key shares\<close>

text \<open>\<open>ErrorDeriv\<close> only carries its description.\<close>

datatype error_deriv = ErrorDeriv (deriv_description: string)

record ('s, 'p) deriv_data =
  depth :: u8
  child_number :: u32
  parent_fingerprint :: bytes
  dd_poly_point :: 's
  dd_pk :: 'p
  chain_code :: bytes

record ('s, 'p) party =
  party_parameters :: parameters
  party_index :: party_index
  session_id :: bytes
  poly_point :: 's
  pk :: 'p
  party_zero_share :: zero_share
  mul_senders :: "(party_index, 's mul_sender) btree"
  mul_receivers :: "(party_index, 's mul_receiver) btree"
  derivation_data :: "('s, 'p) deriv_data"
  address :: string

definition CHAIN_CODE_LEN :: nat where "CHAIN_CODE_LEN = 32"
definition MAX_DEPTH :: u8 where "MAX_DEPTH = 255"
definition MAX_CHILD_NUMBER :: u32 where "MAX_CHILD_NUMBER = 2147483647"

section \<open>Deriving one child\<close>

definition child_tweak ::
  "('s, 'p) suite \<Rightarrow> ('s, 'p) deriv_data \<Rightarrow> u32 \<Rightarrow> error_deriv + 's \<times> bytes \<times> bytes" where
  "child_tweak S dd number =
     (let pk_as_bytes = point_to_bytes S (dd_pk dd);
          hmac_bytes = hmac_sha512 S (chain_code dd) (pk_as_bytes @ be32 number);
          tweak_bytes = take CHAIN_CODE_LEN hmac_bytes;
          tweak = reduce_bytes S tweak_bytes
      in if to_repr S tweak \<noteq> tweak_bytes then
           Inl (ErrorDeriv ''BIP-32: HMAC left half >= curve order, child index is invalid'')
         else Inr (tweak, drop CHAIN_CODE_LEN hmac_bytes,
                   take 4 (ripemd160 S (sha256 S pk_as_bytes))))"

definition derive_child ::
  "('s::field, 'p::ab_group_add) suite \<Rightarrow> ('s, 'p) deriv_data \<Rightarrow> u32 \<Rightarrow>
     error_deriv + ('s, 'p) deriv_data" where
  "derive_child S dd number =
     (if depth dd = MAX_DEPTH then Inl (ErrorDeriv ''We are already at maximum depth!'')
      else if number > MAX_CHILD_NUMBER then
        Inl (ErrorDeriv ''Child index should be between 0 and 2^31 - 1!'')
      else rbind (child_tweak S dd number) (\<lambda>(tweak, new_chain_code, fingerprint).
        let new_pk = pmul S (generator S) tweak + dd_pk dd in
        if new_pk = 0 then
          Inl (ErrorDeriv ''Very improbable: Child index results in value not allowed by BIP-32!'')
        else Inr \<lparr>depth = depth dd + 1, child_number = number, parent_fingerprint = fingerprint,
               dd_poly_point = dd_poly_point dd + tweak, dd_pk = new_pk,
               chain_code = new_chain_code\<rparr>))"

section \<open>Paths\<close>

text \<open>\<open>str::split\<close> on a character: always at least one part.\<close>

fun split_on :: "char \<Rightarrow> string \<Rightarrow> string list" where
  "split_on c [] = [[]]"
| "split_on c (x # xs) =
     (if x = c then [] # split_on c xs
      else (case split_on c xs of [] \<Rightarrow> [[x]] | p # ps \<Rightarrow> (x # p) # ps))"

text \<open>\<open>str::parse::<u32>\<close>: an optional plus sign, then at least one digit, and no overflow.\<close>

fun parse_digits :: "nat \<Rightarrow> string \<Rightarrow> nat option" where
  "parse_digits acc [] = Some acc"
| "parse_digits acc (c # cs) =
     (let n = of_char c in
      if 48 \<le> n \<and> n \<le> 57 \<and> acc * 10 + (n - 48) < 2 ^ 32
      then parse_digits (acc * 10 + (n - 48)) cs else None)"

definition parse_u32 :: "string \<Rightarrow> u32 option" where
  "parse_u32 s =
     (let digits = (case s of c # cs \<Rightarrow> if c = CHR ''+'' then cs else s | [] \<Rightarrow> s) in
      if digits = [] then None else map_option word_of_nat (parse_digits 0 digits))"

definition parse_part :: "string \<Rightarrow> error_deriv + u32" where
  "parse_part part =
     (case parse_u32 part of
        Some num \<Rightarrow> if num \<le> MAX_CHILD_NUMBER then Inr num
                    else Inl (ErrorDeriv ''Invalid path format or index out of bounds!'')
      | None \<Rightarrow> Inl (ErrorDeriv ''Invalid path format or index out of bounds!''))"

definition parse_path :: "string \<Rightarrow> error_deriv + u32 list" where
  "parse_path path =
     (case split_on (CHR ''/'') path of
        [] \<Rightarrow> Inl (ErrorDeriv ''Invalid path format!'')
      | first # parts \<Rightarrow>
          if first \<noteq> ''m'' then Inl (ErrorDeriv ''Invalid path format!'')
          else rbind (map_res parse_part parts) (\<lambda>path_parsed.
            if length path_parsed > unat MAX_DEPTH then Inl (ErrorDeriv ''The path is too long!'')
            else Inr path_parsed))"

definition derive_from_path ::
  "('s::field, 'p::ab_group_add) suite \<Rightarrow> ('s, 'p) deriv_data \<Rightarrow> string \<Rightarrow>
     error_deriv + ('s, 'p) deriv_data" where
  "derive_from_path S dd path =
     rbind (parse_path path) (\<lambda>numbers. for_each (\<lambda>number data. derive_child S data number) numbers dd)"

section \<open>Parties and packages\<close>

definition party_with ::
  "('s, 'p) party \<Rightarrow> ('p \<Rightarrow> string) \<Rightarrow> ('s, 'p) deriv_data \<Rightarrow> ('s, 'p) party" where
  "party_with p address_fn dd =
     \<lparr>party_parameters = party_parameters p, party_index = party_index p,
      session_id = session_id p, poly_point = dd_poly_point dd, pk = dd_pk dd,
      party_zero_share = party_zero_share p, mul_senders = mul_senders p,
      mul_receivers = mul_receivers p, derivation_data = dd, address = address_fn (dd_pk dd)\<rparr>"

definition party_derive_child ::
  "('s::field, 'p::ab_group_add) suite \<Rightarrow> ('s, 'p) party \<Rightarrow> u32 \<Rightarrow> ('p \<Rightarrow> string) \<Rightarrow>
     error_deriv + ('s, 'p) party" where
  "party_derive_child S p number address_fn =
     rbind (derive_child S (derivation_data p) number) (\<lambda>dd. Inr (party_with p address_fn dd))"

definition party_derive_from_path ::
  "('s::field, 'p::ab_group_add) suite \<Rightarrow> ('s, 'p) party \<Rightarrow> string \<Rightarrow> ('p \<Rightarrow> string) \<Rightarrow>
     error_deriv + ('s, 'p) party" where
  "party_derive_from_path S p path address_fn =
     rbind (derive_from_path S (derivation_data p) path) (\<lambda>dd. Inr (party_with p address_fn dd))"

text \<open>Collecting a map over the entries of an ordered map keeps the keys.\<close>

definition package_derive_child ::
  "('s::field, 'p::ab_group_add) suite \<Rightarrow> 'p public_key_package \<Rightarrow> bytes \<Rightarrow> u32 \<Rightarrow>
     error_deriv + 'p public_key_package" where
  "package_derive_child S pkg code number =
     (if number > MAX_CHILD_NUMBER then
        Inl (ErrorDeriv ''Child index should be between 0 and 2^31 - 1!'')
      else
        let pk_as_bytes = point_to_bytes S (verifying_key pkg);
            hmac_bytes = hmac_sha512 S code (pk_as_bytes @ be32 number);
            tweak_bytes = take CHAIN_CODE_LEN hmac_bytes;
            tweak = reduce_bytes S tweak_bytes
        in if to_repr S tweak \<noteq> tweak_bytes then
             Inl (ErrorDeriv ''BIP-32: HMAC left half >= curve order, child index is invalid'')
           else
             let tweak_point = pmul S (generator S) tweak;
                 new_verifying_key = tweak_point + verifying_key pkg
             in if new_verifying_key = 0 then
                  Inl (ErrorDeriv
                    ''Very improbable: Child index results in value not allowed by BIP-32!'')
                else Inr (PublicKeyPackage_new new_verifying_key
                  (fold (\<lambda>(party, share). bt_insert party (tweak_point + share))
                     (bt_entries (verifying_shares pkg)) [])
                  (package_parameters pkg)))"

section \<open>Paths are read back\<close>

definition show_path :: "u32 list \<Rightarrow> string" where
  "show_path ns = ''m'' @ concat (map (\<lambda>n. CHR ''/'' # show_nat (unat n)) ns)"

definition is_digit :: "char \<Rightarrow> bool" where
  "is_digit c \<longleftrightarrow> 48 \<le> (of_char c :: nat) \<and> (of_char c :: nat) \<le> 57"

lemma digits_show_nat: "show_nat n \<noteq> [] \<and> (\<forall>c \<in> set (show_nat n). is_digit c)"
proof (induction n rule: less_induct)
  case (less n)
  show ?case
  proof (cases "n < 10")
    case True
    then show ?thesis by (subst (1 2) show_nat.simps) (simp add: is_digit_def)
  next
    case False
    then have "n div 10 < n" by simp
    from less.IH [OF this] False show ?thesis
      by (subst (1 2) show_nat.simps) (auto simp: is_digit_def)
  qed
qed

lemma parse_digits_append:
  "parse_digits a (xs @ ys) = (case parse_digits a xs of None \<Rightarrow> None | Some b \<Rightarrow> parse_digits b ys)"
  by (induction a xs rule: parse_digits.induct) (simp_all add: Let_def del: diff_add_assoc diff_add_assoc2 Nat.diff_add_assoc Nat.add_diff_assoc)

lemma parse_digits_show_nat: "n < 2 ^ 32 \<Longrightarrow> parse_digits 0 (show_nat n) = Some n"
proof (induction n rule: less_induct)
  case (less n)
  show ?case
  proof (cases "n < 10")
    case True
    then show ?thesis by (subst show_nat.simps) (simp add: Let_def)
  next
    case False
    then have "n div 10 < n" "n div 10 < 2 ^ 32" using less.prems by simp_all
    from less.IH [OF this] False less.prems show ?thesis
      by (subst show_nat.simps) (simp add: parse_digits_append Let_def)
  qed
qed

lemma parse_u32_show: "parse_u32 (show_nat (unat (n :: u32))) = Some n"
proof -
  have "unat n < 2 ^ LENGTH(32)" by (rule unsigned_less)
  then have parsed: "parse_digits 0 (show_nat (unat n)) = Some (unat n)"
    by (intro parse_digits_show_nat) simp
  obtain c cs where s: "show_nat (unat n) = c # cs"
    using digits_show_nat [of "unat n"] by (cases "show_nat (unat n)") simp_all
  then have "c \<noteq> CHR ''+''"
    using digits_show_nat [of "unat n"] by (auto simp: is_digit_def)
  with parsed s show ?thesis by (simp add: parse_u32_def)
qed

lemma split_on_none: "c \<notin> set xs \<Longrightarrow> split_on c xs = [xs]"
  by (induction xs) auto

lemma split_on_part: "c \<notin> set xs \<Longrightarrow> split_on c (xs @ c # ys) = xs # split_on c ys"
  by (induction xs) auto

lemma split_show_path:
  "c \<notin> set xs \<Longrightarrow> \<forall>p \<in> set parts. c \<notin> set p \<Longrightarrow>
    split_on c (xs @ concat (map (\<lambda>p. c # p) parts)) = xs # parts"
proof (induction parts arbitrary: xs)
  case Nil
  then show ?case by (simp add: split_on_none)
next
  case (Cons p parts)
  then have "split_on c (p @ concat (map (\<lambda>p. c # p) parts)) = p # parts" by simp
  with Cons.prems show ?case by (simp add: split_on_part)
qed

lemma split_path: "split_on (CHR ''/'') (show_path ns) = ''m'' # map (\<lambda>n. show_nat (unat n)) ns"
proof -
  have "\<not> is_digit (CHR ''/'')" by (simp add: is_digit_def)
  then have "\<forall>p \<in> set (map (\<lambda>n. show_nat (unat n)) ns). CHR ''/'' \<notin> set p"
    using digits_show_nat by (auto; blast)
  from split_show_path [OF _ this, of "''m''"] show ?thesis
    by (simp add: show_path_def comp_def)
qed

lemma parse_path_Inr:
  assumes "parse_path p = Inr ns"
  shows "length ns \<le> 255 \<and> (\<forall>n \<in> set ns. n \<le> MAX_CHILD_NUMBER)"
proof -
  from assms obtain parts where parts: "map_res parse_part parts = Inr ns" and "length ns \<le> unat MAX_DEPTH"
    by (auto simp: parse_path_def res_simps split: list.splits if_splits)
  moreover have "n \<le> MAX_CHILD_NUMBER" if "n \<in> set ns" for n
  proof -
    from that obtain i where "i < length ns" "ns ! i = n" by (auto simp: in_set_conv_nth)
    then have "parse_part (parts ! i) = Inr n"
      using map_res_nth [OF parts, of i] map_res_length [OF parts] by simp
    then show ?thesis by (auto simp: parse_part_def split: option.splits if_splits)
  qed
  ultimately show ?thesis by (simp add: MAX_DEPTH_def)
qed

text \<open>C37: derivation paths round trip.  Every list of at most 255 child numbers below 2^31, printed
  as \<open>m/n1/n2/...\<close>, is parsed back to itself, and whatever the parser accepts is such a list.\<close>

theorem parse_path_roundtrip:
  "parse_path (show_path ns) = Inr ns \<longleftrightarrow> length ns \<le> 255 \<and> (\<forall>n \<in> set ns. n \<le> MAX_CHILD_NUMBER)"
proof
  show "parse_path (show_path ns) = Inr ns \<Longrightarrow> length ns \<le> 255 \<and> (\<forall>n \<in> set ns. n \<le> MAX_CHILD_NUMBER)"
    by (rule parse_path_Inr)
  assume ok: "length ns \<le> 255 \<and> (\<forall>n \<in> set ns. n \<le> MAX_CHILD_NUMBER)"
  then have "map_res parse_part (map (\<lambda>n. show_nat (unat n)) ns) = Inr ns"
    by (simp add: map_res_Inr_iff list.rel_map parse_part_def parse_u32_show list.rel_refl_strong)
  with ok show "parse_path (show_path ns) = Inr ns"
    by (simp add: parse_path_def split_path MAX_DEPTH_def)
qed

lemma parse_path_roundtrip_witness:
  "parse_path (show_path [44, 0, 2147483647]) = Inr [44, 0, 2147483647]"
  using parse_path_roundtrip [of "[44, 0, 2147483647]"] by (simp add: MAX_CHILD_NUMBER_def)

section \<open>All parties move together\<close>

lemma derive_child_Inr:
  "derive_child S dd n = Inr dd' \<longleftrightarrow> depth dd \<noteq> MAX_DEPTH \<and> n \<le> MAX_CHILD_NUMBER \<and>
    (\<exists>tweak code fp. child_tweak S dd n = Inr (tweak, code, fp) \<and>
      pmul S (generator S) tweak + dd_pk dd \<noteq> 0 \<and>
      dd' = \<lparr>depth = depth dd + 1, child_number = n, parent_fingerprint = fp,
        dd_poly_point = dd_poly_point dd + tweak,
        dd_pk = pmul S (generator S) tweak + dd_pk dd, chain_code = code\<rparr>)"
  by (auto simp: derive_child_def res_simps Let_def not_less split: if_splits)

text \<open>Two parties of one key: the same public data, possibly different shares.\<close>

definition same_public :: "('s, 'p) deriv_data \<Rightarrow> ('s, 'p) deriv_data \<Rightarrow> bool" where
  "same_public d e \<longleftrightarrow> depth d = depth e \<and> dd_pk d = dd_pk e \<and> chain_code d = chain_code e"

text \<open>Both shares moved by one tweak, and the public key moved with them.\<close>

definition moved_by ::
  "('s::field, 'p::ab_group_add) suite \<Rightarrow> 's \<Rightarrow> ('s, 'p) deriv_data \<Rightarrow> ('s, 'p) deriv_data \<Rightarrow> bool" where
  "moved_by S tweak d d' \<longleftrightarrow> dd_poly_point d' = dd_poly_point d + tweak \<and>
     dd_pk d' = dd_pk d + pmul S (generator S) tweak"

lemma moved_by_refl: "suite_ok S \<Longrightarrow> moved_by S 0 d d"
  by (simp add: moved_by_def pmul_zero)

lemma moved_by_trans:
  "suite_ok S \<Longrightarrow> moved_by S a d d' \<Longrightarrow> moved_by S b d' d'' \<Longrightarrow> moved_by S (a + b) d d''"
  by (simp add: moved_by_def pmul_add add.assoc)

lemma same_public_tweak: "same_public d e \<Longrightarrow> child_tweak S d n = child_tweak S e n"
  by (simp add: child_tweak_def same_public_def)

lemma derive_child_same:
  fixes S :: "('s::field, 'p::ab_group_add) suite"
  assumes "same_public d e" and "derive_child S d n = Inr d'"
  shows "\<exists>tweak e'. derive_child S e n = Inr e' \<and> same_public d' e' \<and>
    moved_by S tweak d d' \<and> moved_by S tweak e e'"
  using assms same_public_tweak [OF assms(1), of S n]
  by (auto simp: derive_child_Inr same_public_def moved_by_def add.commute)

lemma derive_children_same:
  fixes S :: "('s::field, 'p::ab_group_add) suite"
  assumes "suite_ok S" and "same_public d e"
    and "for_each (\<lambda>n data. derive_child S data n) ns d = Inr d'"
  shows "\<exists>tweak e'. for_each (\<lambda>n data. derive_child S data n) ns e = Inr e' \<and> same_public d' e' \<and>
    moved_by S tweak d d' \<and> moved_by S tweak e e'"
  using assms(2,3)
proof (induction ns arbitrary: d e)
  case Nil
  then show ?case using assms(1) by (auto intro: moved_by_refl)
next
  case (Cons n ns)
  from Cons.prems(2) obtain c where c: "derive_child S d n = Inr c"
    "for_each (\<lambda>n data. derive_child S data n) ns c = Inr d'"
    by (auto simp: res_simps)
  from derive_child_same [OF Cons.prems(1) c(1)] obtain a f where
    f: "derive_child S e n = Inr f" "same_public c f" "moved_by S a d c" "moved_by S a e f" by blast
  from Cons.IH [OF f(2) c(2)] obtain b e' where
    "for_each (\<lambda>n data. derive_child S data n) ns f = Inr e'" "same_public d' e'"
    "moved_by S b c d'" "moved_by S b f e'" by blast
  with f show ?case
    by (auto simp: res_simps intro!: exI [of _ "a + b"] moved_by_trans [OF assms(1)])
qed

lemma derive_path_same:
  fixes S :: "('s::field, 'p::ab_group_add) suite"
  assumes "suite_ok S" and "same_public d e" and "derive_from_path S d path = Inr d'"
  shows "\<exists>tweak e'. derive_from_path S e path = Inr e' \<and> same_public d' e' \<and>
    moved_by S tweak d d' \<and> moved_by S tweak e e'"
proof -
  from assms(3) obtain ns where "parse_path path = Inr ns"
    "for_each (\<lambda>n data. derive_child S data n) ns d = Inr d'"
    by (auto simp: derive_from_path_def res_simps)
  with derive_children_same [OF assms(1,2)] show ?thesis by (simp add: derive_from_path_def)
qed

text \<open>Derivation is consistent across parties.  If one party derives along a path, every other
  party holding the same public data derives too, both arrive at the same public key and chain
  code, and their shares and the public key have moved by one common tweak.\<close>

theorem derivation_common_tweak:
  fixes S :: "('s::field, 'p::ab_group_add) suite"
  assumes "suite_ok S" and "same_public (derivation_data p) (derivation_data q)"
    and "party_derive_from_path S p path f = Inr p'"
  shows "\<exists>tweak q'. party_derive_from_path S q path f = Inr q' \<and>
    poly_point p' = dd_poly_point (derivation_data p) + tweak \<and>
    poly_point q' = dd_poly_point (derivation_data q) + tweak \<and>
    pk p' = dd_pk (derivation_data p) + pmul S (generator S) tweak \<and> pk q' = pk p' \<and>
    chain_code (derivation_data q') = chain_code (derivation_data p') \<and> address q' = address p' \<and>
    mul_senders q' = mul_senders q \<and> mul_receivers q' = mul_receivers q"
proof -
  from assms(3) obtain d' where d: "derive_from_path S (derivation_data p) path = Inr d'"
    "p' = party_with p f d'"
    by (auto simp: party_derive_from_path_def res_simps)
  from derive_path_same [OF assms(1,2) d(1)] obtain t e' where
    "derive_from_path S (derivation_data q) path = Inr e'" "same_public d' e'"
    "moved_by S t (derivation_data p) d'" "moved_by S t (derivation_data q) e'" by blast
  with d(2) show ?thesis
    by (auto simp: party_derive_from_path_def party_with_def same_public_def moved_by_def)
qed

lemma minus_one_word_255: "(- 1 :: u8) = 255"
  by simp

lemma unat_add_one_u8: "(w :: u8) \<noteq> 255 \<Longrightarrow> unat (w + 1) = unat w + 1"
proof -
  assume "w \<noteq> 255"
  then have "1 + w \<noteq> 0"
    by (metis add.commute eq_neg_iff_add_eq_0 minus_one_word_255)
  then show ?thesis using unatSuc [of w] by (simp add: add.commute)
qed

text \<open>A back end whose HMAC gives the tweak 5, and parties of a key over it.\<close>

definition tweak_suite :: "(gf257, gf257) suite" where
  "tweak_suite = sample_suite\<lparr>hmac_sha512 := \<lambda>_ _. gf_repr 5 @ replicate 32 1\<rparr>"

lemma tweak_suite_ok: "suite_ok tweak_suite"
  using sample_suite_ok
  by (simp add: tweak_suite_def suite_ok_def group_ok_def scalar_ok_def encoding_ok_def digest_ok_def
      hex_ok_def gf_repr_def)

definition sample_deriv :: "gf257 \<Rightarrow> gf257 \<Rightarrow> (gf257, gf257) deriv_data" where
  "sample_deriv share key = \<lparr>depth = 0, child_number = 0, parent_fingerprint = [0, 0, 0, 0],
     dd_poly_point = share, dd_pk = key, chain_code = replicate 32 3\<rparr>"

lemma sample_deriv_simps [simp]:
  "chain_code (sample_deriv a b) = replicate 32 3" "dd_poly_point (sample_deriv a b) = a"
  "dd_pk (sample_deriv a b) = b" "depth (sample_deriv a b) = 0"
  by (simp_all add: sample_deriv_def)

definition sample_party :: "u8 \<Rightarrow> gf257 \<Rightarrow> gf257 \<Rightarrow> (gf257, gf257) party" where
  "sample_party i share key =
     \<lparr>party_parameters = \<lparr>threshold = 2, share_count = 3\<rparr>, party_index = PartyIndex i,
      session_id = replicate 32 9, poly_point = share, pk = key, party_zero_share = \<lparr>seeds = []\<rparr>,
      mul_senders = [], mul_receivers = [], derivation_data = sample_deriv share key, address = []\<rparr>"

lemma sample_child:
  "child_tweak tweak_suite (sample_deriv share key) n =
     Inr (5, replicate 32 1, take 4 (sample_digest 20 (sample_digest 32 (point_to_bytes sample_suite key))))"
proof -
  have "length (gf_repr 5) = 32" by (simp add: gf_repr_def)
  then show ?thesis
    by (simp add: child_tweak_def tweak_suite_def sample_deriv_def CHAIN_CODE_LEN_def point_to_bytes_def
        sample_suite_def)
qed

lemma sample_derive_child:
  "\<exists>d'. derive_child tweak_suite (sample_deriv share 7) 1 = Inr d' \<and> dd_poly_point d' = share + 5 \<and> dd_pk d' = 12"
  by (simp add: derive_child_def sample_child)
    (simp add: sample_deriv_def tweak_suite_def MAX_DEPTH_def MAX_CHILD_NUMBER_def gf_eq_iff)

lemma sample_path: "parse_path (show_path [1]) = Inr [1]"
  by (simp add: show_path_def show_nat.simps [of "Suc 0"] char_of_eq_iff parse_path_def parse_part_def parse_u32_def
      MAX_CHILD_NUMBER_def MAX_DEPTH_def)

lemma derivation_common_tweak_witness:
  "\<exists>tweak q'. party_derive_from_path tweak_suite (sample_party 2 30 7) (show_path [1]) (\<lambda>_. ''a'') = Inr q' \<and>
     poly_point q' = 30 + tweak \<and> pk q' = 7 + pmul tweak_suite (generator tweak_suite) tweak"
proof -
  have public: "same_public (derivation_data (sample_party 1 20 7)) (derivation_data (sample_party 2 30 7))"
    by (simp add: same_public_def sample_party_def sample_deriv_def)
  obtain d' where "derive_child tweak_suite (sample_deriv 20 7) 1 = Inr d'"
    using sample_derive_child [of 20] by (auto simp: gf_eq_iff)
  then have "party_derive_from_path tweak_suite (sample_party 1 20 7) (show_path [1]) (\<lambda>_. ''a'') =
      Inr (party_with (sample_party 1 20 7) (\<lambda>_. ''a'') d')"
    by (simp add: party_derive_from_path_def derive_from_path_def sample_party_def sample_path)
  from derivation_common_tweak [OF tweak_suite_ok public this] show ?thesis
    by (auto simp: sample_party_def sample_deriv_def)
qed

text \<open>Along a path the depth counts the steps, without overflow.\<close>

lemma derive_path_depth:
  assumes "for_each (\<lambda>n data. derive_child S data n) ns d = Inr d'"
  shows "unat (depth d') = unat (depth d) + length ns"
  using assms
proof (induction ns arbitrary: d)
  case (Cons n ns)
  then obtain c where c: "derive_child S d n = Inr c"
    "for_each (\<lambda>n data. derive_child S data n) ns c = Inr d'"
    by (auto simp: res_simps)
  then have "depth c = depth d + 1" "depth d \<noteq> MAX_DEPTH" by (auto simp: derive_child_Inr)
  then have "unat (depth c) = unat (depth d) + 1"
    using unat_add_one_u8 [of "depth d"] by (simp add: MAX_DEPTH_def)
  with Cons.IH [OF c(2)] show ?case by simp
qed simp

section \<open>The package follows the shares\<close>

lemma fold_insert_map:
  assumes "bt_ok m" and "bt_ok acc"
  shows "bt_ok (fold (\<lambda>(k, v). bt_insert k (g v)) m acc) \<and>
    bt_get (fold (\<lambda>(k, v). bt_insert k (g v)) m acc) k =
      (case bt_get m k of Some v \<Rightarrow> Some (g v) | None \<Rightarrow> bt_get acc k)"
  using assms
proof (induction m arbitrary: acc)
  case Nil
  then show ?case by (simp add: bt_laws)
next
  case (Cons kv m)
  obtain j w where kv: "kv = (j, w)" by (cases kv)
  have ok: "bt_ok m" and new: "bt_get m j = None"
    using Cons.prems(1) by (auto simp: kv bt_ok_def bt_get_def map_of_eq_None_iff)
  from Cons.IH [OF ok bt.invar_insert [OF Cons.prems(2)], of j "g w"] new Cons.prems(2) show ?case
    by (auto simp: kv bt_laws bt_get_def [of "(j, w) # m"] bt_get_def [of m] split: option.splits)
qed

lemma package_follows:
  fixes S :: "('s::field, 'p::ab_group_add) suite"
  assumes "derive_child S d n = Inr d'" and "verifying_key pkg = dd_pk d" and "bt_ok (verifying_shares pkg)"
  shows "\<exists>pkg'. package_derive_child S pkg (chain_code d) n = Inr pkg' \<and>
    verifying_key pkg' = dd_pk d' \<and> package_parameters pkg' = package_parameters pkg \<and>
    (\<forall>i. verifying_share pkg' i = map_option
       (\<lambda>P. pmul S (generator S) (dd_poly_point d' - dd_poly_point d) + P) (verifying_share pkg i))"
proof -
  from assms(1) obtain tweak code fp where t: "child_tweak S d n = Inr (tweak, code, fp)"
    "pmul S (generator S) tweak + dd_pk d \<noteq> 0" "n \<le> MAX_CHILD_NUMBER"
    and d': "dd_poly_point d' = dd_poly_point d + tweak" "dd_pk d' = pmul S (generator S) tweak + dd_pk d"
    by (auto simp: derive_child_Inr)
  let ?m = "fold (\<lambda>(k, v). bt_insert k (pmul S (generator S) tweak + v)) (verifying_shares pkg) []"
  have "package_derive_child S pkg (chain_code d) n =
      Inr (PublicKeyPackage_new (dd_pk d') ?m (package_parameters pkg))"
    using t assms(2)
    by (auto simp: package_derive_child_def child_tweak_def d' Let_def bt_entries_def not_less
        split: if_splits)
  moreover have "bt_get ?m i = map_option (\<lambda>P. pmul S (generator S) tweak + P) (verifying_share pkg i)" for i
    using fold_insert_map [OF assms(3) bt.invar_empty, of "\<lambda>P. pmul S (generator S) tweak + P" i]
    by (simp add: verifying_share_def bt_laws map_option_case split: option.splits)
  ultimately show ?thesis
    by (auto simp: PublicKeyPackage_new_def verifying_share_def d')
qed

text \<open>C36: the public key package derives in step with the shares.  If a party derives a child, so does
  the package from the same chain code; the child package carries the child's public key, and a
  verifying share that matched the party's key share still matches it.\<close>

theorem package_derivation_consistent:
  fixes S :: "('s::field, 'p::ab_group_add) suite"
  assumes "suite_ok S" and "derive_child S d n = Inr d'"
    and "verifying_key pkg = dd_pk d" and "bt_ok (verifying_shares pkg)"
    and "verify_share pkg i (pmul S (generator S) (dd_poly_point d))"
  shows "\<exists>pkg'. package_derive_child S pkg (chain_code d) n = Inr pkg' \<and>
    verifying_key pkg' = dd_pk d' \<and> verify_share pkg' i (pmul S (generator S) (dd_poly_point d'))"
proof -
  from package_follows [OF assms(2-4)] obtain pkg' where
    "package_derive_child S pkg (chain_code d) n = Inr pkg'" "verifying_key pkg' = dd_pk d'"
    "verifying_share pkg' i = map_option
       (\<lambda>P. pmul S (generator S) (dd_poly_point d' - dd_poly_point d) + P) (verifying_share pkg i)"
    by blast
  with assms(5) show ?thesis
    by (auto simp: verify_share_iff pmul_diff [OF assms(1)] pmul_add [OF assms(1)])
qed

lemma package_derivation_consistent_witness:
  "\<exists>pkg' d'. derive_child tweak_suite (sample_deriv 20 7) 1 = Inr d' \<and>
     package_derive_child tweak_suite
       \<lparr>verifying_key = 7, verifying_shares = [(PartyIndex 1, 20), (PartyIndex 2, 30)],
        package_parameters = \<lparr>threshold = 2, share_count = 2\<rparr>\<rparr> (replicate 32 3) 1 = Inr pkg' \<and>
     verify_share pkg' (PartyIndex 1) (pmul tweak_suite (generator tweak_suite) 25)"
proof -
  let ?pkg = "\<lparr>verifying_key = 7, verifying_shares = [(PartyIndex 1, 20), (PartyIndex 2, 30)],
        package_parameters = \<lparr>threshold = 2, share_count = 2\<rparr>\<rparr> :: gf257 public_key_package"
  obtain d' where d': "derive_child tweak_suite (sample_deriv 20 7) 1 = Inr d'" "dd_poly_point d' = 25"
    using sample_derive_child [of 20] by (auto simp: gf_eq_iff)
  have "verifying_key ?pkg = dd_pk (sample_deriv 20 7)" "bt_ok (verifying_shares ?pkg)" 
    "verify_share ?pkg (PartyIndex 1) (pmul tweak_suite (generator tweak_suite)
       (dd_poly_point (sample_deriv 20 7)))"
    by (simp_all add: bt_ok_def less_party_index_def sample_deriv_def verify_share_def bt_get_def tweak_suite_def)
  from package_derivation_consistent [OF tweak_suite_ok d'(1) this] d' show ?thesis
    by (auto simp: sample_deriv_def)
qed

end
