(* ===== verification/Ecdsa.thy ===== *)
theory Ecdsa
  imports Derivation
begin

text \<open>
  The end of \<open>protocols/signing.rs\<close>: parsing and reducing hexadecimal values, the ECDSA
  verification function, and the digest of the root that the parties compare.  The abstract
  specification is \<open>ecdsa_valid\<close>, the textbook equation on scalars and points; verification
  of the printed values implements it.
\<close>

section \<open>Hexadecimal values\<close>

text \<open>\<open>FieldBytes::<C>::default().len()\<close> is 32 for both curves of the repository.\<close>

definition field_bytes_len :: nat where "field_bytes_len = 32"

definition parse_hex_to_scalar :: "('s, 'p) suite \<Rightarrow> string \<Rightarrow> 's option" where
  "parse_hex_to_scalar S hex_str =
     (case hex_decode_to_slice S field_bytes_len hex_str of
        None \<Rightarrow> None | Some bytes \<Rightarrow> from_repr S bytes)"

definition reduce_hash_bytes :: "('s, 'p) suite \<Rightarrow> bytes \<Rightarrow> 's" where
  "reduce_hash_bytes S hash = reduce_bytes S hash"

text \<open>\<open>None\<close> is the panic of \<open>.expect("valid hex")\<close>.\<close>

definition reduce_hex_bytes :: "('s, 'p) suite \<Rightarrow> string \<Rightarrow> 's option" where
  "reduce_hex_bytes S hex_str =
     map_option (reduce_bytes S) (hex_decode_to_slice S field_bytes_len hex_str)"

text \<open>\<open>Field::invert\<close>.\<close>

definition invert :: "'s::field \<Rightarrow> 's option" where
  "invert a = (if a = 0 then None else Some (inverse a))"

lemma invert_Some [simp]: "invert a = Some b \<longleftrightarrow> a \<noteq> 0 \<and> b = inverse a"
  by (auto simp: invert_def)

lemma invert_None [simp]: "invert a = None \<longleftrightarrow> a = 0"
  by (simp add: invert_def)

definition root_agreement_digest :: "('s, 'p) suite \<Rightarrow> bytes \<Rightarrow> bytes \<Rightarrow> bytes \<Rightarrow> bytes" where
  "root_agreement_digest S sess sign code = tagged_hash S TAG_ROOT_AGREEMENT [sess, sign, code]"

section \<open>Verification\<close>

definition verify_ecdsa_signature ::
  "('s::field, 'p::ab_group_add) suite \<Rightarrow> bytes \<Rightarrow> 'p \<Rightarrow> string \<Rightarrow> string \<Rightarrow> bool" where
  "verify_ecdsa_signature S msg key x_coord signature =
     (case parse_hex_to_scalar S x_coord of
        None \<Rightarrow> False
      | Some rx_as_scalar \<Rightarrow>
          (case parse_hex_to_scalar S signature of
             None \<Rightarrow> False
           | Some s_as_scalar \<Rightarrow>
               if rx_as_scalar = 0 \<or> s_as_scalar = 0 then False
               else (case invert s_as_scalar of
                   None \<Rightarrow> False
                 | Some inverse_s \<Rightarrow>
                     let msg_scalar = reduce_hash_bytes S msg;
                         first = msg_scalar * inverse_s;
                         second = rx_as_scalar * inverse_s;
                         point_to_check = pmul S (generator S) first + pmul S key second
                     in if point_to_check = 0 then False
                        else reduce_bytes S (x_bytes S point_to_check) = rx_as_scalar)))"

text \<open>The textbook equation.\<close>

definition ecdsa_valid ::
  "('s::field, 'p::ab_group_add) suite \<Rightarrow> 's \<Rightarrow> 'p \<Rightarrow> 's \<Rightarrow> 's \<Rightarrow> bool" where
  "ecdsa_valid S m key r s \<longleftrightarrow> r \<noteq> 0 \<and> s \<noteq> 0 \<and>
     (let R = pmul S (generator S) (m / s) + pmul S key (r / s)
      in R \<noteq> 0 \<and> reduce_bytes S (x_bytes S R) = r)"

lemma parse_hex_encoded:
  assumes "suite_ok S" and "length b = 32"
  shows "parse_hex_to_scalar S (hex_encode S b) = from_repr S b"
    "reduce_hex_bytes S (hex_encode S b) = Some (reduce_bytes S b)"
  using assms by (simp_all add: parse_hex_to_scalar_def reduce_hex_bytes_def field_bytes_len_def hex_roundtrip)

lemma parse_hex_reduce:
  assumes "suite_ok S" and "parse_hex_to_scalar S h = Some k"
  shows "reduce_hex_bytes S h = Some k"
  using assms
  by (auto simp: parse_hex_to_scalar_def reduce_hex_bytes_def from_repr_iff reduce_to_repr split: option.splits)

lemma verify_valid:
  "verify_ecdsa_signature S msg key x_coord signature \<longleftrightarrow>
    (\<exists>r s. parse_hex_to_scalar S x_coord = Some r \<and> parse_hex_to_scalar S signature = Some s \<and>
      ecdsa_valid S (reduce_hash_bytes S msg) key r s)"
  by (auto simp: verify_ecdsa_signature_def ecdsa_valid_def Let_def divide_inverse split: option.splits)

text \<open>C31: the verification function implements ECDSA.  It accepts exactly the pairs of 64-digit hex
  strings denoting canonical nonzero scalars \<open>r\<close> and \<open>s\<close> for which the point
  \<open>(m/s) G + (r/s) pk\<close> is not the identity and its x-coordinate reduces to \<open>r\<close>.\<close>

theorem verify_ecdsa_refines:
  fixes S :: "('s::field, 'p::ab_group_add) suite"
  assumes "suite_ok S"
  shows "verify_ecdsa_signature S msg key x_coord signature \<longleftrightarrow>
    (\<exists>r s. hex_decode_to_slice S 32 x_coord = Some (to_repr S r) \<and>
      hex_decode_to_slice S 32 signature = Some (to_repr S s) \<and>
      ecdsa_valid S (reduce_bytes S msg) key r s)"
  using assms
  by (auto simp: verify_valid parse_hex_to_scalar_def field_bytes_len_def reduce_hash_bytes_def
      from_repr_iff from_repr_to_repr split: option.splits)

section \<open>A signature made with the secret key is valid\<close>

text \<open>The point that verification recomputes is the instance point, up to the sign of \<open>s\<close>.\<close>

lemma ecdsa_point:
  assumes "suite_ok S" and "k \<noteq> 0" and "s \<noteq> 0" and "s = (m + r * sk) / k"
  shows "pmul S (generator S) (m / s) + pmul S (pmul S (generator S) sk) (r / s) = pmul S (generator S) k"
proof -
  have "m / s + sk * (r / s) = (m + r * sk) / s" by (simp add: add_divide_distrib mult.commute)
  also have "\<dots> = k" using assms(2-4) by simp
  finally show ?thesis using assms(1) by (simp add: pmul_pmul flip: pmul_add)
qed

lemma ecdsa_valid_signed:
  assumes "suite_ok S" and "k \<noteq> 0" and "s = (m + r * sk) / k" and "r \<noteq> 0" and "s \<noteq> 0"
    and "reduce_bytes S (x_bytes S (pmul S (generator S) k)) = r"
  shows "ecdsa_valid S m (pmul S (generator S) sk) r s"
    and "ecdsa_valid S m (pmul S (generator S) sk) r (- s)"
proof -
  note p = ecdsa_point [OF assms(1,2,5,3)]
  have nz: "pmul S (generator S) k \<noteq> 0"
    using assms(1,2) by (simp add: pmul_eq_0_iff generator_nonzero)
  with p assms show "ecdsa_valid S m (pmul S (generator S) sk) r s"
    by (simp add: ecdsa_valid_def)
  have "pmul S (generator S) (m / - s) + pmul S (pmul S (generator S) sk) (r / - s) =
      - (pmul S (generator S) (m / s) + pmul S (pmul S (generator S) sk) (r / s))"
    using assms(1) by (simp add: pmul_minus)
  with nz p assms show "ecdsa_valid S m (pmul S (generator S) sk) r (- s)"
    by (simp add: ecdsa_valid_def x_bytes_neg)
qed

lemma verify_ecdsa_refines_witness:
  "verify_ecdsa_signature sample_suite (gf_repr 3) 5 (sample_hex (gf_repr 4)) (sample_hex (gf_repr 140))"
proof -
  have "(2 :: gf257) \<noteq> 0" "(140 :: gf257) \<noteq> 0" "(4 :: gf257) \<noteq> 0" "(140 :: gf257) * 2 = 3 + 4 * 5"
    by (simp_all add: gf_eq_iff)
  then have "ecdsa_valid sample_suite 3 (pmul sample_suite (generator sample_suite) 5) 4 140"
    by (intro ecdsa_valid_signed(1) [OF sample_suite_ok, of 2]) (simp_all add: sample_suite_def nonzero_eq_divide_eq)
  moreover have "hex_decode_to_slice sample_suite 32 (sample_hex (gf_repr k)) = Some (gf_repr k)" for k
    using hex_roundtrip [OF sample_suite_ok, of 32 "gf_repr k"] by (simp add: sample_suite_def gf_repr_def)
  ultimately show ?thesis
    using verify_ecdsa_refines [OF sample_suite_ok, of "gf_repr 3" 5 "sample_hex (gf_repr 4)"
        "sample_hex (gf_repr 140)"]
    by (simp del: gf_int_ring) (metis sample_suite_simps(1,2) mult_1)
qed

end
