(* ===== verification/Shamir.thy ===== *)
theory Shamir
  imports Suite
begin

text \<open>
  Polynomial functions of bounded degree over a field, in the Horner form the key generation
  evaluates, and interpolation: the Lagrange basis, the value at any point from as many points
  as the degree bound, and uniqueness.  Signing interpolates at 0, the consistency check of key
  generation at the other indices.
\<close>

section \<open>Polynomial functions\<close>

fun poly_lt :: "nat \<Rightarrow> ('a::field \<Rightarrow> 'a) \<Rightarrow> bool" where
  "poly_lt 0 f \<longleftrightarrow> (\<forall>x. f x = 0)"
| "poly_lt (Suc n) f \<longleftrightarrow> (\<exists>c g. poly_lt n g \<and> (\<forall>x. f x = c + x * g x))"

lemma poly_lt_zero: "poly_lt n (\<lambda>x. 0)"
  by (induction n) (auto intro!: exI [of _ "0"] exI [of _ "\<lambda>x. 0"])

lemma poly_lt_Suc: "poly_lt n f \<Longrightarrow> poly_lt (Suc n) f"
proof (induction n arbitrary: f)
  case 0
  then have "\<forall>x. f x = 0 + x * 0" by simp
  with poly_lt_zero [of 0] show ?case unfolding poly_lt.simps(2) by blast
next
  case (Suc n)
  then obtain c g where "poly_lt n g" "\<forall>x. f x = c + x * g x" by auto
  with Suc.IH [of g] show ?case unfolding poly_lt.simps(2) [of "Suc n"] by blast
qed

lemma poly_lt_mono: "poly_lt n f \<Longrightarrow> n \<le> m \<Longrightarrow> poly_lt m f"
  using poly_lt_Suc by (rule lift_Suc_mono_le [of "\<lambda>n. poly_lt n f", unfolded le_bool_def, rule_format])

lemma poly_lt_const: "0 < n \<Longrightarrow> poly_lt n (\<lambda>x. c)"
  using poly_lt_zero by (cases n) (auto intro!: exI [of _ c] exI [of _ "\<lambda>x. 0"])

lemma poly_lt_add: "poly_lt n f \<Longrightarrow> poly_lt n g \<Longrightarrow> poly_lt n (\<lambda>x. f x + g x)"
proof (induction n arbitrary: f g)
  case (Suc n)
  then obtain c f' d g' where "poly_lt n f'" "\<forall>x. f x = c + x * f' x"
    "poly_lt n g'" "\<forall>x. g x = d + x * g' x" by auto
  with Suc.IH [of f' g'] show ?case
    by (auto simp: algebra_simps intro!: exI [of _ "c + d"] exI [of _ "\<lambda>x. f' x + g' x"])
qed simp

lemma poly_lt_scale: "poly_lt n f \<Longrightarrow> poly_lt n (\<lambda>x. k * f x)"
proof (induction n arbitrary: f)
  case (Suc n)
  then obtain c f' where "poly_lt n f'" "\<forall>x. f x = c + x * f' x" by auto
  with Suc.IH [of f'] show ?case
    by (auto simp: algebra_simps intro!: exI [of _ "k * c"] exI [of _ "\<lambda>x. k * f' x"])
qed simp

lemma poly_lt_times_x: "poly_lt n f \<Longrightarrow> poly_lt (Suc n) (\<lambda>x. x * f x)"
  by (auto intro!: exI [of _ 0] exI [of _ f])

lemma poly_lt_linear: "poly_lt n f \<Longrightarrow> poly_lt (Suc n) (\<lambda>x. (x - a) * f x)"
  using poly_lt_add [OF poly_lt_times_x poly_lt_Suc [OF poly_lt_scale [of n f "- a"]], of f]
  by (simp add: algebra_simps del: poly_lt.simps)

lemma poly_lt_sum: "(\<And>i. i \<in> A \<Longrightarrow> poly_lt n (f i)) \<Longrightarrow> poly_lt n (\<lambda>x. \<Sum>i \<in> A. f i x)"
  by (induction A rule: infinite_finite_induct) (auto intro: poly_lt_zero poly_lt_add)

lemma poly_lt_prod: "finite A \<Longrightarrow> poly_lt (Suc (card A)) (\<lambda>x. \<Prod>i \<in> A. (x - r i))"
proof (induction A rule: finite_induct)
  case empty
  show ?case using poly_lt_const [of "Suc 0" 1] by (simp del: poly_lt.simps)
next
  case (insert i A)
  then show ?case
    using poly_lt_linear [of "Suc (card A)" "\<lambda>x. \<Prod>i \<in> A. (x - r i)" "r i"] by (simp del: poly_lt.simps)
qed

section \<open>Roots\<close>

lemma poly_lt_factor: "poly_lt (Suc n) f \<Longrightarrow> \<exists>g. poly_lt n g \<and> (\<forall>x. f x = f a + (x - a) * g x)"
proof (induction n arbitrary: f)
  case 0
  then obtain c where "\<forall>x. f x = c" by auto
  then show ?case by (auto intro!: exI [of _ "\<lambda>x. 0"])
next
  case (Suc n)
  then obtain c h where h: "poly_lt (Suc n) h" "\<forall>x. f x = c + x * h x" by auto
  from Suc.IH [OF h(1)] obtain k where k: "poly_lt n k" "\<forall>x. h x = h a + (x - a) * k x" by blast
  have "poly_lt (Suc n) (\<lambda>x. h a + x * k x)" using k(1) by auto
  moreover have "f x = f a + (x - a) * (h a + x * k x)" for x
  proof -
    have "f x = c + x * (h a + (x - a) * k x)" "f a = c + a * h a"
      using k(2) [rule_format, of x] h(2) by simp_all
    then show ?thesis by (simp add: algebra_simps)
  qed
  ultimately show ?case by blast
qed

lemma poly_lt_roots:
  "poly_lt n f \<Longrightarrow> finite A \<Longrightarrow> n \<le> card A \<Longrightarrow> \<forall>a \<in> A. f a = 0 \<Longrightarrow> f x = 0"
proof (induction n arbitrary: f A x)
  case (Suc n)
  then obtain a where a: "a \<in> A" by fastforce
  from poly_lt_factor [OF Suc.prems(1), of a] obtain g where
    g: "poly_lt n g" "\<forall>x. f x = f a + (x - a) * g x" by blast
  have "g y = 0" for y
  proof (rule Suc.IH [OF g(1), of "A - {a}"])
    show "\<forall>b \<in> A - {a}. g b = 0"
      using Suc.prems(4) g(2) a by (metis DiffD1 DiffD2 add_0 insertI1 mult_eq_0_iff right_minus_eq)
  qed (use Suc.prems a in auto)
  with g(2) Suc.prems(4) a show ?case by simp
qed simp

lemma poly_lt_unique:
  assumes "poly_lt n f" "poly_lt n g" "finite A" "n \<le> card A" "\<forall>a \<in> A. f a = g a"
  shows "f x = g x"
proof -
  have "poly_lt n (\<lambda>x. f x + (- 1) * g x)"
    by (intro poly_lt_add poly_lt_scale assms(1,2))
  from poly_lt_roots [OF this assms(3,4), of x] assms(5) show ?thesis by simp
qed

section \<open>Interpolation\<close>

definition basis :: "'a::field set \<Rightarrow> 'a \<Rightarrow> 'a \<Rightarrow> 'a" where
  "basis A i y = (\<Prod>j \<in> A - {i}. (y - j) / (i - j))"

lemma basis_self: "basis A i i = 1"
  unfolding basis_def by (rule prod.neutral) auto

lemma basis_other: "finite A \<Longrightarrow> k \<in> A \<Longrightarrow> k \<noteq> i \<Longrightarrow> basis A i k = 0"
  unfolding basis_def by (rule prod_zero) auto

lemma basis_poly:
  assumes "finite A" "i \<in> A"
  shows "poly_lt (card A) (basis A i)"
proof -
  have "basis A i = (\<lambda>y. inverse (\<Prod>j \<in> A - {i}. (i - j)) * (\<Prod>j \<in> A - {i}. (y - j)))"
    by (simp add: fun_eq_iff basis_def prod_dividef) (simp add: divide_inverse mult.commute)
  moreover have "Suc (card (A - {i})) = card A" using assms by (rule card.remove [symmetric])
  ultimately show ?thesis
    using poly_lt_scale [OF poly_lt_prod [of "A - {i}" "\<lambda>j. j"]] assms(1) by simp
qed

theorem interpolation:
  assumes "poly_lt n f" "finite A" "n \<le> card A"
  shows "f y = (\<Sum>i \<in> A. f i * basis A i y)"
proof (rule poly_lt_unique [of "card A" f _ A])
  show "poly_lt (card A) f" using assms(1,3) by (rule poly_lt_mono)
  show "poly_lt (card A) (\<lambda>y. \<Sum>i \<in> A. f i * basis A i y)"
    by (intro poly_lt_sum poly_lt_scale basis_poly assms(2))
  show "\<forall>a \<in> A. f a = (\<Sum>i \<in> A. f i * basis A i a)"
  proof
    fix a assume a: "a \<in> A"
    have "(\<Sum>i \<in> A. f i * basis A i a) = (\<Sum>i \<in> A. if i = a then f a else 0)"
      by (rule sum.cong) (auto simp: basis_self basis_other assms(2) a)
    then show "f a = (\<Sum>i \<in> A. f i * basis A i a)" using a assms(2) by simp
  qed
qed (use assms(2) in simp_all)

text \<open>At 0 the basis is the coefficient the code computes as one numerator over one denominator.\<close>

lemma basis_zero:
  "basis A i 0 = (\<Prod>j \<in> A - {i}. j) / (\<Prod>j \<in> A - {i}. j - i)"
proof -
  have "(0 - j) / (i - j) = j / (j - i)" for j
    by (metis diff_0 minus_diff_eq minus_divide_divide)
  then show ?thesis unfolding basis_def prod_dividef [symmetric] by simp
qed

section \<open>The polynomial a list of coefficients stands for\<close>

text \<open>Coefficients in increasing order, evaluated by Horner's rule.\<close>

fun horner :: "'a::field list \<Rightarrow> 'a \<Rightarrow> 'a" where
  "horner [] x = 0"
| "horner (c # cs) x = c + x * horner cs x"

lemma horner_poly: "poly_lt (length cs) (horner cs)"
  by (induction cs) auto

lemma horner_0: "horner cs 0 = (case cs of [] \<Rightarrow> 0 | c # _ \<Rightarrow> c)"
  by (cases cs) simp_all

section \<open>Agreement of all windows\<close>

text \<open>Values at \<open>n\<close> nonzero points are those of one polynomial as soon as every window of \<open>t\<close>
  consecutive points interpolates to the same value at 0.\<close>

lemma basis_zero_nonzero: "finite A \<Longrightarrow> 0 \<notin> A - {i} \<Longrightarrow> basis A i 0 \<noteq> 0"
  by (auto simp: basis_def)

lemma interpolate_at:
  assumes "finite A" and "inj_on x A" and "k \<in> A"
  shows "(\<Sum>j \<in> A. d j * basis (x ` A) (x j) (x k)) = d k"
proof -
  have "(\<Sum>j \<in> A. d j * basis (x ` A) (x j) (x k)) = (\<Sum>j \<in> A. if j = k then d k else 0)"
    by (rule sum.cong [OF refl])
      (use assms in \<open>auto simp: basis_self inj_on_eq_iff intro!: basis_other\<close>)
  then show ?thesis using assms by simp
qed

lemma interpolation_indexed:
  assumes "poly_lt t f" and "finite A" and "inj_on x A" and "t \<le> card A"
  shows "f y = (\<Sum>j \<in> A. f (x j) * basis (x ` A) (x j) y)"
  using interpolation [OF assms(1), of "x ` A" y] assms by (simp add: card_image sum.reindex)

lemma interpolant_poly:
  assumes "finite A" and "inj_on x A"
  shows "poly_lt (card A) (\<lambda>y. \<Sum>j \<in> A. d j * basis (x ` A) (x j) y)"
  using basis_poly [of "x ` A"] assms
  by (intro poly_lt_sum poly_lt_scale) (auto simp: card_image)

lemma windows_polynomial:
  fixes x d :: "nat \<Rightarrow> 'a::field"
  assumes inj: "inj_on x {1..n}" and nz: "\<forall>j \<in> {1..n}. x j \<noteq> 0" and "1 \<le> t" "t \<le> n"
    and agree: "\<forall>i \<in> {1..n - t + 1}. (\<Sum>j \<in> {i..<i + t}. d j * basis (x ` {i..<i + t}) (x j) 0) = c"
  shows "\<exists>f. poly_lt t f \<and> f 0 = c \<and> (\<forall>j \<in> {1..n}. d j = f (x j))"
proof -
  have inj_w: "inj_on x {i..<i + t}" if "i \<in> {1..n - t + 1}" for i
    by (rule inj_on_subset [OF inj]) (use that assms(3,4) in auto)
  define f where "f y = (\<Sum>j \<in> {1..<1 + t}. d j * basis (x ` {1..<1 + t}) (x j) y)" for y
  have one: "1 \<in> {1..n - t + 1}" by simp
  have f: "poly_lt t f"
    using interpolant_poly [OF _ inj_w [OF one], of d] by (simp add: f_def [abs_def])
  have f0: "f 0 = c" using agree one unfolding f_def by blast
  have "d j = f (x j)" if "j \<in> {1..n}" for j
    using that
  proof (induction j rule: less_induct)
    case (less j)
    show ?case
    proof (cases "j \<le> t")
      case True
      with less.prems show ?thesis
        unfolding f_def by (intro interpolate_at [symmetric] inj_w [OF one]) auto
    next
      case False
      let ?i = "j - t + 1"
      let ?W = "{?i..<?i + t}"
      have i: "?i \<in> {1..n - t + 1}" and jW: "j \<in> ?W" using False less.prems assms(3) by auto
      have "(\<Sum>k \<in> ?W. d k * basis (x ` ?W) (x k) 0) = (\<Sum>k \<in> ?W. f (x k) * basis (x ` ?W) (x k) 0)"
        using bspec [OF agree i] interpolation_indexed [OF f finite_atLeastLessThan inj_w [OF i], of 0] f0
        by (metis card_atLeastLessThan add_diff_cancel_left' order_refl)
      moreover have "(\<Sum>k \<in> ?W - {j}. d k * basis (x ` ?W) (x k) 0) =
          (\<Sum>k \<in> ?W - {j}. f (x k) * basis (x ` ?W) (x k) 0)"
        using less False by (intro sum.cong refl) auto
      ultimately have "d j * basis (x ` ?W) (x j) 0 = f (x j) * basis (x ` ?W) (x j) 0"
        using sum.remove [OF _ jW, of "\<lambda>k. d k * basis (x ` ?W) (x k) 0"]
          sum.remove [OF _ jW, of "\<lambda>k. f (x k) * basis (x ` ?W) (x k) 0"] by simp
      moreover have "basis (x ` ?W) (x j) 0 \<noteq> 0"
        using nz i assms(3,4) by (intro basis_zero_nonzero) force+
      ultimately show ?thesis by simp
    qed
  qed
  with f f0 show ?thesis by blast
qed

end
