(* ===== verification/Key_Material.thy ===== *)
theory Key_Material
  imports Derivation Shamir "HOL-Library.Multiset"
begin

text \<open>
  What the parties of one key hold together.  \<open>key_material\<close> is established by key generation,
  kept by derivation and by both refreshes, and assumed by signing: points of one polynomial,
  pairwise seeds, linked multiplication states, one public key and one chain code.
\<close>

section \<open>Party indices as scalars\<close>

definition index_scalar :: "party_index \<Rightarrow> 's::field" where
  "index_scalar i = of_nat (unat (as_u8 i))"

lemma scalar_from_index: "suite_ok S \<Longrightarrow> scalar_from S (ucast (as_u8 i)) = index_scalar i"
  using unat_byte_less [of "as_u8 i"]
  by (simp add: scalar_from_eq index_scalar_def unsigned_ucast_eq take_bit_nat_eq_self)

lemma index_scalar_inj:
  assumes "suite_ok (S :: ('s::field, 'p::ab_group_add) suite)"
  shows "(index_scalar i :: 's) = index_scalar j \<longleftrightarrow> i = j"
proof -
  have "(index_scalar i :: 's) = index_scalar j \<longleftrightarrow> unat (as_u8 i) = unat (as_u8 j)"
    unfolding index_scalar_def by (rule of_nat_small_inj [OF assms]) (rule unat_byte_less)+
  also have "\<dots> \<longleftrightarrow> i = j"
    using unsigned_word_eqI [of "as_u8 i" "as_u8 j"] party_index.expand [of i j] by auto
  finally show ?thesis .
qed

definition others :: "party_index list \<Rightarrow> party_index \<Rightarrow> party_index list" where
  "others signers i = filter (\<lambda>j. j \<noteq> i) signers"

lemma set_others [simp]: "set (others signers i) = set signers - {i}"
  by (auto simp: others_def)

lemma distinct_others: "distinct signers \<Longrightarrow> distinct (others signers i)"
  by (simp add: others_def)

lemma length_others: "distinct signers \<Longrightarrow> i \<in> set signers \<Longrightarrow> length (others signers i) = length signers - 1"
  by (metis card_Diff_singleton distinct_card distinct_others set_others)

lemma lagrange_sum:
  fixes S :: "('s::field, 'p::ab_group_add) suite" and f :: "'s \<Rightarrow> 's"
  assumes "suite_ok S" and "distinct signers" and "poly_lt n f" and "n \<le> length signers"
  shows "(\<Sum>i \<in> set signers. f (index_scalar i) * basis (index_scalar ` set signers) (index_scalar i) 0) = f 0"
proof -
  have inj: "inj_on (index_scalar :: party_index \<Rightarrow> 's) (set signers)"
    by (rule inj_onI) (simp add: index_scalar_inj [OF assms(1)])
  then have "card (index_scalar ` set signers :: 's set) = length signers"
    using assms(2) by (simp add: card_image distinct_card)
  with interpolation [OF assms(3), of "index_scalar ` set signers" 0] assms(4) show ?thesis
    by (simp add: sum.reindex [OF inj])
qed

section \<open>Key material\<close>

text \<open>What the parties of a key hold after key generation: the same parameters, session id, chain code
  and public key; the value of one polynomial of degree below the threshold at their index, its
  value at 0 being the secret key; pairwise seeds; linked multiplication states; and derivation data
  of one depth that repeat the share and the public key.\<close>

definition key_material ::
  "('s::field, 'p::ab_group_add) suite \<Rightarrow> ('s \<Rightarrow> 's) \<Rightarrow> parameters \<Rightarrow> bytes \<Rightarrow> bytes \<Rightarrow>
     (party_index \<Rightarrow> party_index \<Rightarrow> bytes) \<Rightarrow> party_index list \<Rightarrow> (party_index \<Rightarrow> ('s, 'p) party) \<Rightarrow> bool" where
  "key_material S f params sid code half all P \<longleftrightarrow>
     params_ok params \<and> distinct all \<and> poly_lt (unat (threshold params)) f \<and>
     (\<forall>i \<in> set all. as_u8 i \<le> share_count params \<and>
        party_parameters (P i) = params \<and> party_index (P i) = i \<and> session_id (P i) = sid \<and>
        poly_point (P i) = f (index_scalar i) \<and> pk (P i) = pmul S (generator S) (f 0) \<and>
        party_zero_share (P i) = pairwise_seeds all half i \<and>
        chain_code (derivation_data (P i)) = code \<and>
        dd_poly_point (derivation_data (P i)) = poly_point (P i) \<and>
        dd_pk (derivation_data (P i)) = pk (P i) \<and>
        (\<forall>j \<in> set all. depth (derivation_data (P j)) = depth (derivation_data (P i)))) \<and>
     (\<forall>i \<in> set all. \<forall>j \<in> set all - {i}. \<exists>ms mr.
        bt_get (mul_senders (P i)) j = Some ms \<and> bt_get (mul_receivers (P j)) i = Some mr \<and> mul_linked ms mr)"

text \<open>The same, one party and one pair at a time.\<close>

lemma key_materialI:
  assumes "params_ok params" and "distinct all" and "poly_lt (unat (threshold params)) f"
    and "\<And>i. i \<in> set all \<Longrightarrow> as_u8 i \<le> share_count params \<and>
      party_parameters (P i) = params \<and> party_index (P i) = i \<and> session_id (P i) = sid \<and>
      poly_point (P i) = f (index_scalar i) \<and> pk (P i) = pmul S (generator S) (f 0) \<and>
      party_zero_share (P i) = pairwise_seeds all half i"
    and "\<And>i. i \<in> set all \<Longrightarrow> chain_code (derivation_data (P i)) = code \<and>
      dd_poly_point (derivation_data (P i)) = poly_point (P i) \<and> dd_pk (derivation_data (P i)) = pk (P i) \<and>
      depth (derivation_data (P i)) = d"
    and "\<And>i j. i \<in> set all \<Longrightarrow> j \<in> set all - {i} \<Longrightarrow> \<exists>ms mr. bt_get (mul_senders (P i)) j = Some ms \<and>
      bt_get (mul_receivers (P j)) i = Some mr \<and> mul_linked ms mr"
  shows "key_material S f params sid code half all P"
  using assms unfolding key_material_def by simp

lemma key_materialD:
  assumes "key_material S f params sid code half all P"
  shows "params_ok params" "distinct all" "poly_lt (unat (threshold params)) f"
    and "i \<in> set all \<Longrightarrow> as_u8 i \<le> share_count params"
    and "i \<in> set all \<Longrightarrow> party_parameters (P i) = params" "i \<in> set all \<Longrightarrow> party_index (P i) = i"
    and "i \<in> set all \<Longrightarrow> session_id (P i) = sid" "i \<in> set all \<Longrightarrow> poly_point (P i) = f (index_scalar i)"
    and "i \<in> set all \<Longrightarrow> pk (P i) = pmul S (generator S) (f 0)"
    and "i \<in> set all \<Longrightarrow> party_zero_share (P i) = pairwise_seeds all half i"
    and "i \<in> set all \<Longrightarrow> chain_code (derivation_data (P i)) = code"
    and "i \<in> set all \<Longrightarrow> dd_poly_point (derivation_data (P i)) = poly_point (P i)"
    and "i \<in> set all \<Longrightarrow> dd_pk (derivation_data (P i)) = pk (P i)"
    and "i \<in> set all \<Longrightarrow> j \<in> set all \<Longrightarrow> depth (derivation_data (P j)) = depth (derivation_data (P i))"
    and "i \<in> set all \<Longrightarrow> j \<in> set all - {i} \<Longrightarrow> \<exists>ms mr. bt_get (mul_senders (P i)) j = Some ms \<and>
      bt_get (mul_receivers (P j)) i = Some mr \<and> mul_linked ms mr"
  using assms unfolding key_material_def by blast+

section \<open>Delivery\<close>

definition inbox ::
  "('m \<Rightarrow> parties_message) \<Rightarrow> (party_index \<Rightarrow> 'm list) \<Rightarrow> party_index list \<Rightarrow> party_index \<Rightarrow> 'm list" where
  "inbox route sent signers i = filter (\<lambda>m. receiver (route m) = i) (concat (map sent signers))"

lemma filter_messages:
  assumes "distinct qs" and "mset xs = mset (map msg qs)" and "\<And>k. receiver (route (msg k)) = k"
  shows "mset (filter (\<lambda>m. receiver (route m) = i) xs) = (if i \<in> set qs then {#msg i#} else {#})"
proof -
  have "mset (filter (\<lambda>m. receiver (route m) = i) xs) = mset (filter (\<lambda>m. receiver (route m) = i) (map msg qs))"
    using assms(2) by simp
  also have "filter (\<lambda>m. receiver (route m) = i) (map msg qs) = map msg (filter (\<lambda>k. k = i) qs)"
    by (simp add: filter_map comp_def assms(3))
  also have "mset (map msg (filter (\<lambda>k. k = i) qs)) = (if i \<in> set qs then {#msg i#} else {#})"
    using assms(1) by (induction qs) auto
  finally show ?thesis .
qed

text \<open>What reaches \<open>i\<close> is one message from every other signer.\<close>

lemma inbox_mset:
  assumes "\<And>j. j \<in> set signers \<Longrightarrow> mset (sent j) = mset (map (msg j) (others signers j))"
    and "distinct signers" and "\<And>j k. receiver (route (msg j k)) = k" and "i \<in> set signers"
  shows "mset (inbox route sent signers i) = mset (map (\<lambda>j. msg j i) (others signers i))"
proof -
  have one: "mset (filter (\<lambda>m. receiver (route m) = i) (sent j)) = (if j \<noteq> i then {#msg j i#} else {#})"
    if "j \<in> set signers" for j
    using filter_messages [of "others signers j" "sent j" "msg j" route i] assms(1,3) that
      distinct_others [OF assms(2)] assms(4) by simp
  have "mset (filter (\<lambda>m. receiver (route m) = i) (concat (map sent qs))) =
      mset (map (\<lambda>j. msg j i) (filter (\<lambda>j. j \<noteq> i) qs))" if "set qs \<subseteq> set signers" for qs
    using that
  proof (induction qs)
    case (Cons q qs)
    then show ?case using one [of q] by simp
  qed simp
  from this [of signers] show ?thesis by (simp add: inbox_def others_def)
qed

lemma reordered:
  assumes "mset xs = mset (map g qs)"
  shows "\<exists>ps. xs = map g ps \<and> mset ps = mset qs"
proof -
  have "\<exists>ps. xs = map g ps \<and> mset ps = M" if "mset xs = image_mset g M" for M
    using that
  proof (induction xs arbitrary: M)
    case (Cons x xs)
    then have "image_mset g M = add_mset x (mset xs)" by simp
    from msed_map_invR [OF this] obtain N a where "M = add_mset a N" "g a = x" "image_mset g N = mset xs" by blast
    moreover from this Cons.IH [of N] obtain ps where "xs = map g ps" "mset ps = N" by auto
    ultimately have "x # xs = map g (a # ps) \<and> mset (a # ps) = M" by simp
    then show ?case by (rule exI)
  qed simp
  with assms show ?thesis by simp
qed

text \<open>The inbox of \<open>i\<close> in any order, when every party sent one message to every other.\<close>

lemma inbox_order:
  assumes "distinct all" and "i \<in> set all" and "\<And>j k. receiver (route (msg j k)) = k"
    and "\<And>xs. mset (ord xs) = mset xs"
  shows "\<exists>ps. ord (inbox route (\<lambda>j. map (msg j) (others all j)) all i) = map (\<lambda>j. msg j i) ps \<and>
    distinct ps \<and> set ps = set (others all i)"
proof -
  have "mset (ord (inbox route (\<lambda>j. map (msg j) (others all j)) all i)) = mset (map (\<lambda>j. msg j i) (others all i))"
    unfolding assms(4) by (rule inbox_mset) (use assms(1-3) in simp_all)
  then obtain ps where "ord (inbox route (\<lambda>j. map (msg j) (others all j)) all i) = map (\<lambda>j. msg j i) ps"
    "mset ps = mset (others all i)" using reordered by blast
  moreover from this have "distinct ps" "set ps = set (others all i)"
    using distinct_others [OF assms(1)] by (metis mset_eq_imp_distinct_iff, metis set_mset_mset)
  ultimately show ?thesis by blast
qed

end
