(* ===== verification/Signing.thy ===== *)
theory Signing
  imports Ecdsa Shamir
begin

text \<open>
  \<open>protocols/signing.rs\<close>, the four phases of signing at one party.  The scalars, salts, choice
  bits, noise and pads the code draws from its generator are arguments.  A phase returns an
  abort on the left; phases 3 and 4 decode hexadecimal text with \<open>expect\<close>, so their result is
  an option whose \<open>None\<close> is that panic.  The lemmas show which errors ask for a ban, that the
  version and root checks come first, and what a returned signature satisfies.
\<close>

section \<open>Data\<close>

definition ID_LEN :: nat where "ID_LEN = 32"

record sign_data =
  sign_id :: bytes
  counterparties :: "party_index list"
  message_hash :: bytes

record transmit_phase1to2 =
  t1_parties :: parties_message
  t1_commitment :: bytes
  t1_protocol_version :: u16
  t1_root_digest :: bytes
  t1_mul_transmit :: ote_data_to_sender

record ('s, 'p) transmit_phase2to3 =
  t2_parties :: parties_message
  t2_gamma_u :: 'p
  t2_gamma_v :: 'p
  t2_psi :: 's
  t2_public_share :: 'p
  t2_instance_point :: 'p
  t2_salt :: bytes
  t2_mul_transmit :: "'s mul_data_to_receiver"

record 's broadcast3to4 =
  b_u :: 's
  b_w :: 's

record 's keep_phase1to2 =
  k1_salt :: bytes
  k1_chi :: 's
  k1_mul_keep :: "'s mul_data_to_keep_receiver"

record 's keep_phase2to3 =
  k2_c_u :: 's
  k2_c_v :: 's
  k2_commitment :: bytes
  k2_mul_keep :: "'s mul_data_to_keep_receiver"
  k2_chi :: 's

record ('s, 'p) unique_keep1to2 =
  u1_instance_key :: 's
  u1_instance_point :: 'p
  u1_inversion_mask :: 's
  u1_zeta :: 's

record ('s, 'p) unique_keep2to3 =
  u2_instance_key :: 's
  u2_instance_point :: 'p
  u2_inversion_mask :: 's
  u2_key_share :: 's
  u2_public_share :: 'p

text \<open>What one party draws during phases 1 and 2, the pads of the multiplications included.\<close>

record 's sign_coins =
  sc_instance_key :: 's
  sc_inversion_mask :: 's
  sc_salt :: "party_index \<Rightarrow> bytes"
  sc_choice_bits :: "party_index \<Rightarrow> bool list"
  sc_noise :: "party_index \<Rightarrow> bool list"
  sc_pads :: "party_index \<Rightarrow> 's list"
  sc_checks :: "party_index \<Rightarrow> 's list"

section \<open>Session ids\<close>

definition mul_sid :: "('s, 'p) party \<Rightarrow> sign_data \<Rightarrow> party_index \<Rightarrow> party_index \<Rightarrow> bytes" where
  "mul_sid p data i j =
     ascii ''Multiplication protocol'' @ [as_u8 i] @ [as_u8 j] @ session_id p @ sign_id data @
     chain_code (derivation_data p)"

definition zero_sid :: "('s, 'p) party \<Rightarrow> sign_data \<Rightarrow> bytes" where
  "zero_sid p data =
     ascii ''Zero shares protocol'' @ session_id p @ sign_id data @ chain_code (derivation_data p)"

definition own_root_digest :: "('s, 'p) suite \<Rightarrow> ('s, 'p) party \<Rightarrow> sign_data \<Rightarrow> bytes" where
  "own_root_digest S p data =
     root_agreement_digest S (session_id p) (sign_id data) (chain_code (derivation_data p))"

section \<open>Phase 1\<close>

definition check_counterparty ::
  "('s, 'p) party \<Rightarrow> party_index \<Rightarrow> party_index list \<Rightarrow> abort + party_index list" where
  "check_counterparty p counterparty seen =
     (if as_u8 counterparty > share_count (party_parameters p) then
        Inl (recoverable (party_index p) (InvalidPartyIndex counterparty))
      else if counterparty \<in> set seen then
        Inl (recoverable (party_index p) (DuplicateCounterparty counterparty))
      else if counterparty = party_index p then
        Inl (recoverable (party_index p) SelfInCounterparties)
      else if \<not> bt_contains (mul_senders p) counterparty \<or> \<not> bt_contains (mul_receivers p) counterparty then
        Inl (recoverable (party_index p) (MissingMulState counterparty))
      else Inr (counterparty # seen))"

definition sign_phase1_checks :: "('s, 'p) party \<Rightarrow> sign_data \<Rightarrow> abort + party_index list" where
  "sign_phase1_checks p data =
     (if length (session_id p) \<noteq> ID_LEN \<or> length (sign_id data) \<noteq> ID_LEN then
        Inl (recoverable (party_index p) MalformedSessionId)
      else if length (counterparties data) \<noteq> unat (threshold (party_parameters p) - 1) then
        Inl (recoverable (party_index p)
          (WrongCounterpartyCount (unat (threshold (party_parameters p) - 1)) (length (counterparties data))))
      else if as_u8 (party_index p) > share_count (party_parameters p) then
        Inl (recoverable (party_index p) (InvalidPartyIndex (party_index p)))
      else for_each (check_counterparty p) (counterparties data) [])"

definition sign_phase1_step ::
  "('s::field, 'p) suite \<Rightarrow> ('s, 'p) party \<Rightarrow> sign_data \<Rightarrow> 's sign_coins \<Rightarrow> 'p \<Rightarrow> party_index \<Rightarrow>
     (party_index, 's keep_phase1to2) btree \<times> transmit_phase1to2 list \<Rightarrow>
     abort + (party_index, 's keep_phase1to2) btree \<times> transmit_phase1to2 list" where
  "sign_phase1_step S p data coins instance_point counterparty acc =
     (case acc of (keep, transmit) \<Rightarrow>
      case commit_point S (sc_salt coins counterparty) instance_point of (commitment, salt) \<Rightarrow>
        let sid = mul_sid p data (party_index p) counterparty in
        rbind (ok_or (recoverable (party_index p) (MissingMulState counterparty))
                 (bt_get (mul_receivers p) counterparty)) (\<lambda>mul_receiver.
        rbind (map_err (\<lambda>e. recoverable (party_index p)
                   (MultiplicationVerificationFailed counterparty (mul_description e)))
                 (mul_receiver_phase1 S mul_receiver (sc_choice_bits coins counterparty)
                   (sc_noise coins counterparty) sid)) (\<lambda>(chi, mul_keep, mul_transmit).
          Inr (bt_insert counterparty \<lparr>k1_salt = salt, k1_chi = chi, k1_mul_keep = mul_keep\<rparr> keep,
               transmit @ [\<lparr>t1_parties = \<lparr>sender = party_index p, receiver = counterparty\<rparr>,
                  t1_commitment = commitment, t1_protocol_version = PROTOCOL_VERSION,
                  t1_root_digest = own_root_digest S p data, t1_mul_transmit = mul_transmit\<rparr>]))))"

definition sign_phase1 ::
  "('s::field, 'p) suite \<Rightarrow> ('s, 'p) party \<Rightarrow> sign_data \<Rightarrow> 's sign_coins \<Rightarrow>
     abort + ('s, 'p) unique_keep1to2 \<times> (party_index, 's keep_phase1to2) btree \<times>
       transmit_phase1to2 list" where
  "sign_phase1 S p data coins =
     rbind (sign_phase1_checks p data) (\<lambda>_.
       let instance_key = sc_instance_key coins;
           inversion_mask = sc_inversion_mask coins;
           instance_point = pmul S (generator S) instance_key
       in rbind (for_each (sign_phase1_step S p data coins instance_point) (counterparties data) ([], []))
            (\<lambda>(keep, transmit).
              let zeta = zero_share_compute S (party_zero_share p) (counterparties data) (zero_sid p data)
              in Inr (\<lparr>u1_instance_key = instance_key, u1_instance_point = instance_point,
                       u1_inversion_mask = inversion_mask, u1_zeta = zeta\<rparr>, keep, transmit)))"

section \<open>Phase 2\<close>

definition l_step :: "('s::field, 'p) suite \<Rightarrow> party_index \<Rightarrow> 's \<times> 's \<Rightarrow> party_index \<Rightarrow> 's \<times> 's" where
  "l_step S me acc counterparty =
     (case acc of (l_numerator, l_denominator) \<Rightarrow>
        (l_numerator * scalar_from S (ucast (as_u8 counterparty)),
         l_denominator * (scalar_from S (ucast (as_u8 counterparty)) - scalar_from S (ucast (as_u8 me)))))"

definition lagrange_coefficient ::
  "('s::field, 'p) suite \<Rightarrow> party_index \<Rightarrow> party_index list \<Rightarrow> 's option" where
  "lagrange_coefficient S me cps =
     (case foldl (l_step S me) (1, 1) cps of (l_numerator, l_denominator) \<Rightarrow>
        map_option (\<lambda>inv. l_numerator * inv) (invert l_denominator))"

text \<open>The routing loop in front of phase 2.\<close>

definition check_route ::
  "('s, 'p) party \<Rightarrow> sign_data \<Rightarrow> transmit_phase1to2 \<Rightarrow> party_index list \<Rightarrow> abort + party_index list" where
  "check_route p data message seen_senders =
     (let counterparty = sender (t1_parties message) in
      if counterparty \<notin> set (counterparties data) then
        Inl (recoverable (party_index p) (UnexpectedSender counterparty))
      else if receiver (t1_parties message) \<noteq> party_index p then
        Inl (recoverable (party_index p)
          (MisroutedMessage (party_index p) (receiver (t1_parties message))))
      else if counterparty \<in> set seen_senders then
        Inl (recoverable (party_index p) (DuplicateSender counterparty))
      else Inr (counterparty # seen_senders))"

definition check_version :: "('s, 'p) party \<Rightarrow> transmit_phase1to2 \<Rightarrow> abort option" where
  "check_version p message =
     (if t1_protocol_version message \<noteq> PROTOCOL_VERSION then
        Some (recoverable (party_index p)
          (ProtocolVersionMismatch (sender (t1_parties message)) PROTOCOL_VERSION
             (t1_protocol_version message)))
      else None)"

definition check_root :: "('s, 'p) suite \<Rightarrow> ('s, 'p) party \<Rightarrow> sign_data \<Rightarrow> transmit_phase1to2 \<Rightarrow> abort option" where
  "check_root S p data message =
     (if t1_root_digest message \<noteq> own_root_digest S p data then
        Some (recoverable (party_index p) (RootAgreementMismatch (sender (t1_parties message))))
      else None)"

text \<open>How both phases classify an error of the multiplication.\<close>

definition mul_abort :: "party_index \<Rightarrow> party_index \<Rightarrow> error_mul \<Rightarrow> abort" where
  "mul_abort me counterparty e =
     (case mul_kind e of
        MulConsistencyFailure \<Rightarrow>
          ban me counterparty (MultiplicationVerificationFailed counterparty (mul_description e))
      | MulMalformedMessage \<Rightarrow>
          recoverable me (MultiplicationVerificationFailed counterparty (mul_description e)))"

definition sign_phase2_step ::
  "('s::field, 'p) suite \<Rightarrow> ('s, 'p) party \<Rightarrow> sign_data \<Rightarrow> 's sign_coins \<Rightarrow> ('s, 'p) unique_keep1to2 \<Rightarrow>
     (party_index, 's keep_phase1to2) btree \<Rightarrow> 's \<Rightarrow> 'p \<Rightarrow> transmit_phase1to2 \<Rightarrow>
     (party_index, 's keep_phase2to3) btree \<times> ('s, 'p) transmit_phase2to3 list \<Rightarrow>
     abort + (party_index, 's keep_phase2to3) btree \<times> ('s, 'p) transmit_phase2to3 list" where
  "sign_phase2_step S p data coins unique_kept kept key_share public_share message acc =
     (case acc of (keep, transmit) \<Rightarrow>
      let counterparty = sender (t1_parties message) in
      rbind (ok_or (recoverable (party_index p) (MissingMulState counterparty))
               (bt_get kept counterparty)) (\<lambda>current_kept.
      let sid = mul_sid p data counterparty (party_index p) in
      rbind (ok_or (recoverable (party_index p) (MissingMulState counterparty))
               (bt_get (mul_senders p) counterparty)) (\<lambda>mul_sender.
      rbind (map_err (mul_abort (party_index p) counterparty)
               (mul_sender_run S mul_sender (sc_pads coins counterparty) (sc_checks coins counterparty) sid
                  [u1_instance_key unique_kept, key_share] (t1_mul_transmit message)))
        (\<lambda>(c_values, data_to_receiver).
          let c_u = c_values ! 0; c_v = c_values ! 1;
              gamma_u = pmul S (generator S) c_u;
              gamma_v = pmul S (generator S) c_v;
              psi = u1_inversion_mask unique_kept - k1_chi current_kept
          in Inr (bt_insert counterparty
                 \<lparr>k2_c_u = c_u, k2_c_v = c_v, k2_commitment = t1_commitment message,
                  k2_mul_keep = k1_mul_keep current_kept, k2_chi = k1_chi current_kept\<rparr> keep,
               transmit @ [\<lparr>t2_parties = \<lparr>sender = party_index p, receiver = counterparty\<rparr>,
                  t2_gamma_u = gamma_u, t2_gamma_v = gamma_v, t2_psi = psi,
                  t2_public_share = public_share,
                  t2_instance_point = u1_instance_point unique_kept,
                  t2_salt = k1_salt current_kept, t2_mul_transmit = data_to_receiver\<rparr>])))))"

definition sign_phase2_checks ::
  "('s, 'p) suite \<Rightarrow> ('s, 'p) party \<Rightarrow> sign_data \<Rightarrow> transmit_phase1to2 list \<Rightarrow> abort + unit" where
  "sign_phase2_checks S p data received =
     (if length received \<noteq> length (counterparties data) then
        Inl (recoverable (party_index p)
          (WrongMessageCount (length (counterparties data)) (length received)))
      else rbind (for_each (check_route p data) received []) (\<lambda>_.
           rbind (check_each (check_version p) received) (\<lambda>_.
             check_each (check_root S p data) received)))"

definition sign_phase2 ::
  "('s::field, 'p) suite \<Rightarrow> ('s, 'p) party \<Rightarrow> sign_data \<Rightarrow> 's sign_coins \<Rightarrow> ('s, 'p) unique_keep1to2 \<Rightarrow>
     (party_index, 's keep_phase1to2) btree \<Rightarrow> transmit_phase1to2 list \<Rightarrow>
     abort + ('s, 'p) unique_keep2to3 \<times> (party_index, 's keep_phase2to3) btree \<times>
       ('s, 'p) transmit_phase2to3 list" where
  "sign_phase2 S p data coins unique_kept kept received =
     rbind (ok_or (recoverable (party_index p) LagrangeCoefficientFailed)
              (lagrange_coefficient S (party_index p) (counterparties data))) (\<lambda>l.
       let key_share = poly_point p * l + u1_zeta unique_kept;
           public_share = pmul S (generator S) key_share
       in rbind (sign_phase2_checks S p data received) (\<lambda>_.
          rbind (for_each (sign_phase2_step S p data coins unique_kept kept key_share public_share)
                   received ([], [])) (\<lambda>(keep, transmit).
            Inr (\<lparr>u2_instance_key = u1_instance_key unique_kept,
                  u2_instance_point = u1_instance_point unique_kept,
                  u2_inversion_mask = u1_inversion_mask unique_kept,
                  u2_key_share = key_share, u2_public_share = public_share\<rparr>, keep, transmit))))"

section \<open>Phase 3\<close>

text \<open>The running sums of the loop: the expected public key, the total instance point,
  \<open>first_sum_u_v\<close>, \<open>second_sum_u\<close>, \<open>second_sum_v\<close>, and the senders seen.\<close>

record ('s, 'p) phase3_sums =
  expected_public_key :: 'p
  total_instance_point :: 'p
  first_sum_u_v :: 's
  second_sum_u :: 's
  second_sum_v :: 's
  p3_seen :: "party_index list"

definition check_message3 ::
  "('s, 'p::ab_group_add) party \<Rightarrow> sign_data \<Rightarrow> party_index list \<Rightarrow> ('s, 'p) transmit_phase2to3 \<Rightarrow> abort + unit" where
  "check_message3 p data seen_senders message =
     (let counterparty = sender (t2_parties message) in
      if counterparty \<notin> set (counterparties data) then
        Inl (recoverable (party_index p) (UnexpectedSender counterparty))
      else if receiver (t2_parties message) \<noteq> party_index p then
        Inl (recoverable (party_index p)
          (MisroutedMessage (party_index p) (receiver (t2_parties message))))
      else if t2_instance_point message = 0 then
        Inl (recoverable (party_index p) (TrivialInstancePoint counterparty))
      else if counterparty \<in> set seen_senders then
        Inl (recoverable (party_index p) (DuplicateSender counterparty))
      else Inr ())"

text \<open>The first consistency checks, on the instance point and on the public share.\<close>

definition check_gammas ::
  "('s::field, 'p::ab_group_add) suite \<Rightarrow> ('s, 'p) party \<Rightarrow> ('s, 'p) transmit_phase2to3 \<Rightarrow> 's \<Rightarrow> 's \<Rightarrow> 's \<Rightarrow>
     abort + unit" where
  "check_gammas S p message chi d_u d_v =
     (let counterparty = sender (t2_parties message) in
      if pmul S (t2_instance_point message) chi \<noteq> pmul S (generator S) d_u + t2_gamma_u message then
        Inl (ban (party_index p) counterparty (GammaUInconsistency counterparty))
      else if pmul S (t2_public_share message) chi \<noteq> pmul S (generator S) d_v + t2_gamma_v message then
        Inl (ban (party_index p) counterparty (OtConsistencyCheckFailed counterparty))
      else Inr ())"

definition sign_phase3_step ::
  "('s::field, 'p::ab_group_add) suite \<Rightarrow> ('s, 'p) party \<Rightarrow> sign_data \<Rightarrow>
     (party_index, 's keep_phase2to3) btree \<Rightarrow> ('s, 'p) transmit_phase2to3 \<Rightarrow>
     ('s, 'p) phase3_sums \<Rightarrow> abort + ('s, 'p) phase3_sums" where
  "sign_phase3_step S p data kept message acc =
     (let counterparty = sender (t2_parties message) in
      rbind (check_message3 p data (p3_seen acc) message) (\<lambda>_.
      rbind (ok_or (recoverable (party_index p) (MissingMulState counterparty))
               (bt_get kept counterparty)) (\<lambda>current_kept.
      if \<not> verify_commitment_point S (t2_instance_point message) (k2_commitment current_kept) (t2_salt message)
      then Inl (recoverable (party_index p) (CommitmentMismatch counterparty))
      else
        let sid = mul_sid p data (party_index p) counterparty in
        rbind (ok_or (recoverable (party_index p) (MissingMulState counterparty))
                 (bt_get (mul_receivers p) counterparty)) (\<lambda>mul_receiver.
        rbind (map_err (mul_abort (party_index p) counterparty)
                 (mul_receiver_phase2 S mul_receiver sid (k2_mul_keep current_kept)
                   (t2_mul_transmit message))) (\<lambda>d_values.
        let d_u = d_values ! 0; d_v = d_values ! 1 in
        rbind (check_gammas S p message (k2_chi current_kept) d_u d_v) (\<lambda>_.
          Inr \<lparr>expected_public_key = expected_public_key acc + t2_public_share message,
               total_instance_point = total_instance_point acc + t2_instance_point message,
               first_sum_u_v = first_sum_u_v acc + t2_psi message,
               second_sum_u = second_sum_u acc + k2_c_u current_kept + d_u,
               second_sum_v = second_sum_v acc + k2_c_v current_kept + d_v,
               p3_seen = counterparty # p3_seen acc\<rparr>))))))"

definition phase3_start :: "('s::field, 'p) unique_keep2to3 \<Rightarrow> ('s, 'p) phase3_sums" where
  "phase3_start unique_kept =
     \<lparr>expected_public_key = u2_public_share unique_kept,
      total_instance_point = u2_instance_point unique_kept,
      first_sum_u_v = u2_inversion_mask unique_kept,
      second_sum_u = 0, second_sum_v = 0, p3_seen = []\<rparr>"

text \<open>Everything up to the last fallible check.\<close>

definition sign_phase3_sums ::
  "('s::field, 'p::ab_group_add) suite \<Rightarrow> ('s, 'p) party \<Rightarrow> sign_data \<Rightarrow> ('s, 'p) unique_keep2to3 \<Rightarrow>
     (party_index, 's keep_phase2to3) btree \<Rightarrow> ('s, 'p) transmit_phase2to3 list \<Rightarrow>
     abort + ('s, 'p) phase3_sums" where
  "sign_phase3_sums S p data unique_kept kept received =
     (if length received \<noteq> length (counterparties data) then
        Inl (recoverable (party_index p)
          (WrongMessageCount (length (counterparties data)) (length received)))
      else rbind (for_each (sign_phase3_step S p data kept) received (phase3_start unique_kept)) (\<lambda>acc.
        if expected_public_key acc \<noteq> pk p then Inl (recoverable (party_index p) PolynomialInconsistency)
        else if total_instance_point acc = 0 then
          Inl (recoverable (party_index p) PolynomialInconsistency)
        else Inr acc))"

definition sign_phase3 ::
  "('s::field, 'p::ab_group_add) suite \<Rightarrow> ('s, 'p) party \<Rightarrow> sign_data \<Rightarrow> ('s, 'p) unique_keep2to3 \<Rightarrow>
     (party_index, 's keep_phase2to3) btree \<Rightarrow> ('s, 'p) transmit_phase2to3 list \<Rightarrow>
     (abort + string \<times> 's broadcast3to4) option" where
  "sign_phase3 S p data unique_kept kept received =
     (case sign_phase3_sums S p data unique_kept kept received of
        Inl e \<Rightarrow> Some (Inl e)
      | Inr acc \<Rightarrow>
          let u = u2_instance_key unique_kept * first_sum_u_v acc + second_sum_u acc;
              v = u2_key_share unique_kept * first_sum_u_v acc + second_sum_v acc;
              x_coord = hex_encode S (x_bytes S (total_instance_point acc));
              msg_scalar = reduce_hash_bytes S (message_hash data)
          in map_option (\<lambda>rx_scalar.
               let w = msg_scalar * u2_inversion_mask unique_kept + v * rx_scalar
               in Inr (x_coord, \<lparr>b_u = u, b_w = w\<rparr>)) (reduce_hex_bytes S x_coord))"

section \<open>Phase 4\<close>

definition recovery_id ::
  "('s::field, 'p::ab_group_add) suite \<Rightarrow> ('s, 'p) party \<Rightarrow> sign_data \<Rightarrow> bytes \<Rightarrow> 's \<Rightarrow> 's \<Rightarrow> u8" where
  "recovery_id S p data x_bytes_original rx_scalar s =
     (let msg_scalar = reduce_hash_bytes S (message_hash data);
          first = pmul S (generator S) msg_scalar;
          second = pmul S (pk p) rx_scalar;
          signature_point = pmul S (first + second) (inverse s);
          is_y_odd = (point_enc S signature_point ! 0 = 3);
          is_x_reduced = (x_bytes_original \<noteq> to_repr S rx_scalar)
      in of_bool is_y_odd OR push_bit 1 (of_bool is_x_reduced))"

definition sign_phase4 ::
  "('s::field, 'p::ab_group_add) suite \<Rightarrow> ('s, 'p) party \<Rightarrow> sign_data \<Rightarrow> string \<Rightarrow> 's broadcast3to4 list \<Rightarrow>
     bool \<Rightarrow> (abort + string \<times> u8) option" where
  "sign_phase4 S p data x_coord received low_s =
     (let (numerator, denominator) =
            foldl (\<lambda>(num, den) message. (num + b_w message, den + b_u message)) (0, 0) received
      in case invert denominator of
           None \<Rightarrow> Some (Inl (recoverable (party_index p) ZeroDenominator))
         | Some denominator_inverse \<Rightarrow>
             (case hex_decode_to_slice S field_bytes_len x_coord of
                None \<Rightarrow> Some (Inl (recoverable (party_index p) InvalidXCoordinateHex))
              | Some _ \<Rightarrow>
                  let s0 = numerator * denominator_inverse;
                      s = (if low_s \<and> is_high S s0 then - s0 else s0);
                      signature = hex_encode S (to_repr S s)
                  in if \<not> verify_ecdsa_signature S (message_hash data) (pk p) x_coord signature then
                       Some (Inl (recoverable (party_index p) SignatureVerificationFailed))
                     else
                       (case (reduce_hex_bytes S x_coord, invert s,
                              hex_decode_to_slice S field_bytes_len x_coord) of
                          (Some rx_scalar, Some _, Some x_bytes_original) \<Rightarrow>
                            Some (Inr (signature, recovery_id S p data x_bytes_original rx_scalar s))
                        | _ \<Rightarrow> None)))"

section \<open>What phase 1 checks\<close>

lemma check_counterparties_Inr:
  assumes "for_each (check_counterparty p) cps seen = Inr seen'"
  shows "distinct cps \<and> set cps \<inter> set seen = {} \<and> (\<forall>c \<in> set cps. c \<noteq> party_index p \<and>
    as_u8 c \<le> share_count (party_parameters p) \<and>
    bt_get (mul_senders p) c \<noteq> None \<and> bt_get (mul_receivers p) c \<noteq> None)"
  using assms
proof (induction cps arbitrary: seen)
  case (Cons c cps)
  then obtain s where s: "check_counterparty p c seen = Inr s" "for_each (check_counterparty p) cps s = Inr seen'"
    by (auto simp: res_simps)
  from s(1) have c: "s = c # seen" "c \<notin> set seen" "c \<noteq> party_index p"
    "as_u8 c \<le> share_count (party_parameters p)"
    "bt_get (mul_senders p) c \<noteq> None" "bt_get (mul_receivers p) c \<noteq> None"
    by (auto simp: check_counterparty_def bt_contains_def split: if_splits)
  with Cons.IH [OF s(2)] show ?case by auto
qed simp

lemma check_counterparties_total:
  assumes "distinct cps" and "set cps \<inter> set seen = {}"
    and "\<forall>c \<in> set cps. c \<noteq> party_index p \<and> as_u8 c \<le> share_count (party_parameters p) \<and>
      bt_get (mul_senders p) c \<noteq> None \<and> bt_get (mul_receivers p) c \<noteq> None"
  shows "for_each (check_counterparty p) cps seen = Inr (rev cps @ seen)"
  using assms
proof (induction cps arbitrary: seen)
  case (Cons c cps)
  then have "check_counterparty p c seen = Inr (c # seen)"
    by (simp add: check_counterparty_def bt_contains_def not_less)
  with Cons show ?case by simp
qed simp

lemma sign_phase1_step_error:
  "sign_phase1_step S p data coins P c acc = Inl e \<Longrightarrow>
    abort_kind e = Recoverable \<and> abort_index e = party_index p"
  by (auto simp: sign_phase1_step_def Let_def rbind_Inl_iff map_err_Inl_iff res_simps split: prod.splits)

lemma sign_phase1_error:
  assumes "sign_phase1 S p data coins = Inl e"
  shows "abort_kind e = Recoverable \<and> abort_index e = party_index p"
proof (cases "sign_phase1_checks p data")
  case (Inl x)
  then have "x = e" using assms by (simp add: sign_phase1_def)
  with Inl show ?thesis
    by (auto simp: sign_phase1_checks_def check_counterparty_def split: if_splits dest!: for_each_error)
next
  case (Inr x)
  with assms have "for_each (sign_phase1_step S p data coins (pmul S (generator S) (sc_instance_key coins)))
      (counterparties data) ([], []) = Inl e"
    by (simp add: sign_phase1_def Let_def rbind_Inl_iff split: prod.splits)
  from for_each_error [OF this] show ?thesis by (auto dest: sign_phase1_step_error)
qed

section \<open>What phase 2 checks before the multiplication\<close>

lemma check_routes_Inr:
  assumes "for_each (check_route p data) ms seen = Inr seen'"
  shows "distinct (map (sender \<circ> t1_parties) ms) \<and> (sender \<circ> t1_parties) ` set ms \<inter> set seen = {} \<and>
    (\<forall>m \<in> set ms. sender (t1_parties m) \<in> set (counterparties data) \<and> receiver (t1_parties m) = party_index p)"
  using assms
proof (induction ms arbitrary: seen)
  case (Cons m ms)
  then obtain s where s: "check_route p data m seen = Inr s" "for_each (check_route p data) ms s = Inr seen'"
    by (auto simp: res_simps)
  from s(1) have m: "s = sender (t1_parties m) # seen" "sender (t1_parties m) \<notin> set seen"
    "sender (t1_parties m) \<in> set (counterparties data)" "receiver (t1_parties m) = party_index p"
    by (auto simp: check_route_def Let_def split: if_splits)
  with Cons.IH [OF s(2)] show ?case by auto
qed simp

lemma check_routes_total:
  assumes "distinct (map (sender \<circ> t1_parties) ms)" and "(sender \<circ> t1_parties) ` set ms \<inter> set seen = {}"
    and "\<forall>m \<in> set ms. sender (t1_parties m) \<in> set (counterparties data) \<and> receiver (t1_parties m) = party_index p"
  shows "\<exists>seen'. for_each (check_route p data) ms seen = Inr seen'"
  using assms
proof (induction ms arbitrary: seen)
  case (Cons m ms)
  then have "check_route p data m seen = Inr (sender (t1_parties m) # seen)"
    by (simp add: check_route_def Let_def)
  moreover have "(sender \<circ> t1_parties) ` set ms \<inter> set (sender (t1_parties m) # seen) = {}"
    using Cons.prems(1,2) by auto
  ultimately show ?case using Cons by auto
qed simp

definition phase2_ready :: "('s, 'p) suite \<Rightarrow> ('s, 'p) party \<Rightarrow> sign_data \<Rightarrow> transmit_phase1to2 list \<Rightarrow> bool" where
  "phase2_ready S p data received \<longleftrightarrow>
     length received = length (counterparties data) \<and>
     distinct (map (sender \<circ> t1_parties) received) \<and>
     (\<forall>m \<in> set received. sender (t1_parties m) \<in> set (counterparties data) \<and>
        receiver (t1_parties m) = party_index p \<and> t1_protocol_version m = PROTOCOL_VERSION \<and>
        t1_root_digest m = own_root_digest S p data)"

lemma sign_phase2_checks_Inr:
  "sign_phase2_checks S p data received = Inr u \<longleftrightarrow> phase2_ready S p data received"
proof
  show "sign_phase2_checks S p data received = Inr u \<Longrightarrow> phase2_ready S p data received"
    by (auto simp: sign_phase2_checks_def phase2_ready_def res_simps check_version_def check_root_def
        split: if_splits dest!: check_routes_Inr)
  assume r: "phase2_ready S p data received"
  then obtain seen where "for_each (check_route p data) received [] = Inr seen"
    using check_routes_total [of received "[]" data p] by (auto simp: phase2_ready_def)
  with r show "sign_phase2_checks S p data received = Inr u"
    by (auto simp: sign_phase2_checks_def phase2_ready_def res_simps check_version_def check_root_def)
qed

lemma sign_phase2_checks_error:
  assumes "sign_phase2_checks S p data received = Inl e"
  shows "abort_kind e = Recoverable \<and> abort_index e = party_index p"
  using assms
  by (auto simp: sign_phase2_checks_def rbind_Inl_iff check_route_def check_version_def check_root_def Let_def
      split: if_splits dest!: for_each_error check_each_Inl)

lemma mul_abort_kind:
  "abort_kind (mul_abort me c e) = BanCounterparty d \<longleftrightarrow> mul_kind e = MulConsistencyFailure \<and> d = c"
  "abort_index (mul_abort me c e) = me"
  by (auto simp: mul_abort_def split: mul_error_kind.splits)

section \<open>Bans in phase 2\<close>

lemma sign_phase2_step_ban:
  assumes "sign_phase2_step S p data coins uk kept ks P m acc = Inl e" and "abort_kind e = BanCounterparty c"
  shows "c = sender (t1_parties m) \<and> abort_index e = party_index p \<and>
    (\<exists>ms err. bt_get (mul_senders p) c = Some ms \<and>
      mul_sender_run S ms (sc_pads coins c) (sc_checks coins c) (mul_sid p data c (party_index p))
        [u1_instance_key uk, ks] (t1_mul_transmit m) = Inl err \<and> mul_kind err = MulConsistencyFailure)"
  using assms
  by (auto simp: sign_phase2_step_def Let_def rbind_Inl_iff map_err_Inl_iff ok_or_Inl_iff res_simps mul_abort_kind
      split: prod.splits)

lemma sign_phase2_error:
  assumes "sign_phase2 S p data coins uk kept received = Inl e"
  shows "abort_kind e = Recoverable \<or> (phase2_ready S p data received \<and>
    (\<exists>m \<in> set received. \<exists>acc l. sign_phase2_step S p data coins uk kept (poly_point p * l + u1_zeta uk)
      (pmul S (generator S) (poly_point p * l + u1_zeta uk)) m acc = Inl e \<and>
      lagrange_coefficient S (party_index p) (counterparties data) = Some l))"
proof (cases "lagrange_coefficient S (party_index p) (counterparties data)")
  case None
  with assms show ?thesis by (auto simp: sign_phase2_def)
next
  case (Some l)
  show ?thesis
  proof (cases "sign_phase2_checks S p data received")
    case (Inl x)
    with assms Some have "x = e" by (simp add: sign_phase2_def Let_def)
    with sign_phase2_checks_error [OF Inl] show ?thesis by simp
  next
    case (Inr u)
    then have ready: "phase2_ready S p data received" by (simp add: sign_phase2_checks_Inr)
    from assms Some Inr have "for_each (sign_phase2_step S p data coins uk kept
        (poly_point p * l + u1_zeta uk) (pmul S (generator S) (poly_point p * l + u1_zeta uk)))
        received ([], []) = Inl e"
      by (simp add: sign_phase2_def Let_def rbind_Inl_iff split: prod.splits)
    from for_each_error [OF this] ready Some show ?thesis by blast
  qed
qed

text \<open>C17: phase 2 asks for a ban only on evidence.  If it bans a counterparty, every received message
  was routed correctly, carries this library's protocol version and our root digest, there is one
  per counterparty, and the banned party's multiplication message failed the consistency check of
  the multiplication; every earlier failure is recoverable.\<close>

theorem sign_phase2_ban_evidence:
  assumes "sign_phase2 S p data coins uk kept received = Inl e" and "abort_kind e = BanCounterparty c"
  shows "phase2_ready S p data received \<and> c \<in> set (counterparties data) \<and> abort_index e = party_index p \<and>
    (\<exists>m \<in> set received. sender (t1_parties m) = c \<and>
      (\<exists>ms err input. bt_get (mul_senders p) c = Some ms \<and>
        mul_sender_run S ms (sc_pads coins c) (sc_checks coins c) (mul_sid p data c (party_index p))
          input (t1_mul_transmit m) = Inl err \<and> mul_kind err = MulConsistencyFailure))"
proof -
  from sign_phase2_error [OF assms(1)] assms(2) obtain m acc ks where
    m: "phase2_ready S p data received" "m \<in> set received"
      "sign_phase2_step S p data coins uk kept ks (pmul S (generator S) ks) m acc = Inl e"
    by auto
  from sign_phase2_step_ban [OF m(3) assms(2)] m show ?thesis
    by (auto simp: phase2_ready_def)
qed

text \<open>C19: disagreement on the root never bans.  If phase 2 bans, or returns, although one received
  message carries the digest of another party's root (its session id, sign id and chain code), then
  the two roots are equal or their encodings are a SHA-256 collision.\<close>

theorem sign_root_agreement:
  assumes "sign_phase2 S p data coins uk kept received = r" and "\<And>e. r = Inl e \<Longrightarrow> abort_kind e \<noteq> Recoverable"
    and "m \<in> set received" and "t1_root_digest m = own_root_digest S q data'"
    and "length (session_id p) < 2 ^ 64" and "length (sign_id data) < 2 ^ 64"
    and "length (chain_code (derivation_data p)) < 2 ^ 64"
    and "length (session_id q) < 2 ^ 64" and "length (sign_id data') < 2 ^ 64"
    and "length (chain_code (derivation_data q)) < 2 ^ 64"
  shows "(session_id p = session_id q \<and> sign_id data = sign_id data' \<and>
      chain_code (derivation_data p) = chain_code (derivation_data q)) \<or>
    collision S
      (encode_tagged TAG_ROOT_AGREEMENT [session_id p, sign_id data, chain_code (derivation_data p)])
      (encode_tagged TAG_ROOT_AGREEMENT [session_id q, sign_id data', chain_code (derivation_data q)])"
proof -
  have "phase2_ready S p data received"
  proof (cases r)
    case (Inl e)
    with sign_phase2_error assms(1,2) show ?thesis by blast
  next
    case (Inr x)
    with assms(1) show ?thesis
      by (auto simp: sign_phase2_def Let_def res_simps sign_phase2_checks_Inr split: prod.splits)
  qed
  then have "own_root_digest S p data = own_root_digest S q data'"
    using assms(3,4) by (auto simp: phase2_ready_def)
  then show ?thesis
    using tagged_hash_eq [of TAG_ROOT_AGREEMENT "[session_id p, sign_id data, chain_code (derivation_data p)]"
        TAG_ROOT_AGREEMENT "[session_id q, sign_id data', chain_code (derivation_data q)]" S] assms(5-)
      tag_length [of TAG_ROOT_AGREEMENT]
    by (simp add: own_root_digest_def root_agreement_digest_def ALL_TAGS_def)
qed

section \<open>Bans in phase 3\<close>

text \<open>The evidence phase 3 has against a counterparty: a correctly routed message whose opening
  verified, and then either the multiplication's hash check or one of the two group equations
  failed.\<close>

definition phase3_evidence ::
  "('s::field, 'p::ab_group_add) suite \<Rightarrow> ('s, 'p) party \<Rightarrow> sign_data \<Rightarrow>
     (party_index, 's keep_phase2to3) btree \<Rightarrow> ('s, 'p) transmit_phase2to3 \<Rightarrow> bool" where
  "phase3_evidence S p data kept m \<longleftrightarrow>
     (let c = sender (t2_parties m) in
      c \<in> set (counterparties data) \<and> receiver (t2_parties m) = party_index p \<and>
      t2_instance_point m \<noteq> 0 \<and>
      (case (bt_get kept c, bt_get (mul_receivers p) c) of
         (Some k, Some mr) \<Rightarrow>
           verify_commitment_point S (t2_instance_point m) (k2_commitment k) (t2_salt m) \<and>
           (case mul_receiver_phase2 S mr (mul_sid p data (party_index p) c) (k2_mul_keep k) (t2_mul_transmit m) of
              Inl err \<Rightarrow> mul_kind err = MulConsistencyFailure
            | Inr d \<Rightarrow>
                pmul S (t2_instance_point m) (k2_chi k) \<noteq> pmul S (generator S) (d ! 0) + t2_gamma_u m \<or>
                pmul S (t2_public_share m) (k2_chi k) \<noteq> pmul S (generator S) (d ! 1) + t2_gamma_v m)
       | _ \<Rightarrow> False))"

lemma check_message3_kind: "check_message3 p data seen m = Inl e \<Longrightarrow> abort_kind e = Recoverable"
  by (auto simp: check_message3_def Let_def split: if_splits)

lemma check_message3_Inr:
  "check_message3 p data seen m = Inr u \<longleftrightarrow> sender (t2_parties m) \<in> set (counterparties data) \<and>
    receiver (t2_parties m) = party_index p \<and> t2_instance_point m \<noteq> 0 \<and> sender (t2_parties m) \<notin> set seen"
  by (auto simp: check_message3_def Let_def)

lemma sign_phase3_step_ban:
  assumes "sign_phase3_step S p data kept m acc = Inl e" and "abort_kind e = BanCounterparty c"
  shows "c = sender (t2_parties m) \<and> phase3_evidence S p data kept m"
proof -
  from assms have "check_message3 p data (p3_seen acc) m = Inr ()"
    by (cases "check_message3 p data (p3_seen acc) m")
      (auto simp: sign_phase3_step_def Let_def dest: check_message3_kind)
  then have chk: "sender (t2_parties m) \<in> set (counterparties data)" "receiver (t2_parties m) = party_index p"
    "t2_instance_point m \<noteq> 0"
    by (auto simp: check_message3_Inr)
  note ready = \<open>check_message3 p data (p3_seen acc) m = Inr ()\<close>
  show ?thesis
  proof (cases "bt_get kept (sender (t2_parties m))")
    case None
    with assms ready show ?thesis by (auto simp: sign_phase3_step_def Let_def)
  next
    case (Some k)
    show ?thesis
    proof (cases "verify_commitment_point S (t2_instance_point m) (k2_commitment k) (t2_salt m)")
      case False
      with assms ready Some show ?thesis by (auto simp: sign_phase3_step_def Let_def)
    next
      case True
      with assms ready Some chk show ?thesis
        by (auto simp: sign_phase3_step_def phase3_evidence_def Let_def rbind_Inl_iff map_err_Inl_iff
            ok_or_Inl_iff res_simps mul_abort_kind check_gammas_def split: if_splits option.splits)
    qed
  qed
qed

lemma sign_phase3_ban:
  assumes "sign_phase3_sums S p data uk kept received = Inl e" and "abort_kind e = BanCounterparty c"
  shows "\<exists>m \<in> set received. sender (t2_parties m) = c \<and> phase3_evidence S p data kept m"
proof -
  from assms obtain acc where "for_each (sign_phase3_step S p data kept) received acc = Inl e"
    by (auto simp: sign_phase3_sums_def rbind_Inl_iff split: if_splits)
  from for_each_error [OF this] obtain m acc' where "m \<in> set received"
    "sign_phase3_step S p data kept m acc' = Inl e" by blast
  with sign_phase3_step_ban [OF _ assms(2)] show ?thesis by blast
qed

text \<open>C18: phase 3 asks for a ban only on evidence: the banned counterparty sent a correctly routed
  message whose instance point opened its commitment, and the multiplication check or one of the
  two group equations failed for it.\<close>

theorem sign_phase3_ban_evidence:
  assumes "sign_phase3 S p data uk kept received = Some (Inl e)" and "abort_kind e = BanCounterparty c"
  shows "\<exists>m \<in> set received. sender (t2_parties m) = c \<and> phase3_evidence S p data kept m"
proof -
  have "sign_phase3_sums S p data uk kept received = Inl e"
    using assms(1) by (auto simp: sign_phase3_def Let_def split: sum.splits)
  then show ?thesis by (rule sign_phase3_ban [OF _ assms(2)])
qed

section \<open>The signature phase 4 returns\<close>

lemma fold_broadcasts:
  "foldl (\<lambda>(num, den) message. (num + b_w message, den + b_u message)) (n, d) ms =
    (n + (\<Sum>m \<leftarrow> ms. b_w m), d + (\<Sum>m \<leftarrow> ms. b_u m))"
  by (induction ms arbitrary: n d) (simp_all add: add.assoc)

text \<open>The value of \<open>s\<close> before the low-S step, and the value that is printed.\<close>

definition raw_s :: "'s::field broadcast3to4 list \<Rightarrow> 's" where
  "raw_s received = (\<Sum>m \<leftarrow> received. b_w m) / (\<Sum>m \<leftarrow> received. b_u m)"

definition final_s :: "('s::field, 'p) suite \<Rightarrow> 's broadcast3to4 list \<Rightarrow> bool \<Rightarrow> 's" where
  "final_s S received low_s =
     (if low_s \<and> is_high S (raw_s received) then - raw_s received else raw_s received)"

lemma sign_phase4_eq:
  "sign_phase4 S p data x_coord received low_s =
    (if (\<Sum>m \<leftarrow> received. b_u m) = 0 then Some (Inl (recoverable (party_index p) ZeroDenominator))
     else if hex_decode_to_slice S 32 x_coord = None then
       Some (Inl (recoverable (party_index p) InvalidXCoordinateHex))
     else if \<not> verify_ecdsa_signature S (message_hash data) (pk p) x_coord
         (hex_encode S (to_repr S (final_s S received low_s))) then
       Some (Inl (recoverable (party_index p) SignatureVerificationFailed))
     else if final_s S received low_s = 0 then None
     else Some (Inr (hex_encode S (to_repr S (final_s S received low_s)),
       recovery_id S p data (the (hex_decode_to_slice S 32 x_coord))
         (reduce_bytes S (the (hex_decode_to_slice S 32 x_coord))) (final_s S received low_s))))"
  unfolding sign_phase4_def fold_broadcasts Let_def
  by (auto simp: invert_def field_bytes_len_def reduce_hex_bytes_def final_s_def raw_s_def divide_inverse
      split: option.splits)

lemma verify_decode:
  assumes "suite_ok S" and "verify_ecdsa_signature S msg key x_coord (hex_encode S (to_repr S s))"
  shows "\<exists>r. hex_decode_to_slice S 32 x_coord = Some (to_repr S r) \<and> r \<noteq> 0 \<and> s \<noteq> 0 \<and>
    ecdsa_valid S (reduce_hash_bytes S msg) key r s"
proof -
  from assms obtain r t where "parse_hex_to_scalar S x_coord = Some r"
    "parse_hex_to_scalar S (hex_encode S (to_repr S s)) = Some t"
    "ecdsa_valid S (reduce_hash_bytes S msg) key r t"
    by (auto simp: verify_valid)
  then show ?thesis
    using assms(1)
    by (auto simp: parse_hex_encoded len_simps from_repr_to_repr ecdsa_valid_def)
      (auto simp: parse_hex_to_scalar_def field_bytes_len_def from_repr_iff split: option.splits)
qed

text \<open>In the recovery id of a verifying signature only the parity bit can be set: verification parsed
  \<open>x_coord\<close> as a canonical scalar, so its reduction has not changed it.\<close>

lemma recovery_id_canonical:
  assumes "suite_ok S" and "xs = to_repr S r" and "r = reduce_bytes S xs"
  shows "recovery_id S p data xs r s =
    of_bool (point_enc S (pmul S (pmul S (generator S) (reduce_hash_bytes S (message_hash data)) +
      pmul S (pk p) r) (inverse s)) ! 0 = 3)"
  using assms by (simp add: recovery_id_def Let_def)

text \<open>What phase 4 returns.\<close>

lemma sign_phase4_result:
  fixes S :: "('s::field, 'p::ab_group_add) suite"
  assumes "suite_ok S"
  shows "sign_phase4 S p data x_coord received low_s \<noteq> None \<and>
    (\<forall>signature rec_id. sign_phase4 S p data x_coord received low_s = Some (Inr (signature, rec_id)) \<longrightarrow>
      verify_ecdsa_signature S (message_hash data) (pk p) x_coord signature \<and>
      (\<exists>r s. signature = hex_encode S (to_repr S s) \<and> (low_s \<longrightarrow> \<not> is_high S s) \<and>
        reduce_hex_bytes S x_coord = Some r \<and>
        rec_id = of_bool (point_enc S (pmul S (generator S) (reduce_hash_bytes S (message_hash data) / s) +
          pmul S (pk p) (r / s)) ! 0 = 3)))"
proof -
  let ?s = "final_s S received low_s"
  have low: "low_s \<longrightarrow> \<not> is_high S ?s"
    using is_high_neg [OF assms] by (auto simp: final_s_def)
  have ok: "\<exists>r. hex_decode_to_slice S 32 x_coord = Some (to_repr S r) \<and> ?s \<noteq> 0"
    if "verify_ecdsa_signature S (message_hash data) (pk p) x_coord (hex_encode S (to_repr S ?s))"
    using verify_decode [OF assms that] by blast
  have point: "pmul S (pmul S (generator S) m + pmul S (pk p) r) (inverse ?s) =
      pmul S (generator S) (m / ?s) + pmul S (pk p) (r / ?s)" for m r
    using assms by (simp add: pmul_add_point pmul_pmul divide_inverse)
  show ?thesis
  proof (intro conjI allI impI)
    show "sign_phase4 S p data x_coord received low_s \<noteq> None"
      using ok by (auto simp: sign_phase4_eq)
  next
    fix signature rec_id
    assume r: "sign_phase4 S p data x_coord received low_s = Some (Inr (signature, rec_id))"
    then have v: "verify_ecdsa_signature S (message_hash data) (pk p) x_coord (hex_encode S (to_repr S ?s))"
      "signature = hex_encode S (to_repr S ?s)"
      by (auto simp: sign_phase4_eq split: if_splits)
    then show "verify_ecdsa_signature S (message_hash data) (pk p) x_coord signature" by simp
    from ok [OF v(1)] obtain x where x: "hex_decode_to_slice S 32 x_coord = Some (to_repr S x)" "?s \<noteq> 0" by blast
    with r v have "rec_id = recovery_id S p data (to_repr S x) x ?s"
      using assms by (auto simp: sign_phase4_eq reduce_to_repr split: if_splits)
    then have "rec_id = of_bool (point_enc S (pmul S (generator S) (reduce_hash_bytes S (message_hash data) / ?s) +
          pmul S (pk p) (x / ?s)) ! 0 = 3)"
      using recovery_id_canonical [OF assms, of "to_repr S x" x] assms by (simp add: reduce_to_repr point)
    moreover have "reduce_hex_bytes S x_coord = Some x"
      using x assms by (simp add: reduce_hex_bytes_def field_bytes_len_def reduce_to_repr)
    ultimately show "\<exists>r s. signature = hex_encode S (to_repr S s) \<and> (low_s \<longrightarrow> \<not> is_high S s) \<and>
        reduce_hex_bytes S x_coord = Some r \<and>
        rec_id = of_bool (point_enc S (pmul S (generator S) (reduce_hash_bytes S (message_hash data) / s) +
          pmul S (pk p) (r / s)) ! 0 = 3)"
      using v low by blast
  qed
qed

text \<open>C7: phase 4 never returns a wrong signature.  What it returns verifies under the group key, is in
  low-S form when normalization was asked for, and its recovery id is the parity of the recomputed
  signature point, 0 or 1; phase 4 does not panic.\<close>

theorem sign_phase4_sound:
  fixes S :: "('s::field, 'p::ab_group_add) suite"
  assumes "suite_ok S"
  shows "sign_phase4 S p data x_coord received low_s \<noteq> None \<and>
    (\<forall>signature rec_id. sign_phase4 S p data x_coord received low_s = Some (Inr (signature, rec_id)) \<longrightarrow>
      verify_ecdsa_signature S (message_hash data) (pk p) x_coord signature \<and>
      (\<exists>r s. signature = hex_encode S (to_repr S s) \<and> (low_s \<longrightarrow> \<not> is_high S s) \<and>
        reduce_hex_bytes S x_coord = Some r \<and>
        rec_id = of_bool (point_enc S (pmul S (generator S) (reduce_hash_bytes S (message_hash data) / s) +
          pmul S (pk p) (r / s)) ! 0 = 3)))"
  using assms by (rule sign_phase4_result)

lemma sign_phase3_no_panic:
  assumes "suite_ok S"
  shows "sign_phase3 S p data uk kept received \<noteq> None"
  using assms by (auto simp: sign_phase3_def Let_def parse_hex_encoded len_simps split: sum.splits)

section \<open>Concrete runs\<close>

definition sample_signer :: "party_index \<Rightarrow> (gf257, gf257) party" where
  "sample_signer i =
     \<lparr>party_parameters = \<lparr>threshold = 2, share_count = 3\<rparr>, party_index = i,
      session_id = replicate 32 9, poly_point = 7 + 5 * of_nat (unat (as_u8 i)), pk = 7,
      party_zero_share = pairwise_seeds [PartyIndex 1, PartyIndex 2, PartyIndex 3] (\<lambda>i j. replicate 32 (as_u8 i)) i,
      mul_senders = map (\<lambda>j. (PartyIndex j, sample_mul_sender)) [1, 2, 3],
      mul_receivers = map (\<lambda>j. (PartyIndex j, sample_mul_receiver)) [1, 2, 3],
      derivation_data = sample_deriv (7 + 5 * of_nat (unat (as_u8 i))) 7, address = []\<rparr>"

definition sample_sign_data :: "party_index list \<Rightarrow> sign_data" where
  "sample_sign_data cps = \<lparr>sign_id = replicate 32 8, counterparties = cps, message_hash = gf_repr 3\<rparr>"

definition sample_sign_coins :: "gf257 \<Rightarrow> gf257 sign_coins" where
  "sample_sign_coins k =
     \<lparr>sc_instance_key = k, sc_inversion_mask = 1, sc_salt = \<lambda>_. [4], sc_choice_bits = \<lambda>_. replicate BATCH_SIZE True,
      sc_noise = \<lambda>_. [], sc_pads = \<lambda>_. [5, 6], sc_checks = \<lambda>_. [8, 9]\<rparr>"

text \<open>A message with the right dimensions that fails the consistency check of the OT extension.\<close>

definition bad_ote_data :: "byte \<Rightarrow> ote_data_to_sender" where
  "bad_ote_data t = \<lparr>ote_u = replicate KAPPA [], verify_x = [], verify_t = replicate KAPPA (replicate OT_BYTES t)\<rparr>"

lemma bad_ote_data_fails: "\<exists>t. \<not> check_holds sample_suite sample_ote_sender sid (bad_ote_data t)"
proof (rule ccontr)
  assume "\<nexists>t. \<not> check_holds sample_suite sample_ote_sender sid (bad_ote_data t)"
  then have "Inr (sender_checks sample_ote_sender (bad_ote_data 0)) =
      (Inr (sender_checks sample_ote_sender (bad_ote_data 1)) :: error_ot + bytes list)"
    unfolding check_holds_def bad_ote_data_def by (metis ote_data_to_sender.select_convs(1))
  then have "sender_checks sample_ote_sender (bad_ote_data 0) ! 1 ! 0 =
      sender_checks sample_ote_sender (bad_ote_data 1) ! 1 ! 0" by simp
  then show False
    by (simp add: sender_checks_def bad_ote_data_def sample_ote_sender_def ote_sizes)
qed

lemma bad_mul_data:
  "\<exists>t err. mul_sender_run sample_suite sample_mul_sender [5, 6] [8, 9] sid input (bad_ote_data t) = Inl err \<and>
     mul_kind err = MulConsistencyFailure"
proof -
  let ?corr = "map (replicate BATCH_SIZE) [5, 6] @ map (replicate BATCH_SIZE) [8, 9] :: gf257 list list"
  obtain t where t: "\<not> check_holds sample_suite sample_ote_sender (ote_session sid) (bad_ote_data t)"
    using bad_ote_data_fails by blast
  have "sender_dimensions sample_ote_sender OT_WIDTH ?corr (bad_ote_data t) = Inr ()"
    by (simp add: sender_dimensions_def unat_OT_WIDTH mul_L_def bad_ote_data_def sample_ote_sender_def)
  with t ote_sender_run_cases [OF sample_suite_ok, of sample_ote_sender OT_WIDTH ?corr "bad_ote_data t" "ote_session sid"]
  have "ote_sender_run sample_suite sample_ote_sender (ote_session sid) OT_WIDTH ?corr (bad_ote_data t) =
      Inl (ErrorOT_consistency ''Receiver cheated in OTE: Consistency check failed!'')" by auto
  then show ?thesis
    by (intro exI [of _ t]) (simp add: mul_sender_run_def sample_mul_sender_def ErrorOT_consistency_def)
qed

lemma sample_lookup:
  "bt_get (mul_senders (sample_signer i)) (PartyIndex 3) = Some sample_mul_sender"
  "bt_get (mul_receivers (sample_signer i)) (PartyIndex 3) = Some sample_mul_receiver"
  by (simp_all add: sample_signer_def bt_get_def)

lemma sample_lagrange: "lagrange_coefficient sample_suite (PartyIndex 1) [PartyIndex 3] \<noteq> None"
  by (simp add: lagrange_coefficient_def l_step_def sample_suite_def gf_eq_iff invert_def)

definition sample_unique_keep :: "(gf257, gf257) unique_keep1to2" where
  "sample_unique_keep = \<lparr>u1_instance_key = 2, u1_instance_point = 2, u1_inversion_mask = 1, u1_zeta = 0\<rparr>"

definition sample_keep :: "(party_index \<times> gf257 keep_phase1to2) list" where
  "sample_keep = [(PartyIndex 3, \<lparr>k1_salt = [], k1_chi = 0, k1_mul_keep = \<lparr>mk_b = 0, mk_choice_bits = [],
     mk_extended_seeds = [], mk_chi_tilde = [], mk_chi_hat = []\<rparr>\<rparr>)]"

definition bad_message1 :: "bytes \<Rightarrow> byte \<Rightarrow> transmit_phase1to2" where
  "bad_message1 digest t = \<lparr>t1_parties = \<lparr>sender = PartyIndex 3, receiver = PartyIndex 1\<rparr>, t1_commitment = [],
     t1_protocol_version = PROTOCOL_VERSION, t1_root_digest = digest, t1_mul_transmit = bad_ote_data t\<rparr>"

lemma sample_phase2_bans:
  assumes "digest = own_root_digest sample_suite (sample_signer (PartyIndex 1)) (sample_sign_data [PartyIndex 3])"
  shows "\<exists>t e. sign_phase2 sample_suite (sample_signer (PartyIndex 1)) (sample_sign_data [PartyIndex 3])
      (sample_sign_coins 2) sample_unique_keep sample_keep [bad_message1 digest t] = Inl e \<and>
    abort_kind e = BanCounterparty (PartyIndex 3)"
proof -
  let ?p = "sample_signer (PartyIndex 1)" and ?d = "sample_sign_data [PartyIndex 3]"
  obtain l where l: "lagrange_coefficient sample_suite (PartyIndex 1) [PartyIndex 3] = Some l"
    using sample_lagrange by blast
  obtain t err where err: "mul_sender_run sample_suite sample_mul_sender [5, 6] [8, 9]
      (mul_sid ?p ?d (PartyIndex 3) (PartyIndex 1)) [2, poly_point ?p * l + 0] (bad_ote_data t) = Inl err"
    "mul_kind err = MulConsistencyFailure"
    using bad_mul_data by blast
  have idx: "party_index ?p = PartyIndex 1" "counterparties ?d = [PartyIndex 3]"
    by (simp_all add: sample_signer_def sample_sign_data_def)
  have "sign_phase2_checks sample_suite ?p ?d [bad_message1 digest t] = Inr ()"
    unfolding sign_phase2_checks_Inr by (simp add: phase2_ready_def idx bad_message1_def assms)
  then have r: "sign_phase2 sample_suite ?p ?d (sample_sign_coins 2) sample_unique_keep sample_keep
      [bad_message1 digest t] = Inl (mul_abort (PartyIndex 1) (PartyIndex 3) err)"
    using err(1) l by (simp add: sign_phase2_def sign_phase2_step_def idx sample_lookup sample_keep_def
        bt_get_def [of "[_]"] sample_sign_coins_def sample_unique_keep_def bad_message1_def)
  have "abort_kind (mul_abort (PartyIndex 1) (PartyIndex 3) err) = BanCounterparty (PartyIndex 3)"
    by (simp add: mul_abort_kind err(2))
  with r show ?thesis by blast
qed

lemma sign_phase2_ban_evidence_witness:
  "\<exists>m e. sign_phase2 sample_suite (sample_signer (PartyIndex 1)) (sample_sign_data [PartyIndex 3])
      (sample_sign_coins 2) sample_unique_keep sample_keep [m] = Inl e \<and>
    abort_kind e = BanCounterparty (PartyIndex 3) \<and>
    phase2_ready sample_suite (sample_signer (PartyIndex 1)) (sample_sign_data [PartyIndex 3]) [m]"
proof -
  obtain t e where r: "sign_phase2 sample_suite (sample_signer (PartyIndex 1)) (sample_sign_data [PartyIndex 3])
      (sample_sign_coins 2) sample_unique_keep sample_keep [bad_message1 (own_root_digest sample_suite
        (sample_signer (PartyIndex 1)) (sample_sign_data [PartyIndex 3])) t] = Inl e"
    "abort_kind e = BanCounterparty (PartyIndex 3)"
    using sample_phase2_bans [OF refl] by blast
  with sign_phase2_ban_evidence [OF r] show ?thesis by blast
qed

lemma sign_root_agreement_witness:
  "\<exists>r m. sign_phase2 sample_suite (sample_signer (PartyIndex 1)) (sample_sign_data [PartyIndex 3])
      (sample_sign_coins 2) sample_unique_keep sample_keep [m] = r \<and>
    t1_root_digest m = own_root_digest sample_suite (sample_signer (PartyIndex 3)) (sample_sign_data [PartyIndex 1]) \<and>
    session_id (sample_signer (PartyIndex 1)) = session_id (sample_signer (PartyIndex 3))"
proof -
  let ?p = "sample_signer (PartyIndex 1)" and ?q = "sample_signer (PartyIndex 3)"
  let ?d = "sample_sign_data [PartyIndex 3]" and ?e = "sample_sign_data [PartyIndex 1]"
  have "own_root_digest sample_suite ?q ?e = own_root_digest sample_suite ?p ?d"
    by (simp add: own_root_digest_def sample_signer_def sample_sign_data_def)
  from sample_phase2_bans [OF this] obtain t e where r: "sign_phase2 sample_suite ?p ?d (sample_sign_coins 2)
      sample_unique_keep sample_keep [bad_message1 (own_root_digest sample_suite ?q ?e) t] = Inl e"
    "abort_kind e = BanCounterparty (PartyIndex 3)" by blast
  then have "(session_id ?p = session_id ?q \<and> sign_id ?d = sign_id ?e \<and>
      chain_code (derivation_data ?p) = chain_code (derivation_data ?q)) \<or>
    collision sample_suite
      (encode_tagged TAG_ROOT_AGREEMENT [session_id ?p, sign_id ?d, chain_code (derivation_data ?p)])
      (encode_tagged TAG_ROOT_AGREEMENT [session_id ?q, sign_id ?e, chain_code (derivation_data ?q)])"
    by (intro sign_root_agreement [OF r(1), of "bad_message1 (own_root_digest sample_suite ?q ?e) t"])
      (auto simp: sample_signer_def sample_sign_data_def sample_deriv_def bad_message1_def)
  then have "session_id ?p = session_id ?q"
    by (auto simp: collision_def sample_signer_def sample_sign_data_def sample_deriv_def)
  with r(1) show ?thesis
    by (intro exI [of _ "Inl e"] exI [of _ "bad_message1 (own_root_digest sample_suite ?q ?e) t"])
      (simp add: bad_message1_def)
qed

lemma sign_phase3_ban_evidence_witness:
  "\<exists>m kept e. sign_phase3 sample_suite (sample_signer (PartyIndex 1)) (sample_sign_data [PartyIndex 3])
      \<lparr>u2_instance_key = 2, u2_instance_point = 2, u2_inversion_mask = 1, u2_key_share = 7, u2_public_share = 7\<rparr>
      kept [m] = Some (Inl e) \<and> abort_kind e = BanCounterparty (PartyIndex 3) \<and>
    phase3_evidence sample_suite (sample_signer (PartyIndex 1)) (sample_sign_data [PartyIndex 3]) kept m"
proof -
  let ?p = "sample_signer (PartyIndex 1)" and ?d = "sample_sign_data [PartyIndex 3]"
  let ?uk = "\<lparr>u2_instance_key = 2, u2_instance_point = 2, u2_inversion_mask = 1, u2_key_share = 7,
    u2_public_share = 7\<rparr> :: (gf257, gf257) unique_keep2to3"
  let ?mk = "\<lparr>mk_b = 0, mk_choice_bits = replicate BATCH_SIZE False, mk_extended_seeds = replicate KAPPA [],
    mk_chi_tilde = [], mk_chi_hat = []\<rparr>"
  let ?data = "\<lparr>vector_of_tau = replicate (unat OT_WIDTH) (replicate BATCH_SIZE 0), verify_r = [],
    verify_u = replicate mul_L 0, gamma_sender = replicate mul_L 0\<rparr> :: gf257 mul_data_to_receiver"
  let ?kept = "[(PartyIndex 3, \<lparr>k2_c_u = 0, k2_c_v = 0, k2_commitment = fst (commit_point sample_suite [4] 6),
    k2_mul_keep = ?mk, k2_chi = 0\<rparr>)]"
  let ?m = "\<lparr>t2_parties = \<lparr>sender = PartyIndex 3, receiver = PartyIndex 1\<rparr>, t2_gamma_u = 0, t2_gamma_v = 0,
    t2_psi = 0, t2_public_share = 0, t2_instance_point = 6, t2_salt = [4], t2_mul_transmit = ?data\<rparr>"
  have idx: "party_index ?p = PartyIndex 1" "counterparties ?d = [PartyIndex 3]"
    by (simp_all add: sample_signer_def sample_sign_data_def)
  obtain tt where tt: "cut_and_transpose (replicate KAPPA []) = Inr tt"
    using cut_and_transpose_bits [of "replicate KAPPA []"] by auto
  have no_tau: "check_each (\<lambda>tau. if length tau \<noteq> BATCH_SIZE
      then Some (ErrorOT_malformed ''Tau vector has incorrect inner length'') else None)
      (vector_of_tau ?data) = Inr ()"
    by (simp add: check_each_Inr_iff)
  have "[] \<noteq> tagged_hash sample_suite TAG_MUL_VERIFY cs" for cs
    using length_tagged_hash [OF sample_suite_ok, of TAG_MUL_VERIFY cs] by auto
  then have mulr: "mul_receiver_phase2 sample_suite sample_mul_receiver sid ?mk ?data =
      Inl (ErrorMul_consistency ''Sender cheated in multiplication protocol: Consistency check failed!'')" for sid
    using tt no_tau by (simp add: mul_receiver_phase2_def ote_receiver_phase2_def)
  have opens: "verify_commitment_point sample_suite 6 (fst (commit_point sample_suite [4] 6)) [4]"
    by (rule point_commit.honest_opening) (simp add: commit_point_def commit_def)
  have "sign_phase3_step sample_suite ?p ?d ?kept ?m (phase3_start ?uk) = Inl (mul_abort (PartyIndex 1) (PartyIndex 3)
      (ErrorMul_consistency ''Sender cheated in multiplication protocol: Consistency check failed!''))"
    using mulr opens
    by (simp add: sign_phase3_step_def check_message3_def idx bt_get_def [of ?kept] sample_lookup gf_eq_iff
        phase3_start_def Let_def)
  then have r: "sign_phase3 sample_suite ?p ?d ?uk ?kept [?m] = Some (Inl (mul_abort (PartyIndex 1) (PartyIndex 3)
      (ErrorMul_consistency ''Sender cheated in multiplication protocol: Consistency check failed!'')))"
    by (simp add: sign_phase3_def sign_phase3_sums_def idx)
  have "abort_kind (mul_abort (PartyIndex 1) (PartyIndex 3)
      (ErrorMul_consistency ''Sender cheated in multiplication protocol: Consistency check failed!'')) =
      BanCounterparty (PartyIndex 3)"
    by (simp add: mul_abort_kind)
  with r sign_phase3_ban_evidence [OF r this] show ?thesis by auto
qed

lemma sample_hex_decode: "hex_decode_to_slice sample_suite 32 (sample_hex (gf_repr k)) = Some (gf_repr k)"
  using hex_roundtrip [OF sample_suite_ok, of 32 "gf_repr k"] by (simp add: sample_suite_def gf_repr_def)

lemma sample_phase4:
  "\<exists>rec_id. sign_phase4 sample_suite (sample_signer (PartyIndex 1)) (sample_sign_data [PartyIndex 3])
    (sample_hex (gf_repr 4)) [\<lparr>b_u = 2, b_w = 31\<rparr>] True = Some (Inr (sample_hex (gf_repr 113), rec_id))"
proof -
  have nz: "(2 :: gf257) \<noteq> 0" "(144 :: gf257) \<noteq> 0" "(4 :: gf257) \<noteq> 0" "(144 :: gf257) * 2 = 3 + 4 * 7"
    "(31 :: gf257) = 144 * 2" "- (144 :: gf257) = 113" "(113 :: gf257) \<noteq> 0" "is_high sample_suite 144"
    by (simp_all add: gf_eq_iff sample_suite_def)
  then have "ecdsa_valid sample_suite 3 (pmul sample_suite (generator sample_suite) 7) 4 (- 144)"
    by (intro ecdsa_valid_signed(2) [OF sample_suite_ok, of 2]) (simp_all add: sample_suite_def nonzero_eq_divide_eq)
  then have "verify_ecdsa_signature sample_suite (gf_repr 3) 7 (sample_hex (gf_repr 4)) (sample_hex (gf_repr 113))"
    using sample_hex_decode [of 4] sample_hex_decode [of 113] nz
    by (auto simp: verify_valid parse_hex_to_scalar_def field_bytes_len_def reduce_hash_bytes_def sample_suite_def gf_from_repr_def)
  moreover have "raw_s [\<lparr>b_u = 2, b_w = 31\<rparr>] = (144 :: gf257)"
    using nz by (simp add: raw_s_def)
  then have "final_s sample_suite [\<lparr>b_u = 2, b_w = 31\<rparr>] True = 113"
    using nz by (simp add: final_s_def)
  moreover have "hex_encode sample_suite = sample_hex" by (simp add: sample_suite_def)
  ultimately show ?thesis
    using nz sample_hex_decode [of 4]
    by (simp add: sign_phase4_eq sample_signer_def sample_sign_data_def)
qed

lemma sign_phase4_sound_witness:
  "\<exists>rec_id. sign_phase4 sample_suite (sample_signer (PartyIndex 1)) (sample_sign_data [PartyIndex 3])
      (sample_hex (gf_repr 4)) [\<lparr>b_u = 2, b_w = 31\<rparr>] True = Some (Inr (sample_hex (gf_repr 113), rec_id)) \<and>
    verify_ecdsa_signature sample_suite (gf_repr 3) 7 (sample_hex (gf_repr 4)) (sample_hex (gf_repr 113))"
proof -
  obtain rec_id where "sign_phase4 sample_suite (sample_signer (PartyIndex 1)) (sample_sign_data [PartyIndex 3])
      (sample_hex (gf_repr 4)) [\<lparr>b_u = 2, b_w = 31\<rparr>] True = Some (Inr (sample_hex (gf_repr 113), rec_id))"
    using sample_phase4 by blast
  with sign_phase4_sound [OF sample_suite_ok, of "sample_signer (PartyIndex 1)" "sample_sign_data [PartyIndex 3]"
      "sample_hex (gf_repr 4)" "[\<lparr>b_u = 2, b_w = 31\<rparr>]" True] show ?thesis
    by (fastforce simp: sample_signer_def sample_sign_data_def)
qed

end
