(* ===== verification/Signing_Run.thy ===== *)
theory Signing_Run
  imports Signing Key_Material "HOL-Library.Multiset"
begin

text \<open>
  Signing among honest parties that hold \<open>key_material\<close>.  The first sections follow one party
  through each phase when its counterparties are honest; the last one composes them: whatever the order of delivery, all signers return the same signature
  and it verifies.
\<close>

section \<open>One party, honest counterparties\<close>

definition phase1_message ::
  "('s::field, 'p) suite \<Rightarrow> ('s, 'p) party \<Rightarrow> sign_data \<Rightarrow> 's sign_coins \<Rightarrow>
     (party_index \<Rightarrow> ote_data_to_sender) \<Rightarrow> party_index \<Rightarrow> transmit_phase1to2" where
  "phase1_message S p data coins mt c =
     \<lparr>t1_parties = \<lparr>sender = party_index p, receiver = c\<rparr>,
      t1_commitment = fst (commit_point S (sc_salt coins c) (pmul S (generator S) (sc_instance_key coins))),
      t1_protocol_version = PROTOCOL_VERSION, t1_root_digest = own_root_digest S p data,
      t1_mul_transmit = mt c\<rparr>"

definition phase1_keep ::
  "('s::field, 'p) suite \<Rightarrow> ('s, 'p) party \<Rightarrow> sign_data \<Rightarrow> 's sign_coins \<Rightarrow> ('s, 'p) unique_keep1to2" where
  "phase1_keep S p data coins =
     \<lparr>u1_instance_key = sc_instance_key coins,
      u1_instance_point = pmul S (generator S) (sc_instance_key coins),
      u1_inversion_mask = sc_inversion_mask coins,
      u1_zeta = zero_share_compute S (party_zero_share p) (counterparties data) (zero_sid p data)\<rparr>"

text \<open>The conditions on which phase 1 does not refuse its input.\<close>

definition phase1_input_ok :: "('s, 'p) party \<Rightarrow> sign_data \<Rightarrow> bool" where
  "phase1_input_ok p data \<longleftrightarrow>
     length (session_id p) = ID_LEN \<and> length (sign_id data) = ID_LEN \<and>
     length (counterparties data) = unat (threshold (party_parameters p) - 1) \<and>
     as_u8 (party_index p) \<le> share_count (party_parameters p) \<and> distinct (counterparties data) \<and>
     (\<forall>c \<in> set (counterparties data). c \<noteq> party_index p \<and> as_u8 c \<le> share_count (party_parameters p) \<and>
        bt_get (mul_senders p) c \<noteq> None \<and> bt_get (mul_receivers p) c \<noteq> None)"

lemma sign_phase1_checks_iff: "(\<exists>u. sign_phase1_checks p data = Inr u) \<longleftrightarrow> phase1_input_ok p data"
proof
  show "\<exists>u. sign_phase1_checks p data = Inr u \<Longrightarrow> phase1_input_ok p data"
    by (auto simp: sign_phase1_checks_def phase1_input_ok_def not_less split: if_splits
        dest!: check_counterparties_Inr)
  assume "phase1_input_ok p data"
  then show "\<exists>u. sign_phase1_checks p data = Inr u"
    using check_counterparties_total [of "counterparties data" "[]" p]
    by (simp add: sign_phase1_checks_def phase1_input_ok_def not_less)
qed

lemma sign_phase1_honest:
  assumes "phase1_input_ok p data"
    and "\<forall>c \<in> set (counterparties data). bt_get (mul_receivers p) c = Some (R c) \<and>
      mul_receiver_phase1 S (R c) (sc_choice_bits coins c) (sc_noise coins c)
        (mul_sid p data (party_index p) c) = Inr (chi c, mk c, mt c)"
  shows "\<exists>keep. sign_phase1 S p data coins =
      Inr (phase1_keep S p data coins, keep, map (phase1_message S p data coins mt) (counterparties data)) \<and>
    (\<forall>c \<in> set (counterparties data).
       bt_get keep c = Some \<lparr>k1_salt = sc_salt coins c, k1_chi = chi c, k1_mul_keep = mk c\<rparr>)"
proof -
  let ?step = "sign_phase1_step S p data coins (pmul S (generator S) (sc_instance_key coins))"
  let ?val = "\<lambda>c. \<lparr>k1_salt = sc_salt coins c, k1_chi = chi c, k1_mul_keep = mk c\<rparr>"
  have step: "?step c (keep, tr) = Inr (bt_insert c (?val c) keep, tr @ [phase1_message S p data coins mt c])"
    if "c \<in> set (counterparties data)" for c keep tr
    using assms(2) that by (simp add: sign_phase1_step_def phase1_message_def commit_point_def commit_def Let_def)
  obtain u where "sign_phase1_checks p data = Inr u"
    using assms(1) sign_phase1_checks_iff by blast
  moreover have "distinct (map (\<lambda>c. c) (counterparties data))"
    using assms(1) by (simp add: phase1_input_ok_def)
  from for_each_insert_push [OF step bt.invar_empty this, of "[]"] obtain keep where
    "for_each ?step (counterparties data) ([], []) =
      Inr (keep, map (phase1_message S p data coins mt) (counterparties data))"
    "\<forall>c \<in> set (counterparties data). bt_get keep c = Some (?val c)"
    by auto
  ultimately show ?thesis by (simp add: sign_phase1_def phase1_keep_def Let_def)
qed

definition phase2_message ::
  "('s::field, 'p) suite \<Rightarrow> ('s, 'p) party \<Rightarrow> 's sign_coins \<Rightarrow> 's \<Rightarrow> (party_index \<Rightarrow> 's) \<Rightarrow>
     (party_index \<Rightarrow> 's list) \<Rightarrow> (party_index \<Rightarrow> 's mul_data_to_receiver) \<Rightarrow> party_index \<Rightarrow>
     ('s, 'p) transmit_phase2to3" where
  "phase2_message S p coins key_share chi out back c =
     \<lparr>t2_parties = \<lparr>sender = party_index p, receiver = c\<rparr>,
      t2_gamma_u = pmul S (generator S) (out c ! 0), t2_gamma_v = pmul S (generator S) (out c ! 1),
      t2_psi = sc_inversion_mask coins - chi c,
      t2_public_share = pmul S (generator S) key_share,
      t2_instance_point = pmul S (generator S) (sc_instance_key coins),
      t2_salt = sc_salt coins c, t2_mul_transmit = back c\<rparr>"

definition phase2_keep :: "('s::field, 'p) suite \<Rightarrow> 's sign_coins \<Rightarrow> 's \<Rightarrow> ('s, 'p) unique_keep2to3" where
  "phase2_keep S coins key_share =
     \<lparr>u2_instance_key = sc_instance_key coins,
      u2_instance_point = pmul S (generator S) (sc_instance_key coins),
      u2_inversion_mask = sc_inversion_mask coins, u2_key_share = key_share,
      u2_public_share = pmul S (generator S) key_share\<rparr>"

text \<open>The share of the key that a signer contributes.\<close>

definition sign_share :: "('s::field, 'p) suite \<Rightarrow> ('s, 'p) party \<Rightarrow> sign_data \<Rightarrow> 's" where
  "sign_share S p data =
     poly_point p * the (lagrange_coefficient S (party_index p) (counterparties data)) +
     zero_share_compute S (party_zero_share p) (counterparties data) (zero_sid p data)"

lemma sign_phase2_honest:
  assumes "lagrange_coefficient S (party_index p) (counterparties data) \<noteq> None"
    and "mset qs = mset (counterparties data)" and "distinct qs"
    and "\<forall>c \<in> set qs. t1_parties (m1 c) = \<lparr>sender = c, receiver = party_index p\<rparr> \<and>
      t1_protocol_version (m1 c) = PROTOCOL_VERSION \<and> t1_root_digest (m1 c) = own_root_digest S p data"
    and "\<forall>c \<in> set qs. bt_get kept c = Some \<lparr>k1_salt = sc_salt coins c, k1_chi = chi c, k1_mul_keep = mk c\<rparr>"
    and "\<forall>c \<in> set qs. bt_get (mul_senders p) c = Some (Snd c) \<and>
      mul_sender_run S (Snd c) (sc_pads coins c) (sc_checks coins c) (mul_sid p data c (party_index p))
        [sc_instance_key coins, sign_share S p data] (t1_mul_transmit (m1 c)) = Inr (out c, back c)"
  shows "\<exists>keep. sign_phase2 S p data coins (phase1_keep S p data coins) kept (map m1 qs) =
      Inr (phase2_keep S coins (sign_share S p data), keep,
        map (phase2_message S p coins (sign_share S p data) chi out back) qs) \<and>
    (\<forall>c \<in> set qs. bt_get keep c = Some \<lparr>k2_c_u = out c ! 0, k2_c_v = out c ! 1,
       k2_commitment = t1_commitment (m1 c), k2_mul_keep = mk c, k2_chi = chi c\<rparr>)"
proof -
  let ?ks = "sign_share S p data"
  let ?step = "sign_phase2_step S p data coins (phase1_keep S p data coins) kept ?ks (pmul S (generator S) ?ks)"
  let ?val = "\<lambda>c. \<lparr>k2_c_u = out c ! 0, k2_c_v = out c ! 1, k2_commitment = t1_commitment (m1 c),
    k2_mul_keep = mk c, k2_chi = chi c\<rparr>"
  have step: "?step m (keep, tr) = Inr (bt_insert (sender (t1_parties m)) (?val (sender (t1_parties m))) keep,
      tr @ [phase2_message S p coins ?ks chi out back (sender (t1_parties m))])"
    if "m \<in> set (map m1 qs)" for m keep tr
  proof -
    from that obtain c where "c \<in> set qs" "m = m1 c" by auto
    with assms(4-6) show ?thesis
      by (simp add: sign_phase2_step_def phase2_message_def phase1_keep_def Let_def)
  qed
  have senders: "map (\<lambda>m. sender (t1_parties m)) (map m1 qs) = qs"
    using assms(4) by (simp add: map_idI)
  have set_qs: "set qs = set (counterparties data)" using assms(2) by (metis set_mset_mset)
  have "phase2_ready S p data (map m1 qs)"
    using assms(4) set_qs mset_eq_length [OF assms(2)] senders assms(3)
    by (auto simp: phase2_ready_def comp_def)
  then have "sign_phase2_checks S p data (map m1 qs) = Inr ()" by (simp add: sign_phase2_checks_Inr)
  moreover have "distinct (map (\<lambda>m. sender (t1_parties m)) (map m1 qs))"
    using assms(3) by (simp only: senders)
  from for_each_insert_push [OF step bt.invar_empty this, of "[]"] obtain keep where
    k: "for_each ?step (map m1 qs) ([], []) = Inr (keep, map (\<lambda>m. phase2_message S p coins ?ks chi out back
      (sender (t1_parties m))) (map m1 qs))"
    "\<forall>c \<in> set qs. bt_get keep (sender (t1_parties (m1 c))) = Some (?val (sender (t1_parties (m1 c))))"
    by auto
  moreover have "map (\<lambda>m. phase2_message S p coins ?ks chi out back (sender (t1_parties m))) (map m1 qs) =
      map (phase2_message S p coins ?ks chi out back) qs"
    using assms(4) by simp
  ultimately show ?thesis
    using assms(1,4) by (auto simp: sign_phase2_def sign_share_def phase1_keep_def phase2_keep_def Let_def)
qed

text \<open>The sums phase 3 arrives at.\<close>

definition phase3_done ::
  "('s::field, 'p::ab_group_add) suite \<Rightarrow> 's sign_coins \<Rightarrow> 's \<Rightarrow> (party_index \<Rightarrow> ('s, 'p) transmit_phase2to3) \<Rightarrow>
     (party_index \<Rightarrow> 's list) \<Rightarrow> (party_index \<Rightarrow> 's list) \<Rightarrow> party_index list \<Rightarrow> ('s, 'p) phase3_sums" where
  "phase3_done S coins key_share m2 out out' qs =
     \<lparr>expected_public_key = pmul S (generator S) key_share + (\<Sum>c \<leftarrow> qs. t2_public_share (m2 c)),
      total_instance_point = pmul S (generator S) (sc_instance_key coins) + (\<Sum>c \<leftarrow> qs. t2_instance_point (m2 c)),
      first_sum_u_v = sc_inversion_mask coins + (\<Sum>c \<leftarrow> qs. t2_psi (m2 c)),
      second_sum_u = (\<Sum>c \<leftarrow> qs. out c ! 0 + out' c ! 0),
      second_sum_v = (\<Sum>c \<leftarrow> qs. out c ! 1 + out' c ! 1),
      p3_seen = rev qs\<rparr>"

lemma phase3_done_snoc:
  "phase3_done S coins ks m2 out out' (qs @ [c]) =
    (let d = phase3_done S coins ks m2 out out' qs in
     \<lparr>expected_public_key = expected_public_key d + t2_public_share (m2 c),
      total_instance_point = total_instance_point d + t2_instance_point (m2 c),
      first_sum_u_v = first_sum_u_v d + t2_psi (m2 c),
      second_sum_u = second_sum_u d + out c ! 0 + out' c ! 0,
      second_sum_v = second_sum_v d + out c ! 1 + out' c ! 1,
      p3_seen = c # p3_seen d\<rparr>)"
  by (simp add: phase3_done_def Let_def add.assoc)

definition phase3_good ::
  "('s::field, 'p::ab_group_add) suite \<Rightarrow> ('s, 'p) party \<Rightarrow> sign_data \<Rightarrow> (party_index, 's keep_phase2to3) btree \<Rightarrow>
     (party_index \<Rightarrow> 's list) \<Rightarrow> (party_index \<Rightarrow> 's list) \<Rightarrow> (party_index \<Rightarrow> ('s, 'p) transmit_phase2to3) \<Rightarrow>
     party_index \<Rightarrow> bool" where
  "phase3_good S p data kept out out' m2 c \<longleftrightarrow>
     c \<in> set (counterparties data) \<and>
     t2_parties (m2 c) = \<lparr>sender = c, receiver = party_index p\<rparr> \<and> t2_instance_point (m2 c) \<noteq> 0 \<and>
     (\<exists>k mr. bt_get kept c = Some k \<and> bt_get (mul_receivers p) c = Some mr \<and>
        k2_c_u k = out c ! 0 \<and> k2_c_v k = out c ! 1 \<and>
        verify_commitment_point S (t2_instance_point (m2 c)) (k2_commitment k) (t2_salt (m2 c)) \<and>
        mul_receiver_phase2 S mr (mul_sid p data (party_index p) c) (k2_mul_keep k)
          (t2_mul_transmit (m2 c)) = Inr (out' c) \<and>
        pmul S (t2_instance_point (m2 c)) (k2_chi k) = pmul S (generator S) (out' c ! 0) + t2_gamma_u (m2 c) \<and>
        pmul S (t2_public_share (m2 c)) (k2_chi k) = pmul S (generator S) (out' c ! 1) + t2_gamma_v (m2 c))"

lemma phase3_step_good:
  assumes "phase3_good S p data kept out out' m2 c" and "c \<notin> set qs"
  shows "sign_phase3_step S p data kept (m2 c) (phase3_done S coins ks m2 out out' qs) =
    Inr (phase3_done S coins ks m2 out out' (qs @ [c]))"
proof -
  have "p3_seen (phase3_done S coins ks m2 out out' qs) = rev qs" by (simp add: phase3_done_def)
  with assms show ?thesis
    by (auto simp: phase3_good_def sign_phase3_step_def check_message3_def check_gammas_def Let_def
        phase3_done_snoc)
qed

lemma sign_phase3_loop:
  assumes "\<forall>c \<in> set qs. phase3_good S p data kept out out' m2 c" and "distinct (done @ qs)"
  shows "for_each (sign_phase3_step S p data kept) (map m2 qs) (phase3_done S coins ks m2 out out' done) =
    Inr (phase3_done S coins ks m2 out out' (done @ qs))"
  using assms
proof (induction qs arbitrary: "done")
  case (Cons c qs)
  then have "sign_phase3_step S p data kept (m2 c) (phase3_done S coins ks m2 out out' done) =
      Inr (phase3_done S coins ks m2 out out' (done @ [c]))"
    by (intro phase3_step_good) auto
  with Cons.IH [of "done @ [c]"] Cons.prems show ?case by simp
qed simp

lemma sign_phase3_honest:
  assumes "\<forall>c \<in> set qs. phase3_good S p data kept out out' m2 c"
    and "mset qs = mset (counterparties data)" and "distinct qs"
    and "d = phase3_done S coins ks m2 out out' qs"
    and "expected_public_key d = pk p" and "total_instance_point d \<noteq> 0"
  shows "sign_phase3_sums S p data (phase2_keep S coins ks) kept (map m2 qs) = Inr d"
proof -
  have "phase3_start (phase2_keep S coins ks) = phase3_done S coins ks m2 out out' []"
    by (simp add: phase3_start_def phase2_keep_def phase3_done_def)
  with sign_phase3_loop [OF assms(1), of "[]" coins ks] assms(2-) mset_eq_length [OF assms(2)] show ?thesis
    by (simp add: sign_phase3_sums_def)
qed

section \<open>Interpolation at the indices of the signers\<close>

lemma l_step_fold:
  "foldl (l_step S me) (n, d) cps =
    (n * (\<Prod>c \<leftarrow> cps. scalar_from S (ucast (as_u8 c))),
     d * (\<Prod>c \<leftarrow> cps. scalar_from S (ucast (as_u8 c)) - scalar_from S (ucast (as_u8 me))))"
  by (induction cps arbitrary: n d) (simp_all add: l_step_def mult.assoc)

lemma lagrange_basis:
  fixes S :: "('s::field, 'p::ab_group_add) suite"
  assumes "suite_ok S" and "distinct signers" and "i \<in> set signers"
  shows "lagrange_coefficient S i (others signers i) =
    Some (basis (index_scalar ` set signers) (index_scalar i) 0)"
proof -
  have inj: "inj_on (index_scalar :: party_index \<Rightarrow> 's) A" for A
    by (rule inj_onI) (simp add: index_scalar_inj [OF assms(1)])
  have img: "index_scalar ` set signers - {index_scalar i :: 's} = index_scalar ` (set signers - {i} )"
    using inj_on_image_set_diff [OF inj, of "set signers" "set signers" "{i}"] assms(3)
    by (auto simp: index_scalar_inj [OF assms(1)])
  have "(\<Prod>c \<leftarrow> others signers i. f (index_scalar c :: 's)) = prod f (index_scalar ` (set signers - {i}))"
    for f :: "'s \<Rightarrow> 's"
    using distinct_others [OF assms(2), of i] inj
    by (simp add: prod.reindex comp_def flip: prod.distinct_set_conv_list)
  then have prods: "(\<Prod>c \<leftarrow> others signers i. index_scalar c) =
      (\<Prod>j \<in> index_scalar ` set signers - {index_scalar i :: 's}. j)"
    "(\<Prod>c \<leftarrow> others signers i. index_scalar c - index_scalar i) =
      (\<Prod>j \<in> index_scalar ` set signers - {index_scalar i :: 's}. j - index_scalar i)"
    by (simp_all add: img)
  have "(\<Prod>j \<in> index_scalar ` set signers - {index_scalar i :: 's}. j - index_scalar i) \<noteq> 0"
    by simp
  then show ?thesis
    by (simp add: lagrange_coefficient_def l_step_fold scalar_from_index [OF assms(1)] prods basis_zero
        invert_def divide_inverse)
qed

section \<open>The input of the signers\<close>

definition signing_data :: "bytes \<Rightarrow> bytes \<Rightarrow> party_index list \<Rightarrow> party_index \<Rightarrow> sign_data" where
  "signing_data sign hash signers i =
     \<lparr>sign_id = sign, counterparties = others signers i, message_hash = hash\<rparr>"

lemma key_material_phase1:
  assumes "key_material S f params sid code half all P" and "length sid = ID_LEN" and "length sign = ID_LEN"
    and "set signers \<subseteq> set all" and "distinct signers" and "length signers = unat (threshold params)"
    and "i \<in> set signers"
  shows "phase1_input_ok (P i) (signing_data sign hash signers i)"
proof -
  have thr: "2 \<le> threshold params" using assms(1) by (simp add: key_material_def params_ok_def)
  then have "threshold params \<noteq> 0" by auto
  then have "unat (threshold params - 1) = unat (threshold params) - 1"
    by (rule unat_minus_one)
  then have len: "length (others signers i) = unat (threshold params - 1)"
    using assms(5-7) by (simp add: length_others)
  have all: "c \<in> set all" if "c \<in> set signers" for c using that assms(4) by blast
  have "\<forall>c \<in> set signers - {i}. as_u8 c \<le> share_count params \<and>
      bt_get (mul_senders (P i)) c \<noteq> None \<and> bt_get (mul_receivers (P i)) c \<noteq> None"
  proof
    fix c assume c: "c \<in> set signers - {i}"
    with all assms(7) have "i \<in> set all" "c \<in> set all" "c \<noteq> i" by auto
    with assms(1) show "as_u8 c \<le> share_count params \<and>
      bt_get (mul_senders (P i)) c \<noteq> None \<and> bt_get (mul_receivers (P i)) c \<noteq> None"
      unfolding key_material_def by (metis Diff_iff option.distinct(1) singletonD)
  qed
  with assms len all [OF assms(7)] show ?thesis
    by (auto simp: phase1_input_ok_def signing_data_def key_material_def distinct_others)
qed

text \<open>The shares the signers contribute add up to the secret key.\<close>

lemma sign_share_eq:
  fixes S :: "('s::field, 'p::ab_group_add) suite"
  assumes "suite_ok S" and "key_material S f params sid code half all P" and "set signers \<subseteq> set all"
    and "distinct signers" and "i \<in> set signers"
  shows "sign_share S (P i) (signing_data sign hash signers i) =
    f (index_scalar i) * basis (index_scalar ` set signers) (index_scalar i) 0 +
    zero_share_compute S (pairwise_seeds all half i) (filter (\<lambda>j. j \<noteq> i) signers)
      (ascii ''Zero shares protocol'' @ sid @ sign @ code)"
proof -
  have "i \<in> set all" using assms(3,5) by blast
  with assms(2) have "party_index (P i) = i" "poly_point (P i) = f (index_scalar i)" "session_id (P i) = sid"
    "party_zero_share (P i) = pairwise_seeds all half i" "chain_code (derivation_data (P i)) = code"
    by (simp_all add: key_material_def)
  then show ?thesis
    using lagrange_basis [OF assms(1,4,5)]
    by (simp add: sign_share_def signing_data_def zero_sid_def) (simp add: others_def)
qed

lemma sign_share_sum:
  fixes S :: "('s::field, 'p::ab_group_add) suite"
  assumes "suite_ok S" and "key_material S f params sid code half all P" and "set signers \<subseteq> set all"
    and "distinct signers" and "length signers = unat (threshold params)"
  shows "(\<Sum>i \<in> set signers. sign_share S (P i) (signing_data sign hash signers i)) = f 0"
proof -
  have "distinct all" "poly_lt (unat (threshold params)) f"
    using assms(2) by (simp_all add: key_material_def)
  then show ?thesis
    using zero_shares_sum [of all signers S half "ascii ''Zero shares protocol'' @ sid @ sign @ code"]
      lagrange_sum [OF assms(1,4), of "unat (threshold params)" f] assms(3,5)
    by (simp add: sign_share_eq [OF assms(1-4)] sum.distrib)
qed

section \<open>The multiplications of a group of signers\<close>

definition sign_coins_ok :: "party_index list \<Rightarrow> (party_index \<Rightarrow> 's::field sign_coins) \<Rightarrow> bool" where
  "sign_coins_ok signers C \<longleftrightarrow> (\<forall>i \<in> set signers. sc_instance_key (C i) \<noteq> 0 \<and>
     (\<forall>j \<in> set signers - {i}. length (sc_choice_bits (C i) j) = BATCH_SIZE \<and>
        length (sc_pads (C i) j) = mul_L \<and> length (sc_checks (C i) j) = mul_L))"

record 's mul_run =
  mr_chi :: 's
  mr_keep :: "'s mul_data_to_keep_receiver"
  mr_transmit :: ote_data_to_sender
  mr_out :: "'s list"
  mr_back :: "'s mul_data_to_receiver"
  mr_out' :: "'s list"

text \<open>The run of the multiplication in which \<open>i\<close> receives and \<open>j\<close> sends its two inputs.\<close>

definition exchange ::
  "('s::field, 'p::ab_group_add) suite \<Rightarrow> (party_index \<Rightarrow> ('s, 'p) party) \<Rightarrow> (party_index \<Rightarrow> sign_data) \<Rightarrow>
     (party_index \<Rightarrow> 's sign_coins) \<Rightarrow> 's list \<Rightarrow> party_index \<Rightarrow> party_index \<Rightarrow> 's mul_run \<Rightarrow> bool" where
  "exchange S P D C input i j r \<longleftrightarrow>
     (\<exists>ms mr. bt_get (mul_senders (P j)) i = Some ms \<and> bt_get (mul_receivers (P i)) j = Some mr \<and>
        mul_receiver_phase1 S mr (sc_choice_bits (C i) j) (sc_noise (C i) j) (mul_sid (P i) (D i) i j) =
          Inr (mr_chi r, mr_keep r, mr_transmit r) \<and>
        mul_sender_run S ms (sc_pads (C j) i) (sc_checks (C j) i) (mul_sid (P i) (D i) i j) input
          (mr_transmit r) = Inr (mr_out r, mr_back r) \<and>
        mul_receiver_phase2 S mr (mul_sid (P i) (D i) i j) (mr_keep r) (mr_back r) = Inr (mr_out' r) \<and>
        mr_out r ! 0 + mr_out' r ! 0 = input ! 0 * mr_chi r \<and>
        mr_out r ! 1 + mr_out' r ! 1 = input ! 1 * mr_chi r)"

lemma exchange_exists:
  fixes S :: "('s::field, 'p::ab_group_add) suite"
  assumes "suite_ok S" and "key_material S f params sid code half all P" and "set signers \<subseteq> set all"
    and "sign_coins_ok signers C" and "i \<in> set signers" and "j \<in> set signers" and "i \<noteq> j"
  shows "\<exists>r. exchange S P D C input i j r"
proof -
  have "i \<in> set all" "j \<in> set all" using assms(3,5,6) by auto
  with assms(2,7) obtain ms mr where states: "bt_get (mul_senders (P j)) i = Some ms"
    "bt_get (mul_receivers (P i)) j = Some mr" "mul_linked ms mr"
    unfolding key_material_def by (metis Diff_iff singletonD)
  have coins: "length (sc_choice_bits (C i) j) = BATCH_SIZE" "length (sc_pads (C j) i) = mul_L"
    "length (sc_checks (C j) i) = mul_L"
    using assms(4-7) by (auto simp: sign_coins_ok_def)
  from mul.honest [OF assms(1) states(3) coins, of "sc_noise (C i) j" "mul_sid (P i) (D i) i j" input]
  obtain b kept msg out bk out' where
    r: "mul_receiver_phase1 S mr (sc_choice_bits (C i) j) (sc_noise (C i) j) (mul_sid (P i) (D i) i j) =
        Inr (b, kept, msg)"
      "mul_sender_run S ms (sc_pads (C j) i) (sc_checks (C j) i) (mul_sid (P i) (D i) i j) input msg =
        Inr (out, bk)"
      "mul_receiver_phase2 S mr (mul_sid (P i) (D i) i j) kept bk = Inr out'"
      "\<forall>k < mul_L. out ! k + out' ! k = input ! k * b" by blast
  then have "exchange S P D C input i j \<lparr>mr_chi = b, mr_keep = kept, mr_transmit = msg, mr_out = out,
      mr_back = bk, mr_out' = out'\<rparr>"
    using states by (auto simp: exchange_def mul_L_def)
  then show ?thesis by blast
qed

lemma swap_others:
  fixes g :: "'a \<Rightarrow> 'a \<Rightarrow> 'b::comm_monoid_add"
  assumes "finite A"
  shows "(\<Sum>i \<in> A. \<Sum>j \<in> A - {i}. g i j) = (\<Sum>i \<in> A. \<Sum>j \<in> A - {i}. g j i)"
proof -
  have "(\<Sum>i \<in> A. \<Sum>j \<in> A - {i}. g i j) = (\<Sum>i \<in> A. \<Sum>j \<in> {j \<in> A. i \<noteq> j}. g i j)"
    by (intro sum.cong refl) auto
  also have "\<dots> = (\<Sum>j \<in> A. \<Sum>i \<in> {i \<in> A. i \<noteq> j}. g i j)"
    by (rule sum.swap_restrict) (use assms in simp_all)
  also have "\<dots> = (\<Sum>i \<in> A. \<Sum>j \<in> A - {i}. g j i)"
    by (intro sum.cong refl) auto
  finally show ?thesis .
qed

text \<open>Adding up what the signers broadcast: the shares of the products cancel the corrections
  \<open>psi\<close>, and the product of the sums is left.\<close>

lemma sum_of_broadcasts:
  fixes x phi :: "'a \<Rightarrow> 'b::field"
  assumes "finite A"
    and "\<And>i j. i \<in> A \<Longrightarrow> j \<in> A \<Longrightarrow> i \<noteq> j \<Longrightarrow> out i j + out' j i = x i * chi j i"
  shows "(\<Sum>i \<in> A. x i * (phi i + (\<Sum>j \<in> A - {i}. phi j - chi j i)) + (\<Sum>j \<in> A - {i}. out i j + out' i j)) =
    (\<Sum>i \<in> A. x i) * (\<Sum>i \<in> A. phi i)"
proof -
  have "(\<Sum>i \<in> A. \<Sum>j \<in> A - {i}. out i j + out' i j) =
      (\<Sum>i \<in> A. \<Sum>j \<in> A - {i}. out i j) + (\<Sum>i \<in> A. \<Sum>j \<in> A - {i}. out' j i)"
    using swap_others [OF assms(1), of "\<lambda>i j. out' i j"] by (simp add: sum.distrib)
  also have "\<dots> = (\<Sum>i \<in> A. \<Sum>j \<in> A - {i}. out i j + out' j i)" by (simp add: sum.distrib)
  also have "\<dots> = (\<Sum>i \<in> A. x i * (\<Sum>j \<in> A - {i}. chi j i))"
    unfolding sum_distrib_left by (intro sum.cong refl) (use assms(2) in auto)
  finally have cross: "(\<Sum>i \<in> A. \<Sum>j \<in> A - {i}. out i j + out' i j) = (\<Sum>i \<in> A. x i * (\<Sum>j \<in> A - {i}. chi j i))" .
  have phis: "phi i + (\<Sum>j \<in> A - {i}. phi j - chi j i) = (\<Sum>j \<in> A. phi j) - (\<Sum>j \<in> A - {i}. chi j i)"
    if "i \<in> A" for i
    using sum.remove [OF assms(1) that, of phi] by (simp add: sum_subtractf)
  have "(\<Sum>i \<in> A. x i * (phi i + (\<Sum>j \<in> A - {i}. phi j - chi j i))) =
      (\<Sum>i \<in> A. x i * (\<Sum>j \<in> A. phi j) - x i * (\<Sum>j \<in> A - {i}. chi j i))"
    by (intro sum.cong refl) (simp add: phis right_diff_distrib)
  also have "\<dots> = (\<Sum>i \<in> A. x i) * (\<Sum>i \<in> A. phi i) - (\<Sum>i \<in> A. x i * (\<Sum>j \<in> A - {i}. chi j i))"
    by (simp add: sum_subtractf sum_distrib_right)
  finally have "(\<Sum>i \<in> A. x i * (phi i + (\<Sum>j \<in> A - {i}. phi j - chi j i))) +
      (\<Sum>i \<in> A. \<Sum>j \<in> A - {i}. out i j + out' i j) = (\<Sum>i \<in> A. x i) * (\<Sum>i \<in> A. phi i)"
    by (simp only: cross diff_add_cancel)
  then show ?thesis by (simp only: sum.distrib [symmetric])
qed

section \<open>The rounds of a group of signers\<close>

text \<open>The share of every signer, its messages in an honest run and the runs of the multiplications.\<close>

definition group_share ::
  "('s::field, 'p) suite \<Rightarrow> (party_index \<Rightarrow> ('s, 'p) party) \<Rightarrow> (party_index \<Rightarrow> sign_data) \<Rightarrow> party_index \<Rightarrow> 's" where
  "group_share S P D i = sign_share S (P i) (D i)"

definition group_runs ::
  "('s::field, 'p::ab_group_add) suite \<Rightarrow> (party_index \<Rightarrow> ('s, 'p) party) \<Rightarrow> (party_index \<Rightarrow> sign_data) \<Rightarrow>
     (party_index \<Rightarrow> 's sign_coins) \<Rightarrow> party_index list \<Rightarrow> (party_index \<Rightarrow> party_index \<Rightarrow> 's mul_run) \<Rightarrow> bool" where
  "group_runs S P D C signers r \<longleftrightarrow> (\<forall>i \<in> set signers. \<forall>j \<in> set signers - {i}.
     exchange S P D C [sc_instance_key (C j), group_share S P D j] i j (r i j))"

definition group_message1 ::
  "('s::field, 'p) suite \<Rightarrow> (party_index \<Rightarrow> ('s, 'p) party) \<Rightarrow> (party_index \<Rightarrow> sign_data) \<Rightarrow>
     (party_index \<Rightarrow> 's sign_coins) \<Rightarrow> (party_index \<Rightarrow> party_index \<Rightarrow> 's mul_run) \<Rightarrow>
     party_index \<Rightarrow> party_index \<Rightarrow> transmit_phase1to2" where
  "group_message1 S P D C r i j = phase1_message S (P i) (D i) (C i) (\<lambda>c. mr_transmit (r i c)) j"

definition group_message2 ::
  "('s::field, 'p) suite \<Rightarrow> (party_index \<Rightarrow> ('s, 'p) party) \<Rightarrow> (party_index \<Rightarrow> sign_data) \<Rightarrow>
     (party_index \<Rightarrow> 's sign_coins) \<Rightarrow> (party_index \<Rightarrow> party_index \<Rightarrow> 's mul_run) \<Rightarrow>
     party_index \<Rightarrow> party_index \<Rightarrow> ('s, 'p) transmit_phase2to3" where
  "group_message2 S P D C r i j =
     phase2_message S (P i) (C i) (group_share S P D i) (\<lambda>c. mr_chi (r i c)) (\<lambda>c. mr_out (r c i))
       (\<lambda>c. mr_back (r c i)) j"

text \<open>The signers agree on what enters the session ids, and their inputs are in order.\<close>

definition group_ready ::
  "('s::field, 'p) suite \<Rightarrow> (party_index \<Rightarrow> ('s, 'p) party) \<Rightarrow> (party_index \<Rightarrow> sign_data) \<Rightarrow>
     party_index list \<Rightarrow> bool" where
  "group_ready S P D signers \<longleftrightarrow> distinct signers \<and> (\<forall>i \<in> set signers.
     party_index (P i) = i \<and> counterparties (D i) = others signers i \<and> phase1_input_ok (P i) (D i) \<and>
     lagrange_coefficient S i (others signers i) \<noteq> None \<and>
     (\<forall>j \<in> set signers. mul_sid (P i) (D i) = mul_sid (P j) (D j) \<and>
        own_root_digest S (P i) (D i) = own_root_digest S (P j) (D j)))"

lemma key_material_ready:
  fixes S :: "('s::field, 'p::ab_group_add) suite"
  assumes "suite_ok S" and "key_material S f params sid code half all P" and "length sid = ID_LEN"
    and "length sign = ID_LEN" and "set signers \<subseteq> set all" and "distinct signers"
    and "length signers = unat (threshold params)"
  shows "group_ready S P (signing_data sign hash signers) signers"
proof -
  have same: "session_id (P i) = sid" "chain_code (derivation_data (P i)) = code" "party_index (P i) = i"
    if "i \<in> set signers" for i
    using assms(2,5) that by (auto simp: key_material_def)
  then have "mul_sid (P i) (signing_data sign hash signers i) = mul_sid (P j) (signing_data sign hash signers j)"
    "own_root_digest S (P i) (signing_data sign hash signers i) =
      own_root_digest S (P j) (signing_data sign hash signers j)"
    if "i \<in> set signers" "j \<in> set signers" for i j
    using that by (simp_all add: fun_eq_iff mul_sid_def own_root_digest_def signing_data_def)
  moreover have "phase1_input_ok (P i) (signing_data sign hash signers i)" if "i \<in> set signers" for i
    by (rule key_material_phase1 [OF assms(2-7) that])
  moreover have "party_index (P i) = i" "lagrange_coefficient S i (others signers i) \<noteq> None"
    if "i \<in> set signers" for i
    using that same lagrange_basis [OF assms(1,6) that] by simp_all
  moreover have "counterparties (signing_data sign hash signers i) = others signers i" for i
    by (simp add: signing_data_def)
  ultimately show ?thesis
    unfolding group_ready_def using assms(6) by blast
qed

lemma group_readyD:
  assumes "group_ready S P D signers" and "i \<in> set signers"
  shows "party_index (P i) = i" "counterparties (D i) = others signers i" "phase1_input_ok (P i) (D i)"
    "lagrange_coefficient S i (others signers i) \<noteq> None"
    "j \<in> set signers \<Longrightarrow> mul_sid (P j) (D j) = mul_sid (P i) (D i)"
    "j \<in> set signers \<Longrightarrow> own_root_digest S (P j) (D j) = own_root_digest S (P i) (D i)"
  using assms unfolding group_ready_def by blast+

lemma exchangeD:
  assumes "exchange S P D C input i j r"
  shows "bt_get (mul_senders (P j)) i = Some (the (bt_get (mul_senders (P j)) i))"
    "bt_get (mul_receivers (P i)) j = Some (the (bt_get (mul_receivers (P i)) j))"
    "mul_receiver_phase1 S (the (bt_get (mul_receivers (P i)) j)) (sc_choice_bits (C i) j) (sc_noise (C i) j)
      (mul_sid (P i) (D i) i j) = Inr (mr_chi r, mr_keep r, mr_transmit r)"
    "mul_sender_run S (the (bt_get (mul_senders (P j)) i)) (sc_pads (C j) i) (sc_checks (C j) i)
      (mul_sid (P i) (D i) i j) input (mr_transmit r) = Inr (mr_out r, mr_back r)"
    "mul_receiver_phase2 S (the (bt_get (mul_receivers (P i)) j)) (mul_sid (P i) (D i) i j) (mr_keep r)
      (mr_back r) = Inr (mr_out' r)"
    "mr_out r ! 0 + mr_out' r ! 0 = input ! 0 * mr_chi r"
    "mr_out r ! 1 + mr_out' r ! 1 = input ! 1 * mr_chi r"
  using assms unfolding exchange_def by auto

lemma group_runsD:
  assumes "group_runs S P D C signers r" and "i \<in> set signers" and "j \<in> set signers" and "i \<noteq> j"
  shows "exchange S P D C [sc_instance_key (C j), group_share S P D j] i j (r i j)"
  using assms unfolding group_runs_def by blast

lemma group_round1:
  fixes S :: "('s::field, 'p::ab_group_add) suite"
  assumes "group_ready S P D signers" and "group_runs S P D C signers r" and "i \<in> set signers"
  shows "\<exists>keep. sign_phase1 S (P i) (D i) (C i) =
      Inr (phase1_keep S (P i) (D i) (C i), keep, map (group_message1 S P D C r i) (others signers i)) \<and>
    (\<forall>c \<in> set (others signers i). bt_get keep c = Some \<lparr>k1_salt = sc_salt (C i) c,
       k1_chi = mr_chi (r i c), k1_mul_keep = mr_keep (r i c)\<rparr>)"
proof -
  have ready: "party_index (P i) = i" "counterparties (D i) = others signers i" "phase1_input_ok (P i) (D i)"
    using group_readyD [OF assms(1,3)] by simp_all
  have "\<forall>c \<in> set (counterparties (D i)).
      bt_get (mul_receivers (P i)) c = Some (the (bt_get (mul_receivers (P i)) c)) \<and>
      mul_receiver_phase1 S (the (bt_get (mul_receivers (P i)) c)) (sc_choice_bits (C i) c) (sc_noise (C i) c)
        (mul_sid (P i) (D i) (party_index (P i)) c) = Inr (mr_chi (r i c), mr_keep (r i c), mr_transmit (r i c))"
  proof
    fix c assume "c \<in> set (counterparties (D i))"
    then have "c \<in> set signers" "i \<noteq> c" using ready by auto
    from exchangeD(2,3) [OF group_runsD [OF assms(2,3) this]] show
      "bt_get (mul_receivers (P i)) c = Some (the (bt_get (mul_receivers (P i)) c)) \<and>
      mul_receiver_phase1 S (the (bt_get (mul_receivers (P i)) c)) (sc_choice_bits (C i) c) (sc_noise (C i) c)
        (mul_sid (P i) (D i) (party_index (P i)) c) = Inr (mr_chi (r i c), mr_keep (r i c), mr_transmit (r i c))"
      unfolding ready(1) by blast
  qed
  from sign_phase1_honest [OF ready(3) this] show ?thesis
    by (simp add: ready group_message1_def [abs_def])
qed

lemma group_round2:
  fixes S :: "('s::field, 'p::ab_group_add) suite"
  assumes "group_ready S P D signers" and "group_runs S P D C signers r" and "i \<in> set signers"
    and "\<forall>c \<in> set (others signers i). bt_get kept c = Some \<lparr>k1_salt = sc_salt (C i) c,
       k1_chi = mr_chi (r i c), k1_mul_keep = mr_keep (r i c)\<rparr>"
    and "mset received = mset (map (\<lambda>j. group_message1 S P D C r j i) (others signers i))"
  shows "\<exists>keep qs. sign_phase2 S (P i) (D i) (C i) (phase1_keep S (P i) (D i) (C i)) kept received =
      Inr (phase2_keep S (C i) (group_share S P D i), keep, map (group_message2 S P D C r i) qs) \<and>
    mset qs = mset (others signers i) \<and>
    (\<forall>c \<in> set (others signers i). bt_get keep c = Some \<lparr>k2_c_u = mr_out (r c i) ! 0,
       k2_c_v = mr_out (r c i) ! 1, k2_commitment = t1_commitment (group_message1 S P D C r c i),
       k2_mul_keep = mr_keep (r i c), k2_chi = mr_chi (r i c)\<rparr>)"
proof -
  from reordered [OF assms(5)] obtain qs where
    qs: "received = map (\<lambda>j. group_message1 S P D C r j i) qs" "mset qs = mset (others signers i)" by blast
  have set_qs: "set qs = set signers - {i}" using qs(2) by (metis set_mset_mset set_others)
  have distinct: "distinct qs"
    using qs(2) assms(1) distinct_others [of signers i] by (metis group_ready_def mset_eq_imp_distinct_iff)
  have ready: "party_index (P i) = i" "counterparties (D i) = others signers i"
    "lagrange_coefficient S i (others signers i) \<noteq> None"
    using group_readyD [OF assms(1,3)] by simp_all
  have in_signers: "c \<in> set signers" "c \<noteq> i" if "c \<in> set qs" for c
    using that set_qs by auto
  have agree: "party_index (P c) = c" "mul_sid (P c) (D c) = mul_sid (P i) (D i)"
    "own_root_digest S (P c) (D c) = own_root_digest S (P i) (D i)" if "c \<in> set qs" for c
    using group_readyD [OF assms(1)] assms(3) in_signers [OF that] by blast+
  have sends: "bt_get (mul_senders (P i)) c = Some (the (bt_get (mul_senders (P i)) c)) \<and>
      mul_sender_run S (the (bt_get (mul_senders (P i)) c)) (sc_pads (C i) c) (sc_checks (C i) c)
        (mul_sid (P i) (D i) c (party_index (P i))) [sc_instance_key (C i), sign_share S (P i) (D i)]
        (t1_mul_transmit (group_message1 S P D C r c i)) = Inr (mr_out (r c i), mr_back (r c i))"
    if "c \<in> set qs" for c
  proof -
    from exchangeD(1,4) [OF group_runsD [OF assms(2) in_signers(1) [OF that] assms(3) in_signers(2) [OF that]]]
    show ?thesis
      unfolding agree(2) [OF that] ready(1) group_share_def group_message1_def phase1_message_def by simp
  qed
  have "\<exists>keep. sign_phase2 S (P i) (D i) (C i) (phase1_keep S (P i) (D i) (C i)) kept
        (map (\<lambda>j. group_message1 S P D C r j i) qs) =
      Inr (phase2_keep S (C i) (sign_share S (P i) (D i)), keep,
        map (phase2_message S (P i) (C i) (sign_share S (P i) (D i)) (\<lambda>c. mr_chi (r i c))
          (\<lambda>c. mr_out (r c i)) (\<lambda>c. mr_back (r c i))) qs) \<and>
    (\<forall>c \<in> set qs. bt_get keep c = Some \<lparr>k2_c_u = mr_out (r c i) ! 0,
       k2_c_v = mr_out (r c i) ! 1, k2_commitment = t1_commitment (group_message1 S P D C r c i),
       k2_mul_keep = mr_keep (r i c), k2_chi = mr_chi (r i c)\<rparr>)"
  proof (rule sign_phase2_honest)
    show "\<forall>c \<in> set qs. t1_parties (group_message1 S P D C r c i) = \<lparr>sender = c, receiver = party_index (P i)\<rparr> \<and>
      t1_protocol_version (group_message1 S P D C r c i) = PROTOCOL_VERSION \<and>
      t1_root_digest (group_message1 S P D C r c i) = own_root_digest S (P i) (D i)"
      using agree ready by (simp add: group_message1_def phase1_message_def)
  qed (use ready qs distinct set_qs sends assms(4) in auto)
  with qs set_qs show ?thesis
    by (auto simp: group_share_def group_message2_def [abs_def])
qed

lemma phase3_good_honest:
  fixes S :: "('s::field, 'p::ab_group_add) suite"
  assumes "suite_ok S" and "group_ready S P D signers" and "group_runs S P D C signers r"
    and "i \<in> set signers" and "c \<in> set signers" and "c \<noteq> i" and "sc_instance_key (C c) \<noteq> 0"
    and "bt_get kept c = Some \<lparr>k2_c_u = mr_out (r c i) ! 0, k2_c_v = mr_out (r c i) ! 1,
      k2_commitment = t1_commitment (group_message1 S P D C r c i),
      k2_mul_keep = mr_keep (r i c), k2_chi = mr_chi (r i c)\<rparr>"
  shows "phase3_good S (P i) (D i) kept (\<lambda>c. mr_out (r c i)) (\<lambda>c. mr_out' (r i c))
    (\<lambda>c. group_message2 S P D C r c i) c"
proof -
  note e = exchangeD [OF group_runsD [OF assms(3,4,5) assms(6) [symmetric]]]
  have idx: "party_index (P c) = c" "party_index (P i) = i" "counterparties (D i) = others signers i"
    using group_readyD [OF assms(2)] assms(4,5) by blast+
  have point: "pmul S (generator S) (sc_instance_key (C c)) \<noteq> 0"
    using assms(1,7) by (simp add: pmul_eq_0_iff generator_nonzero)
  have opens: "verify_commitment_point S (pmul S (generator S) (sc_instance_key (C c)))
      (fst (commit_point S (sc_salt (C c) i) (pmul S (generator S) (sc_instance_key (C c))))) (sc_salt (C c) i)"
    by (rule point_commit.honest_opening) (simp add: commit_point_def commit_def)
  have gamma: "pmul S (pmul S (generator S) x) chi = pmul S (generator S) o' + pmul S (generator S) o1"
    if "o1 + o' = x * chi" for x chi o1 o'
    using assms(1) that by (metis add.commute pmul_add pmul_mult)
  obtain mr where mr: "bt_get (mul_receivers (P i)) c = Some mr" using e(2) by simp
  show ?thesis
    unfolding phase3_good_def
    using mr e(5) [unfolded mr option.sel] point opens gamma [OF e(6)] gamma [OF e(7)] assms(5,6,8) idx
    by (simp add: group_message2_def phase2_message_def group_message1_def phase1_message_def group_share_def)
qed

text \<open>The values of \<open>u\<close> and \<open>v\<close> a signer arrives at.\<close>

definition cross_sum :: "party_index list \<Rightarrow> (party_index \<Rightarrow> 's::field sign_coins) \<Rightarrow>
  (party_index \<Rightarrow> party_index \<Rightarrow> 's mul_run) \<Rightarrow> nat \<Rightarrow> (party_index \<Rightarrow> 's) \<Rightarrow> party_index \<Rightarrow> 's" where
  "cross_sum signers C r n x i =
     x i * (sc_inversion_mask (C i) + (\<Sum>j \<in> set signers - {i}. sc_inversion_mask (C j) - mr_chi (r j i))) +
     (\<Sum>j \<in> set signers - {i}. mr_out (r j i) ! n + mr_out' (r i j) ! n)"

lemma cross_sum_total:
  assumes "group_runs S P D C signers r"
  shows "(\<Sum>i \<in> set signers. cross_sum signers C r 0 (\<lambda>i. sc_instance_key (C i)) i) =
      (\<Sum>i \<in> set signers. sc_instance_key (C i)) * (\<Sum>i \<in> set signers. sc_inversion_mask (C i))"
    "(\<Sum>i \<in> set signers. cross_sum signers C r 1 (group_share S P D) i) =
      (\<Sum>i \<in> set signers. group_share S P D i) * (\<Sum>i \<in> set signers. sc_inversion_mask (C i))"
proof -
  have "mr_out (r j i) ! 0 + mr_out' (r j i) ! 0 = sc_instance_key (C i) * mr_chi (r j i)"
    "mr_out (r j i) ! 1 + mr_out' (r j i) ! 1 = group_share S P D i * mr_chi (r j i)"
    if "i \<in> set signers" "j \<in> set signers" "i \<noteq> j" for i j
    using exchangeD(6,7) [OF group_runsD [OF assms that(2,1) that(3) [symmetric]]] by simp_all
  then show "(\<Sum>i \<in> set signers. cross_sum signers C r 0 (\<lambda>i. sc_instance_key (C i)) i) =
      (\<Sum>i \<in> set signers. sc_instance_key (C i)) * (\<Sum>i \<in> set signers. sc_inversion_mask (C i))"
    "(\<Sum>i \<in> set signers. cross_sum signers C r 1 (group_share S P D) i) =
      (\<Sum>i \<in> set signers. group_share S P D i) * (\<Sum>i \<in> set signers. sc_inversion_mask (C i))"
    unfolding cross_sum_def by (intro sum_of_broadcasts; simp)+
qed

definition group_broadcast ::
  "('s::field, 'p::ab_group_add) suite \<Rightarrow> (party_index \<Rightarrow> ('s, 'p) party) \<Rightarrow> (party_index \<Rightarrow> sign_data) \<Rightarrow>
     (party_index \<Rightarrow> 's sign_coins) \<Rightarrow> party_index list \<Rightarrow> (party_index \<Rightarrow> party_index \<Rightarrow> 's mul_run) \<Rightarrow>
     's \<Rightarrow> 's \<Rightarrow> party_index \<Rightarrow> 's broadcast3to4" where
  "group_broadcast S P D C signers r m rx i =
     \<lparr>b_u = cross_sum signers C r 0 (\<lambda>i. sc_instance_key (C i)) i,
      b_w = m * sc_inversion_mask (C i) + cross_sum signers C r 1 (group_share S P D) i * rx\<rparr>"

lemma sum_others:
  assumes "mset qs = mset (others signers i)" and "distinct signers"
  shows "(\<Sum>c \<leftarrow> qs. g c) = (\<Sum>c \<in> set signers - {i}. g c)"
proof -
  have "distinct qs" "set qs = set signers - {i}"
    using assms distinct_others [of signers i] mset_eq_imp_distinct_iff [OF assms(1)]
      mset_eq_setD [OF assms(1)] by auto
  then show ?thesis by (simp flip: sum.distinct_set_conv_list)
qed

lemma group_phase3_done:
  fixes S :: "('s::field, 'p::ab_group_add) suite"
  assumes "suite_ok S" and "group_ready S P D signers" and "i \<in> set signers" and "mset qs = mset (others signers i)"
    and "d = phase3_done S (C i) (group_share S P D i) (\<lambda>c. group_message2 S P D C r c i)
      (\<lambda>c. mr_out (r c i)) (\<lambda>c. mr_out' (r i c)) qs"
  shows "expected_public_key d = pmul S (generator S) (\<Sum>c \<in> set signers. group_share S P D c)"
    and "total_instance_point d = pmul S (generator S) (\<Sum>c \<in> set signers. sc_instance_key (C c))"
    and "sc_instance_key (C i) * first_sum_u_v d + second_sum_u d = cross_sum signers C r 0 (\<lambda>i. sc_instance_key (C i)) i"
    and "group_share S P D i * first_sum_u_v d + second_sum_v d = cross_sum signers C r 1 (group_share S P D) i"
proof -
  have dist: "distinct signers" using assms(2) by (simp add: group_ready_def)
  note sums' = sum_others [OF assms(4) dist]
  have gather: "pmul S (generator S) (x i) + (\<Sum>c \<in> set signers - {i}. pmul S (generator S) (x c)) =
      pmul S (generator S) (\<Sum>c \<in> set signers. x c)" for x
    using sum.remove [of "set signers" i x] assms(3) by (simp add: pmul_add [OF assms(1)] pmul_sum [OF assms(1)])
  show "expected_public_key d = pmul S (generator S) (\<Sum>c \<in> set signers. group_share S P D c)"
    "total_instance_point d = pmul S (generator S) (\<Sum>c \<in> set signers. sc_instance_key (C c))"
    unfolding assms(5) phase3_done_def
    using gather [of "group_share S P D"] gather [of "\<lambda>c. sc_instance_key (C c)"]
    by (simp_all add: sums' group_message2_def phase2_message_def)
  show "sc_instance_key (C i) * first_sum_u_v d + second_sum_u d = cross_sum signers C r 0 (\<lambda>i. sc_instance_key (C i)) i"
    "group_share S P D i * first_sum_u_v d + second_sum_v d = cross_sum signers C r 1 (group_share S P D) i"
    unfolding assms(5) phase3_done_def cross_sum_def
    by (simp_all add: sums' group_message2_def phase2_message_def)
qed

lemma group_round3:
  fixes S :: "('s::field, 'p::ab_group_add) suite"
  assumes "suite_ok S" and "group_ready S P D signers" and "group_runs S P D C signers r" and "i \<in> set signers"
    and "\<forall>c \<in> set signers. sc_instance_key (C c) \<noteq> 0"
    and "\<forall>c \<in> set (others signers i). bt_get kept c = Some \<lparr>k2_c_u = mr_out (r c i) ! 0,
       k2_c_v = mr_out (r c i) ! 1, k2_commitment = t1_commitment (group_message1 S P D C r c i),
       k2_mul_keep = mr_keep (r i c), k2_chi = mr_chi (r i c)\<rparr>"
    and "mset received = mset (map (\<lambda>j. group_message2 S P D C r j i) (others signers i))"
    and "pk (P i) = pmul S (generator S) (\<Sum>c \<in> set signers. group_share S P D c)"
    and "R = pmul S (generator S) (\<Sum>c \<in> set signers. sc_instance_key (C c))" and "R \<noteq> 0"
  shows "sign_phase3 S (P i) (D i) (phase2_keep S (C i) (group_share S P D i)) kept received =
    Some (Inr (hex_encode S (x_bytes S R),
      group_broadcast S P D C signers r (reduce_hash_bytes S (message_hash (D i)))
        (reduce_bytes S (x_bytes S R)) i))"
proof -
  from reordered [OF assms(7)] obtain qs where
    qs: "received = map (\<lambda>j. group_message2 S P D C r j i) qs" "mset qs = mset (others signers i)" by blast
  have set_qs: "set qs = set signers - {i}" using qs(2) by (metis set_mset_mset set_others)
  have dist: "distinct qs"
    using qs(2) assms(2) distinct_others [of signers i] by (metis group_ready_def mset_eq_imp_distinct_iff)
  define d where "d = phase3_done S (C i) (group_share S P D i) (\<lambda>c. group_message2 S P D C r c i)
      (\<lambda>c. mr_out (r c i)) (\<lambda>c. mr_out' (r i c)) qs"
  note total = group_phase3_done [OF assms(1,2,4) qs(2) d_def]
  have good: "\<forall>c \<in> set qs. phase3_good S (P i) (D i) kept (\<lambda>c. mr_out (r c i)) (\<lambda>c. mr_out' (r i c))
      (\<lambda>c. group_message2 S P D C r c i) c"
  proof
    fix c assume "c \<in> set qs"
    then have "c \<in> set signers" "c \<noteq> i" "c \<in> set (others signers i)" using set_qs by auto
    then show "phase3_good S (P i) (D i) kept (\<lambda>c. mr_out (r c i)) (\<lambda>c. mr_out' (r i c))
      (\<lambda>c. group_message2 S P D C r c i) c"
      using assms(5,6) by (intro phase3_good_honest [OF assms(1-4)]) blast+
  qed
  have "sign_phase3_sums S (P i) (D i) (phase2_keep S (C i) (group_share S P D i)) kept received = Inr d"
    unfolding qs(1)
  proof (rule sign_phase3_honest [OF good _ dist d_def])
    show "mset qs = mset (counterparties (D i))"
      using qs(2) group_readyD(2) [OF assms(2,4)] by simp
    show "expected_public_key d = pk (P i)" unfolding assms(8) by (rule total(1))
    show "total_instance_point d \<noteq> 0" using total(2) assms(9,10) by simp
  qed
  then show ?thesis
    using total assms(1,9) by (simp add: sign_phase3_def parse_hex_encoded len_simps phase2_keep_def
        group_broadcast_def add.commute mult.commute)
qed

section \<open>The whole protocol\<close>

lemma group_phase4:
  fixes S :: "('s::field, 'p::ab_group_add) suite"
  assumes "suite_ok S" and "group_runs S P D C signers r" and "distinct signers"
    and "mset bs = mset (map (group_broadcast S P D C signers r m rx) signers)"
    and "(\<Sum>i \<in> set signers. sc_instance_key (C i)) = k" and "(\<Sum>i \<in> set signers. sc_inversion_mask (C i)) \<noteq> 0"
    and "(\<Sum>i \<in> set signers. group_share S P D i) = sk" and "k \<noteq> 0"
  shows "(\<Sum>b \<leftarrow> bs. b_u b) \<noteq> 0" and "raw_s bs = (m + rx * sk) / k"
proof -
  have lists: "(\<Sum>b \<leftarrow> bs. g b) = (\<Sum>i \<in> set signers. g (group_broadcast S P D C signers r m rx i))" for g
  proof -
    have "(\<Sum>b \<leftarrow> bs. g b) = (\<Sum>i \<leftarrow> signers. g (group_broadcast S P D C signers r m rx i))"
      using arg_cong [OF assms(4), of "\<lambda>M. \<Sum>\<^sub># (image_mset g M)"]
      by (simp flip: sum_mset_sum_list add: multiset.map_comp comp_def)
    then show ?thesis using assms(3) by (simp flip: sum.distinct_set_conv_list)
  qed
  let ?phi = "\<Sum>i \<in> set signers. sc_inversion_mask (C i)"
  have u: "(\<Sum>b \<leftarrow> bs. b_u b) = k * ?phi"
    using cross_sum_total(1) [OF assms(2)] by (simp add: lists group_broadcast_def assms(5))
  then show "(\<Sum>b \<leftarrow> bs. b_u b) \<noteq> 0" using assms(6,8) by simp
  have "(\<Sum>b \<leftarrow> bs. b_w b) = m * ?phi + sk * ?phi * rx"
    using cross_sum_total(2) [OF assms(2)]
    by (simp add: lists group_broadcast_def assms(7) sum.distrib flip: sum_distrib_left sum_distrib_right)
  also have "\<dots> = (m + rx * sk) * ?phi" by (simp add: algebra_simps)
  finally show "raw_s bs = (m + rx * sk) / k"
    using assms(6) by (simp add: raw_s_def u)
qed

lemma honest_phase4:
  fixes S :: "('s::field, 'p::ab_group_add) suite"
  assumes "suite_ok S" and "group_runs S P D C signers e" and "distinct signers"
    and "mset bs = mset (map (group_broadcast S P D C signers e m r) signers)"
    and "(\<Sum>i \<in> set signers. sc_instance_key (C i)) = k" and "(\<Sum>i \<in> set signers. sc_inversion_mask (C i)) \<noteq> 0"
    and "(\<Sum>i \<in> set signers. group_share S P D i) = sk" and "k \<noteq> 0"
    and "s = (if low_s \<and> is_high S ((m + r * sk) / k) then - ((m + r * sk) / k) else (m + r * sk) / k)" and "s \<noteq> 0"
    and "verify_ecdsa_signature S (message_hash (D i)) (pk (P i)) (hex_encode S (to_repr S r)) (hex_encode S (to_repr S s))"
  shows "sign_phase4 S (P i) (D i) (hex_encode S (to_repr S r)) bs low_s =
    Some (Inr (hex_encode S (to_repr S s), recovery_id S (P i) (D i) (to_repr S r) r s))"
proof -
  note raw = group_phase4 [OF assms(1-8)]
  have "final_s S bs low_s = s" unfolding final_s_def raw(2) assms(9) ..
  then show ?thesis
    using raw(1) assms(1,10,11) by (simp add: sign_phase4_eq hex_roundtrip len_simps reduce_to_repr)
qed

text \<open>The rounds one after the other, for some messages in between; \<open>order1\<close> and \<open>order2\<close> permute
  what reaches a party.\<close>

lemma honest_rounds:
  fixes S :: "('s::field, 'p::ab_group_add) suite"
  assumes "suite_ok S" and "group_ready S P D signers" and "group_runs S P D C signers r"
    and "\<forall>c \<in> set signers. sc_instance_key (C c) \<noteq> 0"
    and "\<forall>i \<in> set signers. pk (P i) = pmul S (generator S) (\<Sum>c \<in> set signers. group_share S P D c)"
    and "R = pmul S (generator S) (\<Sum>c \<in> set signers. sc_instance_key (C c))" and "R \<noteq> 0"
    and "\<forall>i xs. mset (order1 i xs) = mset xs" and "\<forall>i xs. mset (order2 i xs) = mset xs"
  shows "\<exists>U1 K1 T1 U2 K2 T2. \<forall>i \<in> set signers.
    sign_phase1 S (P i) (D i) (C i) = Inr (U1 i, K1 i, T1 i) \<and>
    sign_phase2 S (P i) (D i) (C i) (U1 i) (K1 i) (order1 i (inbox t1_parties T1 signers i)) =
      Inr (U2 i, K2 i, T2 i) \<and>
    sign_phase3 S (P i) (D i) (U2 i) (K2 i) (order2 i (inbox t2_parties T2 signers i)) =
      Some (Inr (hex_encode S (x_bytes S R), group_broadcast S P D C signers r
        (reduce_hash_bytes S (message_hash (D i))) (reduce_bytes S (x_bytes S R)) i))"
proof -
  have dist: "distinct signers" using assms(2) by (simp add: group_ready_def)
  define U1 T1 U2 where "U1 i = phase1_keep S (P i) (D i) (C i)"
    and "T1 i = map (group_message1 S P D C r i) (others signers i)"
    and "U2 i = phase2_keep S (C i) (group_share S P D i)" for i
  from group_round1 [OF assms(2,3)] obtain K1 where K1:
    "\<forall>i \<in> set signers. sign_phase1 S (P i) (D i) (C i) = Inr (U1 i, K1 i, T1 i) \<and>
      (\<forall>c \<in> set (others signers i). bt_get (K1 i) c = Some \<lparr>k1_salt = sc_salt (C i) c,
         k1_chi = mr_chi (r i c), k1_mul_keep = mr_keep (r i c)\<rparr>)"
    unfolding U1_def T1_def by metis
  have in1: "mset (order1 i (inbox t1_parties T1 signers i)) =
      mset (map (\<lambda>j. group_message1 S P D C r j i) (others signers i))" if "i \<in> set signers" for i
    unfolding assms(8) [rule_format]
    by (rule inbox_mset [where msg = "group_message1 S P D C r", OF _ dist _ that], simp add: T1_def)
      (simp add: group_message1_def phase1_message_def)
  have "\<forall>i \<in> set signers. \<exists>keep qs. sign_phase2 S (P i) (D i) (C i) (U1 i) (K1 i)
        (order1 i (inbox t1_parties T1 signers i)) = Inr (U2 i, keep, map (group_message2 S P D C r i) qs) \<and>
      mset qs = mset (others signers i) \<and>
      (\<forall>c \<in> set (others signers i). bt_get keep c = Some \<lparr>k2_c_u = mr_out (r c i) ! 0,
       k2_c_v = mr_out (r c i) ! 1, k2_commitment = t1_commitment (group_message1 S P D C r c i),
       k2_mul_keep = mr_keep (r i c), k2_chi = mr_chi (r i c)\<rparr>)"
    unfolding U1_def U2_def by (intro ballI group_round2 [OF assms(2,3)] in1) (use K1 in blast)+
  then obtain K2 qs where K2: "\<forall>i \<in> set signers. sign_phase2 S (P i) (D i) (C i) (U1 i) (K1 i)
        (order1 i (inbox t1_parties T1 signers i)) = Inr (U2 i, K2 i, map (group_message2 S P D C r i) (qs i)) \<and>
      mset (qs i) = mset (others signers i) \<and>
      (\<forall>c \<in> set (others signers i). bt_get (K2 i) c = Some \<lparr>k2_c_u = mr_out (r c i) ! 0,
       k2_c_v = mr_out (r c i) ! 1, k2_commitment = t1_commitment (group_message1 S P D C r c i),
       k2_mul_keep = mr_keep (r i c), k2_chi = mr_chi (r i c)\<rparr>)"
    by metis
  define T2 where "T2 i = map (group_message2 S P D C r i) (qs i)" for i
  have in2: "mset (order2 i (inbox t2_parties T2 signers i)) =
      mset (map (\<lambda>j. group_message2 S P D C r j i) (others signers i))" if "i \<in> set signers" for i
    unfolding assms(9) [rule_format]
    by (rule inbox_mset [where msg = "group_message2 S P D C r", OF _ dist _ that], use K2 in \<open>simp add: T2_def\<close>)
      (simp add: group_message2_def phase2_message_def)
  have phase3: "\<forall>i \<in> set signers. sign_phase3 S (P i) (D i) (U2 i) (K2 i) (order2 i (inbox t2_parties T2 signers i)) =
      Some (Inr (hex_encode S (x_bytes S R), group_broadcast S P D C signers r
        (reduce_hash_bytes S (message_hash (D i))) (reduce_bytes S (x_bytes S R)) i))"
  proof
    fix i assume i: "i \<in> set signers"
    note k2 = K2 [rule_format, OF i, THEN conjunct2, THEN conjunct2]
    show "sign_phase3 S (P i) (D i) (U2 i) (K2 i) (order2 i (inbox t2_parties T2 signers i)) =
      Some (Inr (hex_encode S (x_bytes S R), group_broadcast S P D C signers r
        (reduce_hash_bytes S (message_hash (D i))) (reduce_bytes S (x_bytes S R)) i))"
      unfolding U2_def
      by (rule group_round3 [OF assms(1-3) i assms(4) k2 in2 [OF i] assms(5) [rule_format, OF i] assms(6,7)])
  qed
  show ?thesis
  proof (intro exI ballI conjI)
    fix i assume i: "i \<in> set signers"
    show "sign_phase1 S (P i) (D i) (C i) = Inr (U1 i, K1 i, T1 i)" using K1 i by blast
    show "sign_phase2 S (P i) (D i) (C i) (U1 i) (K1 i) (order1 i (inbox t1_parties T1 signers i)) =
      Inr (U2 i, K2 i, T2 i)" using K2 i unfolding T2_def by blast
    show "sign_phase3 S (P i) (D i) (U2 i) (K2 i) (order2 i (inbox t2_parties T2 signers i)) =
      Some (Inr (hex_encode S (x_bytes S R), group_broadcast S P D C signers r
        (reduce_hash_bytes S (message_hash (D i))) (reduce_bytes S (x_bytes S R)) i))"
      using phase3 i by blast
  qed
qed

text \<open>The four phases of honest signers.\<close>

lemma sign_rounds:
  fixes S :: "('s::field, 'p::ab_group_add) suite"
  assumes "suite_ok S" and "key_material S f params sid code half all P" and "length sid = ID_LEN"
    and "length sign = ID_LEN" and "set signers \<subseteq> set all" and "distinct signers"
    and "length signers = unat (threshold params)" and "sign_coins_ok signers C"
    and "k = (\<Sum>i \<in> set signers. sc_instance_key (C i))" and "k \<noteq> 0"
    and "(\<Sum>i \<in> set signers. sc_inversion_mask (C i)) \<noteq> 0"
    and "r = reduce_bytes S (x_bytes S (pmul S (generator S) k))"
    and "to_repr S r = x_bytes S (pmul S (generator S) k)" and "r \<noteq> 0"
    and "reduce_hash_bytes S hash + r * f 0 \<noteq> 0"
    and "\<forall>i xs. mset (order1 i xs) = mset xs" and "\<forall>i xs. mset (order2 i xs) = mset xs"
  shows "\<exists>U1 K1 T1 U2 K2 T2 B s rec_id.
    (\<forall>i \<in> set signers.
      sign_phase1 S (P i) (signing_data sign hash signers i) (C i) = Inr (U1 i, K1 i, T1 i) \<and>
      sign_phase2 S (P i) (signing_data sign hash signers i) (C i) (U1 i) (K1 i)
        (order1 i (inbox t1_parties T1 signers i)) = Inr (U2 i, K2 i, T2 i) \<and>
      sign_phase3 S (P i) (signing_data sign hash signers i) (U2 i) (K2 i)
        (order2 i (inbox t2_parties T2 signers i)) = Some (Inr (hex_encode S (to_repr S r), B i)) \<and>
      (\<forall>bs. mset bs = mset (map B signers) \<longrightarrow>
        sign_phase4 S (P i) (signing_data sign hash signers i) (hex_encode S (to_repr S r)) bs low_s =
          Some (Inr (hex_encode S (to_repr S s), rec_id)))) \<and>
    (s = (reduce_hash_bytes S hash + r * f 0) / k \<or> s = - ((reduce_hash_bytes S hash + r * f 0) / k)) \<and>
    verify_ecdsa_signature S hash (pmul S (generator S) (f 0)) (hex_encode S (to_repr S r))
      (hex_encode S (to_repr S s))"
proof -
  let ?D = "signing_data sign hash signers" and ?R = "pmul S (generator S) k" and ?m = "reduce_hash_bytes S hash"
  define s0 where "s0 = (?m + r * f 0) / k"
  define s where "s = (if low_s \<and> is_high S s0 then - s0 else s0)"
  have ready: "group_ready S P ?D signers" by (rule key_material_ready [OF assms(1-7)])
  have "\<forall>i \<in> set signers. \<forall>j \<in> set signers - {i}. \<exists>e.
      exchange S P ?D C [sc_instance_key (C j), group_share S P ?D j] i j e"
    using exchange_exists [OF assms(1,2,5,8)] by blast
  then obtain e where runs: "group_runs S P ?D C signers e" unfolding group_runs_def by metis
  have sk: "(\<Sum>c \<in> set signers. group_share S P ?D c) = f 0"
    unfolding group_share_def by (rule sign_share_sum [OF assms(1,2,5,6,7)])
  have pks: "pk (P i) = pmul S (generator S) (f 0)" if "i \<in> set signers" for i
    using assms(2,5) that by (auto simp: key_material_def)
  have R: "?R \<noteq> 0" using assms(1,10) by (simp add: pmul_eq_0_iff generator_nonzero)
  have keys: "\<forall>c \<in> set signers. sc_instance_key (C c) \<noteq> 0" using assms(8) by (simp add: sign_coins_ok_def)
  have pk_sum: "\<forall>i \<in> set signers. pk (P i) = pmul S (generator S) (\<Sum>c \<in> set signers. group_share S P ?D c)"
    using pks sk by simp
  have R_sum: "?R = pmul S (generator S) (\<Sum>i \<in> set signers. sc_instance_key (C i))" using assms(9) by simp
  define B where "B = group_broadcast S P ?D C signers e ?m r"
  have msg: "message_hash (?D i) = hash" for i by (simp add: signing_data_def)
  obtain U1 K1 T1 U2 K2 T2 where rounds: "\<forall>i \<in> set signers.
      sign_phase1 S (P i) (?D i) (C i) = Inr (U1 i, K1 i, T1 i) \<and>
      sign_phase2 S (P i) (?D i) (C i) (U1 i) (K1 i) (order1 i (inbox t1_parties T1 signers i)) =
        Inr (U2 i, K2 i, T2 i) \<and>
      sign_phase3 S (P i) (?D i) (U2 i) (K2 i) (order2 i (inbox t2_parties T2 signers i)) =
        Some (Inr (hex_encode S (to_repr S r), B i))"
    using honest_rounds [OF assms(1) ready runs keys pk_sum R_sum R assms(16,17)]
    unfolding msg B_def assms(12) [symmetric] unfolding assms(13) [symmetric] by blast
  have "s0 \<noteq> 0" using assms(10,15) by (simp add: s0_def)
  then have "ecdsa_valid S ?m (pmul S (generator S) (f 0)) r s"
    using ecdsa_valid_signed [OF assms(1,10) s0_def assms(14) _ assms(12) [symmetric]] by (simp add: s_def)
  then have valid: "verify_ecdsa_signature S hash (pmul S (generator S) (f 0)) (hex_encode S (to_repr S r))
      (hex_encode S (to_repr S s))"
    using assms(1) by (simp add: verify_valid parse_hex_encoded len_simps from_repr_to_repr)
  obtain i0 where i0: "i0 \<in> set signers" using assms(9,10) by (metis sum.not_neutral_contains_not_neutral)
  let ?rec = "recovery_id S (P i0) (?D i0) (to_repr S r) r s"
  have phase4: "sign_phase4 S (P i) (?D i) (hex_encode S (to_repr S r)) bs low_s =
        Some (Inr (hex_encode S (to_repr S s), ?rec))"
    if i: "i \<in> set signers" and bs: "mset bs = mset (map B signers)" for i bs
  proof -
    have "s \<noteq> 0" using \<open>s0 \<noteq> 0\<close> by (simp add: s_def)
    then have "sign_phase4 S (P i) (?D i) (hex_encode S (to_repr S r)) bs low_s =
        Some (Inr (hex_encode S (to_repr S s), recovery_id S (P i) (?D i) (to_repr S r) r s))"
      using valid by (intro honest_phase4 [OF assms(1) runs assms(6) bs [unfolded B_def] assms(9) [symmetric] assms(11)
          sk assms(10) s_def [unfolded s0_def]]) (simp_all add: msg pks i)
    moreover have "recovery_id S (P i) (?D i) (to_repr S r) r s = ?rec"
      by (simp add: recovery_id_def msg pks i i0)
    ultimately show ?thesis by simp
  qed
  have "s = (?m + r * f 0) / k \<or> s = - ((?m + r * f 0) / k)" by (simp add: s_def s0_def)
  with valid rounds phase4 have
    "(\<forall>i \<in> set signers.
      sign_phase1 S (P i) (?D i) (C i) = Inr (U1 i, K1 i, T1 i) \<and>
      sign_phase2 S (P i) (?D i) (C i) (U1 i) (K1 i) (order1 i (inbox t1_parties T1 signers i)) =
        Inr (U2 i, K2 i, T2 i) \<and>
      sign_phase3 S (P i) (?D i) (U2 i) (K2 i) (order2 i (inbox t2_parties T2 signers i)) =
        Some (Inr (hex_encode S (to_repr S r), B i)) \<and>
      (\<forall>bs. mset bs = mset (map B signers) \<longrightarrow>
        sign_phase4 S (P i) (?D i) (hex_encode S (to_repr S r)) bs low_s =
          Some (Inr (hex_encode S (to_repr S s), ?rec)))) \<and>
    (s = (?m + r * f 0) / k \<or> s = - ((?m + r * f 0) / k)) \<and>
    verify_ecdsa_signature S hash (pmul S (generator S) (f 0)) (hex_encode S (to_repr S r))
      (hex_encode S (to_repr S s))" by blast
  then show ?thesis by (intro exI)
qed

text \<open>C4: honest signing succeeds.  Let the signers be threshold many parties of one key, with
  nonzero instance keys, whose sum and whose sum of inversion masks are not zero; let \<open>r\<close>, the reduced
  x-coordinate of the total instance point, be canonical and nonzero and \<open>m + r sk\<close> be nonzero.
  Then, in whatever order the messages and the broadcasts arrive, no phase of any signer aborts or
  panics, all of them return the same signature with \<open>s\<close> equal to \<open>(m + r sk) / k\<close> up to the
  low-S sign, and it verifies under the public key.\<close>

theorem sign_honest_run:
  fixes S :: "('s::field, 'p::ab_group_add) suite"
  assumes "suite_ok S" and "key_material S f params sid code half all P" and "length sid = ID_LEN"
    and "length sign = ID_LEN" and "set signers \<subseteq> set all" and "distinct signers"
    and "length signers = unat (threshold params)" and "sign_coins_ok signers C"
    and "k = (\<Sum>i \<in> set signers. sc_instance_key (C i))" and "k \<noteq> 0"
    and "(\<Sum>i \<in> set signers. sc_inversion_mask (C i)) \<noteq> 0"
    and "r = reduce_bytes S (x_bytes S (pmul S (generator S) k))"
    and "to_repr S r = x_bytes S (pmul S (generator S) k)" and "r \<noteq> 0"
    and "reduce_hash_bytes S hash + r * f 0 \<noteq> 0"
    and "\<forall>i xs. mset (order1 i xs) = mset xs" and "\<forall>i xs. mset (order2 i xs) = mset xs"
  shows "\<exists>U1 K1 T1 U2 K2 T2 B s rec_id.
    (\<forall>i \<in> set signers.
      sign_phase1 S (P i) (signing_data sign hash signers i) (C i) = Inr (U1 i, K1 i, T1 i) \<and>
      sign_phase2 S (P i) (signing_data sign hash signers i) (C i) (U1 i) (K1 i)
        (order1 i (inbox t1_parties T1 signers i)) = Inr (U2 i, K2 i, T2 i) \<and>
      sign_phase3 S (P i) (signing_data sign hash signers i) (U2 i) (K2 i)
        (order2 i (inbox t2_parties T2 signers i)) = Some (Inr (hex_encode S (to_repr S r), B i)) \<and>
      (\<forall>bs. mset bs = mset (map B signers) \<longrightarrow>
        sign_phase4 S (P i) (signing_data sign hash signers i) (hex_encode S (to_repr S r)) bs low_s =
          Some (Inr (hex_encode S (to_repr S s), rec_id)))) \<and>
    (s = (reduce_hash_bytes S hash + r * f 0) / k \<or> s = - ((reduce_hash_bytes S hash + r * f 0) / k)) \<and>
    verify_ecdsa_signature S hash (pmul S (generator S) (f 0)) (hex_encode S (to_repr S r))
      (hex_encode S (to_repr S s))"
  using assms by (rule sign_rounds)

text \<open>The parties 1 and 3 of a key with three parties and threshold 2.\<close>

definition sample_coins_of :: "party_index \<Rightarrow> gf257 sign_coins" where
  "sample_coins_of i = sample_sign_coins (of_nat (unat (as_u8 i)))"

lemma sample_key_material:
  "key_material sample_suite (\<lambda>x. 7 + 5 * x) \<lparr>threshold = 2, share_count = 3\<rparr> (replicate 32 9) (replicate 32 3)
    (\<lambda>i j. replicate 32 (as_u8 i)) [PartyIndex 1, PartyIndex 2, PartyIndex 3] sample_signer"
proof -
  have "poly_lt (unat (2 :: u8)) (\<lambda>x :: gf257. 7 + 5 * x)"
  proof -
    have "horner [7, 5] = (\<lambda>x :: gf257. 7 + 5 * x)" by (simp add: fun_eq_iff mult.commute)
    moreover have "unat (2 :: u8) = length [7, 5 :: gf257]" by simp
    ultimately show ?thesis using horner_poly [of "[7, 5] :: gf257 list"] by metis
  qed
  then show ?thesis
    by (simp add: key_material_def params_ok_def sample_signer_def index_scalar_def sample_deriv_def bt_get_def
        sample_mul_linked) auto
qed

lemma sign_honest_run_witness:
  "\<exists>B s rec_id. (\<forall>i \<in> {PartyIndex 1, PartyIndex 3}.
      sign_phase4 sample_suite (sample_signer i) (signing_data (replicate 32 8) (gf_repr 3) [PartyIndex 1, PartyIndex 3] i)
        (sample_hex (gf_repr 16)) (map B [PartyIndex 1, PartyIndex 3]) True = Some (Inr (sample_hex (gf_repr s), rec_id))) \<and>
    verify_ecdsa_signature sample_suite (gf_repr 3) 7 (sample_hex (gf_repr 16)) (sample_hex (gf_repr s))"
proof -
  let ?signers = "[PartyIndex 1, PartyIndex 3]" and ?f = "\<lambda>x :: gf257. 7 + 5 * x"
  have facts: "length ?signers = unat (threshold \<lparr>threshold = 2, share_count = 3\<rparr>)"
    "sign_coins_ok ?signers sample_coins_of" "(4 :: gf257) = (\<Sum>i \<in> set ?signers. sc_instance_key (sample_coins_of i))"
    "(4 :: gf257) \<noteq> 0" "(\<Sum>i \<in> set ?signers. sc_inversion_mask (sample_coins_of i)) \<noteq> 0"
    "(16 :: gf257) \<noteq> 0" "set ?signers \<subseteq> set [PartyIndex 1, PartyIndex 2, PartyIndex 3]"
    "reduce_hash_bytes sample_suite (gf_repr 3) + 16 * ?f 0 \<noteq> 0"
    by (simp_all add: sign_coins_ok_def sample_coins_of_def sample_sign_coins_def mul_L_def reduce_hash_bytes_def gf_eq_iff)
  have x: "16 = reduce_bytes sample_suite (x_bytes sample_suite (pmul sample_suite (generator sample_suite) 4))"
    "to_repr sample_suite 16 = x_bytes sample_suite (pmul sample_suite (generator sample_suite) 4)"
    by (simp_all add: sample_suite_def)
  have enc: "hex_encode sample_suite = sample_hex" "to_repr sample_suite = gf_repr"
    by (simp_all add: sample_suite_def)
  from sign_honest_run [OF sample_suite_ok sample_key_material, of "replicate 32 8" ?signers sample_coins_of 4 16
      "gf_repr 3" "\<lambda>i. rev" "\<lambda>i xs. xs" True] facts x
  obtain B s rec_id where "\<forall>i \<in> set ?signers. \<forall>bs. mset bs = mset (map B ?signers) \<longrightarrow>
      sign_phase4 sample_suite (sample_signer i) (signing_data (replicate 32 8) (gf_repr 3) ?signers i)
        (hex_encode sample_suite (to_repr sample_suite 16)) bs True =
        Some (Inr (hex_encode sample_suite (to_repr sample_suite s), rec_id))"
    "verify_ecdsa_signature sample_suite (gf_repr 3) (pmul sample_suite (generator sample_suite) (?f 0))
      (hex_encode sample_suite (to_repr sample_suite 16)) (hex_encode sample_suite (to_repr sample_suite s))"
    by (simp add: ID_LEN_def) blast
  then show ?thesis unfolding enc by (intro exI [of _ B] exI [of _ s] exI [of _ rec_id]) simp
qed

end
