(* ===== verification/Dkg_Steps.thy ===== *)
theory Dkg_Steps
  imports Ecdsa Key_Material
begin

text \<open>
  The steps of \<open>protocols/dkg.rs\<close>: sampling and evaluating the secret polynomial (Steps 1 and 2),
  the share with its committed proof (Step 3), and the consistency check that yields the public
  key (Steps 5 and 6).  The main lemma is the refinement of Step 5: it accepts exactly when all
  foreign proofs verify and the committed points are those of one polynomial below the
  threshold, and the key it returns is the value at 0.  The ranges of Step 5 are computed in
  \<open>u8\<close> and wrap around at 256, as in a build without overflow checks.
\<close>

section \<open>Data\<close>

record ('s, 'p) proof_commitment =
  pc_index :: party_index
  pc_proof :: "('s, 'p) dlog_proof"
  pc_commitment :: bytes

record session_data =
  sd_parameters :: parameters
  sd_party_index :: party_index
  sd_session_id :: bytes

text \<open>A phase either panics (\<open>unwrap\<close>, \<open>expect\<close>) or returns an abort.\<close>

datatype failure = Panicked | Aborted abort

definition unwrap :: "'a option \<Rightarrow> failure + 'a" where
  "unwrap x = ok_or Panicked x"

definition give_up :: "party_index \<Rightarrow> abort_reason \<Rightarrow> failure" where
  "give_up me reason = Aborted (recoverable me reason)"

lemma unwrap_simps [res_simps]: "unwrap (Some x) = Inr x" "unwrap None = Inl Panicked"
  "unwrap m = Inr y \<longleftrightarrow> m = Some y" "unwrap m = Inl e \<longleftrightarrow> m = None \<and> e = Panicked"
  by (simp_all add: unwrap_def res_simps)

section \<open>Steps 1 to 3\<close>

definition step1 :: "parameters \<Rightarrow> (nat \<Rightarrow> 's) \<Rightarrow> 's list" where
  "step1 params samples = map samples [0..<unat (threshold params)]"

definition evaluate_at ::
  "('s::field, 'p) suite \<Rightarrow> 's list \<Rightarrow> nat \<Rightarrow> nat \<Rightarrow> 's" where
  "evaluate_at S polynomial last_index j =
     (let j_scalar = scalar_from S (word_of_nat j)
      in foldl (\<lambda>evaluation coefficient. evaluation * j_scalar + coefficient) (polynomial ! last_index)
           (rev (take last_index polynomial)))"

definition step2 :: "('s::field, 'p) suite \<Rightarrow> parameters \<Rightarrow> 's list \<Rightarrow> 's list" where
  "step2 S params polynomial =
     (let last_index = unat (threshold params - 1)
      in map (evaluate_at S polynomial last_index) (share_range params))"

definition step3 ::
  "('s::field, 'p) suite \<Rightarrow> 's fischlin_coins \<Rightarrow> party_index \<Rightarrow> bytes \<Rightarrow> 's list \<Rightarrow>
     failure + 's \<times> ('s, 'p) proof_commitment" where
  "step3 S coins me sid poly_fragments =
     (let poly_point = sum_list poly_fragments
      in rbind (map_err (\<lambda>_. Panicked) (dlog_prove_commit S coins poly_point sid))
           (\<lambda>(prf, commitment).
             Inr (poly_point, \<lparr>pc_index = me, pc_proof = prf, pc_commitment = commitment\<rparr>)))"

section \<open>Step 5\<close>

definition gather_step ::
  "('s::field, 'p::ab_group_add) suite \<Rightarrow> party_index \<Rightarrow> bytes \<Rightarrow> ('s, 'p) proof_commitment \<Rightarrow>
     (party_index, 'p) btree \<Rightarrow> failure + (party_index, 'p) btree" where
  "gather_step S me sid party_j committed_points =
     (if pc_index party_j \<noteq> me \<and> \<not> dlog_decommit_verify S (pc_proof party_j) (pc_commitment party_j) sid
      then Inl (give_up me (ProofVerificationFailed (pc_index party_j)))
      else Inr (bt_insert (pc_index party_j) (dlp_point (pc_proof party_j)) committed_points))"

text \<open>The range \<open>a..b\<close> of bytes.\<close>

definition u8_range :: "u8 \<Rightarrow> u8 \<Rightarrow> u8 list" where
  "u8_range a b = map word_of_nat [unat a..<unat b]"

definition window :: "parameters \<Rightarrow> u8 \<Rightarrow> u8 list" where
  "window params i = u8_range i (i + threshold params)"

definition lj_step :: "('s::field, 'p) suite \<Rightarrow> u8 \<Rightarrow> 's \<times> 's \<Rightarrow> u8 \<Rightarrow> 's \<times> 's" where
  "lj_step S j acc k =
     (case acc of (lj_numerator, lj_denominator) \<Rightarrow>
        if k \<noteq> j then (lj_numerator * scalar_from S (ucast k),
                       lj_denominator * (scalar_from S (ucast k) - scalar_from S (ucast j)))
        else (lj_numerator, lj_denominator))"

definition window_step ::
  "('s::field, 'p::ab_group_add) suite \<Rightarrow> party_index \<Rightarrow> (party_index, 'p) btree \<Rightarrow> u8 list \<Rightarrow> u8 \<Rightarrow>
     'p \<Rightarrow> failure + 'p" where
  "window_step S me committed_points js j current_pk =
     (case foldl (lj_step S j) (1, 1) js of (lj_numerator, lj_denominator) \<Rightarrow>
        rbind (unwrap (invert lj_denominator)) (\<lambda>inv.
          let lj = lj_numerator * inv in
          rbind (map_err (\<lambda>_. Panicked) (PartyIndex_new j)) (\<lambda>j_idx.
            rbind (ok_or (give_up me (MissingCommittedPoint j_idx)) (bt_get committed_points j_idx))
              (\<lambda>point_j. Inr (pmul S point_j lj + current_pk)))))"

definition consistency_step ::
  "('s::field, 'p::ab_group_add) suite \<Rightarrow> parameters \<Rightarrow> party_index \<Rightarrow> (party_index, 'p) btree \<Rightarrow> u8 \<Rightarrow>
     'p \<Rightarrow> failure + 'p" where
  "consistency_step S params me committed_points i key =
     rbind (for_each (window_step S me committed_points (window params i)) (window params i) 0)
       (\<lambda>current_pk.
         if i = 1 then Inr current_pk
         else if key \<noteq> current_pk then Inl (give_up me PolynomialInconsistency)
         else Inr key)"

definition step5 ::
  "('s::field, 'p::ab_group_add) suite \<Rightarrow> parameters \<Rightarrow> party_index \<Rightarrow> bytes \<Rightarrow>
     ('s, 'p) proof_commitment list \<Rightarrow> failure + 'p \<times> (party_index, 'p) btree" where
  "step5 S params me sid proofs_commitments =
     rbind (for_each (gather_step S me sid) proofs_commitments []) (\<lambda>committed_points.
       rbind (for_each (consistency_step S params me committed_points)
                (map word_of_nat [1..<Suc (unat (share_count params - threshold params + 1))]) 0)
         (\<lambda>key. Inr (key, committed_points)))"

section \<open>The value of the secret polynomial\<close>

lemma foldl_horner:
  "foldl (\<lambda>e c. e * x + c) a (rev cs) = horner (cs @ [a]) x"
  by (induction cs) (simp_all add: algebra_simps)

lemma step2_horner:
  assumes "params_ok params" and "length polynomial = unat (threshold params)"
  shows "step2 S params polynomial =
    map (\<lambda>j. horner polynomial (scalar_from S (word_of_nat j))) (share_range params)"
proof -
  have "threshold params \<noteq> 0" using assms(1) by (auto simp: params_ok_def)
  then have last: "unat (threshold params - 1) = length polynomial - 1"
    using assms(2) by (simp add: unat_minus_one)
  have "polynomial \<noteq> []" using assms by (auto simp: params_ok_def unsigned_eq_0_iff)
  then have "take (length polynomial - 1) polynomial @ [polynomial ! (length polynomial - 1)] = polynomial"
    by (metis append_butlast_last_id butlast_conv_take last_conv_nth)
  then show ?thesis by (simp add: step2_def last evaluate_at_def foldl_horner Let_def)
qed

section \<open>Step 5 refines a polynomial commitment\<close>

text \<open>Party \<open>j\<close> of \<open>1..n\<close> as a scalar, and the windows as sets of scalars.\<close>

lemma scalar_from_byte: "suite_ok S \<Longrightarrow> scalar_from S (ucast (b :: u8)) = index_scalar (PartyIndex b)"
  using scalar_from_index [of S "PartyIndex b"] by simp

lemma lj_fold:
  fixes S :: "('s::field, 'p::ab_group_add) suite"
  assumes "suite_ok S"
  shows "foldl (lj_step S j) (a, b) ks =
    (a * (\<Prod>k \<leftarrow> filter (\<lambda>k. k \<noteq> j) ks. index_scalar (PartyIndex k)),
     b * (\<Prod>k \<leftarrow> filter (\<lambda>k. k \<noteq> j) ks. index_scalar (PartyIndex k) - index_scalar (PartyIndex j)))"
  by (induction ks arbitrary: a b) (simp_all add: lj_step_def scalar_from_byte [OF assms] mult.assoc)

definition scalars_of :: "u8 list \<Rightarrow> 's::field set" where
  "scalars_of ks = (\<lambda>k. index_scalar (PartyIndex k)) ` set ks"

lemma index_byte_inj:
  "suite_ok (S :: ('s::field, 'p::ab_group_add) suite) \<Longrightarrow>
    inj_on (\<lambda>k. index_scalar (PartyIndex k) :: 's) A"
  by (rule inj_onI) (simp add: index_scalar_inj)

lemma lj_basis:
  fixes S :: "('s::field, 'p::ab_group_add) suite"
  assumes "suite_ok S" and "distinct ks" and "j \<in> set ks"
  shows "\<exists>num den. foldl (lj_step S j) (1, 1) ks = (num, den) \<and> den \<noteq> 0 \<and>
    num * inverse den = basis (scalars_of ks) (index_scalar (PartyIndex j)) (0 :: 's)"
proof -
  let ?x = "\<lambda>k. index_scalar (PartyIndex k) :: 's"
  have inj: "inj_on ?x A" for A by (rule index_byte_inj [OF assms(1)])
  have img: "scalars_of ks - {?x j} = ?x ` (set ks - {j})"
    using inj_on_image_set_diff [OF inj, of "set ks" "set ks" "{j}"] assms(3)
    by (auto simp: scalars_of_def index_scalar_inj [OF assms(1)])
  have "(\<Prod>k \<leftarrow> filter (\<lambda>k. k \<noteq> j) ks. f (?x k)) = prod f (?x ` (set ks - {j}))" for f :: "'s \<Rightarrow> 's"
  proof -
    have "(\<Prod>k \<leftarrow> filter (\<lambda>k. k \<noteq> j) ks. f (?x k)) = (\<Prod>k \<in> set (filter (\<lambda>k. k \<noteq> j) ks). f (?x k))"
      using assms(2) by (simp del: set_filter flip: prod.distinct_set_conv_list)
    also have "set (filter (\<lambda>k. k \<noteq> j) ks) = set ks - {j}" by auto
    finally show ?thesis using inj by (simp add: prod.reindex comp_def)
  qed
  then have prods: "(\<Prod>k \<leftarrow> filter (\<lambda>k. k \<noteq> j) ks. ?x k) = (\<Prod>y \<in> scalars_of ks - {?x j}. y)"
    "(\<Prod>k \<leftarrow> filter (\<lambda>k. k \<noteq> j) ks. ?x k - ?x j) = (\<Prod>y \<in> scalars_of ks - {?x j}. y - ?x j)"
    by (simp_all add: img)
  have "finite (scalars_of ks :: 's set)" by (simp add: scalars_of_def)
  then have "(\<Prod>y \<in> scalars_of ks - {?x j}. y - ?x j) \<noteq> 0" by simp
  then show ?thesis
    by (simp add: lj_fold [OF assms(1)] prods basis_zero divide_inverse)
qed

definition gathered :: "('s, 'p) proof_commitment list \<Rightarrow> (party_index, 'p) btree" where
  "gathered pcs = fold (\<lambda>pc. bt_insert (pc_index pc) (dlp_point (pc_proof pc))) pcs []"

definition proofs_verify ::
  "('s, 'p::ab_group_add) suite \<Rightarrow> party_index \<Rightarrow> bytes \<Rightarrow> ('s, 'p) proof_commitment list \<Rightarrow> bool" where
  "proofs_verify S me sid pcs \<longleftrightarrow> (\<forall>pc \<in> set pcs. pc_index pc = me \<or>
     dlog_decommit_verify S (pc_proof pc) (pc_commitment pc) sid)"

lemma gather_loop:
  "for_each (gather_step S me sid) pcs m = Inr m' \<longleftrightarrow> proofs_verify S me sid pcs \<and>
    m' = fold (\<lambda>pc. bt_insert (pc_index pc) (dlp_point (pc_proof pc))) pcs m"
  by (induction pcs arbitrary: m) (auto simp: gather_step_def proofs_verify_def res_simps)

lemma gather_loop_error:
  assumes "for_each (gather_step S me sid) pcs m = Inl e"
  shows "\<exists>j. e = give_up me (ProofVerificationFailed j)"
  using for_each_error [OF assms] by (auto simp: gather_step_def split: if_splits)

lemma gathered_ok: "bt_ok (gathered pcs)"
proof -
  have "bt_ok m \<Longrightarrow> bt_ok (fold (\<lambda>pc. bt_insert (pc_index pc) (dlp_point (pc_proof pc))) pcs m)" for m
    by (induction pcs arbitrary: m) (simp_all add: bt_laws)
  then show ?thesis by (simp add: gathered_def bt_laws)
qed

lemma window_step_eq:
  fixes S :: "('s::field, 'p::ab_group_add) suite"
  assumes "suite_ok S" and "distinct js" and "j \<in> set js" and "j \<noteq> 0"
  shows "window_step S me C js j acc = (case bt_get C (PartyIndex j) of
      None \<Rightarrow> Inl (give_up me (MissingCommittedPoint (PartyIndex j)))
    | Some P \<Rightarrow> Inr (pmul S P (basis (scalars_of js) (index_scalar (PartyIndex j)) 0) + acc))"
  using lj_basis [OF assms(1-3)] assms(4)
  by (auto simp: window_step_def unwrap_def invert_def PartyIndex_new_def split: option.splits)

lemma window_loop:
  fixes S :: "('s::field, 'p::ab_group_add) suite"
  assumes "suite_ok S" and "distinct js" and "0 \<notin> set js" and "set ks \<subseteq> set js"
  shows "for_each (window_step S me C js) ks acc = Inr Q \<longleftrightarrow>
    (\<forall>k \<in> set ks. bt_get C (PartyIndex k) \<noteq> None) \<and>
    Q = acc + (\<Sum>k \<leftarrow> ks. pmul S (the (bt_get C (PartyIndex k)))
      (basis (scalars_of js) (index_scalar (PartyIndex k)) 0))"
  using assms(4)
proof (induction ks arbitrary: acc)
  case (Cons k ks)
  then have "k \<in> set js" "k \<noteq> 0" using assms(3) by auto
  with Cons show ?case
    by (cases "bt_get C (PartyIndex k)")
      (auto simp: window_step_eq [OF assms(1,2)] add.assoc add.left_commute)
qed auto

lemma window_loop_error:
  fixes S :: "('s::field, 'p::ab_group_add) suite"
  assumes "suite_ok S" and "distinct js" and "0 \<notin> set js"
    and "for_each (window_step S me C js) js acc = Inl e"
  shows "\<exists>k. e = give_up me (MissingCommittedPoint (PartyIndex k))"
proof -
  obtain k a where k: "k \<in> set js" "window_step S me C js k a = Inl e"
    using for_each_error [OF assms(4)] by blast
  moreover have "k \<noteq> 0" using k(1) assms(3) by auto
  ultimately show ?thesis
    by (auto simp: window_step_eq [OF assms(1,2)] split: option.splits)
qed

lemma party_range_set: "set (party_range params) = index_of_nat ` {1..unat (share_count params)}"
  by (simp add: party_range_def share_range_def atLeastLessThanSuc_atLeastAtMost del: upt_Suc)

text \<open>The windows, while the bound of the range does not wrap around.\<close>

lemma window_words:
  assumes "i + unat (threshold params) < 256"
  shows "window params (word_of_nat i) = map word_of_nat [i..<i + unat (threshold params)]"
proof -
  have i: "unat (word_of_nat i :: u8) = i"
    using assms by (simp add: unsigned_of_nat take_bit_nat_eq_self)
  have "unat (word_of_nat i + threshold params) = i + unat (threshold params)"
    using assms i by (subst unat_plus_if') simp
  with i show ?thesis by (simp add: window_def u8_range_def)
qed

lemma window_facts:
  assumes "i \<noteq> 0"
  shows "distinct (window params i)" "0 \<notin> set (window params i)"
proof -
  let ?r = "[unat i..<unat (i + threshold params)]"
  have r: "1 \<le> j \<and> j < 256" if "j \<in> set ?r" for j
  proof -
    have "unat i \<noteq> 0" using assms by (simp add: unsigned_eq_0_iff)
    then show ?thesis using that unat_byte_less [of "i + threshold params"] by simp
  qed
  then have inj: "inj_on (word_of_nat :: nat \<Rightarrow> u8) (set ?r)"
    by (intro inj_onI) (simp add: word_of_nat_eq_iff take_bit_nat_eq_self)
  then show "distinct (window params i)"
    by (simp add: window_def u8_range_def distinct_map)
  show "0 \<notin> set (window params i)"
  proof
    assume "0 \<in> set (window params i)"
    then obtain x where x: "x \<in> set ?r" "(word_of_nat x :: u8) = 0"
      unfolding window_def u8_range_def set_map by (metis imageE)
    then have "256 dvd x" by (simp add: word_of_nat_eq_0_iff)
    with r [OF x(1)] show False by (metis nat_dvd_not_less not_less_eq_eq One_nat_def zero_less_Suc less_le_trans)
  qed
qed

text \<open>No window of a key with fewer than 255 parties wraps around.\<close>

definition no_wrap :: "parameters \<Rightarrow> bool" where
  "no_wrap params \<longleftrightarrow> params_ok params \<and> share_count params \<noteq> 255"

lemma window_count:
  assumes "params_ok params"
  shows "unat (share_count params - threshold params + 1) =
    unat (share_count params) - unat (threshold params) + 1"
proof -
  have le: "unat (threshold params) \<le> unat (share_count params)" "2 \<le> unat (threshold params)"
    using assms by (simp_all add: params_ok_def word_le_nat_alt)
  have "unat (share_count params - threshold params) = unat (share_count params) - unat (threshold params)"
    using assms by (simp add: params_ok_def unat_sub)
  then show ?thesis
    using le unat_byte_less [of "share_count params"] by (subst unat_plus_if') auto
qed

lemma no_wrap_facts:
  assumes "no_wrap params"
  shows "unat (share_count params) < 255" "2 \<le> unat (threshold params)"
    "unat (threshold params) \<le> unat (share_count params)"
proof -
  have "unat (share_count params) \<noteq> unat (255 :: u8)"
    using assms unfolding no_wrap_def by (metis unsigned_word_eqI)
  then show "unat (share_count params) < 255"
    using unat_byte_less [of "share_count params"] by simp
qed (use assms in \<open>simp_all add: no_wrap_def params_ok_def word_le_nat_alt\<close>)

text \<open>The prime-order group: every point is a multiple of the generator.\<close>

definition cyclic :: "('s, 'p) suite \<Rightarrow> bool" where
  "cyclic S \<longleftrightarrow> (\<forall>P. \<exists>k. P = pmul S (generator S) k)"

definition point_scalar :: "nat \<Rightarrow> 's::field" where
  "point_scalar j = index_scalar (index_of_nat j)"

lemma point_scalar_facts:
  fixes S :: "('s::field, 'p::ab_group_add) suite"
  assumes "suite_ok S"
  shows "inj_on (point_scalar :: nat \<Rightarrow> 's) {..<256}"
    and "1 \<le> j \<Longrightarrow> j < 256 \<Longrightarrow> (point_scalar j :: 's) \<noteq> 0"
proof -
  have eq: "(point_scalar i :: 's) = of_nat i" if "i < 256" for i
    using that by (simp add: point_scalar_def index_scalar_def)
  show "inj_on (point_scalar :: nat \<Rightarrow> 's) {..<256}"
    using of_nat_small_inj [OF assms] by (auto simp: inj_on_def eq)
  show "(point_scalar j :: 's) \<noteq> 0" if "1 \<le> j" "j < 256"
    using that of_nat_small_inj [OF assms, of j 0] by (simp add: eq)
qed

lemma scalars_of_window:
  assumes "i + unat (threshold params) < 256"
  shows "scalars_of (window params (word_of_nat i)) = point_scalar ` {i..<i + unat (threshold params)}"
  by (simp add: window_words [OF assms] scalars_of_def point_scalar_def index_of_nat_def image_image)

text \<open>The reconstruction of one window, on committed points that are multiples of the generator.\<close>

lemma reconstruct_window:
  fixes S :: "('s::field, 'p::ab_group_add) suite" and d :: "nat \<Rightarrow> 's"
  assumes "suite_ok S" and i: "1 \<le> i" "i + unat (threshold params) < 256"
    and points: "\<And>j P. bt_get C (index_of_nat j) = Some P \<Longrightarrow> P = pmul S (generator S) (d j)"
  shows "for_each (window_step S me C (window params (word_of_nat i))) (window params (word_of_nat i)) 0 = Inr Q \<longleftrightarrow>
    (\<forall>j \<in> {i..<i + unat (threshold params)}. bt_get C (index_of_nat j) \<noteq> None) \<and>
    Q = pmul S (generator S) (\<Sum>j \<in> {i..<i + unat (threshold params)}.
      d j * basis (point_scalar ` {i..<i + unat (threshold params)}) (point_scalar j) 0)"
proof -
  let ?W = "{i..<i + unat (threshold params)}" and ?js = "window params (word_of_nat i)"
  have word_nonzero: "(word_of_nat i :: u8) \<noteq> 0"
    using i by (simp add: word_of_nat_eq_0_iff nat_dvd_not_less)
  have loop: "for_each (window_step S me C ?js) ?js 0 = Inr Q \<longleftrightarrow>
    (\<forall>j \<in> ?W. bt_get C (index_of_nat j) \<noteq> None) \<and>
    Q = (\<Sum>j \<leftarrow> [i..<i + unat (threshold params)]. pmul S (the (bt_get C (index_of_nat j)))
      (basis (point_scalar ` ?W) (point_scalar j) 0))"
    using window_loop [OF assms(1) window_facts [OF word_nonzero] subset_refl, where me = me and C = C and acc = 0 and Q = Q]
    by (simp add: scalars_of_window [OF i(2)])
      (simp add: window_words [OF i(2)] comp_def index_of_nat_def point_scalar_def)
  show ?thesis
  proof (cases "\<forall>j \<in> ?W. bt_get C (index_of_nat j) \<noteq> None")
    case True
    have "(\<Sum>j \<leftarrow> [i..<i + unat (threshold params)]. pmul S (the (bt_get C (index_of_nat j)))
        (basis (point_scalar ` ?W) (point_scalar j) 0)) =
      (\<Sum>j \<in> ?W. pmul S (generator S) (d j * basis (point_scalar ` ?W) (point_scalar j) 0))"
      unfolding interv_sum_list_conv_sum_set_nat
    proof (intro sum.cong refl)
      fix j assume "j \<in> ?W"
      with True obtain P where "bt_get C (index_of_nat j) = Some P" by fastforce
      with points [OF this] show "pmul S (the (bt_get C (index_of_nat j))) (basis (point_scalar ` ?W) (point_scalar j) 0) =
        pmul S (generator S) (d j * basis (point_scalar ` ?W) (point_scalar j) 0)"
        by (simp add: pmul_pmul [OF assms(1)])
    qed simp
    with loop True show ?thesis by (simp add: pmul_sum [OF assms(1)])
  qed (use loop in auto)
qed

text \<open>All windows agree with the first.\<close>

lemma consistency_loop:
  assumes "1 \<le> m" and "m < 256"
  shows "for_each (consistency_step S params me C) (map word_of_nat [1..<Suc m]) key0 = Inr key \<longleftrightarrow>
    (\<forall>i \<in> {1..m}. for_each (window_step S me C (window params (word_of_nat i)))
      (window params (word_of_nat i)) 0 = Inr key)"
proof -
  let ?w = "\<lambda>i :: nat. for_each (window_step S me C (window params (word_of_nat i))) (window params (word_of_nat i)) 0"
  have rest: "for_each (consistency_step S params me C) (map word_of_nat is) k = Inr key \<longleftrightarrow>
      k = key \<and> (\<forall>i \<in> set is. ?w i = Inr key)" if "\<forall>i \<in> set is. 1 < i \<and> i < 256" for "is" k
    using that
  proof (induction "is" arbitrary: k)
    case (Cons i "is")
    then have "(word_of_nat i :: u8) \<noteq> word_of_nat 1"
      unfolding word_of_nat_eq_iff by (simp add: take_bit_nat_eq_self)
    with Cons show ?case by (auto simp: consistency_step_def res_simps)
  qed auto
  obtain js where js: "[1..<Suc m] = 1 # js" "set js = {2..m}"
    using assms(1) that [of "[2..<Suc m]"] by (simp add: upt_conv_Cons numeral_2_eq_2 atLeastLessThanSuc_atLeastAtMost del: upt_Suc)
  then have "{1..m} = insert 1 (set js)" using assms(1) by auto
  moreover have "\<forall>i \<in> set js. 1 < i \<and> i < 256" using js(2) assms(2) by auto
  ultimately show ?thesis
    using rest [of js] unfolding js(1) by (simp add: consistency_step_def rbind_Inr_iff)
qed

definition on_polynomial ::
  "('s::field, 'p) suite \<Rightarrow> parameters \<Rightarrow> (party_index \<Rightarrow> 'p option) \<Rightarrow> ('s \<Rightarrow> 's) \<Rightarrow> bool" where
  "on_polynomial S params shares f \<longleftrightarrow> poly_lt (unat (threshold params)) f \<and>
     (\<forall>i \<in> set (party_range params). shares i = Some (pmul S (generator S) (f (index_scalar i))))"

lemma step5_iff:
  fixes S :: "('s::field, 'p::ab_group_add) suite"
  assumes "suite_ok S" and "cyclic S" and "no_wrap params"
  shows "step5 S params me sid pcs = Inr (key, shares) \<longleftrightarrow>
    proofs_verify S me sid pcs \<and> shares = gathered pcs \<and>
    (\<exists>f. on_polynomial S params (bt_get shares) f \<and> key = pmul S (generator S) (f 0))"
proof -
  let ?n = "unat (share_count params)" and ?t = "unat (threshold params)"
  note bounds = no_wrap_facts [OF assms(3)]
  let ?m = "?n - ?t + 1" and ?C = "gathered pcs"
  have "\<exists>k. \<forall>P. bt_get ?C (index_of_nat j) = Some P \<longrightarrow> P = pmul S (generator S) k" for j
    using assms(2) by (cases "bt_get ?C (index_of_nat j)") (auto simp: cyclic_def)
  then obtain d :: "nat \<Rightarrow> 's" where
    d: "\<And>j P. bt_get ?C (index_of_nat j) = Some P \<Longrightarrow> P = pmul S (generator S) (d j)" by metis
  let ?val = "\<lambda>i. \<Sum>j \<in> {i..<i + ?t}. d j * basis (point_scalar ` {i..<i + ?t}) (point_scalar j) 0"
  have inj: "inj_on (point_scalar :: nat \<Rightarrow> 's) {1..?n}"
    by (rule inj_on_subset [OF point_scalar_facts(1) [OF assms(1)]]) (use bounds in auto)
  have nz: "\<forall>j \<in> {1..?n}. (point_scalar j :: 's) \<noteq> 0"
    using point_scalar_facts(2) [OF assms(1)] bounds(1) by auto
  have win: "i + ?t < 256" if "i \<in> {1..?m}" for i using that bounds by auto
  have "step5 S params me sid pcs = Inr (key, shares) \<longleftrightarrow> proofs_verify S me sid pcs \<and> shares = ?C \<and>
      (\<forall>i \<in> {1..?m}. for_each (window_step S me ?C (window params (word_of_nat i)))
        (window params (word_of_nat i)) 0 = Inr key)"
  proof -
    have "unat (share_count params - threshold params + 1) = ?m"
      using assms(3) by (simp add: no_wrap_def window_count)
    moreover have "?m < 256" using bounds by simp
    ultimately show ?thesis
      unfolding step5_def rbind_Inr_iff gather_loop gathered_def [symmetric]
      using consistency_loop [of ?m S params me ?C 0 key] by auto
  qed
  also have "\<dots> \<longleftrightarrow> proofs_verify S me sid pcs \<and> shares = ?C \<and> (\<forall>i \<in> {1..?m}.
      (\<forall>j \<in> {i..<i + ?t}. bt_get ?C (index_of_nat j) \<noteq> None) \<and> key = pmul S (generator S) (?val i))"
    using reconstruct_window [OF assms(1) _ win d, where me = me and Q = key] by (intro conj_cong ball_cong refl) auto
  also have "\<dots> \<longleftrightarrow> proofs_verify S me sid pcs \<and> shares = ?C \<and>
      (\<exists>f. on_polynomial S params (bt_get shares) f \<and> key = pmul S (generator S) (f 0))"
  proof (intro conj_cong refl iffI)
    assume all: "\<forall>i \<in> {1..?m}. (\<forall>j \<in> {i..<i + ?t}. bt_get ?C (index_of_nat j) \<noteq> None) \<and>
      key = pmul S (generator S) (?val i)" and sh: "shares = ?C"
    have one: "1 \<in> {1..?m}" by simp
    have same: "\<forall>i \<in> {1..?m}. ?val i = ?val 1"
    proof
      fix i assume i: "i \<in> {1..?m}"
      have "pmul S (generator S) (?val i) = pmul S (generator S) (?val 1)"
        by (rule trans [OF conjunct2 [OF bspec [OF all i], symmetric] conjunct2 [OF bspec [OF all one]]])
      then show "?val i = ?val 1" by (simp only: pmul_gen_cancel [OF assms(1)])
    qed
    have "\<exists>f. poly_lt ?t f \<and> f 0 = ?val 1 \<and> (\<forall>j \<in> {1..?n}. d j = f (point_scalar j))"
      by (rule windows_polynomial [OF inj nz _ bounds(3) same]) (use bounds in simp)
    then obtain f where f: "poly_lt ?t f" "f 0 = ?val 1" "\<forall>j \<in> {1..?n}. d j = f (point_scalar j)" by blast
    have "bt_get shares (index_of_nat j) = Some (pmul S (generator S) (f (point_scalar j)))" if j: "j \<in> {1..?n}" for j
    proof -
      have "(if j \<le> ?t then 1 else j - ?t + 1) \<in> {1..?m}"
        "j \<in> {(if j \<le> ?t then 1 else j - ?t + 1)..<(if j \<le> ?t then 1 else j - ?t + 1) + ?t}"
        using j bounds by auto
      with all obtain P where "bt_get ?C (index_of_nat j) = Some P" by blast
      with d [OF this] f(3) j sh show ?thesis by simp
    qed
    moreover have "key = pmul S (generator S) (f 0)"
      using conjunct2 [OF bspec [OF all one]] unfolding f(2) .
    ultimately show "\<exists>f. on_polynomial S params (bt_get shares) f \<and> key = pmul S (generator S) (f 0)"
      using f(1) by (auto simp: on_polynomial_def party_range_set point_scalar_def)
  next
    assume "\<exists>f. on_polynomial S params (bt_get shares) f \<and> key = pmul S (generator S) (f 0)"
      and sh: "shares = ?C"
    then obtain f where f: "poly_lt ?t f" "key = pmul S (generator S) (f 0)"
      "\<And>j. j \<in> {1..?n} \<Longrightarrow> bt_get ?C (index_of_nat j) = Some (pmul S (generator S) (f (point_scalar j)))"
      by (auto simp: on_polynomial_def party_range_set point_scalar_def)
    then have dj: "d j = f (point_scalar j)" if "j \<in> {1..?n}" for j
      using d that pmul_gen_cancel [OF assms(1)] by metis
    show "\<forall>i \<in> {1..?m}. (\<forall>j \<in> {i..<i + ?t}. bt_get ?C (index_of_nat j) \<noteq> None) \<and>
      key = pmul S (generator S) (?val i)"
    proof
      fix i assume i: "i \<in> {1..?m}"
      have sub: "{i..<i + ?t} \<subseteq> {1..?n}" using i bounds by auto
      have "f 0 = (\<Sum>j \<in> {i..<i + ?t}. f (point_scalar j) * basis (point_scalar ` {i..<i + ?t}) (point_scalar j) 0)"
        by (rule interpolation_indexed [OF f(1)]) (use inj_on_subset [OF inj sub] in simp_all)
      also have "\<dots> = ?val i"
        by (rule sum.cong [OF refl]) (use sub dj in auto)
      finally have "f 0 = ?val i" .
      with f(2,3) sub show "(\<forall>j \<in> {i..<i + ?t}. bt_get ?C (index_of_nat j) \<noteq> None) \<and>
        key = pmul S (generator S) (?val i)"
        by (metis option.distinct(1) subsetD)
    qed
  qed
  finally show ?thesis .
qed

text \<open>Step 5 never panics: its errors are recoverable aborts of the running party.\<close>

lemma step5_error:
  fixes S :: "('s::field, 'p::ab_group_add) suite"
  assumes "suite_ok S" and "step5 S params me sid pcs = Inl e"
  shows "\<exists>reason. e = give_up me reason"
proof -
  consider "for_each (gather_step S me sid) pcs [] = Inl e"
    | C where "for_each (consistency_step S params me C)
        (map word_of_nat [1..<Suc (unat (share_count params - threshold params + 1))]) 0 = Inl e"
    using assms(2) by (auto simp: step5_def rbind_Inl_iff simp del: upt_Suc)
  then show ?thesis
  proof cases
    case 1
    then show ?thesis using gather_loop_error by blast
  next
    case 2
    then obtain i key where i: "1 \<le> i" "i < Suc (unat (share_count params - threshold params + 1))"
      "consistency_step S params me C (word_of_nat i) key = Inl e"
      using for_each_error [OF 2] by (auto simp del: upt_Suc)
    then have "i < 256" using unat_byte_less [of "share_count params - threshold params + 1"] by simp
    with i have "(word_of_nat i :: u8) \<noteq> 0" by (simp add: word_of_nat_eq_0_iff nat_dvd_not_less)
    note facts = window_facts [OF this, of params]
    show ?thesis
      using i(3) window_loop_error [OF assms(1) facts, of me C]
      by (auto simp: consistency_step_def rbind_Inl_iff split: if_splits)
  qed
qed

text \<open>With 255 parties the last range wraps around and is empty, so the value it contributes is the
  point at infinity.\<close>

lemma step5_wraps:
  fixes S :: "('s::field, 'p::ab_group_add) suite"
  assumes "params_ok params" and "share_count params = 255"
    and "step5 S params me sid pcs = Inr (key, shares)"
  shows "key = 0"
proof -
  let ?m = "unat (share_count params) - unat (threshold params) + 1"
  have t: "2 \<le> unat (threshold params)" "unat (threshold params) \<le> 255" and n: "unat (share_count params) = 255"
    using assms(1,2) by (simp_all add: params_ok_def word_le_nat_alt)
  have "\<forall>i \<in> {1..?m}. for_each (window_step S me shares (window params (word_of_nat i)))
      (window params (word_of_nat i)) 0 = Inr key"
    using assms(3) consistency_loop [of ?m S params me shares 0 key] t n
    unfolding step5_def rbind_Inr_iff window_count [OF assms(1)] by auto
  then have "for_each (window_step S me shares (window params (word_of_nat ?m)))
      (window params (word_of_nat ?m)) 0 = Inr key" by (rule bspec) simp
  moreover have "(word_of_nat ?m :: u8) + threshold params = word_of_nat (?m + unat (threshold params))"
    by simp
  then have "(word_of_nat ?m :: u8) + threshold params = 0"
    using t n by (simp add: word_of_nat_eq_0_iff)
  then have "window params (word_of_nat ?m) = []"
    by (simp add: window_def u8_range_def)
  ultimately show ?thesis by simp
qed

text \<open>C9: Step 5 of key generation is a check of polynomial commitments.  For fewer than 255 parties it
  accepts exactly when every proof not filed under our own index verifies against its commitment
  and the committed points (the last one for each index) are, at every index, those of one
  polynomial of degree below the threshold; the public key is the value at 0.\<close>

theorem step5_refines:
  fixes S :: "('s::field, 'p::ab_group_add) suite"
  assumes "suite_ok S" and "cyclic S" and "params_ok params" and "share_count params \<noteq> 255"
  shows "step5 S params me sid pcs = Inr (key, shares) \<longleftrightarrow>
    proofs_verify S me sid pcs \<and> shares = gathered pcs \<and>
    (\<exists>f. on_polynomial S params (bt_get shares) f \<and> key = pmul S (generator S) (f 0))"
  using assms by (intro step5_iff) (simp_all add: no_wrap_def)

text \<open>The entries of honest parties, in any order.\<close>

lemma step5_honest:
  fixes S :: "('s::field, 'p::ab_group_add) suite"
  assumes "suite_ok S" and "cyclic S" and "no_wrap params" and "mset qs = mset (party_range params)"
    and "poly_lt (unat (threshold params)) f"
    and "\<And>j. j \<in> set (party_range params) \<Longrightarrow> pc_index (PC j) = j \<and>
      dlog_decommit_verify S (pc_proof (PC j)) (pc_commitment (PC j)) sid \<and>
      dlp_point (pc_proof (PC j)) = pmul S (generator S) (f (index_scalar j))"
  shows "step5 S params me sid (map PC qs) = Inr (pmul S (generator S) (f 0),
    bt_tabulate (\<lambda>j. pmul S (generator S) (f (index_scalar j))) (party_range params))"
proof -
  let ?h = "\<lambda>j. pmul S (generator S) (f (index_scalar j))"
  have qs: "set qs = set (party_range params)" using assms(4) by (metis set_mset_mset)
  have "gathered (map PC qs) = fold (\<lambda>j. bt_insert j (?h j)) qs []"
    unfolding gathered_def fold_map comp_def by (rule fold_cong) (use assms(6) qs in auto)
  also have "\<dots> = bt_tabulate ?h (party_range params)"
    using qs by (rule fold_tabulate) (rule sorted_party_range)
  finally have g: "gathered (map PC qs) = bt_tabulate ?h (party_range params)" .
  have "proofs_verify S me sid (map PC qs)"
    using assms(6) qs by (simp add: proofs_verify_def)
  with g assms(5) show ?thesis
    unfolding step5_iff [OF assms(1-3)]
    by (auto simp: on_polynomial_def bt_get_tabulate intro!: exI [of _ f])
qed

section \<open>An entry filed under our own index\<close>

lemma gathered_snoc: "gathered (pcs @ [pc]) = bt_insert (pc_index pc) (dlp_point (pc_proof pc)) (gathered pcs)"
  by (simp add: gathered_def)

text \<open>When the threshold is the number of parties there is one window, and moving one point of
  the polynomial moves its value at 0 anywhere.\<close>

lemma move_value:
  fixes S :: "('s::field, 'p::ab_group_add) suite"
  assumes "suite_ok S" and "no_wrap params" and "threshold params = share_count params"
    and "me \<in> set (party_range params)" and "poly_lt (unat (threshold params)) f"
  shows "\<exists>g. poly_lt (unat (threshold params)) g \<and> g 0 = k \<and>
    (\<forall>i \<in> set (party_range params) - {me}. g (index_scalar i) = f (index_scalar i :: 's))"
proof -
  let ?all = "party_range params" and ?x = "index_scalar :: party_index \<Rightarrow> 's"
  let ?A = "?x ` set ?all"
  have inj: "inj_on ?x B" for B by (rule inj_onI) (simp add: index_scalar_inj [OF assms(1)])
  have card: "card ?A = unat (threshold params)"
    using assms(3) distinct_card [OF distinct_party_range, of params]
    by (simp add: card_image [OF inj] party_range_def share_range_def)
  have mem: "?x me \<in> ?A" using assms(4) by blast
  have "?x i \<noteq> 0" if "i \<in> set ?all" for i
  proof -
    have "1 \<le> unat (as_u8 i)" using that by (simp add: set_party_range)
    then show ?thesis
      using of_nat_small_inj [OF assms(1), of "unat (as_u8 i)" 0] unat_byte_less [of "as_u8 i"]
      by (simp add: index_scalar_def)
  qed
  then have nz: "basis ?A (?x me) 0 \<noteq> 0" by (intro basis_zero_nonzero) auto
  define g where "g y = f y + (k - f 0) / basis ?A (?x me) 0 * basis ?A (?x me) y" for y
  have "poly_lt (unat (threshold params)) g"
    unfolding g_def [abs_def]
    using assms(5) basis_poly [OF _ mem] card by (intro poly_lt_add poly_lt_scale) auto
  moreover have "g 0 = k" using nz by (simp add: g_def)
  moreover have "g (?x i) = f (?x i)" if "i \<in> set ?all - {me}" for i
  proof -
    have "?x i \<in> ?A" "?x i \<noteq> ?x me" using that by (auto simp: index_scalar_inj [OF assms(1)])
    then show ?thesis using basis_other [of ?A "?x i" "?x me"] by (simp add: g_def)
  qed
  ultimately show ?thesis by blast
qed

text \<open>C10: Step 5 trusts every entry that claims our own index.  With threshold equal to the number of
  parties, one more entry under the index of the running party, with any commitment and a proof
  of which only the point matters, is accepted unverified and replaces the party's own point; by
  the choice of that point its sender sets the public key to any multiple of the generator.\<close>

theorem step5_own_index_unverified:
  fixes S :: "('s::field, 'p::ab_group_add) suite"
  assumes "suite_ok S" and "cyclic S" and "params_ok params" and "share_count params \<noteq> 255"
    and "threshold params = share_count params" and "me \<in> set (party_range params)"
    and "step5 S params me sid pcs = Inr (key, shares)"
  shows "\<exists>Q. \<forall>forged. pc_index forged = me \<and> dlp_point (pc_proof forged) = Q \<longrightarrow>
    step5 S params me sid (pcs @ [forged]) = Inr (pmul S (generator S) k, bt_insert me Q shares)"
proof -
  have nw: "no_wrap params" using assms(3,4) by (simp add: no_wrap_def)
  note s5 = step5_iff [OF assms(1,2) nw]
  obtain f where v: "proofs_verify S me sid pcs" "shares = gathered pcs" and
    f: "on_polynomial S params (bt_get shares) f" using assms(7) s5 by blast
  then have "poly_lt (unat (threshold params)) f" by (simp add: on_polynomial_def)
  from move_value [OF assms(1) nw assms(5,6) this, of k] obtain g where
    g: "poly_lt (unat (threshold params)) g" "g 0 = k"
    "\<forall>i \<in> set (party_range params) - {me}. g (index_scalar i) = f (index_scalar i)" by blast
  let ?Q = "pmul S (generator S) (g (index_scalar me))"
  have "step5 S params me sid (pcs @ [forged]) = Inr (pmul S (generator S) k, bt_insert me ?Q shares)"
    if "pc_index forged = me" "dlp_point (pc_proof forged) = ?Q" for forged
  proof -
    have "on_polynomial S params (bt_get (bt_insert me ?Q shares)) g"
      using f g v(2) gathered_ok [of pcs] by (auto simp: on_polynomial_def bt_laws)
    then show ?thesis
      using v that g(2) unfolding s5 by (auto simp: proofs_verify_def gathered_snoc)
  qed
  then show ?thesis by blast
qed

lemma sample_cyclic: "cyclic (sample_suite\<lparr>sha256 := h\<rparr>)"
  by (auto simp: cyclic_def sample_suite_def)



definition sample_params :: parameters where
  "sample_params = \<lparr>threshold = 2, share_count = 3\<rparr>"

lemma sample_params_ok: "params_ok sample_params" "no_wrap sample_params"
  by (simp_all add: sample_params_def params_ok_def no_wrap_def)

lemma sample_party_range: "party_range sample_params = [PartyIndex 1, PartyIndex 2, PartyIndex 3]"
proof -
  have "[1..<Suc 3] = [1, 2, 3]" by (simp add: upt_conv_Cons)
  then show ?thesis by (simp add: party_range_def share_range_def sample_params_def index_of_nat_def)
qed

lemma step5_refines_witness:
  "\<exists>pcs. step5 (sample_suite\<lparr>sha256 := \<lambda>_. replicate 32 0\<rparr>) sample_params (PartyIndex 1) [1] pcs =
     Inr (7, gathered pcs)"
proof -
  let ?S = "sample_suite\<lparr>sha256 := \<lambda>_. replicate 32 0\<rparr>" and ?f = "\<lambda>x :: gf257. 7 + 5 * x"
  have S: "suite_ok ?S" by (rule sample_hash_ok) simp
  have "\<exists>p c. dlog_prove_commit ?S (sample_coins 7) w [1] = Inr (p, c)" for w
    using sample_prove_commit [of "\<lambda>_. replicate 32 0" "replicate 32 0"] by blast
  then obtain p c where r: "\<And>w. dlog_prove_commit ?S (sample_coins 7) w [1] = Inr (p w, c w)" by metis
  have v: "dlog_decommit_verify ?S (p w) (c w) [1]" "dlp_point (p w) = w" if "w \<noteq> 0" for w
    using dlog_prove_commit_verifies [OF S sample_coins_ok that r] by simp_all
  define pcs where "pcs = map (\<lambda>i. \<lparr>pc_index = i, pc_proof = p (?f (index_scalar i)),
    pc_commitment = c (?f (index_scalar i))\<rparr>) [PartyIndex 1, PartyIndex 2, PartyIndex 3]"
  have nz: "?f (index_scalar i) \<noteq> 0" if "i \<in> {PartyIndex 1, PartyIndex 2, PartyIndex 3}" for i
    using that by (auto simp: index_scalar_def gf_eq_iff)
  have "proofs_verify ?S (PartyIndex 1) [1] pcs"
    using v nz by (simp add: proofs_verify_def pcs_def)
  moreover have "on_polynomial ?S sample_params (bt_get (gathered pcs)) ?f"
  proof -
    have "horner [7, 5] = ?f" by (simp add: fun_eq_iff mult.commute)
    then have "poly_lt 2 ?f" using horner_poly [of "[7, 5] :: gf257 list"] by (metis length_Cons list.size(3) numeral_2_eq_2)
    then show ?thesis
      using v nz by (simp add: on_polynomial_def sample_party_range gathered_def pcs_def bt_get_def
          less_party_index_def sample_params_def [THEN arg_cong [of _ _ threshold]] del: poly_lt.simps)
  qed
  moreover have "share_count sample_params \<noteq> 255" by (simp add: sample_params_def)
  ultimately have "step5 ?S sample_params (PartyIndex 1) [1] pcs = Inr (pmul ?S (generator ?S) (?f 0), gathered pcs)"
    by (subst step5_refines [OF S sample_cyclic sample_params_ok(1)]) auto
  then show ?thesis by (intro exI [of _ pcs]) simp
qed

lemma sample_step5:
  fixes f :: "gf257 \<Rightarrow> gf257"
  assumes "no_wrap params" and "poly_lt (unat (threshold params)) f"
    and "\<And>i. i \<in> set (party_range params) \<Longrightarrow> f (index_scalar i) \<noteq> 0"
  shows "\<exists>pcs. step5 (sample_suite\<lparr>sha256 := \<lambda>_. replicate 32 0\<rparr>) params me [1] pcs =
    Inr (f 0, bt_tabulate (\<lambda>i. f (index_scalar i)) (party_range params))"
proof -
  let ?S = "sample_suite\<lparr>sha256 := \<lambda>_. replicate 32 0\<rparr>"
  have S: "suite_ok ?S" by (rule sample_hash_ok) simp
  have "\<exists>p c. dlog_prove_commit ?S (sample_coins 7) w [1] = Inr (p, c)" for w
    using sample_prove_commit [of "\<lambda>_. replicate 32 0" "replicate 32 0"] by blast
  then obtain p c where r: "\<And>w. dlog_prove_commit ?S (sample_coins 7) w [1] = Inr (p w, c w)" by metis
  let ?PC = "\<lambda>i. \<lparr>pc_index = i, pc_proof = p (f (index_scalar i)), pc_commitment = c (f (index_scalar i))\<rparr>"
  have "step5 ?S params me [1] (map ?PC (party_range params)) = Inr (pmul ?S (generator ?S) (f 0),
      bt_tabulate (\<lambda>j. pmul ?S (generator ?S) (f (index_scalar j))) (party_range params))"
    using dlog_prove_commit_verifies [OF S sample_coins_ok assms(3) r]
    by (intro step5_honest [OF S sample_cyclic assms(1) refl assms(2)]) simp
  then show ?thesis by (intro exI [of _ "map ?PC (party_range params)"]) simp
qed

lemma step5_own_index_unverified_witness:
  "\<exists>pcs Q. \<forall>forged. pc_index forged = PartyIndex 1 \<and> dlp_point (pc_proof forged) = Q \<longrightarrow>
     step5 (sample_suite\<lparr>sha256 := \<lambda>_. replicate 32 0\<rparr>) \<lparr>threshold = 2, share_count = 2\<rparr> (PartyIndex 1) [1]
       (pcs @ [forged]) = Inr (100, bt_insert (PartyIndex 1) Q (bt_tabulate (\<lambda>i. 7 + 5 * index_scalar i)
         (party_range \<lparr>threshold = 2, share_count = 2\<rparr>)))"
proof -
  let ?S = "sample_suite\<lparr>sha256 := \<lambda>_. replicate 32 0\<rparr>" and ?P = "\<lparr>threshold = 2, share_count = 2\<rparr> :: parameters"
  let ?f = "\<lambda>x :: gf257. 7 + 5 * x"
  have S: "suite_ok ?S" by (rule sample_hash_ok) simp
  have ok: "params_ok ?P" "share_count ?P \<noteq> 255" "threshold ?P = share_count ?P" "no_wrap ?P"
    by (simp_all add: params_ok_def no_wrap_def)
  have "[1..<Suc 2] = [1, 2]" by (simp add: upt_conv_Cons)
  then have all: "party_range ?P = [PartyIndex 1, PartyIndex 2]"
    by (simp add: party_range_def share_range_def index_of_nat_def)
  have "horner [7, 5] = ?f" by (simp add: fun_eq_iff mult.commute)
  moreover have "unat (threshold ?P) = length [7, 5 :: gf257]" by simp
  ultimately have "poly_lt (unat (threshold ?P)) ?f" using horner_poly [of "[7, 5] :: gf257 list"] by metis
  moreover have "?f (index_scalar i) \<noteq> 0" if "i \<in> set (party_range ?P)" for i
    using that by (auto simp: all index_scalar_def gf_eq_iff)
  ultimately obtain pcs where "step5 ?S ?P (PartyIndex 1) [1] pcs =
      Inr (?f 0, bt_tabulate (\<lambda>i. ?f (index_scalar i)) (party_range ?P))"
    using sample_step5 [OF ok(4), where me = "PartyIndex 1"] by blast
  moreover have "PartyIndex 1 \<in> set (party_range ?P)" by (simp add: all)
  ultimately obtain Q where "\<forall>forged. pc_index forged = PartyIndex 1 \<and> dlp_point (pc_proof forged) = Q \<longrightarrow>
      step5 ?S ?P (PartyIndex 1) [1] (pcs @ [forged]) = Inr (pmul ?S (generator ?S) 100,
        bt_insert (PartyIndex 1) Q (bt_tabulate (\<lambda>i. ?f (index_scalar i)) (party_range ?P)))"
    using step5_own_index_unverified [OF S sample_cyclic ok(1-3), where k = 100] by blast
  then show ?thesis by (intro exI [of _ pcs] exI [of _ Q]) simp
qed

end
