(* ===== verification/Dkg_Init.thy ===== *)
theory Dkg_Init
  imports Dkg_Steps
begin

text \<open>
  The initialization that key generation and the complete refresh run beside the polynomial
  (\<open>protocols/dkg.rs\<close>, Phases 2 to 4): committed seeds for the zero shares, opened one round later,
  and the base transfers from which each pair of parties sets up a multiplication in both
  directions.  Each loop is one definition over the session id and the index of the running
  party, since the code of the refresh is the same text with the refresh session id.
\<close>

section \<open>Messages and kept data\<close>

record transmit_zero2 =
  z2_parties :: parties_message
  z2_commitment :: bytes

record transmit_zero3 =
  z3_parties :: parties_message
  z3_seed :: bytes
  z3_salt :: bytes

record keep_zero2 =
  zk2_seed :: bytes
  zk2_salt :: bytes

record keep_zero3 =
  zk3_seed :: bytes

record ('s, 'p) transmit_mul =
  mi_parties :: parties_message
  mi_dlog_proof :: "('s, 'p) dlog_proof"
  mi_nonce :: 's
  mi_enc_proofs :: "('s, 'p) enc_proof list"
  mi_seed :: bytes

record ('s, 'p) keep_mul =
  mik_ot_sender :: "('s, 'p) ot_sender"
  mik_nonce :: 's
  mik_ot_receiver :: ot_receiver
  mik_correlation :: "bool list"
  mik_vec_r :: "'s list"

text \<open>What a party samples for each counterparty.\<close>

record 's init_coins =
  ic_seed :: "party_index \<Rightarrow> bytes"
  ic_salt :: "party_index \<Rightarrow> bytes"
  ic_ot_secret :: "party_index \<Rightarrow> 's"
  ic_ot_proof :: "party_index \<Rightarrow> 's fischlin_coins"
  ic_nonce :: "party_index \<Rightarrow> 's"
  ic_ot_seed :: "party_index \<Rightarrow> bytes"
  ic_bits :: "party_index \<Rightarrow> bool list"
  ic_enc :: "party_index \<Rightarrow> nat \<Rightarrow> 's \<times> 's enc_coins"

section \<open>Committing to the seeds and opening them\<close>

definition zero_commit_step ::
  "('s, 'p) suite \<Rightarrow> party_index \<Rightarrow> 'c init_coins \<Rightarrow> party_index \<Rightarrow>
     (party_index, keep_zero2) btree \<times> transmit_zero2 list \<Rightarrow>
     failure + (party_index, keep_zero2) btree \<times> transmit_zero2 list" where
  "zero_commit_step S me coins i_idx state =
     (case state of (zero_keep, zero_transmit) \<Rightarrow>
        case generate_seed_with_commitment S (ic_seed coins i_idx) (ic_salt coins i_idx) of
          (sd, commitment, salt) \<Rightarrow>
            Inr (bt_insert i_idx \<lparr>zk2_seed = sd, zk2_salt = salt\<rparr> zero_keep,
                 zero_transmit @ [\<lparr>z2_parties = \<lparr>sender = me, receiver = i_idx\<rparr>, z2_commitment = commitment\<rparr>]))"

text \<open>\<open>for i in 1..=share_count\<close>, skipping our own index.\<close>

definition zero_commit ::
  "('s, 'p) suite \<Rightarrow> parameters \<Rightarrow> party_index \<Rightarrow> 'c init_coins \<Rightarrow>
     failure + (party_index, keep_zero2) btree \<times> transmit_zero2 list" where
  "zero_commit S params me coins =
     for_each (\<lambda>i_idx state. if i_idx = me then Inr state else zero_commit_step S me coins i_idx state)
       (party_range params) ([], [])"

definition zero_open_step ::
  "party_index \<Rightarrow> party_index \<times> keep_zero2 \<Rightarrow> (party_index, keep_zero3) btree \<times> transmit_zero3 list \<Rightarrow>
     failure + (party_index, keep_zero3) btree \<times> transmit_zero3 list" where
  "zero_open_step me entry state =
     (case (entry, state) of ((target_party, message_kept), (zero_keep, zero_transmit)) \<Rightarrow>
        Inr (bt_insert target_party \<lparr>zk3_seed = zk2_seed message_kept\<rparr> zero_keep,
             zero_transmit @ [\<lparr>z3_parties = \<lparr>sender = me, receiver = target_party\<rparr>,
                               z3_seed = zk2_seed message_kept, z3_salt = zk2_salt message_kept\<rparr>]))"

definition zero_open ::
  "party_index \<Rightarrow> (party_index, keep_zero2) btree \<Rightarrow>
     failure + (party_index, keep_zero3) btree \<times> transmit_zero3 list" where
  "zero_open me zero_kept = for_each (zero_open_step me) (bt_entries zero_kept) ([], [])"

text \<open>The checks of Phase 4 on the opened seeds.\<close>

definition seed_pair_step ::
  "('s, 'p) suite \<Rightarrow> party_index \<Rightarrow> (party_index, transmit_zero2) btree \<Rightarrow>
     (party_index, transmit_zero3) btree \<Rightarrow> party_index \<times> keep_zero3 \<Rightarrow> seed_pair list \<Rightarrow>
     abort + seed_pair list" where
  "seed_pair_step S me phase2_by_sender phase3_by_sender entry sds =
     (case entry of (target_party, message_kept) \<Rightarrow>
        rbind (ok_or (recoverable me (MissingMessageFromParty target_party)) (bt_get phase2_by_sender target_party))
          (\<lambda>message_received_2.
        rbind (ok_or (recoverable me (MissingMessageFromParty target_party)) (bt_get phase3_by_sender target_party))
          (\<lambda>message_received_3.
            if \<not> verify_seed S (z3_seed message_received_3) (z2_commitment message_received_2)
                 (z3_salt message_received_3)
            then Inl (recoverable me (ZeroShareDecommitFailed target_party))
            else Inr (sds @ [generate_seed_pair me target_party (zk3_seed message_kept)
                               (z3_seed message_received_3)]))))"

definition zero_seed_pairs ::
  "('s, 'p) suite \<Rightarrow> party_index \<Rightarrow> (party_index, keep_zero3) btree \<Rightarrow> transmit_zero2 list \<Rightarrow>
     transmit_zero3 list \<Rightarrow> abort + seed_pair list" where
  "zero_seed_pairs S me zero_kept received_phase2 received_phase3 =
     rbind (collect_by_sender me (bt_contains zero_kept) z2_parties received_phase2) (\<lambda>phase2_by_sender.
     rbind (collect_by_sender me (bt_contains zero_kept) z3_parties received_phase3) (\<lambda>phase3_by_sender.
       if bt_len phase2_by_sender \<noteq> bt_len zero_kept then
         Inl (recoverable me (WrongMessageCount (bt_len zero_kept) (bt_len phase2_by_sender)))
       else if bt_len phase3_by_sender \<noteq> bt_len zero_kept then
         Inl (recoverable me (WrongMessageCount (bt_len zero_kept) (bt_len phase3_by_sender)))
       else for_each (seed_pair_step S me phase2_by_sender phase3_by_sender) (bt_entries zero_kept) []))"

section \<open>Setting up the multiplications\<close>

definition init_mul_sid :: "party_index \<Rightarrow> party_index \<Rightarrow> bytes \<Rightarrow> bytes" where
  "init_mul_sid receiver_idx sender_idx sid =
     ascii ''Multiplication protocol'' @ [as_u8 receiver_idx] @ [as_u8 sender_idx] @ sid"

definition mul_open_step ::
  "('s::field, 'p::ab_group_add) suite \<Rightarrow> party_index \<Rightarrow> bytes \<Rightarrow> 's init_coins \<Rightarrow> party_index \<Rightarrow>
     (party_index, ('s, 'p) keep_mul) btree \<times> ('s, 'p) transmit_mul list \<Rightarrow>
     failure + (party_index, ('s, 'p) keep_mul) btree \<times> ('s, 'p) transmit_mul list" where
  "mul_open_step S me sid coins i_idx state =
     (case state of (mul_keep, mul_transmit) \<Rightarrow>
        rbind (unwrap (mul_receiver_init_phase1 S (ic_ot_secret coins i_idx) (ic_ot_proof coins i_idx)
                 (ic_nonce coins i_idx) (init_mul_sid me i_idx sid))) (\<lambda>(ot_snd, dlog, nonce).
        rbind (map_err (\<lambda>_. Panicked) (mul_sender_init_phase1 S (ic_ot_seed coins i_idx)
                 (ic_bits coins i_idx) (ic_enc coins i_idx) (init_mul_sid i_idx me sid)))
          (\<lambda>(ot_rcv, corr, vec_r, enc_proofs).
            Inr (bt_insert i_idx
                   \<lparr>mik_ot_sender = ot_snd, mik_nonce = nonce, mik_ot_receiver = ot_rcv,
                    mik_correlation = corr, mik_vec_r = vec_r\<rparr> mul_keep,
                 mul_transmit @
                   [\<lparr>mi_parties = \<lparr>sender = me, receiver = i_idx\<rparr>, mi_dlog_proof = dlog, mi_nonce = nonce,
                     mi_enc_proofs = enc_proofs, mi_seed = otr_seed ot_rcv\<rparr>]))))"

definition mul_open ::
  "('s::field, 'p::ab_group_add) suite \<Rightarrow> parameters \<Rightarrow> party_index \<Rightarrow> bytes \<Rightarrow> 's init_coins \<Rightarrow>
     failure + (party_index, ('s, 'p) keep_mul) btree \<times> ('s, 'p) transmit_mul list" where
  "mul_open S params me sid coins =
     for_each (\<lambda>i_idx state. if i_idx = me then Inr state else mul_open_step S me sid coins i_idx state)
       (party_range params) ([], [])"

text \<open>A failed initialization leaves no reusable state, so it is recoverable.\<close>

definition mul_init_failed :: "party_index \<Rightarrow> party_index \<Rightarrow> error_ot \<Rightarrow> abort" where
  "mul_init_failed me target_party err =
     recoverable me (MultiplicationVerificationFailed target_party (ot_description err))"

definition mul_finish_step ::
  "('s::field, 'p::ab_group_add) suite \<Rightarrow> party_index \<Rightarrow> bytes \<Rightarrow> (party_index, ('s, 'p) transmit_mul) btree \<Rightarrow>
     party_index \<times> ('s, 'p) keep_mul \<Rightarrow>
     (party_index, 's mul_receiver) btree \<times> (party_index, 's mul_sender) btree \<Rightarrow>
     abort + (party_index, 's mul_receiver) btree \<times> (party_index, 's mul_sender) btree" where
  "mul_finish_step S me sid received_by_sender entry state =
     (case (entry, state) of ((target_party, message_kept), (receivers, senders)) \<Rightarrow>
        rbind (ok_or (recoverable me (MissingMessageFromParty target_party))
                 (bt_get received_by_sender target_party)) (\<lambda>message_received.
        rbind (map_err (mul_init_failed me target_party)
                 (mul_receiver_init_phase2 S (mik_ot_sender message_kept) (init_mul_sid me target_party sid)
                    (mi_seed message_received) (mi_enc_proofs message_received) (mik_nonce message_kept)))
          (\<lambda>new_receiver.
        rbind (map_err (mul_init_failed me target_party)
                 (mul_sender_init_phase2 S (init_mul_sid target_party me sid) (mik_correlation message_kept)
                    (mik_vec_r message_kept) (mi_dlog_proof message_received) (mi_nonce message_received)))
          (\<lambda>new_sender.
            Inr (bt_insert target_party new_receiver receivers, bt_insert target_party new_sender senders)))))"

definition mul_finish ::
  "('s::field, 'p::ab_group_add) suite \<Rightarrow> party_index \<Rightarrow> bytes \<Rightarrow> (party_index, ('s, 'p) keep_mul) btree \<Rightarrow>
     ('s, 'p) transmit_mul list \<Rightarrow>
     abort + (party_index, 's mul_receiver) btree \<times> (party_index, 's mul_sender) btree" where
  "mul_finish S me sid mul_kept mul_received =
     rbind (collect_by_sender me (bt_contains mul_kept) mi_parties mul_received) (\<lambda>received_by_sender.
       if bt_len received_by_sender \<noteq> bt_len mul_kept then
         Inl (recoverable me (WrongMessageCount (bt_len mul_kept) (bt_len received_by_sender)))
       else for_each (mul_finish_step S me sid received_by_sender) (bt_entries mul_kept) ([], []))"

section \<open>All aborts of the initialization are recoverable\<close>

lemma zero_seed_pairs_error:
  assumes "zero_seed_pairs S me kept r2 r3 = Inl e"
  shows "abort_kind e = Recoverable \<and> abort_index e = me"
proof -
  from assms consider "collect_by_sender me (bt_contains kept) z2_parties r2 = Inl e"
    | "collect_by_sender me (bt_contains kept) z3_parties r3 = Inl e"
    | reason where "e = recoverable me reason"
    | b2 b3 where "for_each (seed_pair_step S me b2 b3) (bt_entries kept) [] = Inl e"
    unfolding zero_seed_pairs_def by (auto simp: rbind_Inl_iff split: if_splits)
  then show ?thesis
  proof cases
    case (4 b2 b3)
    from for_each_error [OF this] show ?thesis
      by (auto simp: seed_pair_step_def rbind_Inl_iff res_simps split: if_splits)
  qed (auto dest: collect_by_sender_error)
qed

lemma mul_finish_error:
  assumes "mul_finish S me sid kept rs = Inl e"
  shows "abort_kind e = Recoverable \<and> abort_index e = me"
proof -
  from assms consider "collect_by_sender me (bt_contains kept) mi_parties rs = Inl e"
    | reason where "e = recoverable me reason"
    | b where "for_each (mul_finish_step S me sid b) (bt_entries kept) ([], []) = Inl e"
    unfolding mul_finish_def by (auto simp: rbind_Inl_iff split: if_splits)
  then show ?thesis
  proof cases
    case (3 b)
    from for_each_error [OF this] show ?thesis
      by (auto simp: mul_finish_step_def rbind_Inl_iff map_err_Inl_iff res_simps mul_init_failed_def)
  qed (auto dest: collect_by_sender_error)
qed

section \<open>Honest counterparties\<close>

lemma sorted_others: "sorted_wrt (<) ks \<Longrightarrow> sorted_wrt (<) (others ks i)"
  unfolding others_def by (rule sorted_wrt_filter)

lemma bt_entries_tabulate: "bt_entries (bt_tabulate f ks) = map (\<lambda>k. (k, f k)) ks"
  by (simp add: bt_entries_def bt_tabulate_def)

lemma bt_len_tabulate: "bt_len (bt_tabulate f ks) = length ks"
  by (simp add: bt_len_def bt_tabulate_def)

lemma bt_contains_tabulate: "bt_contains (bt_tabulate f ks) k \<longleftrightarrow> k \<in> set ks"
  by (simp add: bt_contains_def bt_get_tabulate)

definition zero_keep2 :: "'c init_coins \<Rightarrow> party_index \<Rightarrow> keep_zero2" where
  "zero_keep2 coins j = \<lparr>zk2_seed = ic_seed coins j, zk2_salt = ic_salt coins j\<rparr>"

definition zero_message2 :: "('s, 'p) suite \<Rightarrow> 'c init_coins \<Rightarrow> party_index \<Rightarrow> party_index \<Rightarrow> transmit_zero2" where
  "zero_message2 S coins me j =
     \<lparr>z2_parties = \<lparr>sender = me, receiver = j\<rparr>, z2_commitment = fst (commit S (ic_salt coins j) (ic_seed coins j))\<rparr>"

definition zero_message3 :: "'c init_coins \<Rightarrow> party_index \<Rightarrow> party_index \<Rightarrow> transmit_zero3" where
  "zero_message3 coins me j =
     \<lparr>z3_parties = \<lparr>sender = me, receiver = j\<rparr>, z3_seed = ic_seed coins j, z3_salt = ic_salt coins j\<rparr>"

definition zero_keep3 :: "'c init_coins \<Rightarrow> party_index \<Rightarrow> keep_zero3" where
  "zero_keep3 coins j = \<lparr>zk3_seed = ic_seed coins j\<rparr>"

lemma zero_commit_honest:
  "zero_commit S params me coins =
    Inr (bt_tabulate (zero_keep2 coins) (others (party_range params) me),
         map (zero_message2 S coins me) (others (party_range params) me))"
  unfolding zero_commit_def for_each_skip others_def [symmetric]
  by (rule for_each_tabulate)
    (simp_all add: zero_commit_step_def generate_seed_with_commitment_def commit_def zero_keep2_def
      zero_message2_def sorted_others sorted_party_range)

lemma zero_open_honest:
  assumes "sorted_wrt (<) ks"
  shows "zero_open me (bt_tabulate (zero_keep2 coins) ks) =
    Inr (bt_tabulate (zero_keep3 coins) ks, map (zero_message3 coins me) ks)"
  unfolding zero_open_def bt_entries_tabulate for_each_map
  by (rule for_each_tabulate)
    (simp_all add: zero_open_step_def zero_keep2_def zero_keep3_def zero_message3_def assms)

text \<open>The messages for \<open>me\<close> arrive in the orders \<open>q2\<close> and \<open>q3\<close> of their senders.\<close>

lemma zero_seed_pairs_honest:
  assumes "sorted_wrt (<) ks" and "distinct q2" "set q2 = set ks" and "distinct q3" "set q3 = set ks"
  shows "zero_seed_pairs S me (bt_tabulate (zero_keep3 coins) ks)
      (map (\<lambda>j. zero_message2 S (C j) j me) q2) (map (\<lambda>j. zero_message3 (C j) j me) q3) =
    Inr (map (\<lambda>j. generate_seed_pair me j (ic_seed coins j) (ic_seed (C j) me)) ks)"
proof -
  let ?m2 = "\<lambda>j. zero_message2 S (C j) j me" and ?m3 = "\<lambda>j. zero_message3 (C j) j me"
  let ?kept = "bt_tabulate (zero_keep3 coins) ks"
  have c2: "collect_by_sender me (bt_contains ?kept) z2_parties (map ?m2 q2) = Inr (bt_tabulate ?m2 ks)"
    by (rule collect_messages) (use assms in \<open>simp_all add: zero_message2_def bt_contains_tabulate\<close>)
  have c3: "collect_by_sender me (bt_contains ?kept) z3_parties (map ?m3 q3) = Inr (bt_tabulate ?m3 ks)"
    by (rule collect_messages) (use assms in \<open>simp_all add: zero_message3_def bt_contains_tabulate\<close>)
  have v: "verify_seed S (z3_seed (?m3 j)) (z2_commitment (?m2 j)) (z3_salt (?m3 j))" for j
    by (simp add: verify_seed_def zero_message2_def zero_message3_def commit_def verify_commitment_def)
  have "for_each (seed_pair_step S me (bt_tabulate ?m2 ks) (bt_tabulate ?m3 ks)) (bt_entries ?kept) [] =
      Inr ([] @ map (\<lambda>j. generate_seed_pair me j (ic_seed coins j) (ic_seed (C j) me)) ks)"
    unfolding bt_entries_tabulate for_each_map
    by (rule for_each_append_map)
      (simp add: seed_pair_step_def bt_get_tabulate v, simp add: zero_keep3_def zero_message3_def)
  then show ?thesis
    by (simp add: zero_seed_pairs_def c2 c3 bt_len_tabulate)
qed

text \<open>All messages of the group, delivered in any order.\<close>

lemma zero_seed_pairs_delivered:
  assumes "sorted_wrt (<) all" and "i \<in> set all"
    and "\<And>xs. mset (o2 xs) = mset xs" and "\<And>xs. mset (o3 xs) = mset xs"
  shows "zero_seed_pairs S i (bt_tabulate (zero_keep3 (I i)) (others all i))
      (o2 (inbox z2_parties (\<lambda>j. map (zero_message2 S (I j) j) (others all j)) all i))
      (o3 (inbox z3_parties (\<lambda>j. map (zero_message3 (I j) j) (others all j)) all i)) =
    Inr (map (\<lambda>j. generate_seed_pair i j (ic_seed (I i) j) (ic_seed (I j) i)) (others all i))"
proof -
  have "distinct all" using assms(1) by (simp add: strict_sorted_iff)
  note order = inbox_order [OF this assms(2)]
  obtain p2 where p2: "o2 (inbox z2_parties (\<lambda>j. map (zero_message2 S (I j) j) (others all j)) all i) =
      map (\<lambda>j. zero_message2 S (I j) j i) p2" "distinct p2" "set p2 = set (others all i)"
    using order [where msg = "\<lambda>j. zero_message2 S (I j) j" and route = z2_parties, OF _ assms(3)]
    by (auto simp: zero_message2_def)
  obtain p3 where p3: "o3 (inbox z3_parties (\<lambda>j. map (zero_message3 (I j) j) (others all j)) all i) =
      map (\<lambda>j. zero_message3 (I j) j i) p3" "distinct p3" "set p3 = set (others all i)"
    using order [where msg = "\<lambda>j. zero_message3 (I j) j" and route = z3_parties, OF _ assms(4)]
    by (auto simp: zero_message3_def)
  show ?thesis
    unfolding p2(1) p3(1) by (rule zero_seed_pairs_honest [OF sorted_others [OF assms(1)] p2(2,3) p3(2,3)])
qed

text \<open>Both directions of every pair.\<close>

record ('s, 'p) mul_setup =
  su_ot_sender :: "('s, 'p) ot_sender"
  su_dlog :: "('s, 'p) dlog_proof"
  su_ot_receiver :: ot_receiver
  su_vec_r :: "'s list"
  su_enc_proofs :: "('s, 'p) enc_proof list"
  su_sender :: "'s mul_sender"
  su_receiver :: "'s mul_receiver"

text \<open>The run of the initialization in which \<open>i\<close> will receive and \<open>j\<close> will send.\<close>

definition set_up ::
  "('s::field, 'p::ab_group_add) suite \<Rightarrow> (party_index \<Rightarrow> 's init_coins) \<Rightarrow> bytes \<Rightarrow> party_index \<Rightarrow>
     party_index \<Rightarrow> ('s, 'p) mul_setup \<Rightarrow> bool" where
  "set_up S C sid i j r \<longleftrightarrow>
     mul_receiver_init_phase1 S (ic_ot_secret (C i) j) (ic_ot_proof (C i) j) (ic_nonce (C i) j)
       (init_mul_sid i j sid) = Some (su_ot_sender r, su_dlog r, ic_nonce (C i) j) \<and>
     mul_sender_init_phase1 S (ic_ot_seed (C j) i) (ic_bits (C j) i) (ic_enc (C j) i) (init_mul_sid i j sid) =
       Inr (su_ot_receiver r, ic_bits (C j) i, su_vec_r r, su_enc_proofs r) \<and>
     mul_sender_init_phase2 S (init_mul_sid i j sid) (ic_bits (C j) i) (su_vec_r r) (su_dlog r)
       (ic_nonce (C i) j) = Inr (su_sender r) \<and>
     mul_receiver_init_phase2 S (su_ot_sender r) (init_mul_sid i j sid) (otr_seed (su_ot_receiver r))
       (su_enc_proofs r) (ic_nonce (C i) j) = Inr (su_receiver r) \<and>
     mul_linked (su_sender r) (su_receiver r)"

text \<open>Samples a working generator delivers: no degenerate scalars, and a proof search that ends.\<close>

definition init_coins_ok ::
  "('s::field, 'p::ab_group_add) suite \<Rightarrow> bytes \<Rightarrow> party_index list \<Rightarrow> (party_index \<Rightarrow> 's init_coins) \<Rightarrow> bool" where
  "init_coins_ok S sid all C \<longleftrightarrow> (\<forall>i \<in> set all. \<forall>j \<in> set all - {i}.
     ic_ot_secret (C i) j \<noteq> 0 \<and> coins_ok (ic_ot_proof (C i) j) \<and>
     (\<exists>p. dlog_prove S (ic_ot_proof (C i) j) (ic_ot_secret (C i) j) (init_mul_sid i j sid) = Inr p) \<and>
     length (ic_bits (C j) i) = KAPPA \<and>
     batch_ok S (init_mul_sid i j sid) (ic_ot_seed (C j) i) (ic_enc (C j) i) (ic_bits (C j) i))"

lemma set_up_exists:
  fixes S :: "('s::field, 'p::ab_group_add) suite"
  assumes "suite_ok S" and "init_coins_ok S sid all C"
  shows "\<exists>R. \<forall>i \<in> set all. \<forall>j \<in> set all - {i}. set_up S C sid i j (R i j)"
proof -
  have "\<exists>r. set_up S C sid i j r" if ij: "i \<in> set all" "j \<in> set all - {i}" for i j
  proof -
    let ?sid = "init_mul_sid i j sid"
    have ok: "ic_ot_secret (C i) j \<noteq> 0" "coins_ok (ic_ot_proof (C i) j)" "length (ic_bits (C j) i) = KAPPA"
      "batch_ok S ?sid (ic_ot_seed (C j) i) (ic_enc (C j) i) (ic_bits (C j) i)"
      using assms(2) ij by (simp_all add: init_coins_ok_def)
    obtain p where "dlog_prove S (ic_ot_proof (C i) j) (ic_ot_secret (C i) j) ?sid = Inr p"
      using assms(2) ij by (auto simp: init_coins_ok_def)
    then obtain b d where p1: "mul_receiver_init_phase1 S (ic_ot_secret (C i) j) (ic_ot_proof (C i) j)
        (ic_nonce (C i) j) ?sid = Some (b, d, ic_nonce (C i) j)"
      by (simp add: mul_receiver_init_phase1_def ote_receiver_init_phase1_def ot_sender_init_def)
    from mul_init [OF assms(1) ok(1,2) p1 ok(3,4)] obtain rcv rs prfs ms mr where
      "mul_sender_init_phase1 S (ic_ot_seed (C j) i) (ic_bits (C j) i) (ic_enc (C j) i) ?sid =
         Inr (rcv, ic_bits (C j) i, rs, prfs)"
      "mul_sender_init_phase2 S ?sid (ic_bits (C j) i) rs d (ic_nonce (C i) j) = Inr ms"
      "mul_receiver_init_phase2 S b ?sid (otr_seed rcv) prfs (ic_nonce (C i) j) = Inr mr" "mul_linked ms mr"
      by blast
    with p1 show ?thesis
      by (intro exI [of _ "\<lparr>su_ot_sender = b, su_dlog = d, su_ot_receiver = rcv, su_vec_r = rs,
        su_enc_proofs = prfs, su_sender = ms, su_receiver = mr\<rparr>"]) (simp add: set_up_def)
  qed
  then show ?thesis by metis
qed

definition mul_keep_of ::
  "(party_index \<Rightarrow> 's init_coins) \<Rightarrow> (party_index \<Rightarrow> party_index \<Rightarrow> ('s, 'p) mul_setup) \<Rightarrow> party_index \<Rightarrow>
     party_index \<Rightarrow> ('s, 'p) keep_mul" where
  "mul_keep_of C R i j =
     \<lparr>mik_ot_sender = su_ot_sender (R i j), mik_nonce = ic_nonce (C i) j,
      mik_ot_receiver = su_ot_receiver (R j i), mik_correlation = ic_bits (C i) j, mik_vec_r = su_vec_r (R j i)\<rparr>"

definition mul_message ::
  "(party_index \<Rightarrow> 's init_coins) \<Rightarrow> (party_index \<Rightarrow> party_index \<Rightarrow> ('s, 'p) mul_setup) \<Rightarrow> party_index \<Rightarrow>
     party_index \<Rightarrow> ('s, 'p) transmit_mul" where
  "mul_message C R i j =
     \<lparr>mi_parties = \<lparr>sender = i, receiver = j\<rparr>, mi_dlog_proof = su_dlog (R i j), mi_nonce = ic_nonce (C i) j,
      mi_enc_proofs = su_enc_proofs (R j i), mi_seed = otr_seed (su_ot_receiver (R j i))\<rparr>"

lemma mul_open_honest:
  assumes "\<forall>j \<in> set (others (party_range params) i). set_up S C sid i j (R i j) \<and> set_up S C sid j i (R j i)"
  shows "mul_open S params i sid (C i) =
    Inr (bt_tabulate (mul_keep_of C R i) (others (party_range params) i),
         map (mul_message C R i) (others (party_range params) i))"
  unfolding mul_open_def for_each_skip others_def [symmetric]
proof (rule for_each_tabulate)
  fix j keep tr assume "j \<in> set (others (party_range params) i)"
  with assms have "set_up S C sid i j (R i j)" "set_up S C sid j i (R j i)" by blast+
  then show "mul_open_step S i sid (C i) j (keep, tr) =
      Inr (bt_insert j (mul_keep_of C R i j) keep, tr @ [mul_message C R i j])"
    by (simp add: mul_open_step_def set_up_def unwrap_def mul_keep_of_def mul_message_def)
qed (rule sorted_others [OF sorted_party_range])

lemma mul_finish_honest:
  assumes "sorted_wrt (<) ks" and "distinct q" "set q = set ks"
    and "\<forall>j \<in> set ks. set_up S C sid i j (R i j) \<and> set_up S C sid j i (R j i)"
  shows "mul_finish S i sid (bt_tabulate (mul_keep_of C R i) ks) (map (\<lambda>j. mul_message C R j i) q) =
    Inr (bt_tabulate (\<lambda>j. su_receiver (R i j)) ks, bt_tabulate (\<lambda>j. su_sender (R j i)) ks)"
proof -
  let ?m = "\<lambda>j. mul_message C R j i" and ?kept = "bt_tabulate (mul_keep_of C R i) ks"
  have c: "collect_by_sender i (bt_contains ?kept) mi_parties (map ?m q) = Inr (bt_tabulate ?m ks)"
    by (rule collect_messages) (use assms in \<open>simp_all add: mul_message_def bt_contains_tabulate\<close>)
  have "for_each (mul_finish_step S i sid (bt_tabulate ?m ks)) (map (\<lambda>k. (k, mul_keep_of C R i k)) ks) ([], []) =
    Inr (bt_tabulate (\<lambda>j. su_receiver (R i j)) ks, bt_tabulate (\<lambda>j. su_sender (R j i)) ks)"
    unfolding for_each_map
  proof (rule for_each_tabulate2)
    fix j m m' assume j: "j \<in> set ks"
    with assms(4) have "set_up S C sid i j (R i j)" "set_up S C sid j i (R j i)" by blast+
    with j show "mul_finish_step S i sid (bt_tabulate ?m ks) (j, mul_keep_of C R i j) (m, m') =
        Inr (bt_insert j (su_receiver (R i j)) m, bt_insert j (su_sender (R j i)) m')"
      by (simp add: mul_finish_step_def set_up_def bt_get_tabulate mul_keep_of_def mul_message_def)
  qed (rule assms(1))
  then show ?thesis
    by (simp add: mul_finish_def c bt_len_tabulate bt_entries_tabulate)
qed

lemma mul_finish_delivered:
  assumes "sorted_wrt (<) all" and "i \<in> set all" and "\<And>xs. mset (om xs) = mset xs"
    and "\<forall>j \<in> set (others all i). set_up S C sid i j (R i j) \<and> set_up S C sid j i (R j i)"
  shows "mul_finish S i sid (bt_tabulate (mul_keep_of C R i) (others all i))
      (om (inbox mi_parties (\<lambda>j. map (mul_message C R j) (others all j)) all i)) =
    Inr (bt_tabulate (\<lambda>j. su_receiver (R i j)) (others all i), bt_tabulate (\<lambda>j. su_sender (R j i)) (others all i))"
proof -
  have "distinct all" using assms(1) by (simp add: strict_sorted_iff)
  from inbox_order [OF this assms(2), where msg = "mul_message C R" and route = mi_parties, OF _ assms(3)]
  obtain q where q: "om (inbox mi_parties (\<lambda>j. map (mul_message C R j) (others all j)) all i) =
      map (\<lambda>j. mul_message C R j i) q" "distinct q" "set q = set (others all i)"
    by (auto simp: mul_message_def)
  show ?thesis
    unfolding q(1) by (rule mul_finish_honest [OF sorted_others [OF assms(1)] q(2,3) assms(4)])
qed

end
