(* ===== verification/Dkg.thy ===== *)
theory Dkg
  imports Dkg_Init
begin

text \<open>
  The four phases of \<open>protocols/dkg.rs\<close>.  The main lemma follows an honest run, in any order of
  delivery, to the key material every party ends with; the others are the error behaviour (every
  abort is recoverable, nothing panics in Phase 4), the consistency of the parties and the
  limit on the number of parties.
\<close>

section \<open>Messages for key derivation\<close>

record broadcast_derivation2 =
  b2_sender_index :: party_index
  b2_cc_commitment :: bytes
  b2_protocol_version :: u16

record broadcast_derivation3 =
  b3_sender_index :: party_index
  b3_aux_chain_code :: bytes
  b3_cc_salt :: bytes

record keep_derivation =
  bk_aux_chain_code :: bytes
  bk_cc_salt :: bytes

text \<open>What a party samples.\<close>

record 's dkg_coins =
  dc_polynomial :: "nat \<Rightarrow> 's"
  dc_proof :: "'s fischlin_coins"
  dc_init :: "'s init_coins"
  dc_aux_chain_code :: bytes
  dc_cc_salt :: bytes

section \<open>The phases\<close>

definition dkg_phase1 :: "('s::field, 'p) suite \<Rightarrow> session_data \<Rightarrow> 's dkg_coins \<Rightarrow> 's list" where
  "dkg_phase1 S data coins =
     (let secret_polynomial = step1 (sd_parameters data) (dc_polynomial coins)
      in step2 S (sd_parameters data) secret_polynomial)"

definition dkg_phase2 ::
  "('s::field, 'p) suite \<Rightarrow> session_data \<Rightarrow> 's dkg_coins \<Rightarrow> 's list \<Rightarrow>
     failure + 's \<times> ('s, 'p) proof_commitment \<times> (party_index, keep_zero2) btree \<times> transmit_zero2 list \<times>
       keep_derivation \<times> broadcast_derivation2" where
  "dkg_phase2 S data coins poly_fragments =
     rbind (step3 S (dc_proof coins) (sd_party_index data) (sd_session_id data) poly_fragments)
       (\<lambda>(poly_point, proof_commitment).
     rbind (zero_commit S (sd_parameters data) (sd_party_index data) (dc_init coins))
       (\<lambda>(zero_keep, zero_transmit).
         case commit S (dc_cc_salt coins) (dc_aux_chain_code coins) of (cc_commitment, cc_salt) \<Rightarrow>
           Inr (poly_point, proof_commitment, zero_keep, zero_transmit,
             \<lparr>bk_aux_chain_code = dc_aux_chain_code coins, bk_cc_salt = cc_salt\<rparr>,
             \<lparr>b2_sender_index = sd_party_index data, b2_cc_commitment = cc_commitment,
              b2_protocol_version = PROTOCOL_VERSION\<rparr>)))"

definition dkg_phase3 ::
  "('s::field, 'p::ab_group_add) suite \<Rightarrow> session_data \<Rightarrow> 's dkg_coins \<Rightarrow> (party_index, keep_zero2) btree \<Rightarrow>
     keep_derivation \<Rightarrow>
     failure + (party_index, keep_zero3) btree \<times> transmit_zero3 list \<times> (party_index, ('s, 'p) keep_mul) btree \<times>
       ('s, 'p) transmit_mul list \<times> broadcast_derivation3" where
  "dkg_phase3 S data coins zero_kept bip_kept =
     rbind (zero_open (sd_party_index data) zero_kept) (\<lambda>(zero_keep, zero_transmit).
     rbind (mul_open S (sd_parameters data) (sd_party_index data) (sd_session_id data) (dc_init coins))
       (\<lambda>(mul_keep, mul_transmit).
         Inr (zero_keep, zero_transmit, mul_keep, mul_transmit,
           \<lparr>b3_sender_index = sd_party_index data, b3_aux_chain_code = bk_aux_chain_code bip_kept,
            b3_cc_salt = bk_cc_salt bip_kept\<rparr>)))"

text \<open>Phase 4: the version of every counterparty, attributed to the index it is filed under.\<close>

definition check_broadcast_version :: "party_index \<Rightarrow> party_index \<times> broadcast_derivation2 \<Rightarrow> failure option" where
  "check_broadcast_version me entry =
     (case entry of (sender_idx, broadcast) \<Rightarrow>
        if b2_protocol_version broadcast \<noteq> PROTOCOL_VERSION
        then Some (give_up me (ProtocolVersionMismatch sender_idx PROTOCOL_VERSION (b2_protocol_version broadcast)))
        else None)"

definition chain_code_step ::
  "('s, 'p) suite \<Rightarrow> party_index \<Rightarrow> (party_index, broadcast_derivation2) btree \<Rightarrow>
     (party_index, broadcast_derivation3) btree \<Rightarrow> party_index \<Rightarrow> bytes \<Rightarrow> abort + bytes" where
  "chain_code_step S me received_phase2 received_phase3 i_idx code =
     rbind (ok_or (recoverable me (MissingMessageFromParty i_idx)) (bt_get received_phase3 i_idx)) (\<lambda>phase3_msg.
     rbind (ok_or (recoverable me (MissingMessageFromParty i_idx)) (bt_get received_phase2 i_idx)) (\<lambda>phase2_msg.
       if \<not> verify_commitment S (b3_aux_chain_code phase3_msg) (b2_cc_commitment phase2_msg) (b3_cc_salt phase3_msg)
       then Inl (recoverable me (ChainCodeCommitmentFailed i_idx))
       else Inr (xor_bytes code (b3_aux_chain_code phase3_msg))))"

definition dkg_finish ::
  "session_data \<Rightarrow> 's \<Rightarrow> 'p \<Rightarrow> (party_index, 'p) btree \<Rightarrow> seed_pair list \<Rightarrow>
     (party_index, 's mul_receiver) btree \<Rightarrow> (party_index, 's mul_sender) btree \<Rightarrow> bytes \<Rightarrow>
     ('p \<Rightarrow> string) \<Rightarrow> ('s, 'p) party \<times> 'p public_key_package" where
  "dkg_finish data share key shares sds receivers senders code address_fn =
     (\<lparr>party_parameters = sd_parameters data, party_index = sd_party_index data,
       session_id = sd_session_id data, poly_point = share, pk = key,
       party_zero_share = zero_share_initialize sds, mul_senders = senders, mul_receivers = receivers,
       derivation_data = \<lparr>depth = 0, child_number = 0, parent_fingerprint = [0, 0, 0, 0],
         dd_poly_point = share, dd_pk = key, chain_code = code\<rparr>,
       address = address_fn key\<rparr>,
      PublicKeyPackage_new key shares (sd_parameters data))"

definition dkg_phase4 ::
  "('s::field, 'p::ab_group_add) suite \<Rightarrow> session_data \<Rightarrow> 's \<Rightarrow> ('s, 'p) proof_commitment list \<Rightarrow>
     (party_index, keep_zero3) btree \<Rightarrow> transmit_zero2 list \<Rightarrow> transmit_zero3 list \<Rightarrow>
     (party_index, ('s, 'p) keep_mul) btree \<Rightarrow> ('s, 'p) transmit_mul list \<Rightarrow>
     (party_index, broadcast_derivation2) btree \<Rightarrow> (party_index, broadcast_derivation3) btree \<Rightarrow>
     ('p \<Rightarrow> string) \<Rightarrow> failure + ('s, 'p) party \<times> 'p public_key_package" where
  "dkg_phase4 S data share proofs_commitments zero_kept zero_received_phase2 zero_received_phase3
     mul_kept mul_received bip_received_phase2 bip_received_phase3 address_fn =
     (let me = sd_party_index data in
      rbind (check_each (check_broadcast_version me) (bt_entries bip_received_phase2)) (\<lambda>_.
      rbind (step5 S (sd_parameters data) me (sd_session_id data) proofs_commitments) (\<lambda>(key, shares).
        if key = 0 \<or> key = generator S then Inl (give_up me TrivialPublicKey)
        else if share = 0 \<or> share = 1 then Inl (give_up me TrivialKeyShare)
        else
          rbind (map_err Aborted (zero_seed_pairs S me zero_kept zero_received_phase2 zero_received_phase3)) (\<lambda>sds.
          rbind (map_err Aborted (mul_finish S me (sd_session_id data) mul_kept mul_received)) (\<lambda>(receivers, senders).
          rbind (map_err Aborted (for_each (chain_code_step S me bip_received_phase2 bip_received_phase3)
                   (party_range (sd_parameters data)) (replicate CHAIN_CODE_LEN 0))) (\<lambda>code.
            Inr (dkg_finish data share key shares sds receivers senders code address_fn)))))))"

section \<open>Errors\<close>

lemma chain_code_error:
  assumes "for_each (chain_code_step S me b2 b3) is code = Inl e"
  shows "\<exists>reason. e = recoverable me reason"
  using for_each_error [OF assms] by (auto simp: chain_code_step_def rbind_Inl_iff res_simps split: if_splits)

lemma recoverable_eq: "abort_kind e = Recoverable \<Longrightarrow> e = recoverable (abort_index e) (abort_reason e)"
  by (cases e) (simp add: recoverable_def)

lemma dkg_phase4_error:
  fixes S :: "('s::field, 'p::ab_group_add) suite"
  assumes "suite_ok S"
    and "dkg_phase4 S data share pcs zk r2 r3 mk mr b2 b3 address_fn = Inl e"
  shows "\<exists>reason. e = give_up (sd_party_index data) reason"
proof -
  let ?me = "sd_party_index data"
  from assms(2) consider "check_each (check_broadcast_version ?me) (bt_entries b2) = Inl e"
    | "step5 S (sd_parameters data) ?me (sd_session_id data) pcs = Inl e"
    | "\<exists>reason. e = give_up ?me reason"
    | a where "e = Aborted a" "zero_seed_pairs S ?me zk r2 r3 = Inl a"
    | a where "e = Aborted a" "mul_finish S ?me (sd_session_id data) mk mr = Inl a"
    | a where "e = Aborted a" "for_each (chain_code_step S ?me b2 b3) (party_range (sd_parameters data))
        (replicate CHAIN_CODE_LEN 0) = Inl a"
    unfolding dkg_phase4_def Let_def by (auto simp: rbind_Inl_iff map_err_Inl_iff split: if_splits prod.splits)
  then show ?thesis
  proof cases
    case 1
    then show ?thesis
      by (auto simp: check_broadcast_version_def dest!: check_each_Inl split: if_splits)
  next
    case 2
    then show ?thesis by (rule step5_error [OF assms(1)])
  next
    case (4 a)
    with zero_seed_pairs_error [OF 4(2)] recoverable_eq [of a] show ?thesis by (metis give_up_def)
  next
    case (5 a)
    with mul_finish_error [OF 5(2)] recoverable_eq [of a] show ?thesis by (metis give_up_def)
  next
    case (6 a)
    with chain_code_error [OF 6(2)] show ?thesis by (auto simp: give_up_def)
  qed
qed

section \<open>An honest run\<close>

definition dkg_data :: "parameters \<Rightarrow> bytes \<Rightarrow> party_index \<Rightarrow> session_data" where
  "dkg_data params sid i = \<lparr>sd_parameters = params, sd_party_index = i, sd_session_id = sid\<rparr>"

lemma dkg_data_simps [simp]:
  "sd_parameters (dkg_data params sid i) = params" "sd_party_index (dkg_data params sid i) = i"
  "sd_session_id (dkg_data params sid i) = sid"
  by (simp_all add: dkg_data_def)

text \<open>The polynomial the parties share: the sum of the sampled ones.\<close>

definition secret_poly :: "parameters \<Rightarrow> (party_index \<Rightarrow> 's dkg_coins) \<Rightarrow> 's::field \<Rightarrow> 's" where
  "secret_poly params C x = (\<Sum>j \<in> set (party_range params). horner (step1 params (dc_polynomial (C j))) x)"

lemma secret_poly_lt: "poly_lt (unat (threshold params)) (secret_poly params C)"
proof -
  have "poly_lt (unat (threshold params)) (horner (step1 params s))" for s :: "nat \<Rightarrow> 'a::field"
    using horner_poly [of "step1 params s"] by (simp add: step1_def)
  then show ?thesis unfolding secret_poly_def [abs_def] by (rule poly_lt_sum)
qed

text \<open>The entry of a vector over \<open>1..=n\<close> meant for party \<open>i\<close>.\<close>

definition entry_for :: "party_index \<Rightarrow> 'a list \<Rightarrow> 'a" where
  "entry_for i xs = xs ! (unat (as_u8 i) - 1)"

lemma phase1_entry:
  fixes S :: "('s::field, 'p::ab_group_add) suite"
  assumes "suite_ok S" and "params_ok params" and "i \<in> set (party_range params)"
    and "length polynomial = unat (threshold params)"
  shows "entry_for i (step2 S params polynomial) = horner polynomial (index_scalar i)"
proof -
  have i: "1 \<le> unat (as_u8 i)" "unat (as_u8 i) \<le> unat (share_count params)"
    using assms(3) by (simp_all add: set_party_range)
  then have "share_range params ! (unat (as_u8 i) - 1) = unat (as_u8 i)"
    by (simp add: share_range_def del: upt_Suc)
  moreover have "unat (as_u8 i) - 1 < length (share_range params)"
    using i by (simp add: share_range_def)
  ultimately show ?thesis
    using scalar_from_index [OF assms(1), of i]
    by (simp add: entry_for_def step2_horner [OF assms(2,4)])
qed

text \<open>The fragments for party \<open>i\<close>, in any order, add up to the value of the sum of the polynomials.\<close>

lemma fragments_sum:
  fixes S :: "('s::field, 'p::ab_group_add) suite"
  assumes "suite_ok S" and "params_ok params" and "i \<in> set (party_range params)"
    and "\<And>j. length (L j) = unat (threshold params)" and "mset qs = mset (party_range params)"
  shows "sum_list (map (\<lambda>j. entry_for i (step2 S params (L j))) qs) =
    (\<Sum>j \<in> set (party_range params). horner (L j) (index_scalar i))"
proof -
  have "distinct qs" "set qs = set (party_range params)"
    using assms(5) distinct_party_range by (metis mset_eq_imp_distinct_iff, metis set_mset_mset)
  then show ?thesis
    by (simp add: phase1_entry [OF assms(1-4)] sum_list_distinct_conv_sum_set)
qed

text \<open>The committed proofs of honest parties.\<close>

lemma honest_commitments:
  fixes S :: "('s::field, 'p::ab_group_add) suite"
  assumes "suite_ok S" and "\<And>i. i \<in> A \<Longrightarrow> coins_ok (pr i) \<and> h i \<noteq> 0 \<and>
    (\<exists>r. dlog_prove_commit S (pr i) (h i) sid = Inr r)"
  shows "\<exists>PC. \<forall>i \<in> A. (\<forall>fragments. sum_list fragments = h i \<longrightarrow>
      step3 S (pr i) i sid fragments = Inr (h i, PC i)) \<and> pc_index (PC i) = i \<and>
    dlog_decommit_verify S (pc_proof (PC i)) (pc_commitment (PC i)) sid \<and>
    dlp_point (pc_proof (PC i)) = pmul S (generator S) (h i)"
proof -
  have "\<forall>i \<in> A. \<exists>r. dlog_prove_commit S (pr i) (h i) sid = Inr r" using assms(2) by blast
  from bchoice [OF this] obtain r where r: "\<forall>i \<in> A. dlog_prove_commit S (pr i) (h i) sid = Inr (r i)" by blast
  show ?thesis
  proof (intro exI [of _ "\<lambda>i. \<lparr>pc_index = i, pc_proof = fst (r i), pc_commitment = snd (r i)\<rparr>"] ballI)
    fix i assume i: "i \<in> A"
    then have "dlog_prove_commit S (pr i) (h i) sid = Inr (fst (r i), snd (r i))" using r by simp
    from this dlog_prove_commit_verifies [OF assms(1) _ _ this] assms(2) [OF i]
    show "(\<forall>fragments. sum_list fragments = h i \<longrightarrow> step3 S (pr i) i sid fragments =
          Inr (h i, \<lparr>pc_index = i, pc_proof = fst (r i), pc_commitment = snd (r i)\<rparr>)) \<and>
        pc_index \<lparr>pc_index = i, pc_proof = fst (r i), pc_commitment = snd (r i)\<rparr> = i \<and>
        dlog_decommit_verify S (pc_proof \<lparr>pc_index = i, pc_proof = fst (r i), pc_commitment = snd (r i)\<rparr>)
          (pc_commitment \<lparr>pc_index = i, pc_proof = fst (r i), pc_commitment = snd (r i)\<rparr>) sid \<and>
        dlp_point (pc_proof \<lparr>pc_index = i, pc_proof = fst (r i), pc_commitment = snd (r i)\<rparr>) =
          pmul S (generator S) (h i)"
      by (simp add: step3_def split_beta)
  qed
qed

text \<open>Samples with which no party stops: the proof searches end, and neither the secret key nor a
  share is 0 or 1.\<close>

definition dkg_coins_ok ::
  "('s::field, 'p::ab_group_add) suite \<Rightarrow> parameters \<Rightarrow> bytes \<Rightarrow> (party_index \<Rightarrow> 's dkg_coins) \<Rightarrow> bool" where
  "dkg_coins_ok S params sid C \<longleftrightarrow>
     (\<forall>i \<in> set (party_range params). coins_ok (dc_proof (C i)) \<and>
        (\<exists>r. dlog_prove_commit S (dc_proof (C i)) (secret_poly params C (index_scalar i)) sid = Inr r) \<and>
        secret_poly params C (index_scalar i) \<notin> {0, 1}) \<and>
     secret_poly params C 0 \<notin> {0, 1} \<and>
     init_coins_ok S sid (party_range params) (\<lambda>i. dc_init (C i))"

definition keep_derivation_of :: "'s dkg_coins \<Rightarrow> keep_derivation" where
  "keep_derivation_of coins = \<lparr>bk_aux_chain_code = dc_aux_chain_code coins, bk_cc_salt = dc_cc_salt coins\<rparr>"

definition broadcast2_of :: "('s, 'p) suite \<Rightarrow> 's dkg_coins \<Rightarrow> party_index \<Rightarrow> broadcast_derivation2" where
  "broadcast2_of S coins i = \<lparr>b2_sender_index = i,
     b2_cc_commitment = fst (commit S (dc_cc_salt coins) (dc_aux_chain_code coins)),
     b2_protocol_version = PROTOCOL_VERSION\<rparr>"

definition broadcast3_of :: "'s dkg_coins \<Rightarrow> party_index \<Rightarrow> broadcast_derivation3" where
  "broadcast3_of coins i = \<lparr>b3_sender_index = i, b3_aux_chain_code = dc_aux_chain_code coins,
     b3_cc_salt = dc_cc_salt coins\<rparr>"

lemma dkg_phase2_honest:
  assumes "step3 S (dc_proof coins) i sid fragments = Inr (share, pc)"
  shows "dkg_phase2 S (dkg_data params sid i) coins fragments =
    Inr (share, pc, bt_tabulate (zero_keep2 (dc_init coins)) (others (party_range params) i),
      map (zero_message2 S (dc_init coins) i) (others (party_range params) i),
      keep_derivation_of coins, broadcast2_of S coins i)"
  using assms
  by (simp add: dkg_phase2_def zero_commit_honest commit_def keep_derivation_of_def broadcast2_of_def)

lemma dkg_phase3_honest:
  assumes "\<forall>j \<in> set (others (party_range params) i).
    set_up S (\<lambda>i. dc_init (C i)) sid i j (R i j) \<and> set_up S (\<lambda>i. dc_init (C i)) sid j i (R j i)"
  shows "dkg_phase3 S (dkg_data params sid i) (C i)
      (bt_tabulate (zero_keep2 (dc_init (C i))) (others (party_range params) i)) (keep_derivation_of (C i)) =
    Inr (bt_tabulate (zero_keep3 (dc_init (C i))) (others (party_range params) i),
      map (zero_message3 (dc_init (C i)) i) (others (party_range params) i),
      bt_tabulate (mul_keep_of (\<lambda>i. dc_init (C i)) R i) (others (party_range params) i),
      map (mul_message (\<lambda>i. dc_init (C i)) R i) (others (party_range params) i), broadcast3_of (C i) i)"
  using mul_open_honest [OF assms]
  by (simp add: dkg_phase3_def zero_open_honest sorted_others sorted_party_range keep_derivation_of_def
      broadcast3_of_def)

text \<open>The chain code of the key.\<close>

definition joint_chain_code :: "parameters \<Rightarrow> (party_index \<Rightarrow> 's dkg_coins) \<Rightarrow> bytes" where
  "joint_chain_code params C =
     foldl xor_bytes (replicate CHAIN_CODE_LEN 0) (map (\<lambda>j. dc_aux_chain_code (C j)) (party_range params))"

lemma chain_code_honest:
  "for_each (chain_code_step S me (bt_tabulate (\<lambda>j. broadcast2_of S (C j) j) (party_range params))
       (bt_tabulate (\<lambda>j. broadcast3_of (C j) j) (party_range params)))
     (party_range params) (replicate CHAIN_CODE_LEN 0) = Inr (joint_chain_code params C)"
proof -
  let ?b2 = "bt_tabulate (\<lambda>j. broadcast2_of S (C j) j) (party_range params)"
  let ?b3 = "bt_tabulate (\<lambda>j. broadcast3_of (C j) j) (party_range params)"
  have "for_each (chain_code_step S me ?b2 ?b3) js code =
      Inr (foldl xor_bytes code (map (\<lambda>j. dc_aux_chain_code (C j)) js))"
    if "set js \<subseteq> set (party_range params)" for js code
    using that
    by (induction js arbitrary: code)
      (simp_all add: chain_code_step_def bt_get_tabulate verify_commitment_def commit_def broadcast2_of_def
        broadcast3_of_def)
  then show ?thesis by (simp add: joint_chain_code_def)
qed

definition dkg_party ::
  "('s::field, 'p::ab_group_add) suite \<Rightarrow> parameters \<Rightarrow> bytes \<Rightarrow> (party_index \<Rightarrow> 's dkg_coins) \<Rightarrow>
     (party_index \<Rightarrow> party_index \<Rightarrow> ('s, 'p) mul_setup) \<Rightarrow> ('p \<Rightarrow> string) \<Rightarrow> party_index \<Rightarrow> ('s, 'p) party" where
  "dkg_party S params sid C R address_fn i =
     (let key = pmul S (generator S) (secret_poly params C 0);
          share = secret_poly params C (index_scalar i);
          cps = others (party_range params) i
      in \<lparr>party_parameters = params, party_index = i, session_id = sid, poly_point = share, pk = key,
          party_zero_share = pairwise_seeds (party_range params) (\<lambda>i j. ic_seed (dc_init (C i)) j) i,
          mul_senders = bt_tabulate (\<lambda>j. su_sender (R j i)) cps,
          mul_receivers = bt_tabulate (\<lambda>j. su_receiver (R i j)) cps,
          derivation_data = \<lparr>depth = 0, child_number = 0, parent_fingerprint = [0, 0, 0, 0],
            dd_poly_point = share, dd_pk = key, chain_code = joint_chain_code params C\<rparr>,
          address = address_fn key\<rparr>)"

definition dkg_package ::
  "('s::field, 'p::ab_group_add) suite \<Rightarrow> parameters \<Rightarrow> (party_index \<Rightarrow> 's dkg_coins) \<Rightarrow> 'p public_key_package" where
  "dkg_package S params C = PublicKeyPackage_new (pmul S (generator S) (secret_poly params C 0))
     (bt_tabulate (\<lambda>j. pmul S (generator S) (secret_poly params C (index_scalar j))) (party_range params)) params"

lemma dkg_phase4_honest:
  fixes S :: "('s::field, 'p::ab_group_add) suite"
  assumes "suite_ok S" and "cyclic S" and "no_wrap params" and "dkg_coins_ok S params sid C"
    and i: "i \<in> set (party_range params)"
    and "mset qs = mset (party_range params)"
    and PC: "\<And>j. j \<in> set (party_range params) \<Longrightarrow> pc_index (PC j) = j \<and>
      dlog_decommit_verify S (pc_proof (PC j)) (pc_commitment (PC j)) sid \<and>
      dlp_point (pc_proof (PC j)) = pmul S (generator S) (secret_poly params C (index_scalar j))"
    and set_up: "\<forall>j \<in> set (others (party_range params) i).
      set_up S (\<lambda>i. dc_init (C i)) sid i j (R i j) \<and> set_up S (\<lambda>i. dc_init (C i)) sid j i (R j i)"
    and "\<And>xs. mset (o2 xs) = mset xs" and "\<And>xs. mset (o3 xs) = mset xs" and "\<And>xs. mset (om xs) = mset xs"
  shows "dkg_phase4 S (dkg_data params sid i) (secret_poly params C (index_scalar i)) (map PC qs)
      (bt_tabulate (zero_keep3 (dc_init (C i))) (others (party_range params) i))
      (o2 (inbox z2_parties (\<lambda>j. map (zero_message2 S (dc_init (C j)) j) (others (party_range params) j))
        (party_range params) i))
      (o3 (inbox z3_parties (\<lambda>j. map (zero_message3 (dc_init (C j)) j) (others (party_range params) j))
        (party_range params) i))
      (bt_tabulate (mul_keep_of (\<lambda>i. dc_init (C i)) R i) (others (party_range params) i))
      (om (inbox mi_parties (\<lambda>j. map (mul_message (\<lambda>i. dc_init (C i)) R j) (others (party_range params) j))
        (party_range params) i))
      (bt_tabulate (\<lambda>j. broadcast2_of S (C j) j) (party_range params))
      (bt_tabulate (\<lambda>j. broadcast3_of (C j) j) (party_range params)) address_fn =
    Inr (dkg_party S params sid C R address_fn i, dkg_package S params C)"
proof -
  let ?f = "secret_poly params C"
  have versions: "check_each (check_broadcast_version i) (bt_entries (bt_tabulate (\<lambda>j. broadcast2_of S (C j) j)
      (party_range params))) = Inr ()"
    by (auto simp: check_each_Inr_iff bt_entries_tabulate check_broadcast_version_def broadcast2_of_def)
  note s5 = step5_honest [OF assms(1-3,6) secret_poly_lt PC, where me = i]
  have key: "pmul S (generator S) (?f 0) \<noteq> 0" "pmul S (generator S) (?f 0) \<noteq> generator S"
    using assms(4) pmul_gen_cancel [OF assms(1), of "?f 0" 0] pmul_gen_cancel [OF assms(1), of "?f 0" 1]
    by (auto simp: dkg_coins_ok_def pmul_zero [OF assms(1)] pmul_one [OF assms(1)])
  have share: "?f (index_scalar i) \<noteq> 0" "?f (index_scalar i) \<noteq> 1"
    using assms(4) i by (auto simp: dkg_coins_ok_def)
  note zero = zero_seed_pairs_delivered [OF sorted_party_range i assms(9,10), where S = S and I = "\<lambda>j. dc_init (C j)"]
  note muls = mul_finish_delivered [OF sorted_party_range i assms(11) set_up]
  show ?thesis
    using zero muls key share versions
    by (simp add: dkg_phase4_def dkg_finish_def s5 chain_code_honest dkg_party_def dkg_package_def
        pairwise_seeds_def Let_def) (simp add: others_def)
qed

lemma dkg_key_material:
  fixes S :: "('s::field, 'p::ab_group_add) suite"
  assumes "params_ok params"
    and set_up: "\<forall>i \<in> set (party_range params). \<forall>j \<in> set (party_range params) - {i}.
      set_up S (\<lambda>i. dc_init (C i)) sid i j (R i j)"
  shows "key_material S (secret_poly params C) params sid (joint_chain_code params C)
    (\<lambda>i j. ic_seed (dc_init (C i)) j) (party_range params) (dkg_party S params sid C R address_fn)"
proof -
  have bound: "as_u8 i \<le> share_count params" if "i \<in> set (party_range params)" for i
    using that by (simp add: set_party_range word_le_nat_alt)
  have "\<exists>ms mr. bt_get (mul_senders (dkg_party S params sid C R address_fn i)) j = Some ms \<and>
      bt_get (mul_receivers (dkg_party S params sid C R address_fn j)) i = Some mr \<and> mul_linked ms mr"
    if "i \<in> set (party_range params)" "j \<in> set (party_range params) - {i}" for i j
  proof -
    have "set_up S (\<lambda>i. dc_init (C i)) sid j i (R j i)" using set_up that by auto
    with that show ?thesis by (auto simp: dkg_party_def bt_get_tabulate set_up_def Let_def)
  qed
  with assms(1) bound secret_poly_lt [of params C] show ?thesis
    unfolding key_material_def by (simp add: distinct_party_range) (simp add: dkg_party_def Let_def)
qed

text \<open>The rounds of the whole group.  The fragments reach party \<open>i\<close> in the order \<open>q1 i\<close> of their
  senders and the proofs in the order \<open>q2 i\<close>; the messages of the initialization are permuted
  by \<open>o2\<close>, \<open>o3\<close> and \<open>om\<close>; the broadcasts are filed under the index of their sender.\<close>

lemma dkg_rounds:
  fixes S :: "('s::field, 'p::ab_group_add) suite"
  assumes "suite_ok S" and "cyclic S" and "no_wrap params" and "dkg_coins_ok S params sid C"
    and q1: "\<And>i. mset (q1 i) = mset (party_range params)" and q2: "\<And>i. mset (q2 i) = mset (party_range params)"
    and o2: "\<And>i xs. mset (o2 i xs) = mset xs" and o3: "\<And>i xs. mset (o3 i xs) = mset xs"
    and om: "\<And>i xs. mset (om i xs) = mset xs"
  shows "\<exists>PC ZK ZT BK B2 ZK3 ZT3 MK MT B3 P.
    (\<forall>i \<in> set (party_range params).
      dkg_phase2 S (dkg_data params sid i) (C i)
        (map (\<lambda>j. entry_for i (dkg_phase1 S (dkg_data params sid j) (C j))) (q1 i)) =
        Inr (secret_poly params C (index_scalar i), PC i, ZK i, ZT i, BK i, B2 i) \<and>
      dkg_phase3 S (dkg_data params sid i) (C i) (ZK i) (BK i) = Inr (ZK3 i, ZT3 i, MK i, MT i, B3 i) \<and>
      dkg_phase4 S (dkg_data params sid i) (secret_poly params C (index_scalar i)) (map PC (q2 i)) (ZK3 i)
        (o2 i (inbox z2_parties ZT (party_range params) i)) (o3 i (inbox z3_parties ZT3 (party_range params) i))
        (MK i) (om i (inbox mi_parties MT (party_range params) i))
        (bt_tabulate B2 (party_range params)) (bt_tabulate B3 (party_range params)) address_fn =
        Inr (P i, dkg_package S params C)) \<and>
    key_material S (secret_poly params C) params sid (joint_chain_code params C)
      (\<lambda>i j. ic_seed (dc_init (C i)) j) (party_range params) P"
proof -
  let ?all = "party_range params" and ?f = "secret_poly params C" and ?I = "\<lambda>i. dc_init (C i)"
  have ok: "params_ok params" using assms(3) by (simp add: no_wrap_def)
  let ?L = "\<lambda>j. step1 params (dc_polynomial (C j))"
  obtain PC where PC: "\<forall>i \<in> set ?all. (\<forall>fragments. sum_list fragments = ?f (index_scalar i) \<longrightarrow>
      step3 S (dc_proof (C i)) i sid fragments = Inr (?f (index_scalar i), PC i)) \<and> pc_index (PC i) = i \<and>
    dlog_decommit_verify S (pc_proof (PC i)) (pc_commitment (PC i)) sid \<and>
    dlp_point (pc_proof (PC i)) = pmul S (generator S) (?f (index_scalar i))"
    using honest_commitments [OF assms(1), of "set ?all" "\<lambda>i. dc_proof (C i)" "\<lambda>i. ?f (index_scalar i)" sid]
      assms(4) unfolding dkg_coins_ok_def by blast
  obtain R where R: "\<forall>i \<in> set ?all. \<forall>j \<in> set ?all - {i}. set_up S ?I sid i j (R i j)"
    using set_up_exists [OF assms(1)] assms(4) unfolding dkg_coins_ok_def by blast
  let ?ZT = "\<lambda>j. map (zero_message2 S (?I j) j) (others ?all j)"
    and ?ZT3 = "\<lambda>j. map (zero_message3 (?I j) j) (others ?all j)"
    and ?MT = "\<lambda>j. map (mul_message ?I R j) (others ?all j)"
  have "dkg_phase2 S (dkg_data params sid i) (C i)
        (map (\<lambda>j. entry_for i (dkg_phase1 S (dkg_data params sid j) (C j))) (q1 i)) =
        Inr (?f (index_scalar i), PC i, bt_tabulate (zero_keep2 (?I i)) (others ?all i), ?ZT i,
          keep_derivation_of (C i), broadcast2_of S (C i) i) \<and>
      dkg_phase3 S (dkg_data params sid i) (C i) (bt_tabulate (zero_keep2 (?I i)) (others ?all i))
        (keep_derivation_of (C i)) =
        Inr (bt_tabulate (zero_keep3 (?I i)) (others ?all i), ?ZT3 i,
          bt_tabulate (mul_keep_of ?I R i) (others ?all i), ?MT i, broadcast3_of (C i) i) \<and>
      dkg_phase4 S (dkg_data params sid i) (?f (index_scalar i)) (map PC (q2 i))
        (bt_tabulate (zero_keep3 (?I i)) (others ?all i))
        (o2 i (inbox z2_parties ?ZT ?all i)) (o3 i (inbox z3_parties ?ZT3 ?all i))
        (bt_tabulate (mul_keep_of ?I R i) (others ?all i)) (om i (inbox mi_parties ?MT ?all i))
        (bt_tabulate (\<lambda>j. broadcast2_of S (C j) j) ?all) (bt_tabulate (\<lambda>j. broadcast3_of (C j) j) ?all) address_fn =
        Inr (dkg_party S params sid C R address_fn i, dkg_package S params C)"
    if i: "i \<in> set ?all" for i
  proof -
    have up: "\<forall>j \<in> set (others ?all i). set_up S ?I sid i j (R i j) \<and> set_up S ?I sid j i (R j i)"
      using R i by (auto simp: set_others)
    have "sum_list (map (\<lambda>j. entry_for i (dkg_phase1 S (dkg_data params sid j) (C j))) (q1 i)) = ?f (index_scalar i)"
      using fragments_sum [OF assms(1) ok i _ q1, of ?L i]
      by (simp add: dkg_phase1_def secret_poly_def step1_def)
    with PC i have "step3 S (dc_proof (C i)) i sid (map (\<lambda>j. entry_for i (dkg_phase1 S (dkg_data params sid j)
        (C j))) (q1 i)) = Inr (?f (index_scalar i), PC i)" by blast
    moreover have "pc_index (PC j) = j \<and> dlog_decommit_verify S (pc_proof (PC j)) (pc_commitment (PC j)) sid \<and>
        dlp_point (pc_proof (PC j)) = pmul S (generator S) (?f (index_scalar j))" if "j \<in> set ?all" for j
      using PC that by blast
    note ph4 = dkg_phase4_honest [OF assms(1-4) i q2 this up o2 o3 om, where address_fn = address_fn]
    ultimately show ?thesis
      using dkg_phase2_honest [of S "C i" i sid _ _ _ params] dkg_phase3_honest [OF up] by (intro conjI ph4)
  qed
  then show ?thesis
    using dkg_key_material [OF ok R, where address_fn = address_fn]
    by (intro exI [of _ PC] exI [of _ "\<lambda>i. bt_tabulate (zero_keep2 (?I i)) (others ?all i)"] exI [of _ ?ZT]
        exI [of _ "\<lambda>i. keep_derivation_of (C i)"] exI [of _ "\<lambda>i. broadcast2_of S (C i) i"]
        exI [of _ "\<lambda>i. bt_tabulate (zero_keep3 (?I i)) (others ?all i)"] exI [of _ ?ZT3]
        exI [of _ "\<lambda>i. bt_tabulate (mul_keep_of ?I R i) (others ?all i)"] exI [of _ ?MT]
        exI [of _ "\<lambda>i. broadcast3_of (C i) i"] exI [of _ "dkg_party S params sid C R address_fn"] conjI ballI) blast+
qed

section \<open>Properties\<close>

text \<open>C5: honest key generation.  In any order of delivery, unless a proof search is exhausted or the key
  or a share falls on 0 or 1, Phases 2 to 4 return at every party; all parties return the same
  public key package, which holds the key and the verification share of each party, and together
  they hold key material for the sum of their polynomials.\<close>

theorem dkg_honest_run:
  fixes S :: "('s::field, 'p::ab_group_add) suite"
  assumes "suite_ok S" and "cyclic S" and "params_ok params" and "share_count params \<noteq> 255"
    and "dkg_coins_ok S params sid C"
    and "\<And>i. mset (q1 i) = mset (party_range params)" and "\<And>i. mset (q2 i) = mset (party_range params)"
    and "\<And>i xs. mset (o2 i xs) = mset xs" and "\<And>i xs. mset (o3 i xs) = mset xs"
    and "\<And>i xs. mset (om i xs) = mset xs"
  shows "\<exists>PC ZK ZT BK B2 ZK3 ZT3 MK MT B3 P.
    (\<forall>i \<in> set (party_range params).
      dkg_phase2 S (dkg_data params sid i) (C i)
        (map (\<lambda>j. entry_for i (dkg_phase1 S (dkg_data params sid j) (C j))) (q1 i)) =
        Inr (secret_poly params C (index_scalar i), PC i, ZK i, ZT i, BK i, B2 i) \<and>
      dkg_phase3 S (dkg_data params sid i) (C i) (ZK i) (BK i) = Inr (ZK3 i, ZT3 i, MK i, MT i, B3 i) \<and>
      dkg_phase4 S (dkg_data params sid i) (secret_poly params C (index_scalar i)) (map PC (q2 i)) (ZK3 i)
        (o2 i (inbox z2_parties ZT (party_range params) i)) (o3 i (inbox z3_parties ZT3 (party_range params) i))
        (MK i) (om i (inbox mi_parties MT (party_range params) i))
        (bt_tabulate B2 (party_range params)) (bt_tabulate B3 (party_range params)) address_fn =
        Inr (P i, dkg_package S params C)) \<and>
    key_material S (secret_poly params C) params sid (joint_chain_code params C)
      (\<lambda>i j. ic_seed (dc_init (C i)) j) (party_range params) P"
  using assms by (intro dkg_rounds) (simp_all add: no_wrap_def)

text \<open>C30: Phase 4 of key generation only fails recoverably.  Whatever was received, an error is a
  recoverable abort of the running party: no counterparty is banned and nothing panics.\<close>

theorem dkg_phase4_recoverable:
  fixes S :: "('s::field, 'p::ab_group_add) suite"
  assumes "suite_ok S"
    and "dkg_phase4 S data share pcs zk r2 r3 mk mr b2 b3 address_fn = Inl e"
  shows "\<exists>reason. e = Aborted (recoverable (sd_party_index data) reason)"
  using dkg_phase4_error [OF assms] by (simp add: give_up_def)

text \<open>C29: a key cannot have 255 parties, although the parameters and the indices allow it: the range of
  the last window of Step 5 wraps around, and Phase 4 fails whatever was received.\<close>

theorem dkg_255_parties_fail:
  fixes S :: "('s::field, 'p::ab_group_add) suite"
  assumes "params_ok (sd_parameters data)" and "share_count (sd_parameters data) = 255"
  shows "\<exists>e. dkg_phase4 S data share pcs zk r2 r3 mk mr b2 b3 address_fn = Inl e"
proof (cases "dkg_phase4 S data share pcs zk r2 r3 mk mr b2 b3 address_fn")
  case (Inr result)
  then obtain key shares where "step5 S (sd_parameters data) (sd_party_index data) (sd_session_id data) pcs =
      Inr (key, shares)" "key \<noteq> 0"
    unfolding dkg_phase4_def Let_def by (auto simp: rbind_Inr_iff split: if_splits prod.splits)
  with step5_wraps [OF assms] show ?thesis by blast
qed blast

lemma dkg_phase4_recoverable_witness:
  "\<exists>reason. dkg_phase4 sample_suite (dkg_data sample_params [1] (PartyIndex 1)) 12 [] [] [] [] [] []
     [(PartyIndex 2, \<lparr>b2_sender_index = PartyIndex 3, b2_cc_commitment = [], b2_protocol_version = 7\<rparr>)] []
     (\<lambda>_. []) = Inl (Aborted (recoverable (PartyIndex 1) reason))"
proof -
  let ?r = "dkg_phase4 sample_suite (dkg_data sample_params [1] (PartyIndex 1)) 12 [] [] [] [] [] []
     [(PartyIndex 2, \<lparr>b2_sender_index = PartyIndex 3, b2_cc_commitment = [], b2_protocol_version = 7\<rparr>)] [] (\<lambda>_. [])"
  have "?r = Inl (give_up (PartyIndex 1) (ProtocolVersionMismatch (PartyIndex 2) PROTOCOL_VERSION 7))"
    by (simp add: dkg_phase4_def check_broadcast_version_def bt_entries_def PROTOCOL_VERSION_def)
  then show ?thesis using dkg_phase4_recoverable [OF sample_suite_ok] by fastforce
qed

lemma dkg_255_parties_fail_witness:
  "\<exists>e. dkg_phase4 sample_suite (dkg_data \<lparr>threshold = 2, share_count = 255\<rparr> [1] (PartyIndex 1)) 12 [] [] [] []
     [] [] [] [] (\<lambda>_. []) = Inl e"
  by (rule dkg_255_parties_fail) (simp_all add: params_ok_def)

text \<open>Three parties with threshold 2; the polynomials are 1 + x, 2 + 2 x and 4 + 2 x.\<close>

definition sample_dkg_coins :: "party_index \<Rightarrow> gf257 dkg_coins" where
  "sample_dkg_coins i =
     \<lparr>dc_polynomial = (if i = PartyIndex 1 then (\<lambda>k. 1) else if i = PartyIndex 2 then (\<lambda>k. 2)
        else (\<lambda>k. if k = 0 then 4 else 2)),
      dc_proof = sample_coins 7,
      dc_init = \<lparr>ic_seed = \<lambda>j. replicate 32 (as_u8 i + 5 * as_u8 j), ic_salt = \<lambda>j. [as_u8 j],
        ic_ot_secret = \<lambda>j. 5, ic_ot_proof = \<lambda>j. sample_coins 7, ic_nonce = \<lambda>j. 3, ic_ot_seed = \<lambda>j. [2],
        ic_bits = \<lambda>j. replicate KAPPA True,
        ic_enc = \<lambda>j n. (6, \<lparr>real_nonce = 3, fake_challenge = 11, fake_response = 20\<rparr>)\<rparr>,
      dc_aux_chain_code = replicate 32 (as_u8 i), dc_cc_salt = [9]\<rparr>"

definition init_suite :: "(gf257, gf257) suite" where
  "init_suite = sample_suite\<lparr>sha256 := \<lambda>_. be_bytes 32 9\<rparr>"

lemma init_suite_ok: "suite_ok init_suite"
  unfolding init_suite_def by (rule sample_hash_ok) simp

lemma init_suite_prove: "\<exists>p c. dlog_prove_commit init_suite (sample_coins 7) w sid = Inr (p, c)"
  unfolding init_suite_def by (rule sample_prove_commit [of "\<lambda>_. be_bytes 32 9" "be_bytes 32 9"]) simp

lemma init_suite_base: "base_ot_h init_suite sid sd = 9"
  by (simp add: base_ot_h_def tagged_hash_as_scalar_def tagged_hash_def hash_bytes_def init_suite_def
      reduce_hash_to_scalar_def gf_reduce_def of_be_be_bytes gf_eq_iff)

lemma sample_secret_poly: "secret_poly sample_params sample_dkg_coins x = 7 + 5 * x"
proof -
  have "step1 sample_params s = [s 0, s 1]" for s :: "nat \<Rightarrow> gf257"
    by (simp add: step1_def sample_params_def upt_rec)
  then show ?thesis
    by (simp add: secret_poly_def sample_party_range sample_dkg_coins_def algebra_simps)
qed

lemma sample_dkg_coins_any: "dkg_coins_ok init_suite sample_params sid sample_dkg_coins"
proof -
  have prove: "\<exists>p. dlog_prove init_suite (sample_coins 7) w sid = Inr p" for w sid
    using init_suite_prove [of w sid] by (auto simp: dlog_prove_commit_def rbind_Inr_iff)
  have "init_coins_ok init_suite sid (party_range sample_params) (\<lambda>i. dc_init (sample_dkg_coins i))"
    unfolding init_coins_ok_def batch_ok_def init_suite_base
    by (simp add: sample_dkg_coins_def sample_coins_ok prove [unfolded init_suite_def] choice_ok_def init_suite_def gf_eq_iff u16_MAX_def ote_sizes)
  then show ?thesis
    using init_suite_prove
    by (auto simp: dkg_coins_ok_def sample_secret_poly sample_party_range index_scalar_def gf_eq_iff
        sample_dkg_coins_def [THEN arg_cong [of _ _ dc_proof]] sample_coins_ok)
qed

lemmas sample_dkg_coins_ok = sample_dkg_coins_any [of "[1]"]

lemma dkg_honest_run_witness:
  "\<exists>P. pk (P (PartyIndex 2)) = 7 \<and> poly_point (P (PartyIndex 2)) = 17 \<and>
    key_material init_suite (secret_poly sample_params sample_dkg_coins) sample_params [1]
      (joint_chain_code sample_params sample_dkg_coins) (\<lambda>i j. ic_seed (dc_init (sample_dkg_coins i)) j)
      (party_range sample_params) (P :: party_index \<Rightarrow> (gf257, gf257) party)"
proof -
  have "share_count sample_params \<noteq> 255" by (simp add: sample_params_def)
  from dkg_honest_run [OF init_suite_ok _ sample_params_ok(1) this sample_dkg_coins_ok,
      of "\<lambda>_. party_range sample_params" "\<lambda>_. rev (party_range sample_params)" "\<lambda>_. rev" "\<lambda>_ xs. xs" "\<lambda>_. rev" "\<lambda>_. []"]
  obtain P where "key_material init_suite (secret_poly sample_params sample_dkg_coins) sample_params [1]
      (joint_chain_code sample_params sample_dkg_coins) (\<lambda>i j. ic_seed (dc_init (sample_dkg_coins i)) j)
      (party_range sample_params) (P :: party_index \<Rightarrow> (gf257, gf257) party)"
    using sample_cyclic by (simp add: init_suite_def) blast
  moreover from this have "pk (P (PartyIndex 2)) = 7" "poly_point (P (PartyIndex 2)) = 17"
    by (simp_all add: key_material_def sample_party_range sample_secret_poly index_scalar_def init_suite_def gf_eq_iff)
  ultimately show ?thesis by blast
qed

end
