(* ===== verification/Refresh.thy ===== *)
theory Refresh
  imports Dkg
begin

text \<open>
  \<open>protocols/refresh.rs\<close>: the complete refresh, which runs key generation again on a polynomial
  with constant term zero and sets up fresh multiplications, and the faster refresh, which
  re-randomizes the existing base transfers from the pairwise seeds.  Both return a new party and
  wipe the old one, on success only.  The lemmas show that both keep the public key and turn key
  material into key material, and that every abort is recoverable.
\<close>

section \<open>Shared parts\<close>

text \<open>The messages and kept data of the faster refresh have the fields of those of key generation.\<close>

type_synonym transmit_refresh2 = transmit_zero2
type_synonym transmit_refresh3 = transmit_zero3
type_synonym keep_refresh2 = keep_zero2
type_synonym keep_refresh3 = keep_zero3

text \<open>\<open>Zeroize for Party\<close>: the parameters, the index and the public keys stay.\<close>

definition party_zeroize :: "('s::zero, 'p) party \<Rightarrow> ('s, 'p) party" where
  "party_zeroize p = p\<lparr>session_id := [], poly_point := 0, party_zero_share := \<lparr>seeds = []\<rparr>,
     mul_senders := [], mul_receivers := [],
     derivation_data := (derivation_data p)\<lparr>depth := 0, child_number := 0,
       parent_fingerprint := [0, 0, 0, 0], dd_poly_point := 0, chain_code := replicate CHAIN_CODE_LEN 0\<rparr>,
     address := []\<rparr>"

text \<open>The polynomial: the constant term is zero.\<close>

definition refresh_polynomial :: "parameters \<Rightarrow> (nat \<Rightarrow> 's::zero) \<Rightarrow> 's list" where
  "refresh_polynomial params samples = 0 # map samples [1..<unat (threshold params)]"

definition refreshed_party ::
  "('s, 'p) party \<Rightarrow> bytes \<Rightarrow> 's \<Rightarrow> zero_share \<Rightarrow> (party_index, 's mul_sender) btree \<Rightarrow>
     (party_index, 's mul_receiver) btree \<Rightarrow> ('s, 'p) party" where
  "refreshed_party p refresh_sid refreshed_poly_point new_zero_share senders receivers =
     \<lparr>party_parameters = party_parameters p, party_index = party_index p, session_id = refresh_sid,
      poly_point = refreshed_poly_point, pk = pk p, party_zero_share = new_zero_share,
      mul_senders = senders, mul_receivers = receivers,
      derivation_data = \<lparr>depth = depth (derivation_data p), child_number = child_number (derivation_data p),
        parent_fingerprint = parent_fingerprint (derivation_data p), dd_poly_point = refreshed_poly_point,
        dd_pk = pk p, chain_code = chain_code (derivation_data p)\<rparr>,
      address = address p\<rparr>"

text \<open>Step 5 must arrive at the point at infinity.\<close>

definition refresh_step5 ::
  "('s::field, 'p::ab_group_add) suite \<Rightarrow> ('s, 'p) party \<Rightarrow> bytes \<Rightarrow> ('s, 'p) proof_commitment list \<Rightarrow>
     failure + unit" where
  "refresh_step5 S p refresh_sid proofs_commitments =
     rbind (step5 S (party_parameters p) (party_index p) refresh_sid proofs_commitments) (\<lambda>(verifying_pk, _).
       if verifying_pk \<noteq> 0 then Inl (give_up (party_index p) PolynomialInconsistency) else Inr ())"

text \<open>\<open>self\<close> is wiped when the refresh succeeded and left as it was otherwise.\<close>

definition wipe_on_success ::
  "('s::zero, 'p) party \<Rightarrow> failure + ('s, 'p) party \<Rightarrow> (failure + ('s, 'p) party) \<times> ('s, 'p) party" where
  "wipe_on_success p result = (case result of Inl e \<Rightarrow> (Inl e, p) | Inr q \<Rightarrow> (Inr q, party_zeroize p))"

section \<open>Complete refresh\<close>

definition refresh_complete_phase1 :: "('s::field, 'p) suite \<Rightarrow> ('s, 'p) party \<Rightarrow> (nat \<Rightarrow> 's) \<Rightarrow> 's list" where
  "refresh_complete_phase1 S p samples =
     (let secret_polynomial = refresh_polynomial (party_parameters p) samples
      in step2 S (party_parameters p) secret_polynomial)"

definition refresh_complete_phase2 ::
  "('s::field, 'p) suite \<Rightarrow> ('s, 'p) party \<Rightarrow> 's fischlin_coins \<Rightarrow> 's init_coins \<Rightarrow> bytes \<Rightarrow> 's list \<Rightarrow>
     failure + 's \<times> ('s, 'p) proof_commitment \<times> (party_index, keep_zero2) btree \<times> transmit_zero2 list" where
  "refresh_complete_phase2 S p proof_coins coins refresh_sid poly_fragments =
     rbind (step3 S proof_coins (party_index p) refresh_sid poly_fragments) (\<lambda>(correction_value, proof_commitment).
     rbind (zero_commit S (party_parameters p) (party_index p) coins) (\<lambda>(zero_keep, zero_transmit).
       Inr (correction_value, proof_commitment, zero_keep, zero_transmit)))"

definition refresh_complete_phase3 ::
  "('s::field, 'p::ab_group_add) suite \<Rightarrow> ('s, 'p) party \<Rightarrow> 's init_coins \<Rightarrow> bytes \<Rightarrow>
     (party_index, keep_zero2) btree \<Rightarrow>
     failure + (party_index, keep_zero3) btree \<times> transmit_zero3 list \<times> (party_index, ('s, 'p) keep_mul) btree \<times>
       ('s, 'p) transmit_mul list" where
  "refresh_complete_phase3 S p coins refresh_sid zero_kept =
     rbind (zero_open (party_index p) zero_kept) (\<lambda>(zero_keep, zero_transmit).
     rbind (mul_open S (party_parameters p) (party_index p) refresh_sid coins) (\<lambda>(mul_keep, mul_transmit).
       Inr (zero_keep, zero_transmit, mul_keep, mul_transmit)))"

definition refresh_zero_share ::
  "('s, 'p) suite \<Rightarrow> party_index \<Rightarrow> (party_index, keep_zero3) btree \<Rightarrow> transmit_zero2 list \<Rightarrow>
     transmit_zero3 list \<Rightarrow> failure + zero_share" where
  "refresh_zero_share S me zero_kept received_phase2 received_phase3 =
     map_err Aborted (rbind (zero_seed_pairs S me zero_kept received_phase2 received_phase3)
       (\<lambda>sds. Inr (zero_share_initialize sds)))"

definition refresh_share :: "('s::field, 'p) party \<Rightarrow> 's \<Rightarrow> failure + 's" where
  "refresh_share p correction_value =
     (let refreshed_poly_point = poly_point p + correction_value
      in if refreshed_poly_point = 0 \<or> refreshed_poly_point = 1
         then Inl (give_up (party_index p) TrivialKeyShare) else Inr refreshed_poly_point)"

definition refresh_complete_phase4 ::
  "('s::field, 'p::ab_group_add) suite \<Rightarrow> ('s, 'p) party \<Rightarrow> bytes \<Rightarrow> 's \<Rightarrow> ('s, 'p) proof_commitment list \<Rightarrow>
     (party_index, keep_zero3) btree \<Rightarrow> transmit_zero2 list \<Rightarrow> transmit_zero3 list \<Rightarrow>
     (party_index, ('s, 'p) keep_mul) btree \<Rightarrow> ('s, 'p) transmit_mul list \<Rightarrow>
     (failure + ('s, 'p) party) \<times> ('s, 'p) party" where
  "refresh_complete_phase4 S p refresh_sid correction_value proofs_commitments zero_kept zero_received_phase2
     zero_received_phase3 mul_kept mul_received =
     wipe_on_success p
       (rbind (refresh_step5 S p refresh_sid proofs_commitments) (\<lambda>_.
        rbind (refresh_zero_share S (party_index p) zero_kept zero_received_phase2 zero_received_phase3) (\<lambda>zs.
        rbind (map_err Aborted (mul_finish S (party_index p) refresh_sid mul_kept mul_received)) (\<lambda>(receivers, senders).
        rbind (refresh_share p correction_value) (\<lambda>refreshed_poly_point.
          Inr (refreshed_party p refresh_sid refreshed_poly_point zs senders receivers))))))"

section \<open>Faster refresh\<close>

definition refresh_phase1 :: "('s::field, 'p) suite \<Rightarrow> ('s, 'p) party \<Rightarrow> (nat \<Rightarrow> 's) \<Rightarrow> 's list" where
  "refresh_phase1 S p samples =
     (let secret_polynomial = refresh_polynomial (party_parameters p) samples
      in step2 S (party_parameters p) secret_polynomial)"

definition refresh_phase2 ::
  "('s::field, 'p) suite \<Rightarrow> ('s, 'p) party \<Rightarrow> 's fischlin_coins \<Rightarrow> 's init_coins \<Rightarrow> bytes \<Rightarrow> 's list \<Rightarrow>
     failure + 's \<times> ('s, 'p) proof_commitment \<times> (party_index, keep_refresh2) btree \<times> transmit_refresh2 list" where
  "refresh_phase2 S p proof_coins coins refresh_sid poly_fragments =
     rbind (step3 S proof_coins (party_index p) refresh_sid poly_fragments) (\<lambda>(correction_value, proof_commitment).
     rbind (zero_commit S (party_parameters p) (party_index p) coins) (\<lambda>(keep, transmit).
       Inr (correction_value, proof_commitment, keep, transmit)))"

definition refresh_phase3 ::
  "('s, 'p) party \<Rightarrow> (party_index, keep_refresh2) btree \<Rightarrow>
     failure + (party_index, keep_refresh3) btree \<times> transmit_refresh3 list" where
  "refresh_phase3 p kept = zero_open (party_index p) kept"

text \<open>The expansion of a seed for position \<open>i\<close>; the sender comes first in the salt.\<close>

definition refresh_hash ::
  "('s, 'p) suite \<Rightarrow> bytes \<Rightarrow> bytes \<Rightarrow> nat \<Rightarrow> party_index \<Rightarrow> party_index \<Rightarrow> bytes \<Rightarrow> bytes" where
  "refresh_hash S tag refresh_sid i sender_idx receiver_idx sd =
     tagged_hash S tag [refresh_sid, be16 (word_of_nat i), be16 (ucast (as_u8 sender_idx)),
       be16 (ucast (as_u8 receiver_idx)), sd]"

definition b_prime ::
  "('s, 'p) suite \<Rightarrow> bytes \<Rightarrow> nat \<Rightarrow> party_index \<Rightarrow> party_index \<Rightarrow> bytes \<Rightarrow> bool" where
  "b_prime S refresh_sid i sender_idx receiver_idx sd \<longleftrightarrow>
     refresh_hash S TAG_REFRESH_FAST_B refresh_sid i sender_idx receiver_idx sd ! 0 mod 2 = 1"

text \<open>One position of the sender's and of the receiver's state; an index out of range panics.\<close>

definition refresh_sender_step ::
  "('s, 'p) suite \<Rightarrow> bytes \<Rightarrow> party_index \<Rightarrow> party_index \<Rightarrow> bytes \<Rightarrow> nat \<Rightarrow> ote_sender \<Rightarrow> failure + ote_sender" where
  "refresh_sender_step S refresh_sid me their_index sd i new_ote_sender =
     (if length (correlation new_ote_sender) \<le> i \<or> length (ote_seeds new_ote_sender) \<le> i then Inl Panicked
      else
        let r0_prime = refresh_hash S TAG_REFRESH_FAST_R0 refresh_sid i me their_index sd;
            r1_prime = refresh_hash S TAG_REFRESH_FAST_R1 refresh_sid i me their_index sd;
            b_double_prime = (correlation new_ote_sender ! i \<noteq> b_prime S refresh_sid i me their_index sd);
            r_prime = (if b_double_prime then r1_prime else r0_prime)
        in Inr (new_ote_sender\<lparr>correlation := (correlation new_ote_sender)[i := b_double_prime],
                  ote_seeds := (ote_seeds new_ote_sender)[i := xor_bytes (ote_seeds new_ote_sender ! i) r_prime]\<rparr>))"

definition refresh_receiver_step ::
  "('s, 'p) suite \<Rightarrow> bytes \<Rightarrow> party_index \<Rightarrow> party_index \<Rightarrow> bytes \<Rightarrow> nat \<Rightarrow> ote_receiver \<Rightarrow> failure + ote_receiver" where
  "refresh_receiver_step S refresh_sid me their_index sd i new_ote_receiver =
     (if length (seeds0 new_ote_receiver) \<le> i \<or> length (seeds1 new_ote_receiver) \<le> i then Inl Panicked
      else
        let r0_prime = refresh_hash S TAG_REFRESH_FAST_R0 refresh_sid i their_index me sd;
            r1_prime = refresh_hash S TAG_REFRESH_FAST_R1 refresh_sid i their_index me sd;
            b = b_prime S refresh_sid i their_index me sd;
            r_b_prime = (if b then seeds1 new_ote_receiver ! i else seeds0 new_ote_receiver ! i);
            r_opposite_b_prime = (if b then seeds0 new_ote_receiver ! i else seeds1 new_ote_receiver ! i)
        in Inr (new_ote_receiver\<lparr>seeds0 := (seeds0 new_ote_receiver)[i := xor_bytes r_b_prime r0_prime],
                  seeds1 := (seeds1 new_ote_receiver)[i := xor_bytes r_opposite_b_prime r1_prime]\<rparr>))"

definition refresh_ote ::
  "('s, 'p) suite \<Rightarrow> bytes \<Rightarrow> party_index \<Rightarrow> party_index \<Rightarrow> bytes \<Rightarrow> ote_sender \<times> ote_receiver \<Rightarrow>
     failure + ote_sender \<times> ote_receiver" where
  "refresh_ote S refresh_sid me their_index sd state =
     for_each (\<lambda>i (new_ote_sender, new_ote_receiver).
         rbind (refresh_sender_step S refresh_sid me their_index sd i new_ote_sender) (\<lambda>s.
         rbind (refresh_receiver_step S refresh_sid me their_index sd i new_ote_receiver) (\<lambda>r. Inr (s, r))))
       [0..<KAPPA] state"

definition refresh_mul_step ::
  "('s, 'p) suite \<Rightarrow> ('s, 'p) party \<Rightarrow> bytes \<Rightarrow> seed_pair \<Rightarrow>
     (party_index, 's mul_sender) btree \<times> (party_index, 's mul_receiver) btree \<Rightarrow>
     failure + (party_index, 's mul_sender) btree \<times> (party_index, 's mul_receiver) btree" where
  "refresh_mul_step S p refresh_sid sp state =
     (case state of (senders, receivers) \<Rightarrow>
        let their_index = index_counterparty sp in
        rbind (ok_or (give_up (party_index p) (MissingMulState their_index)) (bt_get (mul_senders p) their_index))
          (\<lambda>ms.
        rbind (ok_or (give_up (party_index p) (MissingMulState their_index)) (bt_get (mul_receivers p) their_index))
          (\<lambda>mr.
        rbind (refresh_ote S refresh_sid (party_index p) their_index (seed sp) (ms_ote_sender ms, mr_ote_receiver mr))
          (\<lambda>(new_ote_sender, new_ote_receiver).
            Inr (bt_insert their_index \<lparr>ms_public_gadget = ms_public_gadget ms, ms_ote_sender = new_ote_sender\<rparr> senders,
                 bt_insert their_index \<lparr>mr_public_gadget = mr_public_gadget mr, mr_ote_receiver = new_ote_receiver\<rparr>
                   receivers)))))"

definition refresh_phase4 ::
  "('s::field, 'p::ab_group_add) suite \<Rightarrow> ('s, 'p) party \<Rightarrow> bytes \<Rightarrow> 's \<Rightarrow> ('s, 'p) proof_commitment list \<Rightarrow>
     (party_index, keep_refresh3) btree \<Rightarrow> transmit_refresh2 list \<Rightarrow> transmit_refresh3 list \<Rightarrow>
     (failure + ('s, 'p) party) \<times> ('s, 'p) party" where
  "refresh_phase4 S p refresh_sid correction_value proofs_commitments kept received_phase2 received_phase3 =
     wipe_on_success p
       (rbind (refresh_step5 S p refresh_sid proofs_commitments) (\<lambda>_.
        rbind (map_err Aborted (zero_seed_pairs S (party_index p) kept received_phase2 received_phase3)) (\<lambda>sds.
        rbind (for_each (refresh_mul_step S p refresh_sid) sds ([], [])) (\<lambda>(senders, receivers).
        rbind (refresh_share p correction_value) (\<lambda>refreshed_poly_point.
          Inr (refreshed_party p refresh_sid refreshed_poly_point (zero_share_initialize sds) senders receivers))))))"

section \<open>The re-randomized base transfers stay correlated\<close>

lemma failure_error_free [simp]: "give_up me reason \<noteq> Panicked" "Panicked \<noteq> give_up me reason"
  by (simp_all add: give_up_def)

text \<open>The state after the first \<open>n\<close> positions.\<close>

definition sender_upto ::
  "('s, 'p) suite \<Rightarrow> bytes \<Rightarrow> party_index \<Rightarrow> party_index \<Rightarrow> bytes \<Rightarrow> nat \<Rightarrow> ote_sender \<Rightarrow> ote_sender \<Rightarrow> bool" where
  "sender_upto S sid me their sd n s s' \<longleftrightarrow>
     length (correlation s') = KAPPA \<and> length (ote_seeds s') = KAPPA \<and>
     (\<forall>k < KAPPA. correlation s' ! k =
        (if k < n then correlation s ! k \<noteq> b_prime S sid k me their sd else correlation s ! k) \<and>
      ote_seeds s' ! k =
        (if k < n then xor_bytes (ote_seeds s ! k)
           (refresh_hash S (if correlation s ! k \<noteq> b_prime S sid k me their sd then TAG_REFRESH_FAST_R1
              else TAG_REFRESH_FAST_R0) sid k me their sd)
         else ote_seeds s ! k))"

definition receiver_upto ::
  "('s, 'p) suite \<Rightarrow> bytes \<Rightarrow> party_index \<Rightarrow> party_index \<Rightarrow> bytes \<Rightarrow> nat \<Rightarrow> ote_receiver \<Rightarrow> ote_receiver \<Rightarrow> bool" where
  "receiver_upto S sid me their sd n r r' \<longleftrightarrow>
     length (seeds0 r') = KAPPA \<and> length (seeds1 r') = KAPPA \<and>
     (\<forall>k < KAPPA. seeds0 r' ! k =
        (if k < n then xor_bytes (if b_prime S sid k their me sd then seeds1 r ! k else seeds0 r ! k)
           (refresh_hash S TAG_REFRESH_FAST_R0 sid k their me sd) else seeds0 r ! k) \<and>
      seeds1 r' ! k =
        (if k < n then xor_bytes (if b_prime S sid k their me sd then seeds0 r ! k else seeds1 r ! k)
           (refresh_hash S TAG_REFRESH_FAST_R1 sid k their me sd) else seeds1 r ! k))"

lemma sender_step_upto:
  assumes "sender_upto S sid me their sd n s s'" and "n < KAPPA"
  shows "\<exists>s''. refresh_sender_step S sid me their sd n s' = Inr s'' \<and> sender_upto S sid me their sd (Suc n) s s''"
  using assms by (auto simp: refresh_sender_step_def sender_upto_def nth_list_update Let_def less_Suc_eq)

lemma receiver_step_upto:
  assumes "receiver_upto S sid me their sd n r r'" and "n < KAPPA"
  shows "\<exists>r''. refresh_receiver_step S sid me their sd n r' = Inr r'' \<and> receiver_upto S sid me their sd (Suc n) r r''"
  using assms by (auto simp: refresh_receiver_step_def receiver_upto_def nth_list_update Let_def less_Suc_eq)

definition ote_sizes_ok :: "ote_sender \<Rightarrow> ote_receiver \<Rightarrow> bool" where
  "ote_sizes_ok s r \<longleftrightarrow> length (correlation s) = KAPPA \<and> length (ote_seeds s) = KAPPA \<and>
     length (seeds0 r) = KAPPA \<and> length (seeds1 r) = KAPPA"

lemma refresh_ote_result:
  assumes "ote_sizes_ok s r"
  shows "\<exists>s' r'. refresh_ote S sid me their sd (s, r) = Inr (s', r') \<and>
    sender_upto S sid me their sd KAPPA s s' \<and> receiver_upto S sid me their sd KAPPA r r'"
proof -
  let ?step = "\<lambda>i (s, r). rbind (refresh_sender_step S sid me their sd i s) (\<lambda>s.
    rbind (refresh_receiver_step S sid me their sd i r) (\<lambda>r. Inr (s, r)))"
  have "\<exists>s' r'. for_each ?step [0..<n] (s, r) = Inr (s', r') \<and>
      sender_upto S sid me their sd n s s' \<and> receiver_upto S sid me their sd n r r'" if "n \<le> KAPPA" for n
    using that
  proof (induction n)
    case 0
    then show ?case using assms by (simp add: sender_upto_def receiver_upto_def ote_sizes_ok_def)
  next
    case (Suc n)
    then obtain s' r' where IH: "for_each ?step [0..<n] (s, r) = Inr (s', r')"
      "sender_upto S sid me their sd n s s'" "receiver_upto S sid me their sd n r r'" by auto
    with sender_step_upto [OF IH(2)] receiver_step_upto [OF IH(3)] Suc.prems show ?case
      by (auto simp: for_each_append)
  qed
  then show ?thesis unfolding refresh_ote_def by blast
qed

text \<open>The two ends of one base transfer use the same seed, with the sender first.\<close>

lemma upto_correlated:
  assumes "ote_correlated s r" and "sender_upto S sid a b sd KAPPA s s'" and "receiver_upto S sid b a sd KAPPA r r'"
  shows "ote_correlated s' r'"
proof -
  have "ote_seeds s' ! k = (if correlation s' ! k then seeds1 r' ! k else seeds0 r' ! k)" if "k < KAPPA" for k
    using assms that by (auto simp: ote_correlated_def sender_upto_def receiver_upto_def)
  then show ?thesis
    using assms by (auto simp: ote_correlated_def sender_upto_def receiver_upto_def intro!: nth_equalityI)
qed

lemma refresh_ote_error:
  assumes "refresh_ote S sid me their sd state = Inl e"
  shows "e = Panicked"
  using for_each_error [OF assms [unfolded refresh_ote_def]]
  by (auto simp: rbind_Inl_iff refresh_sender_step_def refresh_receiver_step_def Let_def split: if_splits)

section \<open>Honest refreshes\<close>

record 's refresh_coins =
  rc_polynomial :: "nat \<Rightarrow> 's"
  rc_proof :: "'s fischlin_coins"
  rc_init :: "'s init_coins"

definition correction_poly :: "parameters \<Rightarrow> (party_index \<Rightarrow> 's refresh_coins) \<Rightarrow> 's::field \<Rightarrow> 's" where
  "correction_poly params C x =
     (\<Sum>j \<in> set (party_range params). horner (refresh_polynomial params (rc_polynomial (C j))) x)"

lemma correction_poly_0: "correction_poly params C 0 = 0"
  by (simp add: correction_poly_def refresh_polynomial_def)

lemma length_refresh_polynomial:
  assumes "params_ok params"
  shows "length (refresh_polynomial params s) = unat (threshold params)"
proof -
  have "2 \<le> unat (threshold params)" using assms by (simp add: params_ok_def word_le_nat_alt)
  then show ?thesis by (simp add: refresh_polynomial_def)
qed

lemma correction_poly_lt:
  assumes "params_ok params"
  shows "poly_lt (unat (threshold params)) (correction_poly params C)"
  unfolding correction_poly_def [abs_def]
  by (intro poly_lt_sum) (metis horner_poly length_refresh_polynomial [OF assms])

text \<open>Samples with which no party stops.\<close>

definition refresh_coins_ok ::
  "('s::field, 'p::ab_group_add) suite \<Rightarrow> parameters \<Rightarrow> bytes \<Rightarrow> ('s \<Rightarrow> 's) \<Rightarrow> (party_index \<Rightarrow> 's refresh_coins) \<Rightarrow> bool" where
  "refresh_coins_ok S params sid f C \<longleftrightarrow> (\<forall>i \<in> set (party_range params).
     coins_ok (rc_proof (C i)) \<and> correction_poly params C (index_scalar i) \<noteq> 0 \<and>
     (\<exists>r. dlog_prove_commit S (rc_proof (C i)) (correction_poly params C (index_scalar i)) sid = Inr r) \<and>
     f (index_scalar i) + correction_poly params C (index_scalar i) \<notin> {0, 1})"

text \<open>The new parties hold key material for the corrected polynomial.\<close>

lemma refreshed_key_material:
  fixes S :: "('s::field, 'p::ab_group_add) suite"
  assumes "key_material S f params sid code half all P" and "poly_lt (unat (threshold params)) g" and "g 0 = 0"
    and "\<And>i j. i \<in> set all \<Longrightarrow> j \<in> set all - {i} \<Longrightarrow> \<exists>ms mr. bt_get (snds i) j = Some ms \<and>
      bt_get (rcvs j) i = Some mr \<and> mul_linked ms mr"
  shows "key_material S (\<lambda>x. f x + g x) params rsid code half' all
    (\<lambda>i. refreshed_party (P i) rsid (f (index_scalar i) + g (index_scalar i)) (pairwise_seeds all half' i)
      (snds i) (rcvs i))"
proof (cases all)
  case Nil
  then show ?thesis
    using key_materialD(1,3) [OF assms(1)] poly_lt_add [OF _ assms(2)] by (intro key_materialI) auto
next
  case (Cons k ks)
  then have k: "k \<in> set all" by simp
  note km = key_materialD [OF assms(1)]
  show ?thesis
  proof (rule key_materialI [OF km(1,2) poly_lt_add [OF km(3) assms(2)], where d = "depth (derivation_data (P k))"])
  qed (use km assms(3,4) km(14) [OF k] in \<open>simp_all add: refreshed_party_def\<close>)
qed

lemma key_material_party:
  assumes "key_material S f params sid code half all P" and "i \<in> set all"
  shows "party_parameters (P i) = params" "party_index (P i) = i" "poly_point (P i) = f (index_scalar i)"
  using assms by (simp_all add: key_material_def)

text \<open>What both refreshes share: the fragments, the committed proofs and Step 5.\<close>

lemma refresh_common:
  fixes S :: "('s::field, 'p::ab_group_add) suite"
  assumes "suite_ok S" and "cyclic S" and "no_wrap params"
    and km: "key_material S f params sid code half (party_range params) P"
    and "refresh_coins_ok S params rsid f C"
    and q1: "\<And>i. mset (q1 i) = mset (party_range params)" and q2: "\<And>i. mset (q2 i) = mset (party_range params)"
  shows "\<exists>PC. \<forall>i \<in> set (party_range params).
    step3 S (rc_proof (C i)) i rsid (map (\<lambda>j. entry_for i (refresh_phase1 S (P j) (rc_polynomial (C j)))) (q1 i)) =
      Inr (correction_poly params C (index_scalar i), PC i) \<and>
    refresh_step5 S (P i) rsid (map PC (q2 i)) = Inr () \<and>
    refresh_share (P i) (correction_poly params C (index_scalar i)) =
      Inr (f (index_scalar i) + correction_poly params C (index_scalar i))"
proof -
  let ?all = "party_range params" and ?g = "correction_poly params C"
  have ok: "params_ok params" using assms(3) by (simp add: no_wrap_def)
  have "coins_ok (rc_proof (C i)) \<and> ?g (index_scalar i) \<noteq> 0 \<and>
      (\<exists>r. dlog_prove_commit S (rc_proof (C i)) (?g (index_scalar i)) rsid = Inr r)" if "i \<in> set ?all" for i
    using assms(5) that unfolding refresh_coins_ok_def by blast
  from honest_commitments [OF assms(1), of "set ?all" "\<lambda>i. rc_proof (C i)" "\<lambda>i. ?g (index_scalar i)" rsid, OF this]
  obtain PC where PC: "\<forall>i \<in> set ?all. (\<forall>fragments. sum_list fragments = ?g (index_scalar i) \<longrightarrow>
      step3 S (rc_proof (C i)) i rsid fragments = Inr (?g (index_scalar i), PC i)) \<and> pc_index (PC i) = i \<and>
    dlog_decommit_verify S (pc_proof (PC i)) (pc_commitment (PC i)) rsid \<and>
    dlp_point (pc_proof (PC i)) = pmul S (generator S) (?g (index_scalar i))" by blast
  show ?thesis
  proof (intro exI [of _ PC] ballI conjI)
    fix i assume i: "i \<in> set ?all"
    note party = key_material_party [OF km]
    have frags: "map (\<lambda>j. entry_for i (refresh_phase1 S (P j) (rc_polynomial (C j)))) (q1 i) =
        map (\<lambda>j. entry_for i (step2 S params (refresh_polynomial params (rc_polynomial (C j))))) (q1 i)"
    proof (rule map_cong [OF refl])
      fix j assume "j \<in> set (q1 i)"
      then have "j \<in> set ?all" using q1 by (metis set_mset_mset)
      then show "entry_for i (refresh_phase1 S (P j) (rc_polynomial (C j))) =
          entry_for i (step2 S params (refresh_polynomial params (rc_polynomial (C j))))"
        by (simp add: refresh_phase1_def party)
    qed
    have "sum_list (map (\<lambda>j. entry_for i (refresh_phase1 S (P j) (rc_polynomial (C j)))) (q1 i)) = ?g (index_scalar i)"
      unfolding frags correction_poly_def by (rule fragments_sum [OF assms(1) ok i length_refresh_polynomial [OF ok] q1])
    with PC i show "step3 S (rc_proof (C i)) i rsid
        (map (\<lambda>j. entry_for i (refresh_phase1 S (P j) (rc_polynomial (C j)))) (q1 i)) = Inr (?g (index_scalar i), PC i)"
      by blast
    have "step5 S params i rsid (map PC (q2 i)) = Inr (pmul S (generator S) (?g 0),
        bt_tabulate (\<lambda>j. pmul S (generator S) (?g (index_scalar j))) ?all)"
      by (rule step5_honest [OF assms(1-3) q2 correction_poly_lt [OF ok]]) (use PC in blast)
    then show "refresh_step5 S (P i) rsid (map PC (q2 i)) = Inr ()"
      by (simp add: refresh_step5_def party [OF i] correction_poly_0 pmul_zero [OF assms(1)])
    show "refresh_share (P i) (?g (index_scalar i)) = Inr (f (index_scalar i) + ?g (index_scalar i))"
      using assms(5) i by (simp add: refresh_share_def party [OF i] refresh_coins_ok_def)
  qed
qed

lemma refresh_complete_rounds_fresh:
  fixes S :: "('s::field, 'p::ab_group_add) suite"
  assumes "suite_ok S" and "cyclic S" and "no_wrap params"
    and km: "key_material S f params sid code half (party_range params) P"
    and "refresh_coins_ok S params rsid f C"
    and "init_coins_ok S rsid (party_range params) (\<lambda>i. rc_init (C i))"
    and q1: "\<And>i. mset (q1 i) = mset (party_range params)" and q2: "\<And>i. mset (q2 i) = mset (party_range params)"
    and o2: "\<And>i xs. mset (o2 i xs) = mset xs" and o3: "\<And>i xs. mset (o3 i xs) = mset xs"
    and om: "\<And>i xs. mset (om i xs) = mset xs"
  shows "\<exists>PC ZK ZT ZK3 ZT3 MK MT Q R.
    (\<forall>i \<in> set (party_range params).
      refresh_complete_phase2 S (P i) (rc_proof (C i)) (rc_init (C i)) rsid
        (map (\<lambda>j. entry_for i (refresh_complete_phase1 S (P j) (rc_polynomial (C j)))) (q1 i)) =
        Inr (correction_poly params C (index_scalar i), PC i, ZK i, ZT i) \<and>
      refresh_complete_phase3 S (P i) (rc_init (C i)) rsid (ZK i) = Inr (ZK3 i, ZT3 i, MK i, MT i) \<and>
      refresh_complete_phase4 S (P i) rsid (correction_poly params C (index_scalar i)) (map PC (q2 i)) (ZK3 i)
        (o2 i (inbox z2_parties ZT (party_range params) i)) (o3 i (inbox z3_parties ZT3 (party_range params) i))
        (MK i) (om i (inbox mi_parties MT (party_range params) i)) = (Inr (Q i), party_zeroize (P i)) \<and>
      pk (Q i) = pk (P i) \<and>
      mul_senders (Q i) = bt_tabulate (\<lambda>j. su_sender (R j i)) (others (party_range params) i) \<and>
      mul_receivers (Q i) = bt_tabulate (\<lambda>j. su_receiver (R i j)) (others (party_range params) i)) \<and>
    (\<forall>i \<in> set (party_range params). \<forall>j \<in> set (party_range params) - {i}.
      set_up S (\<lambda>i. rc_init (C i)) rsid i j (R i j)) \<and>
    key_material S (\<lambda>x. f x + correction_poly params C x) params rsid code
      (\<lambda>i j. ic_seed (rc_init (C i)) j) (party_range params) Q"
proof -
  let ?all = "party_range params" and ?I = "\<lambda>i. rc_init (C i)" and ?g = "correction_poly params C"
  have ok: "params_ok params" using assms(3) by (simp add: no_wrap_def)
  obtain PC where PC: "\<forall>i \<in> set ?all.
      step3 S (rc_proof (C i)) i rsid (map (\<lambda>j. entry_for i (refresh_phase1 S (P j) (rc_polynomial (C j)))) (q1 i)) =
        Inr (?g (index_scalar i), PC i) \<and> refresh_step5 S (P i) rsid (map PC (q2 i)) = Inr () \<and>
      refresh_share (P i) (?g (index_scalar i)) = Inr (f (index_scalar i) + ?g (index_scalar i))"
    using refresh_common [where ?q1.0 = q1 and ?q2.0 = q2, OF assms(1-5) q1 q2] by blast
  obtain R where R: "\<forall>i \<in> set ?all. \<forall>j \<in> set ?all - {i}. set_up S ?I rsid i j (R i j)"
    using set_up_exists [OF assms(1,6)] by blast
  define Q where "Q i = refreshed_party (P i) rsid (f (index_scalar i) + ?g (index_scalar i))
    (pairwise_seeds ?all (\<lambda>i j. ic_seed (?I i) j) i) (bt_tabulate (\<lambda>j. su_sender (R j i)) (others ?all i))
    (bt_tabulate (\<lambda>j. su_receiver (R i j)) (others ?all i))" for i
  let ?ZT = "\<lambda>j. map (zero_message2 S (?I j) j) (others ?all j)"
    and ?ZT3 = "\<lambda>j. map (zero_message3 (?I j) j) (others ?all j)"
    and ?MT = "\<lambda>j. map (mul_message ?I R j) (others ?all j)"
  have "refresh_complete_phase2 S (P i) (rc_proof (C i)) (rc_init (C i)) rsid
        (map (\<lambda>j. entry_for i (refresh_complete_phase1 S (P j) (rc_polynomial (C j)))) (q1 i)) =
        Inr (?g (index_scalar i), PC i, bt_tabulate (zero_keep2 (?I i)) (others ?all i), ?ZT i) \<and>
      refresh_complete_phase3 S (P i) (?I i) rsid (bt_tabulate (zero_keep2 (?I i)) (others ?all i)) =
        Inr (bt_tabulate (zero_keep3 (?I i)) (others ?all i), ?ZT3 i,
          bt_tabulate (mul_keep_of ?I R i) (others ?all i), ?MT i) \<and>
      refresh_complete_phase4 S (P i) rsid (?g (index_scalar i)) (map PC (q2 i))
        (bt_tabulate (zero_keep3 (?I i)) (others ?all i))
        (o2 i (inbox z2_parties ?ZT ?all i)) (o3 i (inbox z3_parties ?ZT3 ?all i))
        (bt_tabulate (mul_keep_of ?I R i) (others ?all i)) (om i (inbox mi_parties ?MT ?all i)) =
        (Inr (Q i), party_zeroize (P i)) \<and> pk (Q i) = pk (P i) \<and>
      mul_senders (Q i) = bt_tabulate (\<lambda>j. su_sender (R j i)) (others ?all i) \<and>
      mul_receivers (Q i) = bt_tabulate (\<lambda>j. su_receiver (R i j)) (others ?all i)"
    if i: "i \<in> set ?all" for i
  proof -
    note party = key_material_party [OF km i]
    have up: "\<forall>j \<in> set (others ?all i). set_up S ?I rsid i j (R i j) \<and> set_up S ?I rsid j i (R j i)"
      using R i by (auto simp: set_others)
    have zero: "zero_seed_pairs S i (bt_tabulate (zero_keep3 (?I i)) (others ?all i)) (o2 i (inbox z2_parties ?ZT ?all i))
        (o3 i (inbox z3_parties ?ZT3 ?all i)) =
        Inr (map (\<lambda>j. generate_seed_pair i j (ic_seed (?I i) j) (ic_seed (?I j) i)) (others ?all i))"
      by (rule zero_seed_pairs_delivered [OF sorted_party_range i o2 o3])
    note muls = mul_finish_delivered [where om = "om i", OF sorted_party_range i om up]
    have phase1: "refresh_complete_phase1 S p s = refresh_phase1 S p s" for p :: "('s, 'p) party" and s
      by (simp add: refresh_complete_phase1_def refresh_phase1_def)
    show ?thesis
      using PC i zero muls mul_open_honest [OF up] zero_open_honest [OF sorted_others [OF sorted_party_range], of i "?I i"]
      by (simp add: refresh_complete_phase2_def refresh_complete_phase3_def refresh_complete_phase4_def phase1 party
          zero_commit_honest refresh_zero_share_def wipe_on_success_def Q_def pairwise_seeds_def)
        (simp add: refreshed_party_def others_def)
  qed
  moreover have "key_material S (\<lambda>x. f x + ?g x) params rsid code (\<lambda>i j. ic_seed (?I i) j) ?all Q"
    unfolding Q_def [abs_def]
  proof (rule refreshed_key_material [OF km correction_poly_lt [OF ok] correction_poly_0])
    fix i j assume "i \<in> set ?all" "j \<in> set ?all - {i}"
    moreover from this have "set_up S ?I rsid j i (R j i)" using R by auto
    ultimately show "\<exists>ms mr. bt_get (bt_tabulate (\<lambda>j. su_sender (R j i)) (others ?all i)) j = Some ms \<and>
        bt_get (bt_tabulate (\<lambda>i. su_receiver (R j i)) (others ?all j)) i = Some mr \<and> mul_linked ms mr"
      by (auto simp: bt_get_tabulate set_up_def)
  qed
  ultimately show ?thesis using R
    by (intro exI [of _ PC] exI [of _ "\<lambda>i. bt_tabulate (zero_keep2 (?I i)) (others ?all i)"] exI [of _ ?ZT]
        exI [of _ "\<lambda>i. bt_tabulate (zero_keep3 (?I i)) (others ?all i)"] exI [of _ ?ZT3]
        exI [of _ "\<lambda>i. bt_tabulate (mul_keep_of ?I R i) (others ?all i)"] exI [of _ ?MT] exI [of _ Q] exI [of _ R] conjI ballI) blast+
qed

lemma refresh_complete_rounds:
  fixes S :: "('s::field, 'p::ab_group_add) suite"
  assumes "suite_ok S" and "cyclic S" and "no_wrap params"
    and km: "key_material S f params sid code half (party_range params) P"
    and "refresh_coins_ok S params rsid f C"
    and "init_coins_ok S rsid (party_range params) (\<lambda>i. rc_init (C i))"
    and q1: "\<And>i. mset (q1 i) = mset (party_range params)" and q2: "\<And>i. mset (q2 i) = mset (party_range params)"
    and o2: "\<And>i xs. mset (o2 i xs) = mset xs" and o3: "\<And>i xs. mset (o3 i xs) = mset xs"
    and om: "\<And>i xs. mset (om i xs) = mset xs"
  shows "\<exists>PC ZK ZT ZK3 ZT3 MK MT Q.
    (\<forall>i \<in> set (party_range params).
      refresh_complete_phase2 S (P i) (rc_proof (C i)) (rc_init (C i)) rsid
        (map (\<lambda>j. entry_for i (refresh_complete_phase1 S (P j) (rc_polynomial (C j)))) (q1 i)) =
        Inr (correction_poly params C (index_scalar i), PC i, ZK i, ZT i) \<and>
      refresh_complete_phase3 S (P i) (rc_init (C i)) rsid (ZK i) = Inr (ZK3 i, ZT3 i, MK i, MT i) \<and>
      refresh_complete_phase4 S (P i) rsid (correction_poly params C (index_scalar i)) (map PC (q2 i)) (ZK3 i)
        (o2 i (inbox z2_parties ZT (party_range params) i)) (o3 i (inbox z3_parties ZT3 (party_range params) i))
        (MK i) (om i (inbox mi_parties MT (party_range params) i)) = (Inr (Q i), party_zeroize (P i)) \<and>
      pk (Q i) = pk (P i)) \<and>
    key_material S (\<lambda>x. f x + correction_poly params C x) params rsid code
      (\<lambda>i j. ic_seed (rc_init (C i)) j) (party_range params) Q"
  using refresh_complete_rounds_fresh [where ?q1.0 = q1 and ?q2.0 = q2 and ?o2.0 = o2 and ?o3.0 = o3 and om = om,
      OF assms(1-6) q1 q2 o2 o3 om]
  unfolding ball_conj_distrib by - (elim exE conjE, intro exI conjI, assumption+)

section \<open>An honest faster refresh\<close>

text \<open>The states party \<open>i\<close> holds for its pair with \<open>j\<close>, and the refreshed ones.\<close>

definition old_sender :: "(party_index \<Rightarrow> ('s, 'p) party) \<Rightarrow> party_index \<Rightarrow> party_index \<Rightarrow> 's mul_sender" where
  "old_sender P i j = the (bt_get (mul_senders (P i)) j)"

definition old_receiver :: "(party_index \<Rightarrow> ('s, 'p) party) \<Rightarrow> party_index \<Rightarrow> party_index \<Rightarrow> 's mul_receiver" where
  "old_receiver P i j = the (bt_get (mul_receivers (P i)) j)"

definition pair_seed :: "(party_index \<Rightarrow> party_index \<Rightarrow> bytes) \<Rightarrow> party_index \<Rightarrow> party_index \<Rightarrow> bytes" where
  "pair_seed half i j = seed (generate_seed_pair i j (half i j) (half j i))"

definition new_ote ::
  "('s, 'p) suite \<Rightarrow> bytes \<Rightarrow> (party_index \<Rightarrow> party_index \<Rightarrow> bytes) \<Rightarrow> (party_index \<Rightarrow> ('s, 'p) party) \<Rightarrow>
     party_index \<Rightarrow> party_index \<Rightarrow> ote_sender \<times> ote_receiver" where
  "new_ote S rsid half P i j = projr (refresh_ote S rsid i j (pair_seed half i j)
     (ms_ote_sender (old_sender P i j), mr_ote_receiver (old_receiver P i j)))"

definition new_sender where
  "new_sender S rsid half P i j = \<lparr>ms_public_gadget = ms_public_gadget (old_sender P i j),
     ms_ote_sender = fst (new_ote S rsid half P i j)\<rparr>"

definition new_receiver where
  "new_receiver S rsid half P i j = \<lparr>mr_public_gadget = mr_public_gadget (old_receiver P i j),
     mr_ote_receiver = snd (new_ote S rsid half P i j)\<rparr>"

lemma old_linked:
  assumes "key_material S f params sid code half' all P" and "i \<in> set all" and "j \<in> set all - {i}"
  shows "bt_get (mul_senders (P i)) j = Some (old_sender P i j)"
    and "bt_get (mul_receivers (P i)) j = Some (old_receiver P i j)"
    and "mul_linked (old_sender P i j) (old_receiver P j i)"
    and "ote_sizes_ok (ms_ote_sender (old_sender P i j)) (mr_ote_receiver (old_receiver P i j))"
proof -
  have j: "j \<in> set all" "i \<in> set all - {j}" using assms(2,3) by auto
  obtain ms mr where a: "bt_get (mul_senders (P i)) j = Some ms" "bt_get (mul_receivers (P j)) i = Some mr" "mul_linked ms mr"
    using key_materialD(15) [OF assms] by blast
  obtain ms' mr' where b: "bt_get (mul_senders (P j)) i = Some ms'" "bt_get (mul_receivers (P i)) j = Some mr'" "mul_linked ms' mr'"
    using key_materialD(15) [OF assms(1) j] by blast
  show "bt_get (mul_senders (P i)) j = Some (old_sender P i j)"
    and "bt_get (mul_receivers (P i)) j = Some (old_receiver P i j)"
    and "mul_linked (old_sender P i j) (old_receiver P j i)"
    and "ote_sizes_ok (ms_ote_sender (old_sender P i j)) (mr_ote_receiver (old_receiver P i j))"
    using a b by (auto simp: old_sender_def old_receiver_def mul_linked_def ote_correlated_def ote_sizes_ok_def)
qed

lemma new_ote_result:
  assumes "key_material S f params sid code half' all P" and "i \<in> set all" and "j \<in> set all - {i}"
  shows "refresh_ote S rsid i j (pair_seed half i j)
      (ms_ote_sender (old_sender P i j), mr_ote_receiver (old_receiver P i j)) = Inr (new_ote S rsid half P i j)"
    and "sender_upto S rsid i j (pair_seed half i j) KAPPA (ms_ote_sender (old_sender P i j)) (fst (new_ote S rsid half P i j))"
    and "receiver_upto S rsid i j (pair_seed half i j) KAPPA (mr_ote_receiver (old_receiver P i j)) (snd (new_ote S rsid half P i j))"
  using refresh_ote_result [OF old_linked(4) [OF assms], of S rsid i j "pair_seed half i j"]
  by (auto simp: new_ote_def)

lemma new_linked:
  assumes "key_material S f params sid code half' all P" and "i \<in> set all" and "j \<in> set all - {i}"
  shows "mul_linked (new_sender S rsid half P i j) (new_receiver S rsid half P j i)"
proof -
  have j: "j \<in> set all" "i \<in> set all - {j}" using assms(2,3) by auto
  have "pair_seed half j i = pair_seed half i j"
    unfolding pair_seed_def by (rule generate_seed_pair_swap)
  then have "receiver_upto S rsid j i (pair_seed half i j) KAPPA (mr_ote_receiver (old_receiver P j i))
      (snd (new_ote S rsid half P j i))"
    using new_ote_result(3) [OF assms(1) j, of rsid half] by simp
  from upto_correlated [OF _ new_ote_result(2) [OF assms] this] old_linked(3) [OF assms] show ?thesis
    by (simp add: mul_linked_def new_sender_def new_receiver_def)
qed

lemma refresh_mul_honest:
  assumes "key_material S f params sid code half' all P" and "i \<in> set all" and "sorted_wrt (<) all"
  shows "for_each (refresh_mul_step S (P i) rsid)
      (map (\<lambda>j. generate_seed_pair i j (half i j) (half j i)) (others all i)) ([], []) =
    Inr (bt_tabulate (new_sender S rsid half P i) (others all i), bt_tabulate (new_receiver S rsid half P i) (others all i))"
  unfolding for_each_map
proof (rule for_each_tabulate2 [OF _ sorted_others [OF assms(3)]])
  fix j m m' assume "j \<in> set (others all i)"
  then have j: "j \<in> set all - {i}" by simp
  have sp: "index_counterparty (generate_seed_pair i j (half i j) (half j i)) = j"
    "seed (generate_seed_pair i j (half i j) (half j i)) = pair_seed half i j"
    by (simp_all add: generate_seed_pair_def pair_seed_def)
  show "refresh_mul_step S (P i) rsid (generate_seed_pair i j (half i j) (half j i)) (m, m') =
      Inr (bt_insert j (new_sender S rsid half P i j) m, bt_insert j (new_receiver S rsid half P i j) m')"
    using old_linked(1,2) [OF assms(1,2) j] new_ote_result(1) [OF assms(1,2) j, of rsid half]
      key_materialD(6) [OF assms(1)] assms(2)
    by (simp add: refresh_mul_step_def sp new_sender_def new_receiver_def split_beta)
qed

lemma refresh_rounds:
  fixes S :: "('s::field, 'p::ab_group_add) suite"
  assumes "suite_ok S" and "cyclic S" and "no_wrap params"
    and km: "key_material S f params sid code half (party_range params) P"
    and "refresh_coins_ok S params rsid f C"
    and q1: "\<And>i. mset (q1 i) = mset (party_range params)" and q2: "\<And>i. mset (q2 i) = mset (party_range params)"
    and o2: "\<And>i xs. mset (o2 i xs) = mset xs" and o3: "\<And>i xs. mset (o3 i xs) = mset xs"
  shows "\<exists>PC K2 T2 K3 T3 Q.
    (\<forall>i \<in> set (party_range params).
      refresh_phase2 S (P i) (rc_proof (C i)) (rc_init (C i)) rsid
        (map (\<lambda>j. entry_for i (refresh_phase1 S (P j) (rc_polynomial (C j)))) (q1 i)) =
        Inr (correction_poly params C (index_scalar i), PC i, K2 i, T2 i) \<and>
      refresh_phase3 (P i) (K2 i) = Inr (K3 i, T3 i) \<and>
      refresh_phase4 S (P i) rsid (correction_poly params C (index_scalar i)) (map PC (q2 i)) (K3 i)
        (o2 i (inbox z2_parties T2 (party_range params) i)) (o3 i (inbox z3_parties T3 (party_range params) i)) =
        (Inr (Q i), party_zeroize (P i)) \<and>
      pk (Q i) = pk (P i)) \<and>
    key_material S (\<lambda>x. f x + correction_poly params C x) params rsid code
      (\<lambda>i j. ic_seed (rc_init (C i)) j) (party_range params) Q"
proof -
  let ?all = "party_range params" and ?I = "\<lambda>i. rc_init (C i)" and ?g = "correction_poly params C"
  let ?half = "\<lambda>i j. ic_seed (?I i) j"
  have ok: "params_ok params" using assms(3) by (simp add: no_wrap_def)
  obtain PC where PC: "\<forall>i \<in> set ?all.
      step3 S (rc_proof (C i)) i rsid (map (\<lambda>j. entry_for i (refresh_phase1 S (P j) (rc_polynomial (C j)))) (q1 i)) =
        Inr (?g (index_scalar i), PC i) \<and> refresh_step5 S (P i) rsid (map PC (q2 i)) = Inr () \<and>
      refresh_share (P i) (?g (index_scalar i)) = Inr (f (index_scalar i) + ?g (index_scalar i))"
    using refresh_common [where ?q1.0 = q1 and ?q2.0 = q2, OF assms(1-5) q1 q2] by blast
  define Q where "Q i = refreshed_party (P i) rsid (f (index_scalar i) + ?g (index_scalar i)) (pairwise_seeds ?all ?half i)
    (bt_tabulate (new_sender S rsid ?half P i) (others ?all i))
    (bt_tabulate (new_receiver S rsid ?half P i) (others ?all i))" for i
  let ?ZT = "\<lambda>j. map (zero_message2 S (?I j) j) (others ?all j)"
    and ?ZT3 = "\<lambda>j. map (zero_message3 (?I j) j) (others ?all j)"
  have "refresh_phase2 S (P i) (rc_proof (C i)) (rc_init (C i)) rsid
        (map (\<lambda>j. entry_for i (refresh_phase1 S (P j) (rc_polynomial (C j)))) (q1 i)) =
        Inr (?g (index_scalar i), PC i, bt_tabulate (zero_keep2 (?I i)) (others ?all i), ?ZT i) \<and>
      refresh_phase3 (P i) (bt_tabulate (zero_keep2 (?I i)) (others ?all i)) =
        Inr (bt_tabulate (zero_keep3 (?I i)) (others ?all i), ?ZT3 i) \<and>
      refresh_phase4 S (P i) rsid (?g (index_scalar i)) (map PC (q2 i)) (bt_tabulate (zero_keep3 (?I i)) (others ?all i))
        (o2 i (inbox z2_parties ?ZT ?all i)) (o3 i (inbox z3_parties ?ZT3 ?all i)) =
        (Inr (Q i), party_zeroize (P i)) \<and> pk (Q i) = pk (P i)"
    if i: "i \<in> set ?all" for i
  proof -
    note party = key_material_party [OF km i]
    have zero: "zero_seed_pairs S i (bt_tabulate (zero_keep3 (?I i)) (others ?all i)) (o2 i (inbox z2_parties ?ZT ?all i))
        (o3 i (inbox z3_parties ?ZT3 ?all i)) =
        Inr (map (\<lambda>j. generate_seed_pair i j (?half i j) (?half j i)) (others ?all i))"
      by (rule zero_seed_pairs_delivered [OF sorted_party_range i o2 o3])
    note muls = refresh_mul_honest [OF km i sorted_party_range, of rsid ?half]
    show ?thesis
      using PC i zero muls zero_open_honest [OF sorted_others [OF sorted_party_range], of i "?I i"]
      by (simp add: refresh_phase2_def refresh_phase3_def refresh_phase4_def party zero_commit_honest
          wipe_on_success_def Q_def pairwise_seeds_def) (simp add: refreshed_party_def others_def)
  qed
  moreover have "key_material S (\<lambda>x. f x + ?g x) params rsid code ?half ?all Q"
    unfolding Q_def [abs_def]
  proof (rule refreshed_key_material [OF km correction_poly_lt [OF ok] correction_poly_0])
    fix i j assume ij: "i \<in> set ?all" "j \<in> set ?all - {i}"
    with new_linked [OF km ij, of rsid ?half]
    show "\<exists>ms mr. bt_get (bt_tabulate (new_sender S rsid ?half P i) (others ?all i)) j = Some ms \<and>
        bt_get (bt_tabulate (new_receiver S rsid ?half P j) (others ?all j)) i = Some mr \<and> mul_linked ms mr"
      by (auto simp: bt_get_tabulate)
  qed
  ultimately show ?thesis
    by (intro exI [of _ PC] exI [of _ "\<lambda>i. bt_tabulate (zero_keep2 (?I i)) (others ?all i)"] exI [of _ ?ZT]
        exI [of _ "\<lambda>i. bt_tabulate (zero_keep3 (?I i)) (others ?all i)"] exI [of _ ?ZT3] exI [of _ Q] conjI ballI) blast+
qed

section \<open>Properties\<close>

lemma refresh_step5_sound:
  fixes S :: "('s::field, 'p::ab_group_add) suite"
  assumes "suite_ok S" and "cyclic S" and "no_wrap (party_parameters p)" and "refresh_step5 S p rsid pcs = Inr u"
  shows "proofs_verify S (party_index p) rsid pcs \<and>
    (\<exists>g. on_polynomial S (party_parameters p) (bt_get (gathered pcs)) g \<and> g 0 = 0)"
proof -
  from assms(4) obtain shares where "step5 S (party_parameters p) (party_index p) rsid pcs = Inr (0, shares)"
    by (auto simp: refresh_step5_def rbind_Inr_iff split: if_splits prod.splits)
  then obtain g where "proofs_verify S (party_index p) rsid pcs"
    "on_polynomial S (party_parameters p) (bt_get (gathered pcs)) g" "pmul S (generator S) (g 0) = 0"
    unfolding step5_iff [OF assms(1-3)] by auto
  moreover from this(3) have "g 0 = 0"
    using pmul_eq_0_iff [OF assms(1)] generator_nonzero [OF assms(1)] by blast
  ultimately show ?thesis by blast
qed

lemma refresh_share_Inr:
  "refresh_share p c = Inr s \<longleftrightarrow> s = poly_point p + c \<and> s \<noteq> 0 \<and> s \<noteq> 1"
  by (auto simp: refresh_share_def Let_def)

text \<open>C12: honest complete refresh.  From key material for a polynomial \<open>f\<close>, in any order of delivery, all
  phases return at every party; each old party is wiped, the public key stays, and the new parties
  hold key material for \<open>f\<close> plus a polynomial that vanishes at 0.  Their seeds are the halves sampled
  in this run, and their multiplication states, in both directions, are the results \<open>R\<close> of the base
  transfers of this run, computed under its session id from its samples (\<open>set_up\<close>); nothing is taken
  from the states of the old party.\<close>

theorem refresh_complete_honest_run:
  fixes S :: "('s::field, 'p::ab_group_add) suite"
  assumes "suite_ok S" and "cyclic S" and "share_count params \<noteq> 255"
    and "key_material S f params sid code half (party_range params) P"
    and "refresh_coins_ok S params rsid f C"
    and "init_coins_ok S rsid (party_range params) (\<lambda>i. rc_init (C i))"
    and "\<And>i. mset (q1 i) = mset (party_range params)" and "\<And>i. mset (q2 i) = mset (party_range params)"
    and "\<And>i xs. mset (o2 i xs) = mset xs" and "\<And>i xs. mset (o3 i xs) = mset xs"
    and "\<And>i xs. mset (om i xs) = mset xs"
  shows "\<exists>PC ZK ZT ZK3 ZT3 MK MT Q R.
    (\<forall>i \<in> set (party_range params).
      refresh_complete_phase2 S (P i) (rc_proof (C i)) (rc_init (C i)) rsid
        (map (\<lambda>j. entry_for i (refresh_complete_phase1 S (P j) (rc_polynomial (C j)))) (q1 i)) =
        Inr (correction_poly params C (index_scalar i), PC i, ZK i, ZT i) \<and>
      refresh_complete_phase3 S (P i) (rc_init (C i)) rsid (ZK i) = Inr (ZK3 i, ZT3 i, MK i, MT i) \<and>
      refresh_complete_phase4 S (P i) rsid (correction_poly params C (index_scalar i)) (map PC (q2 i)) (ZK3 i)
        (o2 i (inbox z2_parties ZT (party_range params) i)) (o3 i (inbox z3_parties ZT3 (party_range params) i))
        (MK i) (om i (inbox mi_parties MT (party_range params) i)) = (Inr (Q i), party_zeroize (P i)) \<and>
      pk (Q i) = pk (P i) \<and>
      mul_senders (Q i) = bt_tabulate (\<lambda>j. su_sender (R j i)) (others (party_range params) i) \<and>
      mul_receivers (Q i) = bt_tabulate (\<lambda>j. su_receiver (R i j)) (others (party_range params) i)) \<and>
    (\<forall>i \<in> set (party_range params). \<forall>j \<in> set (party_range params) - {i}.
      set_up S (\<lambda>i. rc_init (C i)) rsid i j (R i j)) \<and>
    key_material S (\<lambda>x. f x + correction_poly params C x) params rsid code
      (\<lambda>i j. ic_seed (rc_init (C i)) j) (party_range params) Q"
proof -
  have "no_wrap params" using assms(3) key_materialD(1) [OF assms(4)] by (simp add: no_wrap_def)
  from refresh_complete_rounds_fresh [OF assms(1,2) this assms(4-)] show ?thesis .
qed

text \<open>C11: honest faster refresh.  The same, with the multiplication states re-randomized in place instead
  of set up again: the two ends of every pair stay linked, because both derive the same masks from
  the seed they share.\<close>

theorem refresh_honest_run:
  fixes S :: "('s::field, 'p::ab_group_add) suite"
  assumes "suite_ok S" and "cyclic S" and "share_count params \<noteq> 255"
    and "key_material S f params sid code half (party_range params) P"
    and "refresh_coins_ok S params rsid f C"
    and "\<And>i. mset (q1 i) = mset (party_range params)" and "\<And>i. mset (q2 i) = mset (party_range params)"
    and "\<And>i xs. mset (o2 i xs) = mset xs" and "\<And>i xs. mset (o3 i xs) = mset xs"
  shows "\<exists>PC K2 T2 K3 T3 Q.
    (\<forall>i \<in> set (party_range params).
      refresh_phase2 S (P i) (rc_proof (C i)) (rc_init (C i)) rsid
        (map (\<lambda>j. entry_for i (refresh_phase1 S (P j) (rc_polynomial (C j)))) (q1 i)) =
        Inr (correction_poly params C (index_scalar i), PC i, K2 i, T2 i) \<and>
      refresh_phase3 (P i) (K2 i) = Inr (K3 i, T3 i) \<and>
      refresh_phase4 S (P i) rsid (correction_poly params C (index_scalar i)) (map PC (q2 i)) (K3 i)
        (o2 i (inbox z2_parties T2 (party_range params) i)) (o3 i (inbox z3_parties T3 (party_range params) i)) =
        (Inr (Q i), party_zeroize (P i)) \<and>
      pk (Q i) = pk (P i)) \<and>
    key_material S (\<lambda>x. f x + correction_poly params C x) params rsid code
      (\<lambda>i j. ic_seed (rc_init (C i)) j) (party_range params) Q"
proof -
  have "no_wrap params" using assms(3) key_materialD(1) [OF assms(4)] by (simp add: no_wrap_def)
  from refresh_rounds [OF assms(1,2) this assms(4-)] show ?thesis .
qed

text \<open>C13: a refresh cannot move the key.  Whatever was received, when either refresh returns a party, the
  committed corrections are those of one polynomial that vanishes at 0, the new party keeps the
  public key, its share moved by its correction and is neither 0 nor 1, and the old party is
  wiped; when it fails, the old party is untouched.\<close>

theorem refresh_keeps_key:
  fixes S :: "('s::field, 'p::ab_group_add) suite"
  assumes "suite_ok S" and "cyclic S" and "params_ok (party_parameters p)" and "share_count (party_parameters p) \<noteq> 255"
    and "(result, p') = refresh_complete_phase4 S p rsid c pcs zk r2 r3 mk mr \<or>
      (result, p') = refresh_phase4 S p rsid c pcs zk r2 r3"
  shows "case result of Inl e \<Rightarrow> p' = p
    | Inr q \<Rightarrow> proofs_verify S (party_index p) rsid pcs \<and>
        (\<exists>g. on_polynomial S (party_parameters p) (bt_get (gathered pcs)) g \<and> g 0 = 0) \<and>
        pk q = pk p \<and> poly_point q = poly_point p + c \<and> poly_point q \<notin> {0, 1} \<and> session_id q = rsid \<and>
        p' = party_zeroize p"
proof (cases result)
  case (Inl e)
  then show ?thesis
    using assms(5) by (auto simp: refresh_complete_phase4_def refresh_phase4_def wipe_on_success_def split: sum.splits)
next
  case (Inr q)
  have nw: "no_wrap (party_parameters p)" using assms(3,4) by (simp add: no_wrap_def)
  have "\<exists>s zs ms mrs. refresh_step5 S p rsid pcs = Inr () \<and> refresh_share p c = Inr s \<and>
      q = refreshed_party p rsid s zs ms mrs \<and> p' = party_zeroize p"
    using assms(5) Inr
    by (auto simp: refresh_complete_phase4_def refresh_phase4_def wipe_on_success_def rbind_Inr_iff
        split: sum.splits prod.splits)
  then obtain s zs ms mrs where "refresh_step5 S p rsid pcs = Inr ()" "refresh_share p c = Inr s"
    "q = refreshed_party p rsid s zs ms mrs" "p' = party_zeroize p" by blast
  with refresh_step5_sound [OF assms(1,2) nw] Inr show ?thesis
    by (auto simp: refresh_share_Inr refreshed_party_def)
qed

text \<open>The aborts of the complete refresh are recoverable: whatever was received, an error is a
  recoverable abort of the running party, which keeps its share.\<close>

theorem refresh_complete_recoverable:
  fixes S :: "('s::field, 'p::ab_group_add) suite"
  assumes "suite_ok S" and "refresh_complete_phase4 S p rsid c pcs zk r2 r3 mk mr = (Inl e, p')"
  shows "p' = p \<and> (\<exists>reason. e = Aborted (recoverable (party_index p) reason))"
proof -
  let ?me = "party_index p"
  have "p' = p" using assms(2)
    by (auto simp: refresh_complete_phase4_def wipe_on_success_def split: sum.splits)
  moreover from assms(2) consider "step5 S (party_parameters p) ?me rsid pcs = Inl e"
    | reason where "e = give_up ?me reason"
    | a where "e = Aborted a" "zero_seed_pairs S ?me zk r2 r3 = Inl a"
    | a where "e = Aborted a" "mul_finish S ?me rsid mk mr = Inl a"
    unfolding refresh_complete_phase4_def wipe_on_success_def
    by (auto simp: rbind_Inl_iff map_err_Inl_iff refresh_step5_def refresh_zero_share_def refresh_share_def Let_def
        split: if_splits prod.splits sum.splits)
  then have "\<exists>reason. e = give_up ?me reason"
  proof cases
    case 1
    then show ?thesis by (rule step5_error [OF assms(1)])
  next
    case (3 a)
    with zero_seed_pairs_error [OF 3(2)] recoverable_eq [of a] show ?thesis by (metis give_up_def)
  next
    case (4 a)
    with mul_finish_error [OF 4(2)] recoverable_eq [of a] show ?thesis by (metis give_up_def)
  qed blast
  ultimately show ?thesis by (simp add: give_up_def)
qed

text \<open>Three parties with the shares of 7 + 5 x; each adds x.\<close>

definition sample_refresh_coins :: "party_index \<Rightarrow> gf257 refresh_coins" where
  "sample_refresh_coins i = \<lparr>rc_polynomial = \<lambda>k. 1, rc_proof = sample_coins 7, rc_init = dc_init (sample_dkg_coins i)\<rparr>"

lemma sample_correction: "correction_poly sample_params sample_refresh_coins x = 3 * x"
proof -
  have "refresh_polynomial sample_params s = [0, s 1]" for s :: "nat \<Rightarrow> gf257"
    by (simp add: refresh_polynomial_def sample_params_def upt_rec)
  then show ?thesis
    by (simp add: correction_poly_def sample_party_range sample_refresh_coins_def)
qed

lemma sample_refresh_any:
  "refresh_coins_ok init_suite sample_params sid (secret_poly sample_params sample_dkg_coins) sample_refresh_coins"
  "init_coins_ok init_suite sid (party_range sample_params) (\<lambda>i. rc_init (sample_refresh_coins i))"
proof -
  show "refresh_coins_ok init_suite sample_params sid (secret_poly sample_params sample_dkg_coins) sample_refresh_coins"
    using init_suite_prove
    by (auto simp: refresh_coins_ok_def sample_correction sample_secret_poly sample_party_range index_scalar_def
        gf_eq_iff sample_refresh_coins_def [THEN arg_cong [of _ _ rc_proof]] sample_coins_ok)
  show "init_coins_ok init_suite sid (party_range sample_params) (\<lambda>i. rc_init (sample_refresh_coins i))"
    using sample_dkg_coins_any [of sid] by (simp add: dkg_coins_ok_def sample_refresh_coins_def)
qed

lemmas sample_refresh_ok = sample_refresh_any [of "[1]"]

lemma init_suite_cyclic: "cyclic init_suite"
  unfolding init_suite_def by (rule sample_cyclic)

lemma sample_dkg_material:
  "\<exists>P. key_material init_suite (secret_poly sample_params sample_dkg_coins) sample_params [1]
     (joint_chain_code sample_params sample_dkg_coins) (\<lambda>i j. ic_seed (dc_init (sample_dkg_coins i)) j)
     (party_range sample_params) P"
  using dkg_rounds [OF init_suite_ok init_suite_cyclic sample_params_ok(2) sample_dkg_coins_ok,
      of "\<lambda>_. party_range sample_params" "\<lambda>_. party_range sample_params" "\<lambda>_ xs. xs" "\<lambda>_ xs. xs" "\<lambda>_ xs. xs"]
  by simp blast

lemma sample_share_count: "share_count sample_params \<noteq> 255"
  by (simp add: sample_params_def)

lemma sample_refreshed:
  assumes "key_material init_suite (\<lambda>x. secret_poly sample_params sample_dkg_coins x +
      correction_poly sample_params sample_refresh_coins x) sample_params [1] code half (party_range sample_params) Q"
  shows "pk (Q (PartyIndex 2)) = 7" "poly_point (Q (PartyIndex 2)) = 23"
  using assms by (simp_all add: key_material_def sample_party_range sample_secret_poly sample_correction
      index_scalar_def init_suite_def gf_eq_iff)

lemma refresh_complete_honest_run_witness:
  "\<exists>Q code half. pk (Q (PartyIndex 2)) = 7 \<and> poly_point (Q (PartyIndex 2)) = 23 \<and>
    key_material init_suite (\<lambda>x. secret_poly sample_params sample_dkg_coins x +
      correction_poly sample_params sample_refresh_coins x) sample_params [1] code half (party_range sample_params) Q"
proof -
  obtain P where "key_material init_suite (secret_poly sample_params sample_dkg_coins) sample_params [1]
     (joint_chain_code sample_params sample_dkg_coins) (\<lambda>i j. ic_seed (dc_init (sample_dkg_coins i)) j)
     (party_range sample_params) P" using sample_dkg_material by blast
  from refresh_complete_honest_run [OF init_suite_ok init_suite_cyclic sample_share_count this sample_refresh_ok,
      of "\<lambda>_. party_range sample_params" "\<lambda>_. rev (party_range sample_params)" "\<lambda>_. rev" "\<lambda>_ xs. xs" "\<lambda>_. rev"]
  show ?thesis using sample_refreshed by simp blast
qed

lemma refresh_honest_run_witness:
  "\<exists>P K3 T2 T3 PC Q.
    refresh_phase4 init_suite (P (PartyIndex 2)) [1] 6 (map PC (party_range sample_params)) (K3 (PartyIndex 2))
      (inbox z2_parties T2 (party_range sample_params) (PartyIndex 2))
      (inbox z3_parties T3 (party_range sample_params) (PartyIndex 2)) =
      (Inr (Q (PartyIndex 2)), party_zeroize (P (PartyIndex 2))) \<and>
    pk (Q (PartyIndex 2)) = 7 \<and> poly_point (Q (PartyIndex 2)) = 23"
proof -
  obtain P where P: "key_material init_suite (secret_poly sample_params sample_dkg_coins) sample_params [1]
     (joint_chain_code sample_params sample_dkg_coins) (\<lambda>i j. ic_seed (dc_init (sample_dkg_coins i)) j)
     (party_range sample_params) P" using sample_dkg_material by blast
  obtain PC K3 T2 T3 Q where run: "\<forall>i \<in> set (party_range sample_params).
      refresh_phase4 init_suite (P i) [1] (correction_poly sample_params sample_refresh_coins (index_scalar i))
        (map PC (party_range sample_params)) (K3 i) (inbox z2_parties T2 (party_range sample_params) i)
        (inbox z3_parties T3 (party_range sample_params) i) = (Inr (Q i), party_zeroize (P i))" and
    km: "key_material init_suite (\<lambda>x. secret_poly sample_params sample_dkg_coins x +
      correction_poly sample_params sample_refresh_coins x) sample_params [1]
      (joint_chain_code sample_params sample_dkg_coins) (\<lambda>i j. ic_seed (rc_init (sample_refresh_coins i)) j)
      (party_range sample_params) Q"
    using refresh_honest_run [OF init_suite_ok init_suite_cyclic sample_share_count P sample_refresh_ok(1),
      of "\<lambda>_. party_range sample_params" "\<lambda>_. party_range sample_params" "\<lambda>_ xs. xs" "\<lambda>_ xs. xs"] by simp blast
  have two: "PartyIndex 2 \<in> set (party_range sample_params)" by (simp add: sample_party_range)
  have "correction_poly sample_params sample_refresh_coins (index_scalar (PartyIndex 2)) = 6"
    by (simp add: sample_correction index_scalar_def gf_eq_iff)
  with bspec [OF run two] sample_refreshed [OF km] show ?thesis by (metis)
qed

lemma sample_refresh_returns:
  "\<exists>p q pcs zk r2 r3. params_ok (party_parameters p) \<and> share_count (party_parameters p) \<noteq> 255 \<and>
     refresh_phase4 init_suite p [1] 6 pcs zk r2 r3 = (Inr q, party_zeroize p) \<and> poly_point p = (17 :: gf257)"
proof -
  obtain P where P: "key_material init_suite (secret_poly sample_params sample_dkg_coins) sample_params [1]
     (joint_chain_code sample_params sample_dkg_coins) (\<lambda>i j. ic_seed (dc_init (sample_dkg_coins i)) j)
     (party_range sample_params) P" using sample_dkg_material by blast
  obtain PC K3 T2 T3 Q where run: "\<forall>i \<in> set (party_range sample_params).
      refresh_phase4 init_suite (P i) [1] (correction_poly sample_params sample_refresh_coins (index_scalar i))
        (map PC (party_range sample_params)) (K3 i) (inbox z2_parties T2 (party_range sample_params) i)
        (inbox z3_parties T3 (party_range sample_params) i) = (Inr (Q i), party_zeroize (P i))"
    using refresh_rounds [OF init_suite_ok init_suite_cyclic sample_params_ok(2) P sample_refresh_ok(1),
      of "\<lambda>_. party_range sample_params" "\<lambda>_. party_range sample_params" "\<lambda>_ xs. xs" "\<lambda>_ xs. xs"] by simp blast
  have two: "PartyIndex 2 \<in> set (party_range sample_params)" by (simp add: sample_party_range)
  have "correction_poly sample_params sample_refresh_coins (index_scalar (PartyIndex 2)) = 6"
    by (simp add: sample_correction index_scalar_def gf_eq_iff)
  moreover have "poly_point (P (PartyIndex 2)) = 17" "party_parameters (P (PartyIndex 2)) = sample_params"
    using key_material_party [OF P two] by (simp_all add: sample_secret_poly index_scalar_def gf_eq_iff)
  ultimately show ?thesis
    using bspec [OF run two] sample_params_ok sample_share_count by metis
qed

lemma refresh_keeps_key_witness:
  "\<exists>(p :: (gf257, gf257) party) q pcs zk r2 r3.
     refresh_phase4 init_suite p [1] 6 pcs zk r2 r3 = (Inr q, party_zeroize p) \<and>
     proofs_verify init_suite (party_index p) [1] pcs \<and> pk q = pk p \<and> poly_point q = 23 \<and> session_id q = [1]"
proof -
  obtain p :: "(gf257, gf257) party" and q pcs zk r2 r3
    where p: "params_ok (party_parameters p)" "share_count (party_parameters p) \<noteq> 255"
      and run: "refresh_phase4 init_suite p [1] 6 pcs zk r2 r3 = (Inr q, party_zeroize p)" and "poly_point p = 17"
    using sample_refresh_returns by blast
  moreover have "(17 :: gf257) + 6 = 23" by (simp add: gf_eq_iff)
  ultimately show ?thesis
    using refresh_keeps_key [OF init_suite_ok init_suite_cyclic p disjI2 [OF run [symmetric]]] by auto metis
qed

text \<open>The correction would make the share 0.\<close>

lemma refresh_complete_recoverable_witness:
  "\<exists>reason. fst (refresh_complete_phase4 sample_suite (sample_party 1 20 7) [1] 237 [] [] [] [] [] []) =
     Inl (Aborted (recoverable (PartyIndex 1) reason))"
proof -
  let ?p = "sample_party 1 20 7"
  obtain result p' where run: "refresh_complete_phase4 sample_suite ?p [1] 237 [] [] [] [] [] [] = (result, p')"
    by fastforce
  have "(20 :: gf257) + 237 = 0" by (simp add: gf_eq_iff)
  then have "refresh_share ?p 237 \<noteq> Inr s" for s
    by (simp add: refresh_share_Inr sample_party_def)
  have "\<exists>e. result = Inl e"
  proof (cases result)
    case (Inr q)
    then have "\<exists>s. refresh_share ?p 237 = Inr s"
      using run by (auto simp: refresh_complete_phase4_def wipe_on_success_def rbind_Inr_iff split: sum.splits prod.splits)
    with \<open>\<And>s. refresh_share ?p 237 \<noteq> Inr s\<close> show ?thesis by blast
  qed blast
  then obtain e where "result = Inl e" by blast
  with refresh_complete_recoverable [OF sample_suite_ok run [unfolded this]] run show ?thesis
    by (auto simp: sample_party_def)
qed

end
