(* ===== verification/Messages.thy ===== *)
theory Messages
  imports Protocol_Types
begin

text \<open>
  \<open>protocols/messages.rs\<close>: frames of a tag byte, a big-endian length and a payload, appended to one
  byte stream per party.  Serialization is \<open>bincode\<close>, which is not part of the repository: for each
  message type it is a pair of functions in the record \<open>wire\<close>, and what the code relies on is
  \<open>wire_ok\<close>.  The reader adds offsets as \<open>usize\<close>, whose width depends on the \<open>target\<close>: on the 32-bit
  target the repository also builds for (\<open>wasm32-unknown-unknown\<close>), the length of a frame can make the
  offset wrap around, so the reader is a partial function that may panic or not return.  The abstract
  specification of a stream is its list of frames; the reader is specified on every byte string.
\<close>

section \<open>Tags\<close>

definition TAG_PROOF_COMMITMENT :: u8 where "TAG_PROOF_COMMITMENT = 0x01"
definition TAG_ZERO_SHARE_PHASE2TO4 :: u8 where "TAG_ZERO_SHARE_PHASE2TO4 = 0x02"
definition TAG_ZERO_SHARE_PHASE3TO4 :: u8 where "TAG_ZERO_SHARE_PHASE3TO4 = 0x03"
definition TAG_INIT_MUL_PHASE3TO4 :: u8 where "TAG_INIT_MUL_PHASE3TO4 = 0x04"
definition TAG_DERIVATION_PHASE2TO4 :: u8 where "TAG_DERIVATION_PHASE2TO4 = 0x05"
definition TAG_DERIVATION_PHASE3TO4 :: u8 where "TAG_DERIVATION_PHASE3TO4 = 0x06"
definition TAG_SIGN_PHASE1TO2 :: u8 where "TAG_SIGN_PHASE1TO2 = 0x10"
definition TAG_SIGN_PHASE2TO3 :: u8 where "TAG_SIGN_PHASE2TO3 = 0x11"
definition TAG_SIGN_BROADCAST3TO4 :: u8 where "TAG_SIGN_BROADCAST3TO4 = 0x12"
definition TAG_REFRESH_PHASE2TO4 :: u8 where "TAG_REFRESH_PHASE2TO4 = 0x20"
definition TAG_REFRESH_PHASE3TO4 :: u8 where "TAG_REFRESH_PHASE3TO4 = 0x21"

definition message_tags :: "u8 list" where
  "message_tags = [TAG_PROOF_COMMITMENT, TAG_ZERO_SHARE_PHASE2TO4, TAG_ZERO_SHARE_PHASE3TO4,
     TAG_INIT_MUL_PHASE3TO4, TAG_DERIVATION_PHASE2TO4, TAG_DERIVATION_PHASE3TO4, TAG_SIGN_PHASE1TO2,
     TAG_SIGN_PHASE2TO3, TAG_SIGN_BROADCAST3TO4, TAG_REFRESH_PHASE2TO4, TAG_REFRESH_PHASE3TO4]"

lemma message_tags_distinct: "distinct message_tags"
  by (simp add: message_tags_def TAG_PROOF_COMMITMENT_def TAG_ZERO_SHARE_PHASE2TO4_def
      TAG_ZERO_SHARE_PHASE3TO4_def TAG_INIT_MUL_PHASE3TO4_def TAG_DERIVATION_PHASE2TO4_def
      TAG_DERIVATION_PHASE3TO4_def TAG_SIGN_PHASE1TO2_def TAG_SIGN_PHASE2TO3_def TAG_SIGN_BROADCAST3TO4_def
      TAG_REFRESH_PHASE2TO4_def TAG_REFRESH_PHASE3TO4_def)

section \<open>Types\<close>

text \<open>A message type: \<open>MessageTag::TAG\<close>, \<open>bincode::serialize\<close>, and \<open>deserialize\<close> with a limit and trailing
  bytes allowed; an error is the text of the library's error.\<close>

record 'm wire =
  wire_tag :: u8
  serialize :: "'m \<Rightarrow> string + bytes"
  deserialize :: "nat \<Rightarrow> bytes \<Rightarrow> string + 'm"

definition wire_ok :: "'m wire \<Rightarrow> bool" where
  "wire_ok W \<longleftrightarrow> (\<forall>m b. serialize W m = Inr b \<longrightarrow> deserialize W (length b) b = Inr m)"

datatype message_error =
    Serialization string
  | Deserialization string
  | TagMismatch u8 u8
  | NotFound u8
  | InvalidFrame string

definition hex_digit :: "nat \<Rightarrow> char" where
  "hex_digit n = ''0123456789abcdef'' ! n"

definition show_hex_u8 :: "u8 \<Rightarrow> string" where
  "show_hex_u8 w = ''0x'' @ [hex_digit (unat w div 16), hex_digit (unat w mod 16)]"

fun show_message_error :: "message_error \<Rightarrow> string" where
  "show_message_error (Serialization s) = ''serialization error: '' @ s"
| "show_message_error (Deserialization s) = ''deserialization error: '' @ s"
| "show_message_error (TagMismatch expected found) =
     ''tag mismatch: expected '' @ show_hex_u8 expected @ '', found '' @ show_hex_u8 found"
| "show_message_error (NotFound s) = ''message not found for sender '' @ show_nat (unat s)"
| "show_message_error (InvalidFrame s) = ''invalid frame: '' @ s"

record phase_output =
  po_broadcasts :: "bytes list"
  po_p2p :: "(u8, bytes) btree"

record phase_input =
  pi_broadcasts :: "(u8, bytes) btree"
  pi_p2p :: "(u8, bytes) btree"

section \<open>Frames\<close>

definition FRAME_HEADER_LEN :: nat where "FRAME_HEADER_LEN = 5"

definition u32_max :: nat where "u32_max = 2 ^ 32 - 1"

definition encode_frame :: "'m wire \<Rightarrow> 'm \<Rightarrow> message_error + bytes" where
  "encode_frame W message =
     rbind (map_err Serialization (serialize W message)) (\<lambda>payload.
       if u32_max < length payload then Inl (Serialization ''payload exceeds u32::MAX'')
       else Inr (wire_tag W # be32 (word_of_nat (length payload)) @ payload))"

text \<open>\<open>u32::from_be_bytes\<close> of the four bytes from an offset on.\<close>

definition u32_at :: "bytes \<Rightarrow> nat \<Rightarrow> nat" where
  "u32_at stream i = of_be [stream ! i, stream ! (i + 1), stream ! (i + 2), stream ! (i + 3)]"

text \<open>What the code is built for: the width of \<open>usize\<close>, and whether arithmetic that overflows panics (a
  development build) or wraps around (a release build).\<close>

record target =
  usize_bits :: nat
  overflow_checks :: bool

definition native :: target where "native = \<lparr>usize_bits = 64, overflow_checks = False\<rparr>"
definition wasm32 :: target where "wasm32 = \<lparr>usize_bits = 32, overflow_checks = False\<rparr>"

text \<open>How a call ends when it ends.\<close>

datatype 'a outcome = Panic | Done 'a

definition usize_add :: "target \<Rightarrow> nat \<Rightarrow> nat \<Rightarrow> nat outcome" where
  "usize_add T a b =
     (if a + b < 2 ^ usize_bits T then Done (a + b)
      else if overflow_checks T then Panic
      else Done ((a + b) mod 2 ^ usize_bits T))"

text \<open>The loop of \<open>find_in_stream\<close> from an offset on; \<open>None\<close> is a loop that does not end.  The slice of the
  payload panics when its end lies before its start.\<close>

partial_function (option) find_from ::
  "target \<Rightarrow> 'm wire \<Rightarrow> bytes \<Rightarrow> nat \<Rightarrow> (message_error + 'm) outcome option" where
  "find_from T W stream offset =
     (if offset < length stream then
        (case usize_add T offset FRAME_HEADER_LEN of
           Panic \<Rightarrow> Some Panic
         | Done start \<Rightarrow>
             if length stream < start then Some (Done (Inl (InvalidFrame ''truncated header'')))
             else
               let tag = stream ! offset;
                   len = u32_at stream (offset + 1)
               in (case usize_add T start len of
                     Panic \<Rightarrow> Some Panic
                   | Done end_ix \<Rightarrow>
                       if length stream < end_ix then Some (Done (Inl (InvalidFrame ''truncated payload'')))
                       else if tag = wire_tag W then
                         if end_ix < start then Some Panic
                         else Some (Done (map_err Deserialization
                                (deserialize W len (take (end_ix - start) (drop start stream)))))
                       else find_from T W stream end_ix))
      else Some (Done (Inl (NotFound 0))))"

definition find_in_stream :: "target \<Rightarrow> 'm wire \<Rightarrow> bytes \<Rightarrow> (message_error + 'm) outcome option" where
  "find_in_stream T W stream = find_from T W stream 0"

definition PhaseOutput_new :: phase_output where
  "PhaseOutput_new = \<lparr>po_broadcasts = [], po_p2p = []\<rparr>"

definition add_broadcast :: "'m wire \<Rightarrow> 'm \<Rightarrow> phase_output \<Rightarrow> message_error + phase_output" where
  "add_broadcast W message out =
     rbind (encode_frame W message) (\<lambda>frame. Inr (out\<lparr>po_broadcasts := po_broadcasts out @ [frame]\<rparr>))"

text \<open>\<open>entry(receiver).or_default().extend_from_slice(frame)\<close>; the entry is made before the frame is
  encoded, so a failing call leaves an empty stream behind.\<close>

definition p2p_stream :: "phase_output \<Rightarrow> u8 \<Rightarrow> bytes" where
  "p2p_stream out to = (case bt_get (po_p2p out) to of None \<Rightarrow> [] | Some stream \<Rightarrow> stream)"

definition add_p2p :: "'m wire \<Rightarrow> u8 \<Rightarrow> 'm \<Rightarrow> phase_output \<Rightarrow> (message_error + unit) \<times> phase_output" where
  "add_p2p W to message out =
     (let out' = out\<lparr>po_p2p := bt_insert to (p2p_stream out to) (po_p2p out)\<rparr>
      in case encode_frame W message of
           Inl e \<Rightarrow> (Inl e, out')
         | Inr frame \<Rightarrow> (Inr (), out'\<lparr>po_p2p := bt_insert to (p2p_stream out' to @ frame) (po_p2p out')\<rparr>))"

definition name_sender :: "u8 \<Rightarrow> message_error \<Rightarrow> message_error" where
  "name_sender from e = (case e of NotFound _ \<Rightarrow> NotFound from | other \<Rightarrow> other)"

text \<open>\<open>?\<close> on the stream, then the search in it, with the sender named in the error.\<close>

definition read_stream ::
    "target \<Rightarrow> 'm wire \<Rightarrow> u8 \<Rightarrow> bytes option \<Rightarrow> (message_error + 'm) outcome option" where
  "read_stream T W from entry =
     (case entry of
        None \<Rightarrow> Some (Done (Inl (NotFound from)))
      | Some stream \<Rightarrow> map_option (map_outcome (map_err (name_sender from))) (find_in_stream T W stream))"

definition get_broadcast :: "target \<Rightarrow> 'm wire \<Rightarrow> u8 \<Rightarrow> phase_input \<Rightarrow> (message_error + 'm) outcome option" where
  "get_broadcast T W from inp = read_stream T W from (bt_get (pi_broadcasts inp) from)"

definition get_p2p :: "target \<Rightarrow> 'm wire \<Rightarrow> u8 \<Rightarrow> phase_input \<Rightarrow> (message_error + 'm) outcome option" where
  "get_p2p T W from inp = read_stream T W from (bt_get (pi_p2p inp) from)"

section \<open>The abstract stream: a list of frames\<close>

definition frame_bytes :: "u8 \<times> bytes \<Rightarrow> bytes" where
  "frame_bytes f = fst f # be32 (word_of_nat (length (snd f))) @ snd f"

definition stream_of :: "(u8 \<times> bytes) list \<Rightarrow> bytes" where
  "stream_of fs = concat (map frame_bytes fs)"

definition frames_ok :: "(u8 \<times> bytes) list \<Rightarrow> bool" where
  "frames_ok fs \<longleftrightarrow> (\<forall>f \<in> set fs. length (snd f) \<le> u32_max)"

lemma stream_of_simps [simp]:
  "stream_of [] = []" "stream_of (f # fs) = frame_bytes f @ stream_of fs"
  "stream_of (fs @ gs) = stream_of fs @ stream_of gs"
  by (simp_all add: stream_of_def)

lemma frames_ok_simps [simp]:
  "frames_ok []" "frames_ok (f # fs) \<longleftrightarrow> length (snd f) \<le> u32_max \<and> frames_ok fs"
  "frames_ok (fs @ gs) \<longleftrightarrow> frames_ok fs \<and> frames_ok gs"
  by (auto simp: frames_ok_def)

text \<open>What is left of a stream after its last whole frame.\<close>

definition stream_end :: "bytes \<Rightarrow> message_error option" where
  "stream_end rest =
     (if rest = [] then Some (NotFound 0)
      else if length rest < FRAME_HEADER_LEN then Some (InvalidFrame ''truncated header'')
      else if length rest < FRAME_HEADER_LEN + of_be (take 4 (drop 1 rest)) then
        Some (InvalidFrame ''truncated payload'')
      else None)"

fun first_match :: "'m wire \<Rightarrow> (u8 \<times> bytes) list \<Rightarrow> message_error \<Rightarrow> message_error + 'm" where
  "first_match W [] e = Inl e"
| "first_match W (f # fs) e =
     (if fst f = wire_tag W then map_err Deserialization (deserialize W (length (snd f)) (snd f))
      else first_match W fs e)"

lemma be_bytes_of_be: "be_bytes (length bs) (of_be bs) = bs"
proof (induction bs rule: rev_induct)
  case (snoc b bs)
  have "of_be (bs @ [b]) = of_be bs * 256 + unat b" by (simp add: of_be_append)
  moreover have "word_of_nat (of_be bs * 256 + unat b) = b"
    by (rule unsigned_word_eqI) (simp add: unsigned_of_nat take_bit_eq_mod unat_byte_less del: of_nat_add of_nat_mult)
  ultimately show ?case using snoc unat_byte_less [of b] by simp
qed simp

lemma length_four: "length xs = 4 \<longleftrightarrow> (\<exists>a b c d. xs = [a, b, c, d])"
  by (auto simp: numeral_eq_Suc length_Suc_conv)

lemma u32_at_header:
  assumes "length hdr = 4"
  shows "u32_at (pre @ t # hdr @ post) (Suc (length pre)) = of_be hdr"
  using assms by (auto simp: u32_at_def length_four nth_append)

lemma u32_len: "n \<le> u32_max \<Longrightarrow> unat (word_of_nat n :: u32) = n"
  by (simp add: u32_max_def unat_of_nat take_bit_nat_eq_self_iff)

text \<open>The length that the header at the start of \<open>rest\<close> claims, and the frames whose end is not an offset
  of the target.\<close>

definition claimed_length :: "bytes \<Rightarrow> nat" where
  "claimed_length rest = of_be (take 4 (drop 1 rest))"

definition end_overflows :: "target \<Rightarrow> nat \<Rightarrow> bytes \<Rightarrow> bool" where
  "end_overflows T n rest \<longleftrightarrow>
     FRAME_HEADER_LEN \<le> length rest \<and> 2 ^ usize_bits T \<le> n + FRAME_HEADER_LEN + claimed_length rest"

text \<open>A slice has at most \<open>isize::MAX\<close> bytes, and no target of the crate has a narrower \<open>usize\<close> than 32 bits.\<close>

definition fits_slice :: "target \<Rightarrow> bytes \<Rightarrow> bool" where
  "fits_slice T stream \<longleftrightarrow> 32 \<le> usize_bits T \<and> length stream < 2 ^ (usize_bits T - 1)"

lemma usize_bounds:
  assumes "fits_slice T stream"
  shows "length stream + 5 < 2 ^ usize_bits T" "n \<le> length stream \<Longrightarrow> n < 2 ^ usize_bits T"
    "(2::nat) ^ 32 \<le> 2 ^ usize_bits T"
proof -
  obtain k where k: "usize_bits T = Suc k" "31 \<le> k"
    using assms by (cases "usize_bits T") (auto simp: fits_slice_def)
  have "(2::nat) ^ 31 \<le> 2 ^ k" using k(2) by (rule power_increasing) simp
  with assms k(1) show "length stream + 5 < 2 ^ usize_bits T" "n \<le> length stream \<Longrightarrow> n < 2 ^ usize_bits T"
    "(2::nat) ^ 32 \<le> 2 ^ usize_bits T"
    by (auto simp: fits_slice_def)
qed

lemma find_from_frame:
  assumes "length b \<le> u32_max" and "fits_slice T (pre @ frame_bytes (t, b) @ post)"
  shows "find_from T W (pre @ frame_bytes (t, b) @ post) (length pre) =
    (if t = wire_tag W then Some (Done (map_err Deserialization (deserialize W (length b) b)))
     else find_from T W ((pre @ frame_bytes (t, b)) @ post) (length (pre @ frame_bytes (t, b))))"
proof -
  let ?h = "be32 (word_of_nat (length b))"
  have fr: "pre @ frame_bytes (t, b) @ post = pre @ t # ?h @ b @ post" by (simp add: frame_bytes_def)
  have at: "u32_at (pre @ t # ?h @ b @ post) (Suc (length pre)) = length b"
    using u32_at_header [of ?h pre t "b @ post"] by (simp add: u32_len [OF assms(1)])
  have drop: "drop (length pre + 5) (pre @ t # ?h @ b @ post) = b @ post"
    by (simp add: numeral_eq_Suc)
  have add: "usize_add T (length pre) 5 = Done (length pre + 5)"
    "usize_add T (length pre + 5) (length b) = Done (length pre + 5 + length b)"
    using usize_bounds(2) [OF assms(2), of "length pre + 5"] usize_bounds(2) [OF assms(2), of "length pre + 5 + length b"]
    by (simp_all add: usize_add_def fr)
  show ?thesis
    unfolding fr
    by (subst find_from.simps)
      (simp add: Let_def at drop add FRAME_HEADER_LEN_def frame_bytes_def add.assoc)
qed

lemma header_at_end:
  assumes "5 \<le> length rest"
  shows "u32_at (pre @ rest) (Suc (length pre)) = claimed_length rest" "claimed_length rest < 2 ^ 32"
proof -
  define hdr where "hdr = take 4 (drop 1 rest)"
  have "length hdr = 4" using assms by (simp add: hdr_def)
  moreover have "rest = hd rest # hdr @ drop 5 rest"
    using assms append_take_drop_id [of 4 "drop 1 rest"] by (cases rest) (auto simp: hdr_def)
  ultimately show "u32_at (pre @ rest) (Suc (length pre)) = claimed_length rest" "claimed_length rest < 2 ^ 32"
    using u32_at_header [of hdr pre "hd rest" "drop 5 rest"] of_be_bound [of hdr]
    by (simp_all add: claimed_length_def hdr_def)
qed

text \<open>What the reader does at the end of the whole frames.\<close>

definition read_end ::
    "target \<Rightarrow> 'm wire \<Rightarrow> bytes \<Rightarrow> nat \<Rightarrow> bytes \<Rightarrow> message_error \<Rightarrow> (message_error + 'm) outcome option" where
  "read_end T W stream n rest e =
     (if end_overflows T n rest then
        if overflow_checks T \<or> hd rest = wire_tag W then Some Panic
        else find_from T W stream (n + FRAME_HEADER_LEN + claimed_length rest - 2 ^ usize_bits T)
      else Some (Done (Inl e)))"

lemma find_from_end:
  assumes "stream_end rest = Some e" and "fits_slice T (pre @ rest)"
  shows "find_from T W (pre @ rest) (length pre) = read_end T W (pre @ rest) (length pre) rest e"
proof (cases "length rest < 5")
  case True
  have "usize_add T (length pre) 5 = Done (length pre + 5)"
    using usize_bounds(1) [OF assms(2)] by (simp add: usize_add_def)
  with True assms(1) show ?thesis
    by (subst find_from.simps)
      (auto simp: stream_end_def read_end_def end_overflows_def FRAME_HEADER_LEN_def split: if_splits)
next
  case False
  then have at: "u32_at (pre @ rest) (Suc (length pre)) = claimed_length rest" "claimed_length rest < 2 ^ 32"
    using header_at_end(1) [of rest pre] header_at_end(2) [of rest] by simp_all
  from False have hd: "(pre @ rest) ! length pre = hd rest" by (cases rest) auto
  have add: "usize_add T (length pre) 5 = Done (length pre + 5)"
    using usize_bounds(1) [OF assms(2)] by (simp add: usize_add_def)
  from assms(1) False have e: "length rest < 5 + claimed_length rest" "e = InvalidFrame ''truncated payload''"
    by (auto simp: stream_end_def FRAME_HEADER_LEN_def claimed_length_def split: if_splits)
  show ?thesis
  proof (cases "length pre + 5 + claimed_length rest < 2 ^ usize_bits T")
    case True
    then have "usize_add T (length pre + 5) (claimed_length rest) = Done (length pre + 5 + claimed_length rest)"
      by (simp add: usize_add_def)
    with True False e show ?thesis
      by (subst find_from.simps) (auto simp: Let_def at add FRAME_HEADER_LEN_def read_end_def end_overflows_def)
  next
    case over: False
    define k where "k = length pre + 5 + claimed_length rest - 2 ^ usize_bits T"
    have k: "length pre + 5 + claimed_length rest = k + 2 ^ usize_bits T" "k < length pre + 5"
      using over at(2) usize_bounds(3) [OF assms(2)] by (simp_all add: k_def)
    then have "k < 2 ^ usize_bits T" using False usize_bounds(1) [OF assms(2)] by simp
    then have "usize_add T (length pre + 5) (claimed_length rest) = (if overflow_checks T then Panic else Done k)"
      using over k(1) by (simp add: usize_add_def)
    moreover have "end_overflows T (length pre) rest" using over False by (simp add: end_overflows_def FRAME_HEADER_LEN_def)
    ultimately show ?thesis using False k
      by (subst find_from.simps) (auto simp: Let_def at hd add FRAME_HEADER_LEN_def read_end_def k_def)
  qed
qed

lemma find_from_stream:
  assumes "frames_ok fs" and "stream_end rest = Some e" and "fits_slice T (pre @ stream_of fs @ rest)"
  shows "find_from T W (pre @ stream_of fs @ rest) (length pre) =
    (if wire_tag W \<in> fst ` set fs then Some (Done (first_match W fs e))
     else read_end T W (pre @ stream_of fs @ rest) (length (pre @ stream_of fs)) rest e)"
  using assms(1,3)
proof (induction fs arbitrary: pre)
  case Nil
  then show ?case using find_from_end [OF assms(2)] by simp
next
  case (Cons f fs)
  obtain t b where f: "f = (t, b)" by fastforce
  with Cons.prems have "length b \<le> u32_max" "frames_ok fs" by simp_all
  with find_from_frame [of b T pre t "stream_of fs @ rest" W] Cons.IH [of "pre @ frame_bytes (t, b)"] Cons.prems(2) f
  show ?case by auto
qed

lemma stream_split: "\<exists>fs rest e. stream = stream_of fs @ rest \<and> frames_ok fs \<and> stream_end rest = Some e"
proof (induction stream rule: length_induct)
  case (1 stream)
  show ?case
  proof (cases "stream_end stream")
    case None
    define hdr where "hdr = take 4 (drop 1 stream)"
    define b where "b = take (of_be hdr) (drop 5 stream)"
    from None have big: "\<not> length stream < 5" "\<not> length stream < 5 + of_be hdr"
      by (auto simp: stream_end_def FRAME_HEADER_LEN_def hdr_def split: if_splits)
    have "length hdr = 4" using big by (simp add: hdr_def)
    then have hdr: "be32 (word_of_nat (length b)) = hdr" "length b \<le> u32_max"
      using big of_be_bound [of hdr] be_bytes_of_be [of hdr]
      by (simp_all add: b_def be32_def u32_max_def unat_of_nat take_bit_nat_eq_self_iff)
    have "stream = hd stream # hdr @ drop 5 stream"
      using big append_take_drop_id [of 4 "drop 1 stream"] by (cases stream) (auto simp: hdr_def)
    then have stream: "stream = frame_bytes (hd stream, b) @ drop (of_be hdr) (drop 5 stream)"
      unfolding frame_bytes_def
      by (simp only: fst_conv snd_conv hdr(1)) (simp only: b_def append_Cons append_assoc append_take_drop_id)
    have "length (drop (of_be hdr) (drop 5 stream)) < length stream" using big by simp
    with 1 obtain fs rest e where
      "drop (of_be hdr) (drop 5 stream) = stream_of fs @ rest" "frames_ok fs" "stream_end rest = Some e"
      by blast
    with stream hdr(2) show ?thesis
      by (intro exI [of _ "(hd stream, b) # fs"] exI [of _ rest] exI [of _ e]) simp
  qed (intro exI [of _ "[]"] exI [of _ stream], auto)
qed

lemma first_match_append:
  assumes "wire_tag W \<notin> fst ` set fs"
  shows "first_match W (fs @ gs) e = first_match W gs e"
  using assms by (induction fs) auto

lemma first_match_absent: "wire_tag W \<notin> fst ` set fs \<Longrightarrow> first_match W fs e = Inl e"
  using first_match_append [of W fs "[]" e] by simp

section \<open>Properties\<close>

text \<open>A stream as whole frames, a rest, and the error the rest calls for.\<close>

definition framed :: "bytes \<Rightarrow> (u8 \<times> bytes) list \<Rightarrow> bytes \<Rightarrow> message_error \<Rightarrow> bool" where
  "framed stream fs rest e \<longleftrightarrow> stream = stream_of fs @ rest \<and> frames_ok fs \<and> stream_end rest = Some e"

lemma find_in_framed:
  assumes "framed stream fs rest e" and "fits_slice T stream"
  shows "find_in_stream T W stream =
    (if wire_tag W \<in> fst ` set fs then Some (Done (first_match W fs e))
     else read_end T W stream (length (stream_of fs)) rest e)"
  using find_from_stream [of fs rest e T "[]" W] assms by (simp add: framed_def find_in_stream_def)

lemma no_overflow_wide:
  assumes "fits_slice T (xs @ rest)" and "32 < usize_bits T"
  shows "\<not> end_overflows T (length xs) rest"
proof (cases "5 \<le> length rest")
  case True
  obtain k where k: "usize_bits T = Suc k" "32 \<le> k" using assms(2) by (cases "usize_bits T") auto
  have "(2::nat) ^ 32 \<le> 2 ^ k" using k(2) by (rule power_increasing) simp
  with assms(1) k(1) header_at_end(2) [OF True] True show ?thesis
    by (simp add: end_overflows_def fits_slice_def FRAME_HEADER_LEN_def)
qed (simp add: end_overflows_def FRAME_HEADER_LEN_def)

text \<open>C24: reading a stream.  Every byte string is a list of whole frames
  followed by nothing or by a truncated frame.  On it \<open>find_in_stream\<close> returns the payload of
  the first frame of the wanted tag, decoded within its length; frames of other tags, whatever their
  payload, do not matter.  Without such a frame it returns the error that the end of the stream calls
  for, except when the length claimed by a truncated frame takes its end beyond \<open>usize\<close>: then, on a
  target that checks overflows or when the frame has the wanted tag, it panics, and otherwise it goes on
  at the offset that is left after the wrap-around, which lies before the frame's payload and may be one
  it has seen.  Where \<open>usize\<close> is wider than 32 bits that never happens, and it returns on every byte
  string.  The lengths are those a Rust slice can have.\<close>

theorem find_in_stream_refines:
  assumes "32 \<le> usize_bits T" and "length stream < 2 ^ (usize_bits T - 1)"
  shows "(\<exists>fs rest e. framed stream fs rest e) \<and>
    (\<forall>fs rest e. framed stream fs rest e \<longrightarrow>
       (wire_tag W \<in> fst ` set fs \<or> \<not> end_overflows T (length (stream_of fs)) rest \<longrightarrow>
          find_in_stream T W stream = Some (Done (first_match W fs e))) \<and>
       (wire_tag W \<notin> fst ` set fs \<and> end_overflows T (length (stream_of fs)) rest \<longrightarrow>
          (let wrapped = length (stream_of fs) + FRAME_HEADER_LEN + claimed_length rest - 2 ^ usize_bits T
           in wrapped < length (stream_of fs) + FRAME_HEADER_LEN \<and>
              find_in_stream T W stream =
                (if overflow_checks T \<or> hd rest = wire_tag W then Some Panic
                 else find_from T W stream wrapped))) \<and>
       (32 < usize_bits T \<longrightarrow> \<not> end_overflows T (length (stream_of fs)) rest))"
proof (intro conjI allI impI)
  show "\<exists>fs rest e. framed stream fs rest e" using stream_split [of stream] by (simp add: framed_def)
next
  have fits: "fits_slice T stream" using assms by (simp add: fits_slice_def)
  fix fs rest e assume f: "framed stream fs rest e"
  note find = find_in_framed [OF f fits, of W]
  show "find_in_stream T W stream = Some (Done (first_match W fs e))"
    if "wire_tag W \<in> fst ` set fs \<or> \<not> end_overflows T (length (stream_of fs)) rest"
    using that find first_match_absent [of W fs e] by (auto simp: read_end_def)
  show "let wrapped = length (stream_of fs) + FRAME_HEADER_LEN + claimed_length rest - 2 ^ usize_bits T
        in wrapped < length (stream_of fs) + FRAME_HEADER_LEN \<and>
           find_in_stream T W stream =
             (if overflow_checks T \<or> hd rest = wire_tag W then Some Panic
              else find_from T W stream wrapped)"
    if over: "wire_tag W \<notin> fst ` set fs \<and> end_overflows T (length (stream_of fs)) rest"
  proof -
    have "claimed_length rest < 2 ^ usize_bits T"
      using over header_at_end(2) [of rest] usize_bounds(3) [OF fits]
      by (simp add: end_overflows_def FRAME_HEADER_LEN_def)
    then have "length (stream_of fs) + FRAME_HEADER_LEN + claimed_length rest - 2 ^ usize_bits T <
      length (stream_of fs) + FRAME_HEADER_LEN"
      using over by (simp add: end_overflows_def FRAME_HEADER_LEN_def)
    with over find show ?thesis by (simp add: Let_def read_end_def)
  qed
  show "\<not> end_overflows T (length (stream_of fs)) rest" if "32 < usize_bits T"
    using no_overflow_wide [of T "stream_of fs" rest] f fits that by (simp add: framed_def)
qed

text \<open>A frame that ends where it starts, modulo the width of \<open>usize\<close>: the reader loops for ever on these
  five bytes, or panics if they carry its tag.\<close>

definition wrapping_frame :: "u8 \<Rightarrow> bytes" where
  "wrapping_frame t = [t, 0xFF, 0xFF, 0xFF, 0xFB]"

lemma wrapping_frame_framed:
  "framed (wrapping_frame t) [] (wrapping_frame t) (InvalidFrame ''truncated payload'')"
  by (simp add: framed_def wrapping_frame_def stream_end_def FRAME_HEADER_LEN_def)

lemma claimed_wrapping: "claimed_length (wrapping_frame t) = 2 ^ 32 - 5"
  by (simp add: claimed_length_def wrapping_frame_def)

lemma find_in_stream_loops:
  assumes "usize_bits T = 32" and "\<not> overflow_checks T" and "wire_tag W \<noteq> t"
  shows "find_in_stream T W (wrapping_frame t) = None"
proof -
  have at: "u32_at (wrapping_frame t) 1 = 2 ^ 32 - 5"
    by (simp add: u32_at_def wrapping_frame_def)
  have none: "\<not> (T' = T \<and> W' = W \<and> stream = wrapping_frame t \<and> offset = 0)"
    if "find_from T' W' stream offset = Some y" for T' W' stream offset y
    using that
  proof (induct T' W' stream offset y rule: find_from.raw_induct [rotated, consumes 1, case_names step])
    case (step loop T' W' stream offset y)
    show ?case
    proof
      assume "T' = T \<and> W' = W \<and> stream = wrapping_frame t \<and> offset = 0"
      with step(2) assms at have "loop T W (wrapping_frame t) 0 = Some y"
        by (simp add: usize_add_def FRAME_HEADER_LEN_def wrapping_frame_def)
      from step(1) [OF this] show False by simp
    qed
  qed
  from none [of T W "wrapping_frame t" 0] show ?thesis
    by (cases "find_from T W (wrapping_frame t) 0") (simp_all add: find_in_stream_def)
qed

lemma encode_frame_Inr:
  "encode_frame W m = Inr fr \<longleftrightarrow>
     (\<exists>b. serialize W m = Inr b \<and> length b \<le> u32_max \<and> fr = frame_bytes (wire_tag W, b))"
  by (cases "serialize W m") (auto simp: encode_frame_def frame_bytes_def)

text \<open>The messages for one receiver.\<close>

definition holds_frames :: "phase_output \<Rightarrow> u8 \<Rightarrow> (u8 \<times> bytes) list \<Rightarrow> bool" where
  "holds_frames out to fs \<longleftrightarrow> bt_ok (po_p2p out) \<and> p2p_stream out to = stream_of fs \<and> frames_ok fs"

lemma new_holds: "holds_frames PhaseOutput_new to []"
  by (simp add: holds_frames_def PhaseOutput_new_def p2p_stream_def bt_laws)

lemma add_p2p_stream:
  assumes "bt_ok (po_p2p out)" and "add_p2p W to m out = (Inr (), out')"
  shows "\<exists>b. serialize W m = Inr b \<and> length b \<le> u32_max \<and> bt_ok (po_p2p out') \<and>
    po_broadcasts out' = po_broadcasts out \<and>
    (\<forall>j. p2p_stream out' j = p2p_stream out j @ (if j = to then frame_bytes (wire_tag W, b) else []))"
proof -
  from assms(2) obtain fr where "encode_frame W m = Inr fr" by (cases "encode_frame W m") (auto simp: add_p2p_def Let_def)
  with assms show ?thesis
    by (auto simp: add_p2p_def encode_frame_Inr p2p_stream_def bt_get_insert bt_ok_insert)
qed

lemma add_p2p_holds:
  assumes "holds_frames out to fs" and "add_p2p W j m out = (Inr (), out')"
  shows "\<exists>b. serialize W m = Inr b \<and>
    holds_frames out' to (if j = to then fs @ [(wire_tag W, b)] else fs)"
  using add_p2p_stream [of out W j m out'] assms by (auto simp: holds_frames_def)

text \<open>Later additions of any message types, to any receivers.\<close>

inductive added :: "phase_output \<Rightarrow> phase_output \<Rightarrow> bool" where
  unchanged: "added out out"
| then_p2p: "added out out' \<Longrightarrow> add_p2p (W :: bytes wire) j m out' = (Inr (), out'') \<Longrightarrow> added out out''"
| then_broadcast: "added out out' \<Longrightarrow> add_broadcast (W :: bytes wire) m out' = Inr out'' \<Longrightarrow> added out out''"

lemma added_holds:
  assumes "added out out'" and "holds_frames out to fs"
  shows "\<exists>gs. holds_frames out' to (fs @ gs)"
  using assms
proof (induction rule: added.induct)
  case (unchanged out)
  then show ?case by (intro exI [of _ "[]"]) simp
next
  case (then_p2p out out' W j m out'')
  then obtain gs where "holds_frames out' to (fs @ gs)" by blast
  from add_p2p_holds [OF this then_p2p(2)] show ?case by (cases "j = to") auto
next
  case (then_broadcast out out' W m out'')
  then show ?case
    by (auto simp: add_broadcast_def rbind_Inr_iff holds_frames_def p2p_stream_def)
qed

text \<open>C25: messages arrive.  A message put into the stream for a receiver that holds no message of its tag
  is what the receiver gets back for that tag, whatever else the sender adds before or after it, for
  this or for other receivers, on every target that can hold the stream.\<close>

theorem p2p_roundtrip:
  assumes "wire_ok W" and "holds_frames out to fs" and "wire_tag W \<notin> fst ` set fs"
    and "add_p2p W to m out = (Inr (), out')" and "added out' out''"
    and "bt_get (pi_p2p inp) from = Some (p2p_stream out'' to)"
    and "32 \<le> usize_bits T" and "length (p2p_stream out'' to) < 2 ^ (usize_bits T - 1)"
  shows "get_p2p T W from inp = Some (Done (Inr m))"
proof -
  obtain b where b: "serialize W m = Inr b" "holds_frames out' to (fs @ [(wire_tag W, b)])"
    using add_p2p_holds [OF assms(2,4)] by auto
  obtain gs where gs: "holds_frames out'' to ((fs @ [(wire_tag W, b)]) @ gs)"
    using added_holds [OF assms(5) b(2)] by blast
  then have fr: "frames_ok (fs @ (wire_tag W, b) # gs)" "p2p_stream out'' to = stream_of (fs @ (wire_tag W, b) # gs)"
    by (simp_all add: holds_frames_def)
  then have "framed (p2p_stream out'' to) (fs @ (wire_tag W, b) # gs) [] (NotFound 0)"
    by (simp add: framed_def stream_end_def)
  from find_in_framed [OF this, of T W] assms(7,8) first_match_append [OF assms(3)]
  have "find_in_stream T W (p2p_stream out'' to) =
      Some (Done (map_err Deserialization (deserialize W (length b) b)))"
    by (simp add: fits_slice_def)
  with assms(1,6) b(1) show ?thesis by (simp add: get_p2p_def read_stream_def wire_ok_def)
qed

text \<open>A broadcast is a stream of one frame; an unknown sender is named in the error.\<close>

lemma broadcast_roundtrip:
  assumes "wire_ok W" and "add_broadcast W m out = Inr out'"
    and "bt_get (pi_broadcasts inp) from = Some (last (po_broadcasts out'))"
    and "32 \<le> usize_bits T" and "length (last (po_broadcasts out')) < 2 ^ (usize_bits T - 1)"
  shows "get_broadcast T W from inp = Some (Done (Inr m))"
proof -
  obtain b where b: "serialize W m = Inr b" "length b \<le> u32_max"
    "last (po_broadcasts out') = frame_bytes (wire_tag W, b)"
    using assms(2) by (auto simp: add_broadcast_def rbind_Inr_iff encode_frame_Inr)
  then have "framed (last (po_broadcasts out')) [(wire_tag W, b)] [] (NotFound 0)"
    by (simp add: framed_def stream_end_def)
  from find_in_framed [OF this, of T W] assms(4,5)
  have "find_in_stream T W (last (po_broadcasts out')) =
      Some (Done (map_err Deserialization (deserialize W (length b) b)))"
    by (simp add: fits_slice_def)
  with assms(1,3) b(1) show ?thesis by (simp add: get_broadcast_def read_stream_def wire_ok_def)
qed

lemma get_unknown_sender:
  "bt_get (pi_p2p inp) from = None \<Longrightarrow> get_p2p T W from inp = Some (Done (Inl (NotFound from)))"
  "bt_get (pi_broadcasts inp) from = None \<Longrightarrow> get_broadcast T W from inp = Some (Done (Inl (NotFound from)))"
  by (simp_all add: get_p2p_def get_broadcast_def read_stream_def)

definition sample_wire :: "u8 \<Rightarrow> bytes wire" where
  "sample_wire t = \<lparr>wire_tag = t, serialize = \<lambda>m. if length m < 100 then Inr m else Inl ''too long'',
     deserialize = \<lambda>n b. if n = length b then Inr b else Inl ''limit''\<rparr>"

lemma sample_wire_ok: "wire_ok (sample_wire t)"
  by (simp add: wire_ok_def sample_wire_def)

lemma find_in_stream_refines_witness:
  "find_in_stream native (sample_wire 0x10) (wrapping_frame 0x10) =
     Some (Done (Inl (InvalidFrame ''truncated payload''))) \<and>
   find_in_stream wasm32 (sample_wire 0x10) (wrapping_frame 0x10) = Some Panic \<and>
   find_in_stream wasm32 (sample_wire 0x11) (wrapping_frame 0x10) = None"
proof (intro conjI)
  let ?w = "wrapping_frame 0x10"
  have len: "length ?w = 5" by (simp add: wrapping_frame_def)
  show "find_in_stream native (sample_wire 0x10) ?w = Some (Done (Inl (InvalidFrame ''truncated payload'')))"
    using find_in_stream_refines [of native ?w "sample_wire 0x10"] wrapping_frame_framed [of "0x10"] len
    by (force simp: native_def)
  have "end_overflows wasm32 0 ?w"
    by (simp add: end_overflows_def claimed_wrapping len wasm32_def FRAME_HEADER_LEN_def)
  with find_in_stream_refines [of wasm32 ?w "sample_wire 0x10"] wrapping_frame_framed [of "0x10"] len
  show "find_in_stream wasm32 (sample_wire 0x10) ?w = Some Panic"
    by (fastforce simp: wasm32_def sample_wire_def wrapping_frame_def Let_def)
  show "find_in_stream wasm32 (sample_wire 0x11) ?w = None"
    by (rule find_in_stream_loops) (simp_all add: wasm32_def sample_wire_def)
qed

lemma p2p_roundtrip_witness:
  "\<exists>out out' out''. add_p2p (sample_wire 0x10) 2 [7] PhaseOutput_new = (Inr (), out) \<and>
     add_p2p (sample_wire 0x11) 2 [8, 9] out = (Inr (), out') \<and>
     add_p2p (sample_wire 0x12) 2 [] out' = (Inr (), out'') \<and>
     get_p2p wasm32 (sample_wire 0x11) 3 \<lparr>pi_broadcasts = [], pi_p2p = [(3, p2p_stream out'' 2)]\<rparr> =
       Some (Done (Inr [8, 9]))"
proof -
  have total: "\<exists>out'. add_p2p (sample_wire t) 2 m out = (Inr (), out') \<and> bt_ok (po_p2p out') \<and>
      p2p_stream out' 2 = p2p_stream out 2 @ frame_bytes (t, m)" if "length m < 100" "bt_ok (po_p2p out)" for t m out
  proof -
    from that have "encode_frame (sample_wire t) m = Inr (frame_bytes (t, m))"
      by (simp add: encode_frame_Inr sample_wire_def u32_max_def)
    with that show ?thesis by (simp add: add_p2p_def p2p_stream_def bt_get_insert bt_ok_insert)
  qed
  have new: "bt_ok (po_p2p PhaseOutput_new)" "p2p_stream PhaseOutput_new 2 = []"
    by (simp_all add: p2p_stream_def PhaseOutput_new_def bt_get_def bt_laws)
  from total [of "[7]"] obtain out where
    r1: "add_p2p (sample_wire 0x10) 2 [7] PhaseOutput_new = (Inr (), out)" "bt_ok (po_p2p out)"
      "p2p_stream out 2 = frame_bytes (0x10, [7])" using new by fastforce
  from total [of "[8, 9]"] obtain out' where
    r2: "add_p2p (sample_wire 0x11) 2 [8, 9] out = (Inr (), out')" "bt_ok (po_p2p out')"
      "p2p_stream out' 2 = p2p_stream out 2 @ frame_bytes (0x11, [8, 9])" using r1(2) by fastforce
  from total [of "[]"] obtain out'' where
    r3: "add_p2p (sample_wire 0x12) 2 [] out' = (Inr (), out'')"
      "p2p_stream out'' 2 = p2p_stream out' 2 @ frame_bytes (0x12, [])" using r2(2) by fastforce
  have len: "length (p2p_stream out'' 2) = 18"
    by (simp add: r1(3) r2(3) r3(2) frame_bytes_def)
  obtain b where h: "holds_frames out 2 [(wire_tag (sample_wire 0x10), b)]"
    using add_p2p_holds [OF new_holds [where to = 2] r1(1)] by auto
  have "get_p2p wasm32 (sample_wire 0x11) 3 \<lparr>pi_broadcasts = [], pi_p2p = [(3, p2p_stream out'' 2)]\<rparr> =
       Some (Done (Inr [8, 9]))"
    by (rule p2p_roundtrip [OF sample_wire_ok h _ r2(1) then_p2p [OF unchanged r3(1)]])
      (simp_all add: sample_wire_def bt_get_def wasm32_def len)
  with r1(1) r2(1) r3(1) show ?thesis by blast
qed

end
