(* ===== verification/Signature.thy ===== *)
theory Signature
  imports Prelude
begin

text \<open>
  \<open>protocols/signature.rs\<close>: a signature as two 32-byte arrays and a recovery id, and its byte forms.
\<close>

record ecdsa_signature =
  sig_r :: bytes
  sig_s :: bytes
  sig_recovery_id :: u8

text \<open>The arrays have their lengths in their types.\<close>

definition signature_ok :: "ecdsa_signature \<Rightarrow> bool" where
  "signature_ok sig \<longleftrightarrow> length (sig_r sig) = 32 \<and> length (sig_s sig) = 32"

text \<open>\<open>out[a..b].copy_from_slice(src)\<close>, for a source of length \<open>b - a\<close>.\<close>

definition copy_into :: "nat \<Rightarrow> bytes \<Rightarrow> bytes \<Rightarrow> bytes" where
  "copy_into a src out = take a out @ src @ drop (a + length src) out"

definition to_bytes :: "ecdsa_signature \<Rightarrow> bytes" where
  "to_bytes sig = copy_into 32 (sig_s sig) (copy_into 0 (sig_r sig) (replicate 64 0))"

definition to_bytes_with_recovery :: "ecdsa_signature \<Rightarrow> bytes" where
  "to_bytes_with_recovery sig =
     (copy_into 32 (sig_s sig) (copy_into 0 (sig_r sig) (replicate 65 0)))[64 := sig_recovery_id sig]"

lemma to_bytes_eq: "signature_ok sig \<Longrightarrow> to_bytes sig = sig_r sig @ sig_s sig"
  by (simp add: to_bytes_def copy_into_def signature_ok_def)

lemma to_bytes_with_recovery_eq:
  "signature_ok sig \<Longrightarrow> to_bytes_with_recovery sig = to_bytes sig @ [sig_recovery_id sig]"
  by (simp add: to_bytes_eq) (simp add: to_bytes_with_recovery_def copy_into_def signature_ok_def list_update_append)

lemma to_bytes_length:
  "signature_ok sig \<Longrightarrow> length (to_bytes sig) = 64"
  "signature_ok sig \<Longrightarrow> length (to_bytes_with_recovery sig) = 65"
  by (simp_all add: to_bytes_eq to_bytes_with_recovery_eq) (simp_all add: signature_ok_def)

lemma to_bytes_inj:
  assumes "signature_ok sig" and "signature_ok sig'" and "to_bytes_with_recovery sig = to_bytes_with_recovery sig'"
  shows "sig = sig'"
  using assms by (simp add: to_bytes_with_recovery_eq to_bytes_eq signature_ok_def)

end
