(* ===== verification/Phases.thy ===== *)
theory Phases
  imports Prelude
begin

text \<open>
  Sessions that run the phases of a protocol one after the other.  A step is one call of a client; its
  event says which phase the call asked for and whether the phase was run.  The locale is the
  contract of such a session, with a stage that never goes back and that every phase run advances;
  its lemmas hold for the sessions of key generation and of signing.
\<close>

text \<open>\<open>Returned\<close>: the phase ran and returned; \<open>Failed\<close>: it ran and failed, which used up what was kept
  for it; \<open>Refused\<close>: the call left what was kept alone.\<close>

datatype phase_event = Returned nat | Failed nat | Refused nat

fun phase_run :: "phase_event \<Rightarrow> nat option" where
  "phase_run (Returned k) = Some k"
| "phase_run (Failed k) = Some k"
| "phase_run (Refused k) = None"

abbreviation phases_run :: "phase_event list \<Rightarrow> nat list" where
  "phases_run es \<equiv> List.map_filter phase_run es"

lemma phases_run_simps [simp]:
  "phases_run [] = []"
  "phases_run (e # es) = (case phase_run e of None \<Rightarrow> phases_run es | Some k \<Rightarrow> k # phases_run es)"
  by (simp_all add: List.map_filter_def split: option.split)

text \<open>The histories of a session.\<close>

inductive history :: "('st \<Rightarrow> phase_event \<Rightarrow> 'st \<Rightarrow> bool) \<Rightarrow> 'st \<Rightarrow> phase_event list \<Rightarrow> 'st \<Rightarrow> bool"
  for step where
  start: "history step s [] s"
| call: "step s e s' \<Longrightarrow> history step s' es s'' \<Longrightarrow> history step s (e # es) s''"

inductive_cases history_NilE [elim!]: "history step s [] s'"
inductive_cases history_ConsE [elim!]: "history step s (e # es) s'"

inductive_simps history_simps [simp]:
  "history step s [] s'"
  "history step s (e # es) s'"

lemma history_append:
  "history step s (es @ es') s'' \<longleftrightarrow> (\<exists>s'. history step s es s' \<and> history step s' es' s'')"
  by (induction es arbitrary: s) auto

lemma history_invariant:
  assumes "history step s es s'" and "I s" and "\<And>s e s'. I s \<Longrightarrow> step s e s' \<Longrightarrow> I s'"
  shows "I s'"
  using assms(1,2) by (induction rule: history.induct) (auto intro: assms(3))

locale phased_session =
  fixes step :: "'st \<Rightarrow> phase_event \<Rightarrow> 'st \<Rightarrow> bool"
    and stage :: "'st \<Rightarrow> nat"
    and inv :: "'st \<Rightarrow> bool"
    and final :: nat
  assumes inv_step: "inv s \<Longrightarrow> step s e s' \<Longrightarrow> inv s'"
    and run_advances: "inv s \<Longrightarrow> step s e s' \<Longrightarrow> phase_run e = Some k \<Longrightarrow> stage s \<le> k \<and> k < stage s'"
    and refused_keeps: "inv s \<Longrightarrow> step s e s' \<Longrightarrow> phase_run e = None \<Longrightarrow> stage s \<le> stage s'"
    and stage_final: "stage s \<le> final"
begin

lemma inv_history: "history step s es s' \<Longrightarrow> inv s \<Longrightarrow> inv s'"
  by (induction rule: history.induct) (auto intro: inv_step)

lemma stage_mono: "inv s \<Longrightarrow> step s e s' \<Longrightarrow> stage s \<le> stage s'"
  using run_advances refused_keeps by (cases "phase_run e") fastforce+

lemma history_stage: "history step s es s' \<Longrightarrow> inv s \<Longrightarrow> stage s \<le> stage s'"
proof (induction rule: history.induct)
  case (call s e s' es s'')
  then show ?case using stage_mono [of s e s'] inv_step [of s e s'] by simp
qed simp

lemma runs_between:
  assumes "history step s es s'" and "inv s"
  shows "sorted_wrt (<) (phases_run es) \<and> (\<forall>k \<in> set (phases_run es). stage s \<le> k \<and> k < stage s')"
  using assms
proof (induction rule: history.induct)
  case (call s e s' es s'')
  note inv' = inv_step [OF call.prems call(1)]
  show ?case
  proof (cases "phase_run e")
    case None
    with call.IH [OF inv'] refused_keeps [OF call.prems call(1)] show ?thesis by fastforce
  next
    case (Some k)
    with run_advances [OF call.prems call(1)] history_stage [OF call(2) inv'] call.IH [OF inv']
    show ?thesis by fastforce
  qed
qed simp

text \<open>The phases run in order, and none of them twice.\<close>

lemma runs_in_order: "history step s es s' \<Longrightarrow> inv s \<Longrightarrow> sorted_wrt (<) (phases_run es)"
  using runs_between by blast

lemma runs_once: "history step s es s' \<Longrightarrow> inv s \<Longrightarrow> distinct (phases_run es)"
  using runs_in_order strict_sorted_iff by blast

text \<open>Only finitely many phases run, however long the client keeps calling.\<close>

lemma runs_bounded:
  assumes "history step s es s'" and "inv s"
  shows "length (phases_run es) \<le> final - stage s"
proof -
  have "set (phases_run es) \<subseteq> {stage s..<stage s'}" using runs_between [OF assms] by auto
  then have "card (set (phases_run es)) \<le> stage s' - stage s"
    by (metis card_atLeastLessThan card_mono finite_atLeastLessThan)
  then show ?thesis using distinct_card [OF runs_once [OF assms]] stage_final [of s'] by linarith
qed

end

end
