(* ===== verification/Addresses.thy ===== *)
theory Addresses
  imports Prelude "HOL-Library.Word"
begin

text \<open>
  The address functions of the crates \<open>dkls23-secp256k1\<close> and \<open>dkls23-secp256r1\<close>.  The hash functions, the
  SEC-1 encodings and the text encodings come from crates outside the repository: they are the record
  \<open>address_lib\<close>, and what the code relies on is \<open>address_lib_ok\<close>.  The lemmas say which bytes an
  address commits to and that a reader's checksum test accepts it.
\<close>

section \<open>Libraries\<close>

record 'p address_lib =
  sec1_compressed :: "'p \<Rightarrow> bytes"          \<comment> \<open>\<open>to_sec1_point(true)\<close>\<close>
  sec1_uncompressed :: "'p \<Rightarrow> bytes"        \<comment> \<open>\<open>to_sec1_point(false)\<close>\<close>
  keccak256 :: "bytes \<Rightarrow> bytes"
  sha2_256 :: "bytes \<Rightarrow> bytes"
  ripemd :: "bytes \<Rightarrow> bytes"
  blake2b256 :: "bytes \<Rightarrow> bytes"
  hex_string :: "bytes \<Rightarrow> string"            \<comment> \<open>\<open>hex::encode\<close>\<close>
  hrp_parse :: "string \<Rightarrow> string option"     \<comment> \<open>\<open>bech32::Hrp::parse\<close>\<close>
  segwit_encode_v0 :: "string \<Rightarrow> bytes \<Rightarrow> string option"
  bech32_encode :: "string \<Rightarrow> bytes \<Rightarrow> string option"
  bs58_encode :: "bytes \<Rightarrow> string"

definition hex_alphabet :: string where "hex_alphabet = ''0123456789abcdef''"

definition address_lib_ok :: "'p address_lib \<Rightarrow> bool" where
  "address_lib_ok L \<longleftrightarrow>
     (\<forall>m. length (keccak256 L m) = 32) \<and> (\<forall>m. length (sha2_256 L m) = 32) \<and>
     (\<forall>m. length (ripemd L m) = 20) \<and> (\<forall>m. length (blake2b256 L m) = 32) \<and>
     (\<forall>b. length (hex_string L b) = 2 * length b \<and> set (hex_string L b) \<subseteq> set hex_alphabet) \<and>
     inj (hex_string L) \<and> inj (bs58_encode L)"

section \<open>Characters\<close>

abbreviation code :: "char \<Rightarrow> nat" where "code c \<equiv> of_char c"

definition is_alphabetic :: "char \<Rightarrow> bool" where
  "is_alphabetic c \<longleftrightarrow> 65 \<le> code c \<and> code c \<le> 90 \<or> 97 \<le> code c \<and> code c \<le> 122"

definition to_ascii_uppercase :: "char \<Rightarrow> char" where
  "to_ascii_uppercase c = (if 97 \<le> code c \<and> code c \<le> 122 then char_of (code c - 32) else c)"

definition to_ascii_lowercase :: "char \<Rightarrow> char" where
  "to_ascii_lowercase c = (if 65 \<le> code c \<and> code c \<le> 90 then char_of (code c + 32) else c)"

definition as_bytes :: "string \<Rightarrow> bytes" where
  "as_bytes s = map (\<lambda>c. word_of_nat (code c)) s"

section \<open>secp256k1\<close>

definition hash160 :: "'p address_lib \<Rightarrow> bytes \<Rightarrow> bytes" where
  "hash160 L data = ripemd L (sha2_256 L data)"

definition double_sha256_checksum :: "'p address_lib \<Rightarrow> bytes \<Rightarrow> bytes" where
  "double_sha256_checksum L data = take 4 (sha2_256 L (sha2_256 L data))"

text \<open>\<open>(hash_bytes[i / 2] >> (4 * (1 - i % 2)) & 0x0f) >= 8\<close>.\<close>

definition checksum_high :: "bytes \<Rightarrow> nat \<Rightarrow> bool" where
  "checksum_high hash_bytes i \<longleftrightarrow> 8 \<le> drop_bit (4 * (1 - i mod 2)) (hash_bytes ! (i div 2)) AND 0x0f"

definition mixed_case :: "bytes \<Rightarrow> string \<Rightarrow> string" where
  "mixed_case hash_bytes addr =
     map (\<lambda>(i, c). if is_alphabetic c \<and> checksum_high hash_bytes i then to_ascii_uppercase c else c)
       (List.enumerate 0 addr)"

definition compute_eth_address :: "'p address_lib \<Rightarrow> 'p \<Rightarrow> string" where
  "compute_eth_address L key =
     (let full_hash = keccak256 L (drop 1 (sec1_uncompressed L key));
          addr = hex_string L (drop 12 full_hash);
          hash_bytes = keccak256 L (as_bytes (map to_ascii_lowercase addr))
      in ''0x'' @ mixed_case hash_bytes addr)"

text \<open>\<open>None\<close> is a panic on a prefix that is not a valid human-readable part.\<close>

definition compute_btc_address_with_hrp :: "'p address_lib \<Rightarrow> 'p \<Rightarrow> string \<Rightarrow> string option" where
  "compute_btc_address_with_hrp L key prefix =
     (let witness_program = hash160 L (sec1_compressed L key)
      in case hrp_parse L prefix of None \<Rightarrow> None | Some hrp \<Rightarrow> segwit_encode_v0 L hrp witness_program)"

definition compute_btc_address :: "'p address_lib \<Rightarrow> 'p \<Rightarrow> string option" where
  "compute_btc_address L key = compute_btc_address_with_hrp L key ''bc''"

definition compute_cosmos_address_with_hrp :: "'p address_lib \<Rightarrow> 'p \<Rightarrow> string \<Rightarrow> string option" where
  "compute_cosmos_address_with_hrp L key prefix =
     (let addr_bytes = hash160 L (sec1_compressed L key)
      in case hrp_parse L prefix of None \<Rightarrow> None | Some hrp \<Rightarrow> bech32_encode L hrp addr_bytes)"

definition compute_cosmos_address :: "'p address_lib \<Rightarrow> 'p \<Rightarrow> string option" where
  "compute_cosmos_address L key = compute_cosmos_address_with_hrp L key ''cosmos''"

definition compute_tron_address :: "'p address_lib \<Rightarrow> 'p \<Rightarrow> string" where
  "compute_tron_address L key =
     (let full_hash = keccak256 L (drop 1 (sec1_uncompressed L key));
          addr_bytes = drop 12 full_hash;
          versioned = [0x41] @ addr_bytes;
          checksum = double_sha256_checksum L versioned
      in bs58_encode L (versioned @ checksum))"

section \<open>secp256r1\<close>

definition NEO3_ADDRESS_VERSION :: u8 where "NEO3_ADDRESS_VERSION = 0x35"
definition SUI_SECP256R1_FLAG :: u8 where "SUI_SECP256R1_FLAG = 0x02"

definition neo3_script :: "bytes \<Rightarrow> bytes" where
  "neo3_script pk_bytes = [0x0C, 0x21] @ pk_bytes @ [0x41] @ [0x56, 0xe7, 0xb3, 0x27]"

definition compute_neo3_address :: "'p address_lib \<Rightarrow> 'p \<Rightarrow> string" where
  "compute_neo3_address L key =
     (let script = neo3_script (sec1_compressed L key);
          script_hash = ripemd L (sha2_256 L script);
          payload = NEO3_ADDRESS_VERSION # script_hash;
          checksum = double_sha256_checksum L payload
      in bs58_encode L (payload @ checksum))"

definition compute_sui_address :: "'p address_lib \<Rightarrow> 'p \<Rightarrow> string" where
  "compute_sui_address L key =
     ''0x'' @ hex_string L (blake2b256 L ([SUI_SECP256R1_FLAG] @ sec1_compressed L key))"

section \<open>The mixed-case checksum\<close>

text \<open>The specification (EIP-55) reads the hash of the lower-case address as a list of nibbles.\<close>

definition nibbles :: "bytes \<Rightarrow> nat list" where
  "nibbles bs = concat (map (\<lambda>b. [unat b div 16, unat b mod 16]) bs)"

definition eip55_valid :: "(bytes \<Rightarrow> bytes) \<Rightarrow> string \<Rightarrow> bool" where
  "eip55_valid keccak addr \<longleftrightarrow> (\<exists>body. addr = ''0x'' @ body \<and> length body = 40 \<and>
     set (map to_ascii_lowercase body) \<subseteq> set hex_alphabet \<and>
     (\<forall>i < 40. is_alphabetic (body ! i) \<longrightarrow>
        (to_ascii_uppercase (body ! i) = body ! i \<longleftrightarrow>
           8 \<le> nibbles (keccak (as_bytes (map to_ascii_lowercase body))) ! i)))"

lemma nibbles_nth: "i < 2 * length bs \<Longrightarrow>
    nibbles bs ! i = (if even i then unat (bs ! (i div 2)) div 16 else unat (bs ! (i div 2)) mod 16)"
proof (induction bs arbitrary: i)
  case (Cons b bs)
  show ?case
  proof (cases "i < 2")
    case True
    then have "i = 0 \<or> i = 1" by auto
    then show ?thesis by (auto simp: nibbles_def)
  next
    case False
    then obtain j where "i = j + 2" by (metis add.commute le_Suc_ex not_less)
    with Cons show ?thesis by (simp add: nibbles_def)
  qed
qed simp

lemma checksum_high_nibble:
  assumes "i < 2 * length hash"
  shows "checksum_high hash i \<longleftrightarrow> 8 \<le> nibbles hash ! i"
proof -
  let ?b = "hash ! (i div 2)"
  have mask: "x AND 0x0f = take_bit 4 x" for x :: byte
    by (simp add: take_bit_eq_mask mask_eq_exp_minus_1)
  have "unat (drop_bit k ?b AND 0x0f) = unat ?b div 2 ^ k mod 16" for k
    unfolding mask unsigned_take_bit_eq unsigned_drop_bit_eq
    by (simp add: take_bit_eq_mod [where ?'a = nat] drop_bit_eq_div [where ?'a = nat] unat_byte_less)
  then have "checksum_high hash i \<longleftrightarrow> 8 \<le> unat ?b div 2 ^ (4 * (1 - i mod 2)) mod 16"
    by (simp add: checksum_high_def word_le_nat_alt)
  moreover have "unat ?b div 16 mod 16 = unat ?b div 16" using unat_byte_less [of ?b] by simp
  ultimately show ?thesis
    using assms by (cases "even i") (simp_all add: nibbles_nth even_iff_mod_2_eq_zero odd_iff_mod_2_eq_one)
qed

lemma hex_alphabet_cases: "c \<in> set hex_alphabet \<Longrightarrow> c \<in> {CHR ''0'', CHR ''1'', CHR ''2'', CHR ''3'', CHR ''4'',
    CHR ''5'', CHR ''6'', CHR ''7'', CHR ''8'', CHR ''9'', CHR ''a'', CHR ''b'', CHR ''c'', CHR ''d'', CHR ''e'', CHR ''f''}"
  by (simp add: hex_alphabet_def)

lemma hex_digit_case:
  assumes "c \<in> set hex_alphabet"
  shows "to_ascii_lowercase c = c" "to_ascii_lowercase (to_ascii_uppercase c) = c"
    "is_alphabetic c \<Longrightarrow> to_ascii_uppercase c \<noteq> c" "to_ascii_uppercase (to_ascii_uppercase c) = to_ascii_uppercase c"
    "is_alphabetic (to_ascii_uppercase c) = is_alphabetic c"
  using hex_alphabet_cases [OF assms]
  by (auto simp: to_ascii_lowercase_def to_ascii_uppercase_def is_alphabetic_def char_of_eq_iff)

lemma length_mixed_case [simp]: "length (mixed_case hash addr) = length addr"
  by (simp add: mixed_case_def)

lemma nth_mixed_case:
  "i < length addr \<Longrightarrow> mixed_case hash addr ! i =
     (if is_alphabetic (addr ! i) \<and> checksum_high hash i then to_ascii_uppercase (addr ! i) else addr ! i)"
  by (simp add: mixed_case_def nth_enumerate_eq)

lemma mixed_case_lower:
  assumes "set addr \<subseteq> set hex_alphabet"
  shows "map to_ascii_lowercase (mixed_case hash addr) = addr"
proof (rule nth_equalityI)
  fix i assume "i < length (map to_ascii_lowercase (mixed_case hash addr))"
  then have i: "i < length addr" by simp
  then have "addr ! i \<in> set hex_alphabet" using assms nth_mem by blast
  then show "map to_ascii_lowercase (mixed_case hash addr) ! i = addr ! i"
    using i by (simp add: nth_mixed_case hex_digit_case)
qed simp

lemma mixed_case_checked:
  assumes "set addr \<subseteq> set hex_alphabet" and "i < length addr" and "length addr \<le> 2 * length hash"
    and "is_alphabetic (mixed_case hash addr ! i)"
  shows "to_ascii_uppercase (mixed_case hash addr ! i) = mixed_case hash addr ! i \<longleftrightarrow> 8 \<le> nibbles hash ! i"
proof -
  have d: "addr ! i \<in> set hex_alphabet" using assms(1,2) nth_mem by blast
  have "is_alphabetic (addr ! i)"
    using assms(4) hex_digit_case(5) [OF d] by (auto simp: nth_mixed_case assms(2) split: if_splits)
  then show ?thesis
    using hex_digit_case(3,4) [OF d] checksum_high_nibble [of i hash] assms(2,3) by (simp add: nth_mixed_case)
qed

text \<open>C40: Ethereum addresses.  An address passes the mixed-case checksum test, has 42 characters, and in
  lower case is the hexadecimal form of the last 20 bytes of the hash of the public key; so two keys
  have the same address exactly when these bytes agree.\<close>

theorem eth_address_checksummed:
  assumes "address_lib_ok L"
  shows "eip55_valid (keccak256 L) (compute_eth_address L key) \<and> length (compute_eth_address L key) = 42 \<and>
    map to_ascii_lowercase (drop 2 (compute_eth_address L key)) =
      hex_string L (drop 12 (keccak256 L (drop 1 (sec1_uncompressed L key)))) \<and>
    (compute_eth_address L key = compute_eth_address L key' \<longleftrightarrow>
      drop 12 (keccak256 L (drop 1 (sec1_uncompressed L key))) = drop 12 (keccak256 L (drop 1 (sec1_uncompressed L key'))))"
proof -
  let ?bytes = "\<lambda>k. drop 12 (keccak256 L (drop 1 (sec1_uncompressed L k)))"
  let ?hex = "\<lambda>k. hex_string L (?bytes k)"
  have len: "length (?hex k) = 40" and alphabet: "set (?hex k) \<subseteq> set hex_alphabet" for k
    using assms by (simp_all add: address_lib_ok_def)
  have lower: "map to_ascii_lowercase (?hex k) = ?hex k" for k
  proof -
    have "to_ascii_lowercase c = c" if "c \<in> set (?hex k)" for c using alphabet that by (blast intro: hex_digit_case)
    then show ?thesis by (rule map_idI)
  qed
  define body where "body k = mixed_case (keccak256 L (as_bytes (?hex k))) (?hex k)" for k
  have addr: "compute_eth_address L k = ''0x'' @ body k" for k
    unfolding compute_eth_address_def Let_def lower body_def by (rule refl)
  have body: "length (body k) = 40" "map to_ascii_lowercase (body k) = ?hex k" for k
    using len [of k] mixed_case_lower [OF alphabet [of k]] by (simp_all add: body_def)
  have "to_ascii_uppercase (body key ! i) = body key ! i \<longleftrightarrow>
      8 \<le> nibbles (keccak256 L (as_bytes (map to_ascii_lowercase (body key)))) ! i"
    if "i < 40" "is_alphabetic (body key ! i)" for i
    unfolding body(2) unfolding body_def
    by (rule mixed_case_checked [OF alphabet])
      (use that assms len [of key] in \<open>simp_all add: body_def address_lib_ok_def\<close>)
  then have "eip55_valid (keccak256 L) (compute_eth_address L key)"
    unfolding eip55_valid_def using addr [of key] body [of key] alphabet [of key]
    by (intro exI [of _ "body key"]) simp
  moreover have "compute_eth_address L key = compute_eth_address L key' \<longleftrightarrow> ?bytes key = ?bytes key'"
  proof
    assume "compute_eth_address L key = compute_eth_address L key'"
    then have "?hex key = ?hex key'" using body(2) [of key] body(2) [of key'] by (simp add: addr)
    then show "?bytes key = ?bytes key'" using assms by (auto simp: address_lib_ok_def dest: injD)
  qed (simp add: compute_eth_address_def Let_def)
  ultimately show ?thesis using body [of key] by (simp add: addr)
qed

section \<open>Payloads with a checksum\<close>

definition checked_payload :: "'p address_lib \<Rightarrow> u8 \<Rightarrow> bytes \<Rightarrow> bytes" where
  "checked_payload L version body = (version # body) @ double_sha256_checksum L (version # body)"

lemma payload_addresses:
  "compute_tron_address L key =
     bs58_encode L (checked_payload L 0x41 (drop 12 (keccak256 L (drop 1 (sec1_uncompressed L key)))))"
  "compute_neo3_address L key =
     bs58_encode L (checked_payload L NEO3_ADDRESS_VERSION (hash160 L (neo3_script (sec1_compressed L key))))"
  by (simp_all add: compute_tron_address_def compute_neo3_address_def checked_payload_def hash160_def Let_def)

text \<open>A payload has 25 bytes, and a reader finds version, body and checksum again.\<close>

lemma checked_payload_reads:
  assumes "address_lib_ok L" and "length body = 20"
  shows "length (checked_payload L v body) = 25" "hd (checked_payload L v body) = v"
    "take 20 (drop 1 (checked_payload L v body)) = body"
    "drop 21 (checked_payload L v body) = double_sha256_checksum L (take 21 (checked_payload L v body))"
  using assms by (simp_all add: checked_payload_def double_sha256_checksum_def address_lib_ok_def)

text \<open>Tron and Ethereum addresses of a key stand for the same account bytes.\<close>

lemma tron_eth_same_account:
  assumes "address_lib_ok L"
  shows "compute_tron_address L key = compute_tron_address L key' \<longleftrightarrow>
    drop 12 (keccak256 L (drop 1 (sec1_uncompressed L key))) = drop 12 (keccak256 L (drop 1 (sec1_uncompressed L key')))"
proof
  let ?b = "\<lambda>k. drop 12 (keccak256 L (drop 1 (sec1_uncompressed L k)))"
  assume "compute_tron_address L key = compute_tron_address L key'"
  then have "checked_payload L 0x41 (?b key) = checked_payload L 0x41 (?b key')"
    using assms by (auto simp: payload_addresses address_lib_ok_def dest: injD)
  moreover have "length (?b k) = 20" for k using assms by (simp add: address_lib_ok_def)
  ultimately show "?b key = ?b key'"
    using checked_payload_reads(3) [OF assms] by metis
qed (simp add: payload_addresses)

lemma neo3_address_script:
  assumes "address_lib_ok L" and "compute_neo3_address L key = compute_neo3_address L key'"
  shows "hash160 L (neo3_script (sec1_compressed L key)) = hash160 L (neo3_script (sec1_compressed L key'))"
proof -
  let ?b = "\<lambda>k. hash160 L (neo3_script (sec1_compressed L k))"
  have "checked_payload L NEO3_ADDRESS_VERSION (?b key) = checked_payload L NEO3_ADDRESS_VERSION (?b key')"
    using assms by (auto simp: payload_addresses address_lib_ok_def dest: injD)
  moreover have "length (?b k) = 20" for k using assms(1) by (simp add: address_lib_ok_def hash160_def)
  ultimately show ?thesis using checked_payload_reads(3) [OF assms(1)] by metis
qed

lemma sui_address_shape:
  "address_lib_ok L \<Longrightarrow> length (compute_sui_address L key) = 66"
  by (simp add: compute_sui_address_def address_lib_ok_def)

text \<open>A prefix that does not parse panics, whatever the key.\<close>

lemma invalid_prefix_panics:
  assumes "hrp_parse L prefix = None"
  shows "compute_btc_address_with_hrp L key prefix = None" "compute_cosmos_address_with_hrp L key prefix = None"
  using assms by (simp_all add: compute_btc_address_with_hrp_def compute_cosmos_address_with_hrp_def)

text \<open>Libraries that meet the hypotheses: constant hashes and an injective text encoding.\<close>

definition hex_byte :: "byte \<Rightarrow> string" where
  "hex_byte b = [hex_alphabet ! (unat b div 16), hex_alphabet ! (unat b mod 16)]"

lemma length_hex_byte: "length (hex_byte b) = 2"
  by (simp add: hex_byte_def)

lemma hex_byte_inj: "hex_byte b = hex_byte c \<longleftrightarrow> b = c"
proof
  have len: "length hex_alphabet = 16" and dist: "distinct hex_alphabet" by (simp_all add: hex_alphabet_def)
  have "unat b div 16 < 16" "unat c div 16 < 16" using unat_byte_less [of b] unat_byte_less [of c] by simp_all
  moreover assume "hex_byte b = hex_byte c"
  ultimately have "unat b div 16 = unat c div 16" "unat b mod 16 = unat c mod 16"
    using nth_eq_iff_index_eq [OF dist] len by (simp_all add: hex_byte_def)
  then have "unat b = unat c" by (metis div_mult_mod_eq)
  then show "b = c" by (rule unsigned_word_eqI)
qed simp

lemma hex_bytes_inj: "inj (\<lambda>bs. concat (map hex_byte bs))"
proof (rule injI)
  fix xs ys assume "concat (map hex_byte xs) = concat (map hex_byte ys)"
  then show "xs = ys"
  proof (induction xs arbitrary: ys)
    case Nil
    then show ?case by (cases ys) (auto simp: hex_byte_def)
  next
    case (Cons x xs)
    then obtain y zs where ys: "ys = y # zs" by (cases ys) (auto simp: hex_byte_def)
    with Cons.prems have "hex_byte x = hex_byte y" "concat (map hex_byte xs) = concat (map hex_byte zs)"
      using length_hex_byte by (simp_all add: append_eq_append_conv)
    with Cons.IH ys show ?case by (simp add: hex_byte_inj)
  qed
qed

definition sample_lib :: "byte address_lib" where
  "sample_lib = \<lparr>sec1_compressed = \<lambda>p. [2, p], sec1_uncompressed = \<lambda>p. [4, p, p], keccak256 = \<lambda>m. replicate 32 0x9A,
     sha2_256 = \<lambda>m. replicate 32 7, ripemd = \<lambda>m. replicate 20 8, blake2b256 = \<lambda>m. replicate 32 9,
     hex_string = \<lambda>bs. concat (map hex_byte bs), hrp_parse = Some, segwit_encode_v0 = \<lambda>h b. Some h,
     bech32_encode = \<lambda>h b. Some h, bs58_encode = \<lambda>bs. concat (map hex_byte bs)\<rparr>"

lemma sample_lib_ok: "address_lib_ok sample_lib"
proof -
  have "hex_alphabet ! k \<in> set hex_alphabet" if "k < 16" for k
    using that by (intro nth_mem) (simp add: hex_alphabet_def)
  moreover have "unat b div 16 < 16" for b :: byte using unat_byte_less [of b] by simp
  ultimately have "set (concat (map hex_byte bs)) \<subseteq> set hex_alphabet" for bs
    by (induction bs) (simp_all add: hex_byte_def)
  moreover have "length (concat (map hex_byte bs)) = 2 * length bs" for bs
    by (induction bs) (simp_all add: hex_byte_def)
  ultimately show ?thesis by (simp add: address_lib_ok_def sample_lib_def hex_bytes_inj)
qed

lemma eth_address_checksummed_witness:
  "eip55_valid (keccak256 sample_lib) (compute_eth_address sample_lib 5) \<and>
     length (compute_eth_address sample_lib 5) = 42 \<and>
     map to_ascii_lowercase (drop 2 (compute_eth_address sample_lib 5)) =
       hex_string sample_lib (replicate 20 0x9A)"
  using eth_address_checksummed [OF sample_lib_ok, of 5] by (simp add: sample_lib_def)

end
