(* ===== verification/Dkg_Session.thy ===== *)
theory Dkg_Session
  imports Refresh Phases
begin

text \<open>
  \<open>protocols/dkg_session.rs\<close>: the session object that runs the phases of key generation in order.  Its
  optional fields are the state machine: a field is present exactly when a later phase needs it.
  Phase 1 takes \<open>&self\<close> and keeps nothing, so it is not a step of the session.
\<close>

section \<open>The session and its operations\<close>

record ('s, 'p) dkg_session =
  ds_data :: session_data
  ds_poly_point :: "'s option"
  ds_proof_commitment :: "('s, 'p) proof_commitment option"
  ds_zero_kept_2to3 :: "(party_index, keep_zero2) btree option"
  ds_bip_kept_2to3 :: "keep_derivation option"
  ds_zero_kept_3to4 :: "(party_index, keep_zero3) btree option"
  ds_mul_kept_3to4 :: "(party_index, ('s, 'p) keep_mul) btree option"

definition DkgSession_new :: "parameters \<Rightarrow> party_index \<Rightarrow> bytes \<Rightarrow> ('s, 'p) dkg_session" where
  "DkgSession_new params index sid =
     \<lparr>ds_data = \<lparr>sd_parameters = params, sd_party_index = index, sd_session_id = sid\<rparr>,
      ds_poly_point = None, ds_proof_commitment = None, ds_zero_kept_2to3 = None, ds_bip_kept_2to3 = None,
      ds_zero_kept_3to4 = None, ds_mul_kept_3to4 = None\<rparr>"

definition called_out_of_order :: "session_data \<Rightarrow> string \<Rightarrow> failure" where
  "called_out_of_order data phase = give_up (sd_party_index data) (PhaseCalledOutOfOrder phase)"

definition DkgSession_phase1 :: "('s::field, 'p) suite \<Rightarrow> ('s, 'p) dkg_session \<Rightarrow> 's dkg_coins \<Rightarrow> 's list" where
  "DkgSession_phase1 S self coins = dkg_phase1 S (ds_data self) coins"

text \<open>A method on \<open>&mut self\<close> returns its result and the session after the call.\<close>

definition DkgSession_phase2 ::
  "('s::field, 'p) suite \<Rightarrow> 's dkg_coins \<Rightarrow> 's list \<Rightarrow> ('s, 'p) dkg_session \<Rightarrow>
     (failure + ('s, 'p) proof_commitment \<times> transmit_zero2 list \<times> broadcast_derivation2) \<times> ('s, 'p) dkg_session" where
  "DkgSession_phase2 S coins poly_fragments self =
     (if ds_poly_point self \<noteq> None then
        (Inl (called_out_of_order (ds_data self) ''phase2 already called on this session''), self)
      else case dkg_phase2 S (ds_data self) coins poly_fragments of
          Inl e \<Rightarrow> (Inl e, self)
        | Inr (share, proof_commitment, zero_keep, zero_transmit, bip_keep, bip_broadcast) \<Rightarrow>
            (Inr (proof_commitment, zero_transmit, bip_broadcast),
             self\<lparr>ds_poly_point := Some share, ds_proof_commitment := Some proof_commitment,
               ds_zero_kept_2to3 := Some zero_keep, ds_bip_kept_2to3 := Some bip_keep\<rparr>))"

definition DkgSession_phase3 ::
  "('s::field, 'p::ab_group_add) suite \<Rightarrow> 's dkg_coins \<Rightarrow> ('s, 'p) dkg_session \<Rightarrow>
     (failure + transmit_zero3 list \<times> ('s, 'p) transmit_mul list \<times> broadcast_derivation3) \<times> ('s, 'p) dkg_session" where
  "DkgSession_phase3 S coins self =
     (case (ds_zero_kept_2to3 self, ds_bip_kept_2to3 self) of
        (Some zero_kept, Some bip_kept) \<Rightarrow>
          (case dkg_phase3 S (ds_data self) coins zero_kept bip_kept of
             Inl e \<Rightarrow> (Inl e, self)
           | Inr (zero_keep_3to4, zero_transmit, mul_keep, mul_transmit, bip_broadcast) \<Rightarrow>
               (Inr (zero_transmit, mul_transmit, bip_broadcast),
                self\<lparr>ds_zero_kept_2to3 := None, ds_bip_kept_2to3 := None,
                  ds_zero_kept_3to4 := Some zero_keep_3to4, ds_mul_kept_3to4 := Some mul_keep\<rparr>))
      | _ \<Rightarrow> (Inl (called_out_of_order (ds_data self) ''phase3 called before phase2''), self))"

text \<open>Phase 4 takes \<open>self\<close> by value: no session is left.\<close>

definition DkgSession_phase4 ::
  "('s::field, 'p::ab_group_add) suite \<Rightarrow> ('s, 'p) dkg_session \<Rightarrow> ('s, 'p) proof_commitment list \<Rightarrow>
     transmit_zero2 list \<Rightarrow> transmit_zero3 list \<Rightarrow> ('s, 'p) transmit_mul list \<Rightarrow>
     (party_index, broadcast_derivation2) btree \<Rightarrow> (party_index, broadcast_derivation3) btree \<Rightarrow>
     ('p \<Rightarrow> string) \<Rightarrow> failure + ('s, 'p) party \<times> 'p public_key_package" where
  "DkgSession_phase4 S self proofs_commitments zero_received_phase2 zero_received_phase3 mul_received
     bip_received_phase2 bip_received_phase3 address_fn =
     rbind (ok_or (called_out_of_order (ds_data self) ''phase4 called before phase2'') (ds_poly_point self)) (\<lambda>share.
     rbind (ok_or (called_out_of_order (ds_data self) ''phase4 called before phase3'') (ds_zero_kept_3to4 self))
       (\<lambda>zero_kept.
     rbind (ok_or (called_out_of_order (ds_data self) ''phase4 called before phase3'') (ds_mul_kept_3to4 self))
       (\<lambda>mul_kept.
       dkg_phase4 S (ds_data self) share proofs_commitments zero_kept zero_received_phase2 zero_received_phase3
         mul_kept mul_received bip_received_phase2 bip_received_phase3 address_fn)))"

text \<open>The phase that \<open>Debug\<close> prints, and \<open>Zeroize\<close>, which runs on drop.\<close>

definition debug_phase :: "('s, 'p) dkg_session \<Rightarrow> string" where
  "debug_phase self =
     (if ds_mul_kept_3to4 self \<noteq> None then ''phase3 complete''
      else if ds_poly_point self \<noteq> None then ''phase2 complete'' else ''initialized'')"

definition DkgSession_zeroize :: "('s, 'p) dkg_session \<Rightarrow> ('s, 'p) dkg_session" where
  "DkgSession_zeroize self = self\<lparr>ds_data := (ds_data self)\<lparr>sd_session_id := []\<rparr>,
     ds_poly_point := None, ds_proof_commitment := None, ds_zero_kept_2to3 := None, ds_bip_kept_2to3 := None,
     ds_zero_kept_3to4 := None, ds_mul_kept_3to4 := None\<rparr>"

section \<open>The calls of a client\<close>

text \<open>The arguments of a call are arbitrary; a session consumed by phase 4 is \<open>None\<close>.\<close>

inductive dkg_call ::
  "('s::field, 'p::ab_group_add) suite \<Rightarrow> ('s, 'p) dkg_session option \<Rightarrow> phase_event \<Rightarrow>
     ('s, 'p) dkg_session option \<Rightarrow> bool" for S where
  phase2_ran: "DkgSession_phase2 S coins poly_fragments self = (Inr out2, self') \<Longrightarrow>
    dkg_call S (Some self) (Returned 2) (Some self')"
| phase2_stopped: "DkgSession_phase2 S coins poly_fragments self = (Inl e, self') \<Longrightarrow>
    dkg_call S (Some self) (Refused 2) (Some self')"
| phase3_ran: "DkgSession_phase3 S coins self = (Inr out3, self') \<Longrightarrow>
    dkg_call S (Some self) (Returned 3) (Some self')"
| phase3_stopped: "DkgSession_phase3 S coins self = (Inl e, self') \<Longrightarrow>
    dkg_call S (Some self) (Refused 3) (Some self')"
| phase4_ran: "DkgSession_phase4 S self pcs r2 r3 mr b2 b3 address_fn = Inr out4 \<Longrightarrow>
    dkg_call S (Some self) (Returned 4) None"
| phase4_failed: "DkgSession_phase4 S self pcs r2 r3 mr b2 b3 address_fn = Inl e \<Longrightarrow>
    ds_mul_kept_3to4 self \<noteq> None \<Longrightarrow> dkg_call S (Some self) (Failed 4) None"
| phase4_early: "DkgSession_phase4 S self pcs r2 r3 mr b2 b3 address_fn = Inl e \<Longrightarrow>
    ds_mul_kept_3to4 self = None \<Longrightarrow> dkg_call S (Some self) (Refused 4) None"

inductive_cases dkg_call_SomeE: "dkg_call S (Some self) ev st"
inductive_cases dkg_call_NoneE [elim!]: "dkg_call S None ev st"

section \<open>The invariant\<close>

text \<open>The three states, each with where its data comes from.\<close>

definition nothing_kept :: "('s, 'p) dkg_session \<Rightarrow> bool" where
  "nothing_kept s \<longleftrightarrow> ds_poly_point s = None \<and> ds_proof_commitment s = None \<and> ds_zero_kept_2to3 s = None \<and>
     ds_bip_kept_2to3 s = None \<and> ds_zero_kept_3to4 s = None \<and> ds_mul_kept_3to4 s = None"

definition kept_after2 ::
  "('s::field, 'p) suite \<Rightarrow> ('s, 'p) dkg_session \<Rightarrow> 's \<Rightarrow> (party_index, keep_zero2) btree \<Rightarrow> keep_derivation \<Rightarrow> bool" where
  "kept_after2 S s share zk bk \<longleftrightarrow> ds_poly_point s = Some share \<and> (\<exists>coins frags pc zt bb.
     dkg_phase2 S (ds_data s) coins frags = Inr (share, pc, zk, zt, bk, bb) \<and> ds_proof_commitment s = Some pc)"

definition dkg_session_ok :: "('s::field, 'p::ab_group_add) suite \<Rightarrow> ('s, 'p) dkg_session \<Rightarrow> bool" where
  "dkg_session_ok S s \<longleftrightarrow> nothing_kept s \<or> (\<exists>share zk bk. kept_after2 S s share zk bk \<and>
     (ds_zero_kept_2to3 s = Some zk \<and> ds_bip_kept_2to3 s = Some bk \<and>
        ds_zero_kept_3to4 s = None \<and> ds_mul_kept_3to4 s = None \<or>
      (\<exists>coins zk3 zt3 mk mt bb3. dkg_phase3 S (ds_data s) coins zk bk = Inr (zk3, zt3, mk, mt, bb3) \<and>
        ds_zero_kept_2to3 s = None \<and> ds_bip_kept_2to3 s = None \<and>
        ds_zero_kept_3to4 s = Some zk3 \<and> ds_mul_kept_3to4 s = Some mk)))"

lemma new_ok: "dkg_session_ok S (DkgSession_new params i sid)"
  by (simp add: dkg_session_ok_def nothing_kept_def DkgSession_new_def)

lemma dkg_session_cases:
  assumes "dkg_session_ok S s"
  obtains (initialized) "nothing_kept s"
  | (after2) share zk bk where "kept_after2 S s share zk bk" "ds_zero_kept_2to3 s = Some zk"
      "ds_bip_kept_2to3 s = Some bk" "ds_zero_kept_3to4 s = None" "ds_mul_kept_3to4 s = None"
  | (after3) share zk bk coins zk3 zt3 mk mt bb3 where "kept_after2 S s share zk bk"
      "dkg_phase3 S (ds_data s) coins zk bk = Inr (zk3, zt3, mk, mt, bb3)" "ds_zero_kept_2to3 s = None"
      "ds_bip_kept_2to3 s = None" "ds_zero_kept_3to4 s = Some zk3" "ds_mul_kept_3to4 s = Some mk"
  using assms unfolding dkg_session_ok_def by blast

lemma phase2_Inr:
  assumes "DkgSession_phase2 S coins frags s = (Inr out, s')"
  shows "ds_poly_point s = None \<and> (\<exists>share pc zk zt bk bb.
    dkg_phase2 S (ds_data s) coins frags = Inr (share, pc, zk, zt, bk, bb) \<and> out = (pc, zt, bb) \<and>
    s' = s\<lparr>ds_poly_point := Some share, ds_proof_commitment := Some pc,
      ds_zero_kept_2to3 := Some zk, ds_bip_kept_2to3 := Some bk\<rparr>)"
  using assms by (auto simp: DkgSession_phase2_def split: if_splits sum.splits)

lemma phase2_Inl: "DkgSession_phase2 S coins frags s = (Inl e, s') \<Longrightarrow> s' = s"
  by (auto simp: DkgSession_phase2_def split: if_splits sum.splits)

lemma phase3_Inr:
  assumes "DkgSession_phase3 S coins s = (Inr out, s')"
  shows "\<exists>zk bk zk3 zt3 mk mt bb3. ds_zero_kept_2to3 s = Some zk \<and> ds_bip_kept_2to3 s = Some bk \<and>
    dkg_phase3 S (ds_data s) coins zk bk = Inr (zk3, zt3, mk, mt, bb3) \<and> out = (zt3, mt, bb3) \<and>
    s' = s\<lparr>ds_zero_kept_2to3 := None, ds_bip_kept_2to3 := None,
      ds_zero_kept_3to4 := Some zk3, ds_mul_kept_3to4 := Some mk\<rparr>"
  using assms by (auto simp: DkgSession_phase3_def split: option.splits sum.splits)

lemma phase3_Inl: "DkgSession_phase3 S coins s = (Inl e, s') \<Longrightarrow> s' = s"
  by (auto simp: DkgSession_phase3_def split: option.splits sum.splits)

lemma phase4_Inr:
  assumes "DkgSession_phase4 S s pcs r2 r3 mr b2 b3 address_fn = Inr out"
  shows "\<exists>share zk3 mk. ds_poly_point s = Some share \<and> ds_zero_kept_3to4 s = Some zk3 \<and>
    ds_mul_kept_3to4 s = Some mk \<and>
    dkg_phase4 S (ds_data s) share pcs zk3 r2 r3 mk mr b2 b3 address_fn = Inr out"
  using assms by (auto simp: DkgSession_phase4_def rbind_Inr_iff ok_or_Inr_iff)

lemma dkg_call_ok:
  assumes "dkg_call S (Some s) ev (Some s')" and "dkg_session_ok S s"
  shows "dkg_session_ok S s' \<and> ds_data s' = ds_data s"
  using assms(1)
proof (rule dkg_call_SomeE)
  fix coins frags self' out
  assume "DkgSession_phase2 S coins frags s = (Inr out, self')" "Some s' = Some self'"
  then obtain share pc zk zt bk bb where r: "ds_poly_point s = None"
    "dkg_phase2 S (ds_data s) coins frags = Inr (share, pc, zk, zt, bk, bb)"
    "s' = s\<lparr>ds_poly_point := Some share, ds_proof_commitment := Some pc,
      ds_zero_kept_2to3 := Some zk, ds_bip_kept_2to3 := Some bk\<rparr>"
    using phase2_Inr by blast
  from assms(2) r(1) have "nothing_kept s" by (cases rule: dkg_session_cases) (auto simp: kept_after2_def)
  then have "kept_after2 S s' share zk bk \<and> ds_zero_kept_2to3 s' = Some zk \<and> ds_bip_kept_2to3 s' = Some bk \<and>
      ds_zero_kept_3to4 s' = None \<and> ds_mul_kept_3to4 s' = None"
    using r(2,3) by (simp add: kept_after2_def nothing_kept_def) blast
  then show ?thesis unfolding dkg_session_ok_def using r(3) by auto
next
  fix coins self' out
  assume "DkgSession_phase3 S coins s = (Inr out, self')" "Some s' = Some self'"
  then obtain zk bk zk3 zt3 mk mt bb3 where r: "ds_zero_kept_2to3 s = Some zk" "ds_bip_kept_2to3 s = Some bk"
    "dkg_phase3 S (ds_data s) coins zk bk = Inr (zk3, zt3, mk, mt, bb3)"
    "s' = s\<lparr>ds_zero_kept_2to3 := None, ds_bip_kept_2to3 := None,
      ds_zero_kept_3to4 := Some zk3, ds_mul_kept_3to4 := Some mk\<rparr>"
    using phase3_Inr by blast
  from assms(2) r(1,2) obtain share where "kept_after2 S s share zk bk"
    by (cases rule: dkg_session_cases) (auto simp: nothing_kept_def)
  then have "kept_after2 S s' share zk bk" using r(4) by (simp add: kept_after2_def)
  then show ?thesis unfolding dkg_session_ok_def using r(3,4) by auto
next
  fix coins frags self' e
  assume "DkgSession_phase2 S coins frags s = (Inl e, self')" "Some s' = Some self'"
  then show ?thesis using phase2_Inl assms(2) by blast
next
  fix coins self' e
  assume "DkgSession_phase3 S coins s = (Inl e, self')" "Some s' = Some self'"
  then show ?thesis using phase3_Inl assms(2) by blast
qed auto

definition dkg_live_ok :: "('s::field, 'p::ab_group_add) suite \<Rightarrow> ('s, 'p) dkg_session option \<Rightarrow> bool" where
  "dkg_live_ok S st \<longleftrightarrow> (\<forall>s. st = Some s \<longrightarrow> dkg_session_ok S s)"

fun dkg_stage :: "('s, 'p) dkg_session option \<Rightarrow> nat" where
  "dkg_stage None = 5"
| "dkg_stage (Some s) = (if ds_poly_point s = None then 2 else if ds_zero_kept_2to3 s \<noteq> None then 3 else 4)"

lemma dkg_call_live:
  assumes "dkg_live_ok S st" and "dkg_call S st ev st'"
  shows "dkg_live_ok S st'"
  using assms dkg_call_ok by (cases st; cases st') (auto simp: dkg_live_ok_def)

lemma dkg_call_runs:
  assumes "dkg_live_ok S st" and "dkg_call S st ev st'" and "phase_run ev = Some k"
  shows "dkg_stage st \<le> k \<and> k < dkg_stage st'"
proof -
  from assms(2) obtain s where st: "st = Some s" by (cases st) auto
  with assms(1) have ok: "dkg_session_ok S s" by (simp add: dkg_live_ok_def)
  show ?thesis
    using assms(2) [unfolded st]
  proof (rule dkg_call_SomeE)
    fix coins frags self' out
    assume "ev = Returned 2" "st' = Some self'" "DkgSession_phase2 S coins frags s = (Inr out, self')"
    with phase2_Inr [OF this(3)] assms(3) st show ?thesis by auto
  next
    fix coins self' out
    assume r: "ev = Returned 3" "st' = Some self'" "DkgSession_phase3 S coins s = (Inr out, self')"
    from ok phase3_Inr [OF r(3)] have "ds_poly_point s \<noteq> None"
      by (cases rule: dkg_session_cases) (auto simp: nothing_kept_def kept_after2_def)
    with phase3_Inr [OF r(3)] r(1,2) assms(3) st show ?thesis by auto
  qed (use assms(3) st in auto)
qed

lemma dkg_call_refused:
  assumes "dkg_call S st ev st'" and "phase_run ev = None"
  shows "dkg_stage st \<le> dkg_stage st'"
proof -
  from assms(1) obtain s where st: "st = Some s" by (cases st) auto
  show ?thesis
    using assms(1) [unfolded st]
    by (rule dkg_call_SomeE) (use assms(2) st phase2_Inl phase3_Inl in fastforce)+
qed

lemma dkg_stage_le: "dkg_stage st \<le> 5"
  by (cases st) auto

interpretation dkg_calls: phased_session "dkg_call S" dkg_stage "dkg_live_ok S" 5
proof unfold_locales
  show "dkg_live_ok S st'" if "dkg_live_ok S st" "dkg_call S st e st'" for st e st'
    using that by (rule dkg_call_live)
  show "dkg_stage st \<le> k \<and> k < dkg_stage st'"
    if "dkg_live_ok S st" "dkg_call S st e st'" "phase_run e = Some k" for st e st' k
    using that by (rule dkg_call_runs)
  show "dkg_stage st \<le> dkg_stage st'"
    if "dkg_live_ok S st" "dkg_call S st e st'" "phase_run e = None" for st e st'
    using that(2,3) by (rule dkg_call_refused)
  show "dkg_stage st \<le> 5" for st :: "('a, 'b) dkg_session option"
    by (rule dkg_stage_le)
qed

section \<open>Properties\<close>

lemma dkg_call_stage:
  assumes "dkg_session_ok S s" and "dkg_call S (Some s) ev (Some s')"
  shows "(case phase_run ev of None \<Rightarrow> [] | Some k \<Rightarrow> [k]) = [dkg_stage (Some s)..<dkg_stage (Some s')]"
  using assms(2)
proof (rule dkg_call_SomeE)
  fix coins frags self' out
  assume "ev = Returned 2" "Some s' = Some self'" "DkgSession_phase2 S coins frags s = (Inr out, self')"
  with phase2_Inr [OF this(3)] show ?thesis by (auto simp: upt_rec)
next
  fix coins self' out
  assume r: "ev = Returned 3" "Some s' = Some self'" "DkgSession_phase3 S coins s = (Inr out, self')"
  from assms(1) phase3_Inr [OF r(3)] have "ds_poly_point s \<noteq> None"
    by (cases rule: dkg_session_cases) (auto simp: nothing_kept_def kept_after2_def)
  with phase3_Inr [OF r(3)] r(1,2) show ?thesis by (auto simp: upt_rec)
next
  fix coins frags self' e
  assume "ev = Refused 2" "Some s' = Some self'" "DkgSession_phase2 S coins frags s = (Inl e, self')"
  with phase2_Inl [OF this(3)] show ?thesis by simp
next
  fix coins self' e
  assume "ev = Refused 3" "Some s' = Some self'" "DkgSession_phase3 S coins s = (Inl e, self')"
  with phase3_Inl [OF this(3)] show ?thesis by simp
qed simp_all

lemma dkg_history_consumed: "history (dkg_call S) None es st \<Longrightarrow> st = None"
  by (cases es) auto

lemma dkg_history_runs:
  assumes "history (dkg_call S) (Some s) es (Some s')" and "dkg_session_ok S s"
  shows "dkg_session_ok S s' \<and> ds_data s' = ds_data s \<and>
    phases_run es = [dkg_stage (Some s)..<dkg_stage (Some s')]"
  using assms
proof (induction es arbitrary: s)
  case (Cons e es)
  then obtain st where st: "dkg_call S (Some s) e st" "history (dkg_call S) st es (Some s')" by auto
  then obtain s1 where s1: "st = Some s1" using dkg_history_consumed by (cases st) auto
  note ok = dkg_call_ok [OF st(1) [unfolded s1] Cons.prems(2)]
  note IH = Cons.IH [OF st(2) [unfolded s1] conjunct1 [OF ok]]
  have le: "dkg_stage (Some s) \<le> dkg_stage (Some s1)" "dkg_stage (Some s1) \<le> dkg_stage (Some s')"
    using dkg_calls.stage_mono [of S "Some s" e "Some s1"] dkg_calls.history_stage [of S "Some s1" es "Some s'"]
      st s1 ok Cons.prems(2) by (auto simp: dkg_live_ok_def)
  have "phases_run (e # es) = [dkg_stage (Some s)..<dkg_stage (Some s1)] @ phases_run es"
    unfolding dkg_call_stage [OF Cons.prems(2) st(1) [unfolded s1], symmetric] by (simp split: option.split)
  then show ?case using IH ok le by (metis le_Suc_ex upt_add_eq_append)
qed simp

lemma debug_phase_stage:
  assumes "dkg_session_ok S s"
  shows "debug_phase s = (if 3 < dkg_stage (Some s) then ''phase3 complete''
      else if 2 < dkg_stage (Some s) then ''phase2 complete'' else ''initialized'')"
  using assms
  by (cases rule: dkg_session_cases) (simp_all add: debug_phase_def nothing_kept_def kept_after2_def)

text \<open>C26: the state of a key generation session.  After any calls with any arguments, the phases that
  returned are 2 and 3, once each and in this order, up to the stage the session is in; what it
  keeps is what those phases returned on its own data, the data of finished phases is gone, and
  \<open>Debug\<close> prints the phase it has completed.\<close>

theorem dkg_session_invariant:
  fixes S :: "('s::field, 'p::ab_group_add) suite"
  assumes "history (dkg_call S) (Some (DkgSession_new params i sid)) es (Some s)"
  shows "phases_run es = [2..<dkg_stage (Some s)] \<and> dkg_session_ok S s \<and> ds_data s = dkg_data params sid i \<and>
    debug_phase s = (if 3 \<in> set (phases_run es) then ''phase3 complete''
      else if 2 \<in> set (phases_run es) then ''phase2 complete'' else ''initialized'')"
proof -
  from dkg_history_runs [OF assms new_ok]
  have r: "dkg_session_ok S s" "ds_data s = dkg_data params sid i" "phases_run es = [2..<dkg_stage (Some s)]"
    by (simp_all add: DkgSession_new_def dkg_data_def)
  with debug_phase_stage [OF r(1)] show ?thesis by simp
qed

text \<open>C27: calls out of order.  In a session reached by any calls, each method either is refused with
  \<open>PhaseCalledOutOfOrder\<close>, leaving the session as it is, or it is in its turn and does exactly what
  the phase of the protocol does on the kept data: it returns the messages and the error of the phase,
  and keeps what the phase keeps.\<close>

theorem dkg_session_order:
  fixes S :: "('s::field, 'p::ab_group_add) suite"
  assumes "history (dkg_call S) (Some (DkgSession_new params i sid)) es (Some s)"
  shows "DkgSession_phase2 S coins frags s =
      (if phases_run es = [] then (case dkg_phase2 S (dkg_data params sid i) coins frags of
           Inl e \<Rightarrow> (Inl e, s)
         | Inr (share, pc, zk, zt, bk, bb) \<Rightarrow> (Inr (pc, zt, bb), s\<lparr>ds_poly_point := Some share,
             ds_proof_commitment := Some pc, ds_zero_kept_2to3 := Some zk, ds_bip_kept_2to3 := Some bk\<rparr>))
       else (Inl (called_out_of_order (ds_data s) ''phase2 already called on this session''), s)) \<and>
    DkgSession_phase3 S coins s =
      (if phases_run es = [2] then
         (case dkg_phase3 S (dkg_data params sid i) coins (the (ds_zero_kept_2to3 s)) (the (ds_bip_kept_2to3 s)) of
            Inl e \<Rightarrow> (Inl e, s)
          | Inr (zk3, zt3, mk, mt, bb3) \<Rightarrow> (Inr (zt3, mt, bb3), s\<lparr>ds_zero_kept_2to3 := None,
              ds_bip_kept_2to3 := None, ds_zero_kept_3to4 := Some zk3, ds_mul_kept_3to4 := Some mk\<rparr>))
       else (Inl (called_out_of_order (ds_data s) ''phase3 called before phase2''), s)) \<and>
    (phases_run es = [2] \<longrightarrow> ds_zero_kept_2to3 s \<noteq> None \<and> ds_bip_kept_2to3 s \<noteq> None) \<and>
    DkgSession_phase4 S s pcs r2 r3 mr b2 b3 address_fn =
      (if phases_run es = [] then Inl (called_out_of_order (ds_data s) ''phase4 called before phase2'')
       else if phases_run es = [2] then Inl (called_out_of_order (ds_data s) ''phase4 called before phase3'')
       else dkg_phase4 S (dkg_data params sid i) (the (ds_poly_point s)) pcs (the (ds_zero_kept_3to4 s)) r2 r3
         (the (ds_mul_kept_3to4 s)) mr b2 b3 address_fn)"
proof -
  from dkg_history_runs [OF assms new_ok]
  have r: "dkg_session_ok S s" "ds_data s = dkg_data params sid i" "phases_run es = [2..<dkg_stage (Some s)]"
    by (simp_all add: DkgSession_new_def dkg_data_def)
  from r(1) show ?thesis
    by (cases rule: dkg_session_cases)
      (simp_all add: r(2,3) nothing_kept_def kept_after2_def DkgSession_phase2_def DkgSession_phase3_def
        DkgSession_phase4_def upt_rec)
qed

section \<open>Honest sessions\<close>

lemma dkg_sessions_run:
  fixes S :: "('s::field, 'p::ab_group_add) suite"
  assumes "suite_ok S" and "cyclic S" and "no_wrap params" and "dkg_coins_ok S params sid C"
    and "\<And>i. mset (q1 i) = mset (party_range params)" and "\<And>i. mset (q2 i) = mset (party_range params)"
    and "\<And>i xs. mset (o2 i xs) = mset xs" and "\<And>i xs. mset (o3 i xs) = mset xs"
    and "\<And>i xs. mset (om i xs) = mset xs"
  shows "\<exists>PC ZT B2 S2 ZT3 MT B3 S3 P.
    (\<forall>i \<in> set (party_range params).
      DkgSession_phase2 S (C i)
        (map (\<lambda>j. entry_for i (DkgSession_phase1 S (DkgSession_new params j sid) (C j))) (q1 i))
        (DkgSession_new params i sid) = (Inr (PC i, ZT i, B2 i), S2 i) \<and>
      DkgSession_phase3 S (C i) (S2 i) = (Inr (ZT3 i, MT i, B3 i), S3 i) \<and>
      DkgSession_phase4 S (S3 i) (map PC (q2 i)) (o2 i (inbox z2_parties ZT (party_range params) i))
        (o3 i (inbox z3_parties ZT3 (party_range params) i)) (om i (inbox mi_parties MT (party_range params) i))
        (bt_tabulate B2 (party_range params)) (bt_tabulate B3 (party_range params)) address_fn =
        Inr (P i, dkg_package S params C)) \<and>
    key_material S (secret_poly params C) params sid (joint_chain_code params C)
      (\<lambda>i j. ic_seed (dc_init (C i)) j) (party_range params) P"
proof -
  obtain PC ZK ZT BK B2 ZK3 ZT3 MK MT B3 P where run: "\<forall>i \<in> set (party_range params).
      dkg_phase2 S (dkg_data params sid i) (C i)
        (map (\<lambda>j. entry_for i (dkg_phase1 S (dkg_data params sid j) (C j))) (q1 i)) =
        Inr (secret_poly params C (index_scalar i), PC i, ZK i, ZT i, BK i, B2 i) \<and>
      dkg_phase3 S (dkg_data params sid i) (C i) (ZK i) (BK i) = Inr (ZK3 i, ZT3 i, MK i, MT i, B3 i) \<and>
      dkg_phase4 S (dkg_data params sid i) (secret_poly params C (index_scalar i)) (map PC (q2 i)) (ZK3 i)
        (o2 i (inbox z2_parties ZT (party_range params) i)) (o3 i (inbox z3_parties ZT3 (party_range params) i))
        (MK i) (om i (inbox mi_parties MT (party_range params) i))
        (bt_tabulate B2 (party_range params)) (bt_tabulate B3 (party_range params)) address_fn =
        Inr (P i, dkg_package S params C)"
    and km: "key_material S (secret_poly params C) params sid (joint_chain_code params C)
      (\<lambda>i j. ic_seed (dc_init (C i)) j) (party_range params) P"
    using dkg_rounds [OF assms(1-4), of q1 q2 o2 o3 om address_fn] assms(5-) by blast
  let ?N = "\<lambda>i. DkgSession_new params i sid :: ('s, 'p) dkg_session"
  let ?S2 = "\<lambda>i. (?N i)\<lparr>ds_poly_point := Some (secret_poly params C (index_scalar i)),
    ds_proof_commitment := Some (PC i), ds_zero_kept_2to3 := Some (ZK i), ds_bip_kept_2to3 := Some (BK i)\<rparr>"
  let ?S3 = "\<lambda>i. (?S2 i)\<lparr>ds_zero_kept_2to3 := None, ds_bip_kept_2to3 := None,
    ds_zero_kept_3to4 := Some (ZK3 i), ds_mul_kept_3to4 := Some (MK i)\<rparr>"
  have "\<forall>i \<in> set (party_range params).
      DkgSession_phase2 S (C i) (map (\<lambda>j. entry_for i (DkgSession_phase1 S (?N j) (C j))) (q1 i)) (?N i) =
        (Inr (PC i, ZT i, B2 i), ?S2 i) \<and>
      DkgSession_phase3 S (C i) (?S2 i) = (Inr (ZT3 i, MT i, B3 i), ?S3 i) \<and>
      DkgSession_phase4 S (?S3 i) (map PC (q2 i)) (o2 i (inbox z2_parties ZT (party_range params) i))
        (o3 i (inbox z3_parties ZT3 (party_range params) i)) (om i (inbox mi_parties MT (party_range params) i))
        (bt_tabulate B2 (party_range params)) (bt_tabulate B3 (party_range params)) address_fn =
        Inr (P i, dkg_package S params C)"
  proof (intro ballI conjI)
    fix i assume i: "i \<in> set (party_range params)"
    note r = bspec [OF run i, unfolded dkg_data_def]
    show "DkgSession_phase2 S (C i) (map (\<lambda>j. entry_for i (DkgSession_phase1 S (?N j) (C j))) (q1 i)) (?N i) =
        (Inr (PC i, ZT i, B2 i), ?S2 i)"
      using r by (simp add: DkgSession_phase2_def DkgSession_phase1_def DkgSession_new_def)
    show "DkgSession_phase3 S (C i) (?S2 i) = (Inr (ZT3 i, MT i, B3 i), ?S3 i)"
      using r by (simp add: DkgSession_phase3_def DkgSession_new_def)
    show "DkgSession_phase4 S (?S3 i) (map PC (q2 i)) (o2 i (inbox z2_parties ZT (party_range params) i))
        (o3 i (inbox z3_parties ZT3 (party_range params) i)) (om i (inbox mi_parties MT (party_range params) i))
        (bt_tabulate B2 (party_range params)) (bt_tabulate B3 (party_range params)) address_fn =
        Inr (P i, dkg_package S params C)"
      using r by (simp add: DkgSession_phase4_def DkgSession_new_def)
  qed
  with km show ?thesis
    by (intro exI [of _ PC] exI [of _ ZT] exI [of _ B2] exI [of _ ?S2] exI [of _ ZT3] exI [of _ MT] exI [of _ B3]
        exI [of _ ?S3] exI [of _ P]) blast
qed

lemma sample_dkg_history:
  "\<exists>s. history (dkg_call init_suite) (Some (DkgSession_new sample_params (PartyIndex 2) [1]))
     [Refused 3, Returned 2, Refused 2, Returned 3, Refused 3] (Some s)"
proof -
  let ?N = "DkgSession_new sample_params (PartyIndex 2) [1] :: (gf257, gf257) dkg_session"
  have two: "PartyIndex 2 \<in> set (party_range sample_params)" by (simp add: sample_party_range)
  obtain frags PC ZT B2 S2 ZT3 MT B3 S3 where run:
    "DkgSession_phase2 init_suite (sample_dkg_coins (PartyIndex 2)) frags ?N = (Inr (PC, ZT, B2), S2)"
    "DkgSession_phase3 init_suite (sample_dkg_coins (PartyIndex 2)) S2 = (Inr (ZT3, MT, B3), S3)"
    using dkg_sessions_run [OF init_suite_ok init_suite_cyclic sample_params_ok(2) sample_dkg_coins_ok,
      of "\<lambda>_. party_range sample_params" "\<lambda>_. party_range sample_params" "\<lambda>_ xs. xs" "\<lambda>_ xs. xs" "\<lambda>_ xs. xs"]
      two by simp blast
  have c1: "dkg_call init_suite (Some ?N) (Refused 3) (Some ?N)"
    by (rule phase3_stopped) (simp add: DkgSession_phase3_def DkgSession_new_def)
  have c2: "dkg_call init_suite (Some ?N) (Returned 2) (Some S2)" by (rule phase2_ran [OF run(1)])
  have c3: "dkg_call init_suite (Some S2) (Refused 2) (Some S2)"
    using phase2_Inr [OF run(1)] by (intro phase2_stopped) (auto simp: DkgSession_phase2_def)
  have c4: "dkg_call init_suite (Some S2) (Returned 3) (Some S3)" by (rule phase3_ran [OF run(2)])
  have c5: "dkg_call init_suite (Some S3) (Refused 3) (Some S3)"
    using phase3_Inr [OF run(2)] by (intro phase3_stopped) (auto simp: DkgSession_phase3_def)
  show ?thesis
    unfolding history_simps by (intro exI conjI) (rule c1 c2 c3 c4 c5 refl)+
qed

lemma dkg_session_invariant_witness:
  "\<exists>s. history (dkg_call init_suite) (Some (DkgSession_new sample_params (PartyIndex 2) [1]))
       [Refused 3, Returned 2, Refused 2, Returned 3, Refused 3] (Some s) \<and>
     dkg_stage (Some s) = 4 \<and> dkg_session_ok init_suite s \<and> debug_phase s = ''phase3 complete''"
proof -
  obtain s where h: "history (dkg_call init_suite) (Some (DkgSession_new sample_params (PartyIndex 2) [1]))
     [Refused 3, Returned 2, Refused 2, Returned 3, Refused 3] (Some s)" using sample_dkg_history ..
  from dkg_session_invariant [OF h] have "[2, 3] = [2..<dkg_stage (Some s)]" "dkg_session_ok init_suite s"
    "debug_phase s = ''phase3 complete''" by simp_all
  moreover from arg_cong [OF this(1), of length] have "dkg_stage (Some s) = 4"
    by (simp del: dkg_stage.simps)
  ultimately show ?thesis using h by (intro exI [of _ s] conjI)
qed

lemma dkg_session_order_witness:
  "\<exists>s. DkgSession_phase3 init_suite (sample_dkg_coins (PartyIndex 2)) s =
       (Inl (called_out_of_order (ds_data s) ''phase3 called before phase2''), s) \<and>
     debug_phase s = ''phase3 complete''"
proof -
  obtain s where h: "history (dkg_call init_suite) (Some (DkgSession_new sample_params (PartyIndex 2) [1]))
     [Refused 3, Returned 2, Refused 2, Returned 3, Refused 3] (Some s)" using sample_dkg_history ..
  have "[2, 3] = [2..<dkg_stage (Some s)]" "dkg_session_ok init_suite s"
    using dkg_history_runs [OF h new_ok] by (simp_all add: DkgSession_new_def)
  moreover from arg_cong [OF this(1), of length] have "dkg_stage (Some s) = 4"
    by (simp del: dkg_stage.simps)
  ultimately have "debug_phase s = ''phase3 complete''"
    using debug_phase_stage by fastforce
  then show ?thesis using dkg_session_order [OF h] by (intro exI [of _ s]) simp
qed

end
