(* ===== verification/Re_Key.thy ===== *)
theory Re_Key
  imports Key_Material Sample_Suite
begin

text \<open>
  \<open>protocols/re_key.rs\<close>: a dealer splits an existing secret key among new parties.  Everything that is
  sampled is an argument.  The property is that the dealt parties hold key material for the given
  key, so that everything proved of the parties of a key generation holds for them.
\<close>

section \<open>The dealer\<close>

text \<open>The dealer's samples; receivers, senders and parties are counted from 1.\<close>

record 's dealer_coins =
  rk_polynomial :: "nat \<Rightarrow> 's"
  rk_common_seed :: "nat \<Rightarrow> nat \<Rightarrow> bytes"
  rk_seeds0 :: "nat \<Rightarrow> nat \<Rightarrow> nat \<Rightarrow> bytes"
  rk_seeds1 :: "nat \<Rightarrow> nat \<Rightarrow> nat \<Rightarrow> bytes"
  rk_bits :: "nat \<Rightarrow> nat \<Rightarrow> nat \<Rightarrow> bool"
  rk_gadget :: "nat \<Rightarrow> nat \<Rightarrow> nat \<Rightarrow> 's"
  rk_chain_code :: bytes

definition dealer_polynomial :: "parameters \<Rightarrow> 's dealer_coins \<Rightarrow> 's \<Rightarrow> 's list" where
  "dealer_polynomial params coins secret_key =
     secret_key # map (rk_polynomial coins) [1..<unat (threshold params)]"

text \<open>Entry \<open>l - 1\<close> holds the seeds of the pairs \<open>(l, l + 1)\<close>, ..., \<open>(l, n)\<close>.\<close>

definition common_seeds :: "parameters \<Rightarrow> 's dealer_coins \<Rightarrow> bytes list list" where
  "common_seeds params coins =
     map (\<lambda>lower_index. map (rk_common_seed coins lower_index) [lower_index + 1..<Suc (unat (share_count params))])
       [1..<unat (share_count params)]"

definition dealt_zero_share :: "parameters \<Rightarrow> bytes list list \<Rightarrow> nat \<Rightarrow> zero_share" where
  "dealt_zero_share params common party =
     zero_share_initialize
       (map (\<lambda>counterparty. \<lparr>lowest_index = False, index_counterparty = index_of_nat counterparty,
            seed = common ! (counterparty - 1) ! (party - counterparty - 1)\<rparr>) [1..<party] @
        map (\<lambda>counterparty. \<lparr>lowest_index = True, index_counterparty = index_of_nat counterparty,
            seed = common ! (party - 1) ! (counterparty - party - 1)\<rparr>) [party + 1..<Suc (unat (share_count params))])"

text \<open>One pair of a receiver and a sender.\<close>

definition dealt_ote_receiver :: "'s dealer_coins \<Rightarrow> nat \<Rightarrow> nat \<Rightarrow> ote_receiver" where
  "dealt_ote_receiver coins r s =
     \<lparr>seeds0 = map (rk_seeds0 coins r s) [0..<KAPPA], seeds1 = map (rk_seeds1 coins r s) [0..<KAPPA]\<rparr>"

definition dealt_ote_sender :: "'s dealer_coins \<Rightarrow> nat \<Rightarrow> nat \<Rightarrow> ote_sender" where
  "dealt_ote_sender coins r s =
     (let rcv = dealt_ote_receiver coins r s
      in \<lparr>correlation = map (rk_bits coins r s) [0..<KAPPA],
          ote_seeds = map (\<lambda>i. if rk_bits coins r s i then seeds1 rcv ! i else seeds0 rcv ! i) [0..<KAPPA]\<rparr>)"

definition dealt_receiver :: "'s dealer_coins \<Rightarrow> nat \<Rightarrow> nat \<Rightarrow> 's mul_receiver" where
  "dealt_receiver coins r s =
     \<lparr>mr_public_gadget = map (rk_gadget coins r s) [0..<BATCH_SIZE], mr_ote_receiver = dealt_ote_receiver coins r s\<rparr>"

definition dealt_sender :: "'s dealer_coins \<Rightarrow> nat \<Rightarrow> nat \<Rightarrow> 's mul_sender" where
  "dealt_sender coins r s =
     \<lparr>ms_public_gadget = map (rk_gadget coins r s) [0..<BATCH_SIZE], ms_ote_sender = dealt_ote_sender coins r s\<rparr>"

text \<open>The two vectors of maps, one map per party, filled pair by pair.\<close>

definition deal_step ::
  "'s dealer_coins \<Rightarrow> nat \<times> nat \<Rightarrow>
     (party_index, 's mul_receiver) btree list \<times> (party_index, 's mul_sender) btree list \<Rightarrow>
     (party_index, 's mul_receiver) btree list \<times> (party_index, 's mul_sender) btree list" where
  "deal_step coins pair state =
     (case (pair, state) of ((r, s), (all_mul_receivers, all_mul_senders)) \<Rightarrow>
        if s = r then (all_mul_receivers, all_mul_senders)
        else
          (all_mul_receivers[r - 1 := bt_insert (index_of_nat s) (dealt_receiver coins r s) (all_mul_receivers ! (r - 1))],
           all_mul_senders[s - 1 := bt_insert (index_of_nat r) (dealt_sender coins r s) (all_mul_senders ! (s - 1))]))"

definition deal_multiplications ::
  "parameters \<Rightarrow> 's dealer_coins \<Rightarrow>
     (party_index, 's mul_receiver) btree list \<times> (party_index, 's mul_sender) btree list" where
  "deal_multiplications params coins =
     fold (deal_step coins) (List.product (share_range params) (share_range params))
       (replicate (unat (share_count params)) [], replicate (unat (share_count params)) [])"

text \<open>The value of the polynomial at an index, with the powers of the index.\<close>

definition dealt_point :: "('s::field, 'p) suite \<Rightarrow> parameters \<Rightarrow> 's list \<Rightarrow> nat \<Rightarrow> 's" where
  "dealt_point S params polynomial index =
     fst (foldl (\<lambda>(point, power) i. (point + polynomial ! i * power, power * scalar_from S (word_of_nat index)))
       (0, 1) [0..<unat (threshold params)])"

definition dealt_party ::
  "('s::field, 'p) suite \<Rightarrow> parameters \<Rightarrow> bytes \<Rightarrow> 'p \<Rightarrow> 's list \<Rightarrow> bytes \<Rightarrow> zero_share list \<Rightarrow>
     (party_index, 's mul_receiver) btree list \<Rightarrow> (party_index, 's mul_sender) btree list \<Rightarrow> ('p \<Rightarrow> string) \<Rightarrow>
     nat \<Rightarrow> ('s, 'p) party" where
  "dealt_party S params sid key polynomial code zero_shares receivers senders address_fn index =
     (let point = dealt_point S params polynomial index
      in \<lparr>party_parameters = params, party_index = index_of_nat index, session_id = sid, poly_point = point,
          pk = key, party_zero_share = zero_shares ! (index - 1), mul_senders = senders ! (index - 1),
          mul_receivers = receivers ! (index - 1),
          derivation_data = \<lparr>depth = 0, child_number = 0, parent_fingerprint = [0, 0, 0, 0],
            dd_poly_point = point, dd_pk = key, chain_code = code\<rparr>,
          address = address_fn key\<rparr>)"

definition re_key ::
  "('s::field, 'p) suite \<Rightarrow> 's dealer_coins \<Rightarrow> parameters \<Rightarrow> bytes \<Rightarrow> 's \<Rightarrow> bytes option \<Rightarrow> ('p \<Rightarrow> string) \<Rightarrow>
     ('s, 'p) party list \<times> 'p public_key_package" where
  "re_key S coins params sid secret_key option_chain_code address_fn =
     (let key = pmul S (generator S) secret_key;
          polynomial = dealer_polynomial params coins secret_key;
          common = common_seeds params coins;
          zero_shares = map (dealt_zero_share params common) (share_range params);
          code = (case option_chain_code of Some cc \<Rightarrow> cc | None \<Rightarrow> rk_chain_code coins)
      in case deal_multiplications params coins of (receivers, senders) \<Rightarrow>
        let parties = map (dealt_party S params sid key polynomial code zero_shares receivers senders address_fn)
              (share_range params);
            verifying_shares = fold (\<lambda>p. bt_insert (party_index p) (pmul S (generator S) (poly_point p))) parties []
        in (parties, PublicKeyPackage_new key verifying_shares params))"

section \<open>The dealt values\<close>

lemma horner_powers: "horner cs x = (\<Sum>i < length cs. cs ! i * x ^ i)"
  by (induction cs) (simp_all add: sum.lessThan_Suc_shift sum_distrib_left algebra_simps del: sum.lessThan_Suc)

lemma dealt_point_horner:
  assumes "length polynomial = unat (threshold params)"
  shows "dealt_point S params polynomial index = horner polynomial (scalar_from S (word_of_nat index))"
proof -
  let ?x = "scalar_from S (word_of_nat index) :: 'a"
  have "foldl (\<lambda>(point, power) i. (point + polynomial ! i * power, power * ?x)) (0, 1) [0..<n] =
      (\<Sum>i < n. polynomial ! i * ?x ^ i, ?x ^ n)" for n
    by (induction n) (simp_all add: mult.commute)
  then show ?thesis by (simp add: dealt_point_def horner_powers assms)
qed

text \<open>The seed of a pair, as two halves: the lower party's is the seed and the other one is zero.\<close>

definition dealt_half :: "'s dealer_coins \<Rightarrow> party_index \<Rightarrow> party_index \<Rightarrow> bytes" where
  "dealt_half coins i j = (if i < j then rk_common_seed coins (unat (as_u8 i)) (unat (as_u8 j)) else replicate SECURITY 0)"

lemma common_seeds_nth:
  assumes "1 \<le> l" and "l < h" and "h \<le> unat (share_count params)"
  shows "common_seeds params coins ! (l - 1) ! (h - l - 1) = rk_common_seed coins l h"
  using assms nth_upt [of 1 "l - 1" "unat (share_count params)"] nth_upt [of "l + 1" "h - l - 1" "Suc (unat (share_count params))"]
  by (simp add: common_seeds_def del: upt_Suc)

lemma index_of_nat_less:
  assumes "i < 256" and "j < 256"
  shows "index_of_nat i < index_of_nat j \<longleftrightarrow> i < j"
  using assms by (simp add: less_party_index_def word_less_nat_alt)

lemma index_of_nat_le:
  assumes "i < 256" and "j < 256"
  shows "index_of_nat i \<le> index_of_nat j \<longleftrightarrow> i \<le> j"
  using assms by (simp add: less_eq_party_index_def word_le_nat_alt)

lemma dealt_zero_share_pairwise:
  assumes "i \<in> set (share_range params)" and "\<And>l h. length (rk_common_seed coins l h) = SECURITY"
  shows "dealt_zero_share params (common_seeds params coins) i =
    pairwise_seeds (party_range params) (dealt_half coins) (index_of_nat i)"
proof -
  let ?n = "unat (share_count params)"
  have i: "1 \<le> i" "i \<le> ?n" "i < 256" using assms(1) share_range_bound [OF assms(1)] by (auto simp: share_range_def)
  have small: "j < 256" if "j \<le> ?n" for j using that unat_byte_less [of "share_count params"] by simp
  have "[1..<Suc ?n] = [1..<i] @ [i..<Suc ?n]"
    using i upt_add_eq_append [of 1 i "Suc ?n - i"] by simp
  also have "[i..<Suc ?n] = i # [i + 1..<Suc ?n]" using i upt_conv_Cons [of i "Suc ?n"] by simp
  finally have "filter (\<lambda>j. j \<noteq> i) [1..<Suc ?n] = [1..<i] @ [i + 1..<Suc ?n]"
    by (auto simp: filter_id_conv simp del: upt_Suc)
  moreover have "filter (\<lambda>j. j \<noteq> index_of_nat i) (party_range params) =
      map index_of_nat (filter (\<lambda>j. j \<noteq> i) [1..<Suc ?n])"
    unfolding party_range_def share_range_def filter_map comp_def
    by (rule arg_cong [of _ _ "map index_of_nat"], rule filter_cong [OF refl])
      (use i small index_of_nat_inj in auto)
  ultimately have others: "filter (\<lambda>j. j \<noteq> index_of_nat i) (party_range params) =
      map index_of_nat [1..<i] @ map index_of_nat [i + 1..<Suc ?n]" by simp
  have xor0: "map (\<lambda>k. c ! k XOR replicate SECURITY 0 ! k) [0..<SECURITY] = c"
    "map (\<lambda>k. replicate SECURITY 0 ! k XOR c ! k) [0..<SECURITY] = c"
    if "length c = SECURITY" for c :: bytes
    using that by (auto intro!: nth_equalityI)
  have below: "generate_seed_pair (index_of_nat i) (index_of_nat j) (dealt_half coins (index_of_nat i) (index_of_nat j))
      (dealt_half coins (index_of_nat j) (index_of_nat i)) =
      \<lparr>lowest_index = False, index_counterparty = index_of_nat j,
       seed = common_seeds params coins ! (j - 1) ! (i - j - 1)\<rparr>" if "j \<in> set [1..<i]" for j
    using that i common_seeds_nth [of j i params coins] xor0(2) [OF assms(2)]
    by (simp add: generate_seed_pair_def dealt_half_def index_of_nat_less index_of_nat_le)
  have above: "generate_seed_pair (index_of_nat i) (index_of_nat j) (dealt_half coins (index_of_nat i) (index_of_nat j))
      (dealt_half coins (index_of_nat j) (index_of_nat i)) =
      \<lparr>lowest_index = True, index_counterparty = index_of_nat j,
       seed = common_seeds params coins ! (i - 1) ! (j - i - 1)\<rparr>" if "j \<in> set [i + 1..<Suc ?n]" for j
    using that i small [of j] common_seeds_nth [of i j params coins] xor0(1) [OF assms(2)]
    by (simp add: generate_seed_pair_def dealt_half_def index_of_nat_less index_of_nat_le del: upt_Suc)
  show ?thesis
    unfolding dealt_zero_share_def pairwise_seeds_def others map_append map_map comp_def
    by (intro arg_cong [of _ _ zero_share_initialize] arg_cong2 [of _ _ _ _ append] map_cong refl
        below [symmetric] above [symmetric])
qed

lemma dealt_linked: "mul_linked (dealt_sender coins r s) (dealt_receiver coins r s)"
  by (auto simp: mul_linked_def ote_correlated_def dealt_sender_def dealt_receiver_def dealt_ote_sender_def
      dealt_ote_receiver_def Let_def)

text \<open>Where the pairs dealt so far have been put.\<close>

definition dealt_upto ::
  "parameters \<Rightarrow> 's dealer_coins \<Rightarrow> (nat \<times> nat) set \<Rightarrow>
     (party_index, 's mul_receiver) btree list \<times> (party_index, 's mul_sender) btree list \<Rightarrow> bool" where
  "dealt_upto params coins pairs state \<longleftrightarrow>
     length (fst state) = unat (share_count params) \<and> length (snd state) = unat (share_count params) \<and>
     (\<forall>m \<in> set (fst state). bt_ok m) \<and> (\<forall>m \<in> set (snd state). bt_ok m) \<and>
     (\<forall>(r, s) \<in> pairs. r \<noteq> s \<longrightarrow>
        bt_get (fst state ! (r - 1)) (index_of_nat s) = Some (dealt_receiver coins r s) \<and>
        bt_get (snd state ! (s - 1)) (index_of_nat r) = Some (dealt_sender coins r s))"

lemma deal_step_upto:
  assumes "dealt_upto params coins pairs state" and "pairs \<subseteq> set (share_range params) \<times> set (share_range params)"
    and "r \<in> set (share_range params)" and "s \<in> set (share_range params)"
  shows "dealt_upto params coins (insert (r, s) pairs) (deal_step coins (r, s) state)"
proof (cases "r = s")
  case True
  with assms(1) show ?thesis by (simp add: dealt_upto_def deal_step_def split_beta)
next
  case False
  let ?n = "unat (share_count params)"
  obtain R T where state: "state = (R, T)" by fastforce
  have bound: "1 \<le> k \<and> k \<le> ?n \<and> k < 256" if "k \<in> set (share_range params)" for k
    using that share_range_bound [OF that] by (auto simp: share_range_def)
  have inv: "length R = ?n" "length T = ?n" "\<forall>m \<in> set R. bt_ok m" "\<forall>m \<in> set T. bt_ok m"
    using assms(1) by (simp_all add: dealt_upto_def state)
  have rs: "1 \<le> r" "r \<le> ?n" "r < 256" "1 \<le> s" "s \<le> ?n" "s < 256" using assms(3,4) bound by auto
  have ok: "bt_ok (R ! (r - 1))" "bt_ok (T ! (s - 1))" using inv rs by auto
  have "bt_get (R[r - 1 := bt_insert (index_of_nat s) (dealt_receiver coins r s) (R ! (r - 1))] ! (a - 1)) (index_of_nat b) =
        Some (dealt_receiver coins a b) \<and>
      bt_get (T[s - 1 := bt_insert (index_of_nat r) (dealt_sender coins r s) (T ! (s - 1))] ! (b - 1)) (index_of_nat a) =
        Some (dealt_sender coins a b)"
    if "(a, b) \<in> insert (r, s) pairs" "a \<noteq> b" for a b
  proof -
    have ab: "1 \<le> a \<and> a \<le> ?n \<and> a < 256" "1 \<le> b \<and> b \<le> ?n \<and> b < 256"
      using that(1) assms(2-4) bound by auto
    have old: "(a, b) \<noteq> (r, s) \<Longrightarrow> bt_get (R ! (a - 1)) (index_of_nat b) = Some (dealt_receiver coins a b) \<and>
        bt_get (T ! (b - 1)) (index_of_nat a) = Some (dealt_sender coins a b)"
      using that assms(1) by (auto simp: dealt_upto_def state)
    have "a - 1 = r - 1 \<longleftrightarrow> a = r" "b - 1 = s - 1 \<longleftrightarrow> b = s" "a - 1 < length R" "b - 1 < length T"
      "index_of_nat b = index_of_nat s \<longleftrightarrow> b = s" "index_of_nat a = index_of_nat r \<longleftrightarrow> a = r"
      using ab rs inv by (auto simp: index_of_nat_inj)
    then show ?thesis
      using old ok by (auto simp: nth_list_update bt_get_insert)
  qed
  moreover have "\<forall>m \<in> set (R[r - 1 := bt_insert (index_of_nat s) (dealt_receiver coins r s) (R ! (r - 1))]). bt_ok m"
    "\<forall>m \<in> set (T[s - 1 := bt_insert (index_of_nat r) (dealt_sender coins r s) (T ! (s - 1))]). bt_ok m"
    using inv ok bt_ok_insert set_update_subset_insert by fast+
  ultimately show ?thesis
    using False inv by (auto simp: dealt_upto_def deal_step_def state)
qed

lemma dealt_all:
  "dealt_upto params coins (set (share_range params) \<times> set (share_range params)) (deal_multiplications params coins)"
proof -
  let ?all = "set (share_range params) \<times> set (share_range params)"
  have "dealt_upto params coins (pairs \<union> set L) (fold (deal_step coins) L state)"
    if "dealt_upto params coins pairs state" "pairs \<union> set L \<subseteq> ?all" for L pairs state
    using that
  proof (induction L arbitrary: pairs state)
    case (Cons x L)
    obtain r s where x: "x = (r, s)" by fastforce
    from Cons.prems have "dealt_upto params coins (insert (r, s) pairs) (deal_step coins (r, s) state)"
      unfolding x by (intro deal_step_upto) auto
    from Cons.IH [OF this] Cons.prems show ?case by (simp add: x)
  qed simp
  from this [of "{}" "(replicate (unat (share_count params)) [], replicate (unat (share_count params)) [])"
      "List.product (share_range params) (share_range params)"]
  show ?thesis by (simp add: deal_multiplications_def dealt_upto_def bt_laws)
qed

lemma dealt_pair:
  assumes "deal_multiplications params coins = (R, T)" and "r \<in> set (share_range params)"
    and "s \<in> set (share_range params)" and "r \<noteq> s"
  shows "bt_get (R ! (r - 1)) (index_of_nat s) = Some (dealt_receiver coins r s)"
    "bt_get (T ! (s - 1)) (index_of_nat r) = Some (dealt_sender coins r s)"
  using dealt_all [of params coins] assms by (auto simp: dealt_upto_def)

section \<open>Property\<close>

lemma re_key_dealt:
  fixes S :: "('s::field, 'p::ab_group_add) suite"
  assumes "suite_ok S" and "params_ok params" and "\<And>l h. length (rk_common_seed coins l h) = SECURITY"
    and "f = horner (dealer_polynomial params coins secret_key)"
    and "code = (case option_chain_code of None \<Rightarrow> rk_chain_code coins | Some cc \<Rightarrow> cc)"
  shows "\<exists>P. fst (re_key S coins params sid secret_key option_chain_code address_fn) = map P (party_range params) \<and>
    key_material S f params sid code (dealt_half coins) (party_range params) P \<and> f 0 = secret_key \<and>
    snd (re_key S coins params sid secret_key option_chain_code address_fn) =
      PublicKeyPackage_new (pmul S (generator S) secret_key)
        (bt_tabulate (\<lambda>j. pmul S (generator S) (f (index_scalar j))) (party_range params)) params"
proof -
  let ?poly = "dealer_polynomial params coins secret_key" and ?key = "pmul S (generator S) secret_key"
  let ?zs = "map (dealt_zero_share params (common_seeds params coins)) (share_range params)"
  obtain R T where RT: "deal_multiplications params coins = (R, T)" by fastforce
  let ?Q = "dealt_party S params sid ?key ?poly code ?zs R T address_fn"
  let ?P = "\<lambda>i. ?Q (unat (as_u8 i))"
  have len: "length ?poly = unat (threshold params)"
    using assms(2) by (simp add: dealer_polynomial_def params_ok_def word_le_nat_alt)
  have f0: "f 0 = secret_key" by (simp add: assms(4) dealer_polynomial_def)
  have all: "i \<in> set (party_range params) \<Longrightarrow> unat (as_u8 i) \<in> set (share_range params)" for i
    by (auto simp: set_party_range share_range_def)
  have point: "dealt_point S params ?poly (unat (as_u8 i)) = f (index_scalar i)" for i
  proof -
    have "scalar_from S (word_of_nat (unat (as_u8 i))) = index_scalar i"
      using scalar_from_index [OF assms(1), of i] by (simp add: unsigned_ucast_eq word_of_nat_eq_iff)
    then show ?thesis by (simp add: dealt_point_horner [OF len] assms(4))
  qed
  have party: "party_index (?P i) = i" "poly_point (?P i) = f (index_scalar i)" for i
    by (simp_all add: dealt_party_def Let_def point)
  have parties: "map ?Q (share_range params) = map ?P (party_range params)"
    using share_range_bound by (auto simp: party_range_def)
  have zs: "party_zero_share (?P i) = pairwise_seeds (party_range params) (dealt_half coins) i"
    if "i \<in> set (party_range params)" for i
  proof -
    have "?zs ! (unat (as_u8 i) - 1) = dealt_zero_share params (common_seeds params coins) (unat (as_u8 i))"
      using all [OF that] by (auto simp: share_range_def simp del: upt_Suc)
    then show ?thesis
      using dealt_zero_share_pairwise [OF all [OF that] assms(3)] by (simp add: dealt_party_def Let_def)
  qed
  have "key_material S f params sid code (dealt_half coins) (party_range params) ?P"
  proof (rule key_materialI)
    show "poly_lt (unat (threshold params)) f" using horner_poly [of ?poly] len assms(4) by simp
    show "\<exists>ms mr. bt_get (mul_senders (?P i)) j = Some ms \<and> bt_get (mul_receivers (?P j)) i = Some mr \<and> mul_linked ms mr"
      if "i \<in> set (party_range params)" "j \<in> set (party_range params) - {i}" for i j
    proof -
      have "unat (as_u8 j) \<noteq> unat (as_u8 i)" using that by (metis DiffE index_of_nat_unat singletonI)
      from dealt_pair [OF RT all all this] that
      have "bt_get (R ! (unat (as_u8 j) - 1)) i = Some (dealt_receiver coins (unat (as_u8 j)) (unat (as_u8 i)))"
        "bt_get (T ! (unat (as_u8 i) - 1)) j = Some (dealt_sender coins (unat (as_u8 j)) (unat (as_u8 i)))"
        by simp_all
      then show ?thesis by (simp add: dealt_party_def Let_def dealt_linked)
    qed
    show "as_u8 i \<le> share_count params \<and> party_parameters (?P i) = params \<and> party_index (?P i) = i \<and>
      session_id (?P i) = sid \<and> poly_point (?P i) = f (index_scalar i) \<and> pk (?P i) = pmul S (generator S) (f 0) \<and>
      party_zero_share (?P i) = pairwise_seeds (party_range params) (dealt_half coins) i"
      if "i \<in> set (party_range params)" for i
      using that zs [OF that] party f0 by (simp add: set_party_range word_le_nat_alt) (simp add: dealt_party_def Let_def)
    show "chain_code (derivation_data (?P i)) = code \<and> dd_poly_point (derivation_data (?P i)) = poly_point (?P i) \<and>
      dd_pk (derivation_data (?P i)) = pk (?P i) \<and> depth (derivation_data (?P i)) = 0" for i
      by (simp add: dealt_party_def Let_def)
  qed (rule assms(2) distinct_party_range)+
  moreover have "fst (re_key S coins params sid secret_key option_chain_code address_fn) = map ?P (party_range params)"
    unfolding re_key_def Let_def RT prod.case fst_conv assms(5) [symmetric] by (rule parties)
  moreover have "fold (\<lambda>p. bt_insert (party_index p) (pmul S (generator S) (poly_point p)))
      (map ?P (party_range params)) [] =
      bt_tabulate (\<lambda>j. pmul S (generator S) (f (index_scalar j))) (party_range params)"
    using fold_tabulate [OF refl sorted_party_range [of params], of "\<lambda>j. pmul S (generator S) (f (index_scalar j))"]
    by (simp add: fold_map comp_def party)
  then have "snd (re_key S coins params sid secret_key option_chain_code address_fn) = PublicKeyPackage_new ?key
      (bt_tabulate (\<lambda>j. pmul S (generator S) (f (index_scalar j))) (party_range params)) params"
    unfolding re_key_def Let_def RT prod.case snd_conv assms(5) [symmetric] parties by simp
  ultimately show ?thesis using f0 by (intro exI [of _ ?P]) simp
qed

text \<open>C28: re-keying.  The dealt parties hold key material for a polynomial whose value at 0 is the given
  secret key, with the given or sampled chain code; the package has the public key of that secret
  key and the public share of every party.\<close>

theorem re_key_material:
  fixes S :: "('s::field, 'p::ab_group_add) suite"
  assumes "suite_ok S" and "params_ok params" and "\<And>l h. length (rk_common_seed coins l h) = SECURITY"
    and "f = horner (dealer_polynomial params coins secret_key)"
    and "code = (case option_chain_code of None \<Rightarrow> rk_chain_code coins | Some cc \<Rightarrow> cc)"
  shows "\<exists>P. fst (re_key S coins params sid secret_key option_chain_code address_fn) = map P (party_range params) \<and>
    key_material S f params sid code (dealt_half coins) (party_range params) P \<and> f 0 = secret_key \<and>
    snd (re_key S coins params sid secret_key option_chain_code address_fn) =
      PublicKeyPackage_new (pmul S (generator S) secret_key)
        (bt_tabulate (\<lambda>j. pmul S (generator S) (f (index_scalar j))) (party_range params)) params"
  by (rule re_key_dealt [OF assms])

lemma re_key_material_witness:
  "\<exists>P coins. fst (re_key sample_suite coins \<lparr>threshold = 2, share_count = 3\<rparr> [1] 7 (Some [4]) (\<lambda>_. [])) =
       [P (PartyIndex 1), P (PartyIndex 2), P (PartyIndex 3)] \<and>
     key_material sample_suite (\<lambda>x. 7 + x * 5) \<lparr>threshold = 2, share_count = 3\<rparr> [1] [4] (dealt_half coins)
       [PartyIndex 1, PartyIndex 2, PartyIndex 3] P \<and> pk (P (PartyIndex 2)) = 7 \<and> poly_point (P (PartyIndex 2)) = 17"
proof -
  let ?c = "\<lparr>rk_polynomial = \<lambda>_. 5, rk_common_seed = \<lambda>l h. replicate SECURITY (word_of_nat (l + h)),
    rk_seeds0 = \<lambda>_ _ _. [], rk_seeds1 = \<lambda>_ _ _. [], rk_bits = \<lambda>_ _ _. True, rk_gadget = \<lambda>_ _ _. 1,
    rk_chain_code = []\<rparr> :: gf257 dealer_coins"
  let ?p = "\<lparr>threshold = 2, share_count = 3\<rparr> :: parameters"
  have range: "party_range ?p = [PartyIndex 1, PartyIndex 2, PartyIndex 3]"
    by (simp add: party_range_def share_range_def upt_rec index_of_nat_def)
  have poly: "horner (dealer_polynomial ?p ?c 7) = (\<lambda>x. 7 + x * 5)"
    by (simp add: dealer_polynomial_def upt_rec fun_eq_iff)
  obtain P where P: "fst (re_key sample_suite ?c ?p [1] 7 (Some [4]) (\<lambda>_. [])) = map P (party_range ?p)"
    "key_material sample_suite (\<lambda>x. 7 + x * 5) ?p [1] [4] (dealt_half ?c) (party_range ?p) P"
    using re_key_material [OF sample_suite_ok, of ?p ?c _ 7 "[4]" "Some [4]" "[1]" "\<lambda>_. []"] poly
    by (auto simp: params_ok_def)
  have "PartyIndex 2 \<in> set (party_range ?p)" by (simp add: range)
  from key_materialD(8,9) [OF P(2)] this have "pk (P (PartyIndex 2)) = 7" "poly_point (P (PartyIndex 2)) = 17"
    by (simp_all add: index_scalar_def sample_suite_def gf_eq_iff)
  with P show ?thesis unfolding range by (intro exI [of _ P] exI [of _ ?c]) simp
qed

end
