(* ===== verification/Party_Types.thy ===== *)
theory Party_Types
  imports Dkg_Session Signing Re_Key
begin

text \<open>
  What the types of \<open>Party\<close> do not say: the invariant \<open>party_wf\<close> that key generation establishes from any
  received data, as re-keying does, and that derivation and both refreshes keep, and the one length it leaves open.  The
  number of encryption proofs in a base transfer is the sender's choice: phase 4 of key generation
  accepts any, and the faster refresh indexes out of bounds afterwards.
\<close>

section \<open>Maps with typed entries\<close>

definition bt_typed :: "'k::linorder set \<Rightarrow> ('k \<Rightarrow> 'v \<Rightarrow> bool) \<Rightarrow> ('k, 'v) btree \<Rightarrow> bool" where
  "bt_typed K Q m \<longleftrightarrow> bt_ok m \<and> dom (bt_get m) = K \<and> (\<forall>k v. bt_get m k = Some v \<longrightarrow> Q k v)"

lemma bt_typed_empty: "bt_typed {} Q []"
  by (simp add: bt_typed_def bt_laws dom_def)

lemma bt_typed_insert: "bt_typed K Q m \<Longrightarrow> Q k v \<Longrightarrow> bt_typed (insert k K) Q (bt_insert k v m)"
  by (auto simp: bt_typed_def bt_laws dom_def split: if_splits)

lemma bt_typed_get: "bt_typed K Q m \<Longrightarrow> k \<in> K \<Longrightarrow> \<exists>v. bt_get m k = Some v \<and> Q k v"
  by (auto simp: bt_typed_def)

lemma bt_typed_entry: "bt_typed K Q m \<Longrightarrow> (k, v) \<in> set (bt_entries m) \<Longrightarrow> k \<in> K \<and> Q k v"
  by (auto simp: bt_typed_def bt.entry_iff)

text \<open>A loop that files one entry per element, in one map or in two.\<close>

lemma for_each_typed:
  assumes "for_each step xs (m, a) = Inr (m', a')" and "bt_typed K Q m"
    and "\<And>x m a r. x \<in> set xs \<Longrightarrow> step x (m, a) = Inr r \<Longrightarrow> \<exists>v. fst r = bt_insert (key x) v m \<and> Q (key x) v"
  shows "bt_typed (K \<union> key ` set xs) Q m'"
  using assms
proof (induction xs arbitrary: m a K)
  case (Cons x xs)
  from Cons.prems(1) obtain r where r: "step x (m, a) = Inr r" "for_each step xs r = Inr (m', a')"
    by (auto simp: rbind_Inr_iff)
  from Cons.prems(3) [OF _ r(1)] obtain v b where v: "r = (bt_insert (key x) v m, b)" "Q (key x) v"
    by (cases r) auto
  from r(2) [unfolded v(1)] bt_typed_insert [where k = "key x", OF Cons.prems(2) v(2)]
  have "bt_typed (insert (key x) K \<union> key ` set xs) Q m'"
    by (rule Cons.IH) (rule Cons.prems(3), simp_all)
  then show ?case by simp
qed simp

lemma for_each_typed2:
  assumes "for_each step xs (m1, m2) = Inr (m1', m2')" and "bt_typed K Q1 m1" and "bt_typed K Q2 m2"
    and "\<And>x m1 m2 r. x \<in> set xs \<Longrightarrow> step x (m1, m2) = Inr r \<Longrightarrow> \<exists>v w. r = (bt_insert (key x) v m1, bt_insert (key x) w m2)
      \<and> Q1 (key x) v \<and> Q2 (key x) w"
  shows "bt_typed (K \<union> key ` set xs) Q1 m1' \<and> bt_typed (K \<union> key ` set xs) Q2 m2'"
  using assms
proof (induction xs arbitrary: m1 m2 K)
  case (Cons x xs)
  from Cons.prems(1) obtain r where r: "step x (m1, m2) = Inr r" "for_each step xs r = Inr (m1', m2')"
    by (auto simp: rbind_Inr_iff)
  from Cons.prems(4) [OF _ r(1)] obtain v w where v: "r = (bt_insert (key x) v m1, bt_insert (key x) w m2)"
    "Q1 (key x) v" "Q2 (key x) w" by auto
  from r(2) [unfolded v(1)] bt_typed_insert [where k = "key x", OF Cons.prems(2) v(2)]
    bt_typed_insert [where k = "key x", OF Cons.prems(3) v(3)]
  have "bt_typed (insert (key x) K \<union> key ` set xs) Q1 m1' \<and> bt_typed (insert (key x) K \<union> key ` set xs) Q2 m2'"
    by (rule Cons.IH) (rule Cons.prems(4), simp_all)
  then show ?case by simp
qed simp

lemma for_each_Inr_each:
  "for_each f xs s = Inr t \<Longrightarrow> x \<in> set xs \<Longrightarrow> \<exists>s t. f x s = Inr t"
  by (induction xs arbitrary: s) (auto simp: rbind_Inr_iff)

section \<open>Sizes of the multiplication states\<close>

definition sender_sized :: "'s mul_sender \<Rightarrow> bool" where
  "sender_sized ms \<longleftrightarrow> length (ms_public_gadget ms) = BATCH_SIZE \<and>
     length (correlation (ms_ote_sender ms)) = KAPPA \<and> length (ote_seeds (ms_ote_sender ms)) = KAPPA"

text \<open>The two vectors of the receiver are as long as the batch the counterparty sent, which the code bounds
  but does not compare with \<open>KAPPA\<close>; \<open>full\<close> says that all batches had \<open>KAPPA\<close> proofs.\<close>

definition receiver_sized :: "bool \<Rightarrow> 's mul_receiver \<Rightarrow> bool" where
  "receiver_sized full mr \<longleftrightarrow> length (mr_public_gadget mr) = BATCH_SIZE \<and>
     length (seeds0 (mr_ote_receiver mr)) = length (seeds1 (mr_ote_receiver mr)) \<and>
     length (seeds0 (mr_ote_receiver mr)) \<le> u16_MAX \<and>
     (full \<longrightarrow> length (seeds0 (mr_ote_receiver mr)) = KAPPA)"

definition batches_full :: "('s, 'p) transmit_mul list \<Rightarrow> bool" where
  "batches_full received \<longleftrightarrow> (\<forall>m \<in> set received. length (mi_enc_proofs m) = KAPPA)"

lemma length_public_gadget: "length (public_gadget S sid nonce) = BATCH_SIZE"
proof -
  have "length (gadget_loop n S sid c) = n" for n c by (induction n arbitrary: c) (simp_all add: Let_def)
  then show ?thesis by (simp add: public_gadget_def)
qed

lemma mul_receiver_init_sized:
  assumes "mul_receiver_init_phase2 S snd0 sid sd proofs nonce = Inr mr"
    and "full \<Longrightarrow> length proofs = KAPPA"
  shows "receiver_sized full mr"
  using assms
  by (auto simp: mul_receiver_init_phase2_def ote_receiver_init_phase2_def ot_sender_phase2_batch_def rbind_Inr_iff
      check_batch_Inr receiver_sized_def length_public_gadget dest!: map_res_length)

lemma mul_sender_init_sized:
  assumes "mul_sender_init_phase2 S sid bits vec_r dlog nonce = Inr ms" and "length bits = KAPPA" "length vec_r = KAPPA"
  shows "sender_sized ms"
  using assms
  by (auto simp: mul_sender_init_phase2_def ote_sender_init_phase2_def ot_receiver_phase2_batch_def rbind_Inr_iff
      check_batch_Inr sender_sized_def length_public_gadget)

section \<open>Well-formed parties\<close>

definition counterparties_of :: "('s, 'p) party \<Rightarrow> party_index list" where
  "counterparties_of p = others (party_range (party_parameters p)) (party_index p)"

definition seeds_wf :: "party_index \<Rightarrow> party_index list \<Rightarrow> seed_pair list \<Rightarrow> bool" where
  "seeds_wf me ks sds \<longleftrightarrow> map index_counterparty sds = ks \<and>
     (\<forall>sp \<in> set sds. length (seed sp) = SECURITY \<and> (lowest_index sp \<longleftrightarrow> me \<le> index_counterparty sp))"

text \<open>One seed and one multiplication state in each direction for every other party of the key, in order;
  the derivation data repeat the share and the key.\<close>

definition party_wf :: "bool \<Rightarrow> ('s, 'p) party \<Rightarrow> bool" where
  "party_wf full p \<longleftrightarrow>
     seeds_wf (party_index p) (counterparties_of p) (seeds (party_zero_share p)) \<and>
     bt_typed (set (counterparties_of p)) (\<lambda>_. sender_sized) (mul_senders p) \<and>
     bt_typed (set (counterparties_of p)) (\<lambda>_. receiver_sized full) (mul_receivers p) \<and>
     dd_poly_point (derivation_data p) = poly_point p \<and> dd_pk (derivation_data p) = pk p"

lemma zero_seed_pairs_wf:
  assumes "zero_seed_pairs S me kept r2 r3 = Inr sds"
  shows "seeds_wf me (map fst (bt_entries kept)) sds"
proof -
  from assms obtain b2 b3 where run: "for_each (seed_pair_step S me b2 b3) (bt_entries kept) [] = Inr sds"
    by (auto simp: zero_seed_pairs_def rbind_Inr_iff split: if_splits)
  have "seeds_wf me ks acc \<Longrightarrow> for_each (seed_pair_step S me b2 b3) es acc = Inr out \<Longrightarrow>
      seeds_wf me (ks @ map fst es) out" for ks es acc out
  proof (induction es arbitrary: ks acc)
    case (Cons e es)
    then obtain acc' where s: "seed_pair_step S me b2 b3 e acc = Inr acc'"
      "for_each (seed_pair_step S me b2 b3) es acc' = Inr out" by (auto simp: rbind_Inr_iff)
    then have "seeds_wf me (ks @ [fst e]) acc'"
      using Cons.prems(1)
      by (auto simp: seed_pair_step_def seeds_wf_def generate_seed_pair_def rbind_Inr_iff split: prod.splits if_splits)
    from Cons.IH [OF this s(2)] show ?case by simp
  qed simp
  from this [OF _ run, of "[]"] show ?thesis by (simp add: seeds_wf_def)
qed

section \<open>Key generation returns well-formed parties\<close>

text \<open>The choice bits of the base transfers are \<open>KAPPA\<close> sampled booleans.\<close>

definition bits_sized :: "'s init_coins \<Rightarrow> bool" where
  "bits_sized coins \<longleftrightarrow> (\<forall>j. length (ic_bits coins j) = KAPPA)"

definition kept_sized :: "('s, 'p) keep_mul \<Rightarrow> bool" where
  "kept_sized k \<longleftrightarrow> length (mik_correlation k) = KAPPA \<and> length (mik_vec_r k) = KAPPA"

lemma ote_sender_init_phase1_sized:
  assumes "ote_sender_init_phase1 S sd bits coins sid = Inr (rcv, corr, vec_r, proofs)"
  shows "corr = bits \<and> length vec_r = length bits \<and> length proofs = length bits"
  using assms
  by (auto simp: ote_sender_init_phase1_def ot_receiver_phase1_batch_def rbind_Inr_iff check_batch_Inr Let_def)

lemma mul_open_typed:
  assumes "mul_open S params me sid coins = Inr (kept, transmit)" and "bits_sized coins"
  shows "bt_typed (set (others (party_range params) me)) (\<lambda>_. kept_sized) kept"
proof -
  have "\<exists>v. fst r = bt_insert (id i) v m \<and> kept_sized v" if "mul_open_step S me sid coins i (m, a) = Inr r" for i m a r
    using that assms(2)
    by (auto simp: mul_open_step_def mul_sender_init_phase1_def rbind_Inr_iff map_err_Inr_iff kept_sized_def bits_sized_def
        dest!: ote_sender_init_phase1_sized)
  then have "bt_typed ({} \<union> id ` set (others (party_range params) me)) (\<lambda>_. kept_sized) kept"
    using assms(1) unfolding mul_open_def for_each_skip others_def [symmetric]
    by (intro for_each_typed [OF _ bt_typed_empty]) auto
  then show ?thesis by simp
qed

text \<open>What an honest party sends has \<open>KAPPA\<close> proofs.\<close>

lemma mul_open_full:
  assumes "mul_open S params me sid coins = Inr (kept, transmit)" and "bits_sized coins"
  shows "batches_full transmit"
proof -
  have "batches_full (snd (kept, transmit))"
    using assms(1) unfolding mul_open_def
  proof (rule for_each_invariant)
    fix i st st'
    assume "batches_full (snd st)" and "(if i = me then Inr st else mul_open_step S me sid coins i st) = Inr st'"
    with assms(2) show "batches_full (snd st')"
      by (auto simp: mul_open_step_def mul_sender_init_phase1_def rbind_Inr_iff map_err_Inr_iff batches_full_def
          bits_sized_def dest!: ote_sender_init_phase1_sized split: if_splits prod.splits)
  qed (simp add: batches_full_def)
  then show ?thesis by simp
qed

lemma inbox_full: "(\<And>j. j \<in> set all \<Longrightarrow> batches_full (MT j)) \<Longrightarrow> batches_full (inbox mi_parties MT all i)"
  by (auto simp: batches_full_def inbox_def)

lemma mul_finish_typed:
  assumes "mul_finish S me sid kept received = Inr (receivers, senders)" and "bt_typed K (\<lambda>_. kept_sized) kept"
    and "full \<Longrightarrow> batches_full received"
  shows "bt_typed K (\<lambda>_. receiver_sized full) receivers \<and> bt_typed K (\<lambda>_. sender_sized) senders"
proof -
  from assms(1) obtain b where b: "collect_by_sender me (bt_contains kept) mi_parties received = Inr b"
    and run: "for_each (mul_finish_step S me sid b) (bt_entries kept) ([], []) = Inr (receivers, senders)"
    by (auto simp: mul_finish_def rbind_Inr_iff split: if_splits)
  have step: "\<exists>v w. r = (bt_insert (fst x) v m1, bt_insert (fst x) w m2) \<and> receiver_sized full v \<and> sender_sized w"
    if "x \<in> set (bt_entries kept)" "mul_finish_step S me sid b x (m1, m2) = Inr r" for x m1 m2 r
  proof -
    obtain j k where x: "x = (j, k)" by (cases x)
    with that(1) assms(2) have k: "kept_sized k" by (auto dest: bt_typed_entry)
    from that(2) obtain m v w where m: "bt_get b j = Some m"
      "mul_receiver_init_phase2 S (mik_ot_sender k) (init_mul_sid me j sid) (mi_seed m) (mi_enc_proofs m) (mik_nonce k) = Inr v"
      "mul_sender_init_phase2 S (init_mul_sid j me sid) (mik_correlation k) (mik_vec_r k) (mi_dlog_proof m) (mi_nonce m) = Inr w"
      "r = (bt_insert j v m1, bt_insert j w m2)"
      unfolding x mul_finish_step_def prod.case rbind_Inr_iff map_err_Inr_iff ok_or_Inr_iff by blast
    have "full \<Longrightarrow> length (mi_enc_proofs m) = KAPPA"
      using collect_by_sender_invariant [OF b] m(1) assms(3) by (auto simp: batches_full_def)
    with mul_receiver_init_sized [OF m(2), of full] m mul_sender_init_sized [OF m(3)] k x show ?thesis
      by (simp add: kept_sized_def) blast
  qed
  have "fst ` set (bt_entries kept) = K"
    using bt.dom_entries [of kept] assms(2) by (metis bt_typed_def)
  with for_each_typed2 [where key = fst, OF run bt_typed_empty bt_typed_empty step] show ?thesis by simp
qed

lemma zero_seeds_typed:
  assumes "zero_commit S params me coins = Inr (kept2, t2)" and "zero_open me kept2 = Inr (kept3, t3)"
    and "zero_seed_pairs S me kept3 r2 r3 = Inr sds"
  shows "seeds_wf me (others (party_range params) me) sds"
proof -
  have "kept3 = bt_tabulate (zero_keep3 coins) (others (party_range params) me)"
    using assms(1,2) by (auto simp: zero_commit_honest zero_open_honest sorted_others sorted_party_range)
  with zero_seed_pairs_wf [OF assms(3)] show ?thesis by (simp add: bt_entries_tabulate comp_def)
qed

lemma dkg_party_wf:
  fixes S :: "('s::field, 'p::ab_group_add) suite"
  assumes "dkg_phase2 S data coins frags = Inr (share, pc, zk, zt, bk, bb)"
    and "dkg_phase3 S data coins' zk bk = Inr (zk3, zt3, mk, mt, bb3)" and "bits_sized (dc_init coins')"
    and "dkg_phase4 S data share pcs zk3 r2 r3 mk mr b2 b3 address_fn = Inr (p, pkg)"
    and "full \<Longrightarrow> batches_full mr"
  shows "party_wf full p \<and> party_parameters p = sd_parameters data \<and> party_index p = sd_party_index data \<and>
    session_id p = sd_session_id data \<and> pk p = verifying_key pkg"
proof -
  let ?others = "others (party_range (sd_parameters data)) (sd_party_index data)"
  from assms(1) have z2: "zero_commit S (sd_parameters data) (sd_party_index data) (dc_init coins) = Inr (zk, zt)"
    by (auto simp: dkg_phase2_def rbind_Inr_iff commit_def)
  from assms(2) have z3: "zero_open (sd_party_index data) zk = Inr (zk3, zt3)"
    and m3: "mul_open S (sd_parameters data) (sd_party_index data) (sd_session_id data) (dc_init coins') = Inr (mk, mt)"
    by (auto simp: dkg_phase3_def rbind_Inr_iff)
  from assms(4) obtain key shares sds receivers senders code where p4:
    "zero_seed_pairs S (sd_party_index data) zk3 r2 r3 = Inr sds"
    "mul_finish S (sd_party_index data) (sd_session_id data) mk mr = Inr (receivers, senders)"
    "dkg_finish data share key shares sds receivers senders code address_fn = (p, pkg)"
    by (auto simp: dkg_phase4_def Let_def rbind_Inr_iff map_err_Inr_iff split: if_splits)
  have "bt_typed (set ?others) (\<lambda>_. receiver_sized full) receivers \<and> bt_typed (set ?others) (\<lambda>_. sender_sized) senders"
    by (rule mul_finish_typed [OF p4(2) mul_open_typed [OF m3 assms(3)] assms(5)])
  with zero_seeds_typed [OF z2 z3 p4(1)] p4(3) show ?thesis
    by (auto simp: dkg_finish_def party_wf_def counterparties_of_def zero_share_initialize_def PublicKeyPackage_new_def)
qed

section \<open>Derivation and refresh keep parties well-formed\<close>

lemma derived_wf:
  assumes "party_wf full p" and "q = party_with p address_fn d"
  shows "party_wf full q \<and> party_parameters q = party_parameters p \<and> party_index q = party_index p"
  using assms by (simp add: party_with_def party_wf_def counterparties_of_def)

lemma derivation_party_wf:
  assumes "party_wf full p"
  shows "party_derive_child S p number address_fn = Inr q \<Longrightarrow>
      party_wf full q \<and> party_parameters q = party_parameters p \<and> party_index q = party_index p"
    and "party_derive_from_path S p path address_fn = Inr q \<Longrightarrow>
      party_wf full q \<and> party_parameters q = party_parameters p \<and> party_index q = party_index p"
proof -
  assume "party_derive_child S p number address_fn = Inr q"
  then obtain d where "q = party_with p address_fn d" by (auto simp: party_derive_child_def rbind_Inr_iff)
  then show "party_wf full q \<and> party_parameters q = party_parameters p \<and> party_index q = party_index p"
    by (rule derived_wf [OF assms])
next
  assume "party_derive_from_path S p path address_fn = Inr q"
  then obtain d where "q = party_with p address_fn d" by (auto simp: party_derive_from_path_def rbind_Inr_iff)
  then show "party_wf full q \<and> party_parameters q = party_parameters p \<and> party_index q = party_index p"
    by (rule derived_wf [OF assms])
qed

lemma wipe_on_success_Inr: "fst (wipe_on_success p result) = Inr q \<longleftrightarrow> result = Inr q"
  by (cases result) (simp_all add: wipe_on_success_def)

lemma refreshed_party_wf:
  assumes "party_wf full p" and "seeds_wf (party_index p) (counterparties_of p) sds"
    and "bt_typed (set (counterparties_of p)) (\<lambda>_. sender_sized) senders"
    and "bt_typed (set (counterparties_of p)) (\<lambda>_. receiver_sized full) receivers"
  shows "party_wf full (refreshed_party p sid share (zero_share_initialize sds) senders receivers)"
  using assms by (simp add: party_wf_def counterparties_of_def refreshed_party_def zero_share_initialize_def)

lemma refresh_complete_party_wf:
  fixes S :: "('s::field, 'p::ab_group_add) suite"
  assumes "party_wf full p"
    and "refresh_complete_phase2 S p pcoins coins sid frags = Inr (corr, pc, zk, zt)"
    and "refresh_complete_phase3 S p coins' sid zk = Inr (zk3, zt3, mk, mt)" and "bits_sized coins'"
    and "fst (refresh_complete_phase4 S p sid corr pcs zk3 r2 r3 mk mr) = Inr q" and "full \<Longrightarrow> batches_full mr"
  shows "party_wf full q"
proof -
  from assms(2) have z2: "zero_commit S (party_parameters p) (party_index p) coins = Inr (zk, zt)"
    by (auto simp: refresh_complete_phase2_def rbind_Inr_iff)
  from assms(3) have z3: "zero_open (party_index p) zk = Inr (zk3, zt3)"
    and m3: "mul_open S (party_parameters p) (party_index p) sid coins' = Inr (mk, mt)"
    by (auto simp: refresh_complete_phase3_def rbind_Inr_iff)
  from assms(5) obtain sds receivers senders share where p4:
    "zero_seed_pairs S (party_index p) zk3 r2 r3 = Inr sds"
    "mul_finish S (party_index p) sid mk mr = Inr (receivers, senders)"
    "q = refreshed_party p sid share (zero_share_initialize sds) senders receivers"
    by (auto simp: refresh_complete_phase4_def wipe_on_success_Inr rbind_Inr_iff map_err_Inr_iff refresh_zero_share_def)
  show ?thesis
    unfolding p4(3) using zero_seeds_typed [OF z2 z3 p4(1)] mul_finish_typed [OF p4(2) mul_open_typed [OF m3 assms(4)] assms(6)]
    by (intro refreshed_party_wf [OF assms(1)]) (simp_all add: counterparties_of_def)
qed

text \<open>The faster refresh only returns when the vectors it re-randomizes have at least \<open>KAPPA\<close> entries.\<close>

definition ote_lengths :: "ote_sender \<times> ote_receiver \<Rightarrow> nat \<times> nat \<times> nat \<times> nat" where
  "ote_lengths st = (case st of (s, r) \<Rightarrow>
     (length (correlation s), length (ote_seeds s), length (seeds0 r), length (seeds1 r)))"

lemma refresh_step_lengths:
  "refresh_sender_step S sid me their sd n s = Inr s' \<Longrightarrow>
     length (correlation s') = length (correlation s) \<and> length (ote_seeds s') = length (ote_seeds s)"
  "refresh_receiver_step S sid me their sd n r = Inr r' \<Longrightarrow>
     length (seeds0 r') = length (seeds0 r) \<and> length (seeds1 r') = length (seeds1 r) \<and> n < length (seeds0 r)"
  by (auto simp: refresh_sender_step_def refresh_receiver_step_def Let_def split: if_split_asm)

lemma refresh_ote_lengths:
  assumes "refresh_ote S sid me their sd st = Inr st'"
  shows "ote_lengths st' = ote_lengths st \<and> KAPPA \<le> length (seeds0 (snd st))"
proof -
  let ?step = "\<lambda>i (s, r). rbind (refresh_sender_step S sid me their sd i s) (\<lambda>s.
    rbind (refresh_receiver_step S sid me their sd i r) (\<lambda>r. Inr (s, r)))"
  have "for_each ?step [0..<n] st = Inr out \<Longrightarrow> ote_lengths out = ote_lengths st \<and> n \<le> length (seeds0 (snd st))" for n out
  proof (induction n arbitrary: out)
    case (Suc n)
    then obtain mid where mid: "for_each ?step [0..<n] st = Inr mid" "?step n mid = Inr out"
      by (auto simp: for_each_append rbind_Inr_iff)
    from mid(2) have "ote_lengths out = ote_lengths mid \<and> n < length (seeds0 (snd mid))"
      by (cases mid) (auto simp: ote_lengths_def rbind_Inr_iff dest!: refresh_step_lengths)
    with Suc.IH [OF mid(1)] show ?case by (auto simp: ote_lengths_def split: prod.splits)
  qed simp
  with assms show ?thesis unfolding refresh_ote_def by blast
qed

lemma refresh_party_wf:
  fixes S :: "('s::field, 'p::ab_group_add) suite"
  assumes wf: "party_wf full p"
    and "refresh_phase2 S p pcoins coins sid frags = Inr (corr, pc, k2, t2)"
    and "refresh_phase3 p k2 = Inr (k3, t3)"
    and "fst (refresh_phase4 S p sid corr pcs k3 r2 r3) = Inr q"
  shows "party_wf full q"
proof -
  from assms(2) have z2: "zero_commit S (party_parameters p) (party_index p) coins = Inr (k2, t2)"
    by (auto simp: refresh_phase2_def rbind_Inr_iff)
  from assms(4) obtain sds senders receivers share where p4:
    "zero_seed_pairs S (party_index p) k3 r2 r3 = Inr sds"
    "for_each (refresh_mul_step S p sid) sds ([], []) = Inr (senders, receivers)"
    "q = refreshed_party p sid share (zero_share_initialize sds) senders receivers"
    by (auto simp: refresh_phase4_def wipe_on_success_Inr rbind_Inr_iff map_err_Inr_iff)
  have sds: "seeds_wf (party_index p) (counterparties_of p) sds"
    unfolding counterparties_of_def by (rule zero_seeds_typed [OF z2 assms(3) [unfolded refresh_phase3_def] p4(1)])
  have step: "\<exists>v w. r = (bt_insert (index_counterparty sp) v m1, bt_insert (index_counterparty sp) w m2) \<and>
      sender_sized v \<and> receiver_sized full w"
    if sp: "refresh_mul_step S p sid sp (m1, m2) = Inr r" for sp m1 m2 r
  proof -
    from sp obtain ms mr s' r' where m: "bt_get (mul_senders p) (index_counterparty sp) = Some ms"
      "bt_get (mul_receivers p) (index_counterparty sp) = Some mr"
      "refresh_ote S sid (party_index p) (index_counterparty sp) (seed sp) (ms_ote_sender ms, mr_ote_receiver mr) = Inr (s', r')"
      "r = (bt_insert (index_counterparty sp) \<lparr>ms_public_gadget = ms_public_gadget ms, ms_ote_sender = s'\<rparr> m1,
        bt_insert (index_counterparty sp) \<lparr>mr_public_gadget = mr_public_gadget mr, mr_ote_receiver = r'\<rparr> m2)"
      by (auto simp: refresh_mul_step_def Let_def rbind_Inr_iff ok_or_Inr_iff)
    have "sender_sized ms" "receiver_sized full mr"
      using wf m(1,2) by (auto simp: party_wf_def bt_typed_def)
    with refresh_ote_lengths [OF m(3)]
    have "sender_sized \<lparr>ms_public_gadget = ms_public_gadget ms, ms_ote_sender = s'\<rparr> \<and>
        receiver_sized full \<lparr>mr_public_gadget = mr_public_gadget mr, mr_ote_receiver = r'\<rparr>"
      by (auto simp: sender_sized_def receiver_sized_def ote_lengths_def)
    with m(4) show ?thesis by blast
  qed
  have "index_counterparty ` set sds = set (counterparties_of p)"
    using sds by (metis seeds_wf_def set_map)
  with for_each_typed2 [where key = index_counterparty, OF p4(2) bt_typed_empty bt_typed_empty step]
  show ?thesis unfolding p4(3) by (intro refreshed_party_wf [OF wf sds]) simp_all
qed

section \<open>Dealt parties are well-formed\<close>

definition bt_within :: "'k::linorder set \<Rightarrow> ('v \<Rightarrow> bool) \<Rightarrow> ('k, 'v) btree \<Rightarrow> bool" where
  "bt_within K Q m \<longleftrightarrow> bt_ok m \<and> (\<forall>k v. bt_get m k = Some v \<longrightarrow> k \<in> K \<and> Q v)"

lemma bt_within_insert: "bt_within K Q m \<Longrightarrow> k \<in> K \<Longrightarrow> Q v \<Longrightarrow> bt_within K Q (bt_insert k v m)"
  by (auto simp: bt_within_def bt_laws split: if_splits)

lemma bt_within_typed:
  "bt_within K Q m \<Longrightarrow> (\<And>k. k \<in> K \<Longrightarrow> bt_get m k \<noteq> None) \<Longrightarrow> bt_typed K (\<lambda>_. Q) m"
  unfolding bt_within_def bt_typed_def dom_def by blast

lemma list_update_all:
  "\<forall>a < length xs. Q a (xs ! a) \<Longrightarrow> Q i y \<Longrightarrow> \<forall>a < length xs. Q a (xs[i := y] ! a)"
  by (cases "i < length xs") (auto simp: nth_list_update)

text \<open>The map of party \<open>a + 1\<close> has counterparties of that party as keys.\<close>

definition dealt_typed ::
  "parameters \<Rightarrow> (party_index, 's mul_receiver) btree list \<times> (party_index, 's mul_sender) btree list \<Rightarrow> bool" where
  "dealt_typed params state \<longleftrightarrow>
     length (fst state) = unat (share_count params) \<and> length (snd state) = unat (share_count params) \<and>
     (\<forall>a < length (fst state). bt_within (set (others (party_range params) (index_of_nat (Suc a)))) (receiver_sized True) (fst state ! a)) \<and>
     (\<forall>a < length (snd state). bt_within (set (others (party_range params) (index_of_nat (Suc a)))) sender_sized (snd state ! a))"

lemma dealt_states_sized: "receiver_sized True (dealt_receiver coins r s)" "sender_sized (dealt_sender coins r s)"
  by (simp_all add: receiver_sized_def sender_sized_def dealt_receiver_def dealt_sender_def dealt_ote_receiver_def
      dealt_ote_sender_def Let_def ote_sizes u16_MAX_def)

lemma deal_step_typed:
  assumes "dealt_typed params state" and "r \<in> set (share_range params)" and "s \<in> set (share_range params)"
  shows "dealt_typed params (deal_step coins (r, s) state)"
proof (cases "r = s")
  case True
  then show ?thesis using assms(1) by (simp add: deal_step_def split_beta)
next
  case False
  obtain R T where state: "state = (R, T)" by fastforce
  have b: "0 < r" "r < 256" "0 < s" "s < 256" using assms(2,3) share_range_bound by auto
  then have other: "index_of_nat s \<in> set (others (party_range params) (index_of_nat (Suc (r - 1))))"
    "index_of_nat r \<in> set (others (party_range params) (index_of_nat (Suc (s - 1))))"
    using assms(2,3) False by (auto simp: party_range_def index_of_nat_inj)
  have len: "length R = unat (share_count params)" "length T = unat (share_count params)"
    and R: "\<forall>a < length R. bt_within (set (others (party_range params) (index_of_nat (Suc a)))) (receiver_sized True) (R ! a)"
    and T: "\<forall>a < length T. bt_within (set (others (party_range params) (index_of_nat (Suc a)))) sender_sized (T ! a)"
    using assms(1) by (simp_all add: dealt_typed_def state)
  have at: "r - 1 < length R" "s - 1 < length T" using assms(2,3) len by (auto simp: share_range_def)
  have "deal_step coins (r, s) state = (R[r - 1 := bt_insert (index_of_nat s) (dealt_receiver coins r s) (R ! (r - 1))],
      T[s - 1 := bt_insert (index_of_nat r) (dealt_sender coins r s) (T ! (s - 1))])"
    using False by (simp add: deal_step_def state)
  then show ?thesis
    using len list_update_all [OF R bt_within_insert [OF R [rule_format, OF at(1)] other(1) dealt_states_sized(1)]]
      list_update_all [OF T bt_within_insert [OF T [rule_format, OF at(2)] other(2) dealt_states_sized(2)]]
    by (simp add: dealt_typed_def)
qed

lemma deal_multiplications_typed: "dealt_typed params (deal_multiplications params coins)"
  unfolding deal_multiplications_def
proof (rule fold_invariant [where Q = "\<lambda>(r, s). r \<in> set (share_range params) \<and> s \<in> set (share_range params)"])
  show "dealt_typed params (replicate (unat (share_count params)) [], replicate (unat (share_count params)) [])"
    by (simp add: dealt_typed_def bt_within_def bt_laws)
qed (auto intro: deal_step_typed)

lemma full_sized: "receiver_sized True mr \<Longrightarrow> receiver_sized full mr"
  by (simp add: receiver_sized_def)

lemma full_wf: "party_wf True p \<Longrightarrow> party_wf full p"
  by (simp add: party_wf_def bt_typed_def full_sized)

lemma dealt_party_wf:
  assumes "\<And>l h. length (rk_common_seed coins l h) = SECURITY"
    and "p \<in> set (fst (re_key S coins params sid secret_key option_chain_code address_fn))"
  shows "party_wf full p \<and> party_parameters p = params"
proof -
  obtain R T where RT: "deal_multiplications params coins = (R, T)" by fastforce
  from assms(2) obtain i key polynomial code where i: "i \<in> set (share_range params)"
    "p = dealt_party S params sid key polynomial code
       (map (dealt_zero_share params (common_seeds params coins)) (share_range params)) R T address_fn i"
    by (auto simp: re_key_def RT Let_def)
  have b: "1 \<le> i" "i \<le> unat (share_count params)" using i(1) by (auto simp: share_range_def)
  have nth: "share_range params ! (i - 1) = i" "i - 1 < length (share_range params)"
    using b by (simp_all add: share_range_def del: upt_Suc)
  have p: "party_index p = index_of_nat i" "party_parameters p = params" "mul_senders p = T ! (i - 1)"
    "mul_receivers p = R ! (i - 1)" "dd_poly_point (derivation_data p) = poly_point p" "dd_pk (derivation_data p) = pk p"
    "party_zero_share p = pairwise_seeds (party_range params) (dealt_half coins) (index_of_nat i)"
    using nth dealt_zero_share_pairwise [OF i(1) assms(1)] by (simp_all add: i(2) dealt_party_def Let_def)
  have wf_seeds: "seeds_wf (index_of_nat i) (others (party_range params) (index_of_nat i)) (seeds (party_zero_share p))"
    unfolding p(7) by (auto simp: seeds_wf_def pairwise_seeds_def zero_share_initialize_def generate_seed_pair_def others_def comp_def)
  have at: "i - 1 < unat (share_count params)" "Suc (i - 1) = i" using b by simp_all
  have within: "bt_within (set (others (party_range params) (index_of_nat i))) (receiver_sized True) (R ! (i - 1))"
    "bt_within (set (others (party_range params) (index_of_nat i))) sender_sized (T ! (i - 1))"
    using deal_multiplications_typed [of params coins] at unfolding RT dealt_typed_def fst_conv snd_conv by metis+
  have "bt_get (R ! (i - 1)) j \<noteq> None \<and> bt_get (T ! (i - 1)) j \<noteq> None"
    if j: "j \<in> set (others (party_range params) (index_of_nat i))" for j
  proof -
    from j obtain k where "k \<in> set (share_range params)" "j = index_of_nat k" "k \<noteq> i" by (auto simp: party_range_def)
    with dealt_pair [OF RT i(1), of k] dealt_pair [OF RT _ i(1), of k] show ?thesis by simp
  qed
  then have "bt_typed (set (others (party_range params) (index_of_nat i))) (\<lambda>_. sender_sized) (T ! (i - 1))"
    "bt_typed (set (others (party_range params) (index_of_nat i))) (\<lambda>_. receiver_sized True) (R ! (i - 1))"
    using within bt_within_typed by blast+
  with wf_seeds p have "party_wf True p" by (simp add: party_wf_def counterparties_of_def)
  with p(2) show ?thesis using full_wf by blast
qed

section \<open>The life of a party\<close>

text \<open>The parties one can come to hold: generated by phases 2 to 4 or dealt, then derived and refreshed at will.  All
  received data and all sampled values are arbitrary, except that a sampled vector of choice bits
  has \<open>KAPPA\<close> entries, and that with \<open>full\<close> every batch of a base transfer that was received has \<open>KAPPA\<close>
  proofs.\<close>

inductive party_life ::
  "bool \<Rightarrow> ('s::field, 'p::ab_group_add) suite \<Rightarrow> parameters \<Rightarrow> party_index \<Rightarrow> ('s, 'p) party \<Rightarrow> bool"
  for full S params me where
  generated: "dkg_phase2 S (dkg_data params sid me) coins frags = Inr (share, pc, zk, zt, bk, bb) \<Longrightarrow>
    dkg_phase3 S (dkg_data params sid me) coins' zk bk = Inr (zk3, zt3, mk, mt, bb3) \<Longrightarrow> bits_sized (dc_init coins') \<Longrightarrow>
    (full \<Longrightarrow> batches_full mr) \<Longrightarrow>
    dkg_phase4 S (dkg_data params sid me) share pcs zk3 r2 r3 mk mr b2 b3 address_fn = Inr (p, pkg) \<Longrightarrow>
    party_life full S params me p"
| dealt: "(\<And>l h. length (rk_common_seed dealer l h) = SECURITY) \<Longrightarrow>
    p \<in> set (fst (re_key S dealer params sid secret_key option_chain_code address_fn)) \<Longrightarrow>
    party_index p = me \<Longrightarrow> party_life full S params me p"
| derived_child: "party_life full S params me p \<Longrightarrow> party_derive_child S p number address_fn = Inr q \<Longrightarrow>
    party_life full S params me q"
| derived_path: "party_life full S params me p \<Longrightarrow> party_derive_from_path S p path address_fn = Inr q \<Longrightarrow>
    party_life full S params me q"
| refreshed: "party_life full S params me p \<Longrightarrow> refresh_phase2 S p pcoins coins sid frags = Inr (corr, pc, k2, t2) \<Longrightarrow>
    refresh_phase3 p k2 = Inr (k3, t3) \<Longrightarrow> fst (refresh_phase4 S p sid corr pcs k3 r2 r3) = Inr q \<Longrightarrow>
    party_life full S params me q"
| refreshed_completely: "party_life full S params me p \<Longrightarrow>
    refresh_complete_phase2 S p pcoins coins sid frags = Inr (corr, pc, zk, zt) \<Longrightarrow>
    refresh_complete_phase3 S p coins' sid zk = Inr (zk3, zt3, mk, mt) \<Longrightarrow> bits_sized coins' \<Longrightarrow>
    (full \<Longrightarrow> batches_full mr) \<Longrightarrow> fst (refresh_complete_phase4 S p sid corr pcs zk3 r2 r3 mk mr) = Inr q \<Longrightarrow> party_life full S params me q"

lemma refreshed_party_index:
  "fst (refresh_phase4 S p sid corr pcs k3 r2 r3) = Inr q \<Longrightarrow>
     party_parameters q = party_parameters p \<and> party_index q = party_index p"
  "fst (refresh_complete_phase4 S p sid corr pcs zk3 r2 r3 mk mr) = Inr q \<Longrightarrow>
     party_parameters q = party_parameters p \<and> party_index q = party_index p"
  by (auto simp: refresh_phase4_def refresh_complete_phase4_def wipe_on_success_Inr rbind_Inr_iff refreshed_party_def)

lemma party_life_wf:
  assumes "party_life full S params me p"
  shows "party_wf full p \<and> party_parameters p = params \<and> party_index p = me"
  using assms
proof induction
  case generated
  with dkg_party_wf [where full = full, OF generated(1-3,5,4)] show ?case by simp
next
  case dealt
  with dealt_party_wf [where full = full, OF dealt(1,2)] show ?case by simp
next
  case (derived_child p number address_fn q)
  with derivation_party_wf(1) [where full = full, OF _ derived_child.hyps(2)] show ?case by simp
next
  case (derived_path p path address_fn q)
  with derivation_party_wf(2) [where full = full, OF _ derived_path.hyps(2)] show ?case by simp
next
  case refreshed
  with refresh_party_wf [where full = full, OF _ refreshed(2-4)] refreshed_party_index(1) [OF refreshed(4)] show ?case by simp
next
  case refreshed_completely
  with refresh_complete_party_wf [where full = full, OF _ refreshed_completely(2-4,6,5)]
    refreshed_party_index(2) [OF refreshed_completely(6)] show ?case by simp
qed

lemma counterparty_known:
  assumes "party_wf full p" and "as_u8 j \<noteq> 0" and "as_u8 j \<le> share_count (party_parameters p)" and "j \<noteq> party_index p"
  shows "\<exists>ms mr. bt_get (mul_senders p) j = Some ms \<and> bt_get (mul_receivers p) j = Some mr"
proof -
  have "unat (as_u8 j) \<noteq> 0" using assms(2) by (simp add: unat_eq_0)
  then have "j \<in> set (counterparties_of p)"
    using assms(3,4) by (simp add: counterparties_of_def set_party_range word_le_nat_alt)
  with assms(1) show ?thesis unfolding party_wf_def by (meson bt_typed_get)
qed

lemma sign_phase1_finds_states:
  assumes "party_wf full p" and "\<forall>j \<in> set (counterparties data). as_u8 j \<noteq> 0"
  shows "sign_phase1 S p data coins \<noteq> Inl (recoverable (party_index p) (MissingMulState j))"
proof
  assume fails: "sign_phase1 S p data coins = Inl (recoverable (party_index p) (MissingMulState j))"
  have check: "check_counterparty p c seen \<noteq> Inl (recoverable (party_index p) (MissingMulState j))"
    if "c \<in> set (counterparties data)" for c seen
    using counterparty_known [of full p c] assms that
    by (auto simp: check_counterparty_def recoverable_def bt_contains_def not_less)
  have cps: "\<exists>seen s. check_counterparty p c seen = Inr s"
    if "for_each (check_counterparty p) (counterparties data) [] = Inr s" "c \<in> set (counterparties data)" for c s
    using for_each_Inr_each that by metis
  from fails consider
      c seen where "c \<in> set (counterparties data)" "check_counterparty p c seen = Inl (recoverable (party_index p) (MissingMulState j))"
    | s where "for_each (check_counterparty p) (counterparties data) [] = Inr s"
        "for_each (sign_phase1_step S p data coins (pmul S (generator S) (sc_instance_key coins))) (counterparties data) ([], []) =
           Inl (recoverable (party_index p) (MissingMulState j))"
  proof (cases "sign_phase1_checks p data")
    case (Inl e)
    with fails have "for_each (check_counterparty p) (counterparties data) [] = Inl (recoverable (party_index p) (MissingMulState j))"
      by (auto simp: sign_phase1_def sign_phase1_checks_def recoverable_def split: if_splits)
    with that(1) show thesis by (auto dest: for_each_error)
  next
    case (Inr s)
    then have "for_each (check_counterparty p) (counterparties data) [] = Inr s"
      by (auto simp: sign_phase1_checks_def split: if_splits)
    moreover have "for_each (sign_phase1_step S p data coins (pmul S (generator S) (sc_instance_key coins)))
        (counterparties data) ([], []) = Inl (recoverable (party_index p) (MissingMulState j))"
      using fails by (auto simp: sign_phase1_def Inr Let_def rbind_Inl_iff)
    ultimately show thesis by (rule that(2))
  qed
  then show False
  proof cases
    case 1
    with check show ?thesis by blast
  next
    case (2 s)
    from for_each_error [OF 2(2)] obtain c acc where c: "c \<in> set (counterparties data)"
      "sign_phase1_step S p data coins (pmul S (generator S) (sc_instance_key coins)) c acc =
         Inl (recoverable (party_index p) (MissingMulState j))" by blast
    with cps [OF 2(1) c(1)] show ?thesis
      by (auto simp: sign_phase1_step_def check_counterparty_def bt_contains_def rbind_Inl_iff map_err_Inl_iff res_simps
          recoverable_def Let_def split: prod.splits if_splits)
  qed
qed

text \<open>What phase 1 admitted and kept: a state for every counterparty.  The messages phase 2 admits come from
  exactly these, and phase 2 keeps a state for each of their senders.\<close>

lemma sign_phase1_keeps:
  assumes "sign_phase1 S p data coins = Inr (uk, kept, transmit)"
  shows "distinct (counterparties data) \<and> (\<forall>c \<in> set (counterparties data).
    bt_get (mul_senders p) c \<noteq> None \<and> bt_get (mul_receivers p) c \<noteq> None \<and> bt_get kept c \<noteq> None)"
proof -
  let ?step = "sign_phase1_step S p data coins (pmul S (generator S) (sc_instance_key coins))"
  from assms obtain seen where seen: "for_each (check_counterparty p) (counterparties data) [] = Inr seen"
    and run: "for_each ?step (counterparties data) ([], []) = Inr (kept, transmit)"
    by (auto simp: sign_phase1_def sign_phase1_checks_def Let_def rbind_Inr_iff split: if_splits)
  have "\<exists>v. fst r = bt_insert (id c) v m \<and> True" if "?step c (m, a) = Inr r" for c m a r
    using that by (auto simp: sign_phase1_step_def Let_def rbind_Inr_iff split: prod.splits)
  then have "bt_typed ({} \<union> id ` set (counterparties data)) (\<lambda>_ _. True) kept"
    using run by (intro for_each_typed [OF _ bt_typed_empty]) auto
  then have "\<forall>c \<in> set (counterparties data). bt_get kept c \<noteq> None" by (auto simp: bt_typed_def dom_def)
  with check_counterparties_Inr [OF seen] show ?thesis by simp
qed

lemma mul_abort_not_missing:
  "recoverable me (MissingMulState j) \<noteq> mul_abort me' c e" "mul_abort me' c e \<noteq> recoverable me (MissingMulState j)"
  by (cases "mul_kind e"; simp add: mul_abort_def recoverable_def ban_def)+

lemma ban_not_recoverable:
  "ban i c r \<noteq> recoverable i' r'" "recoverable i' r' \<noteq> ban i c r" "recoverable i q = recoverable i' r' \<longleftrightarrow> i = i' \<and> q = r'"
  by (simp_all add: ban_def recoverable_def)

lemma sign_phase2_missing:
  assumes "sign_phase2 S p data coins uk kept received = Inl (recoverable me (MissingMulState j))"
  obtains l where "phase2_ready S p data received"
    "for_each (sign_phase2_step S p data coins uk kept (poly_point p * l + u1_zeta uk)
       (pmul S (generator S) (poly_point p * l + u1_zeta uk))) received ([], []) =
     Inl (recoverable me (MissingMulState j))"
proof -
  have "sign_phase2_checks S p data received \<noteq> Inl (recoverable me (MissingMulState j))"
    by (auto simp: sign_phase2_checks_def rbind_Inl_iff check_route_def check_version_def check_root_def Let_def
        recoverable_def split: if_splits dest!: for_each_error check_each_Inl)
  with assms that show thesis
    by (auto simp: sign_phase2_def Let_def rbind_Inl_iff res_simps sign_phase2_checks_Inr recoverable_def)
qed

lemma sign_phase2_finds_states:
  assumes "sign_phase1 S p data coins = Inr (uk, kept, transmit)"
  shows "sign_phase2 S p data coins' uk' kept received \<noteq> Inl (recoverable (party_index p) (MissingMulState j))"
proof
  assume fails: "sign_phase2 S p data coins' uk' kept received = Inl (recoverable (party_index p) (MissingMulState j))"
  then obtain l where ready: "phase2_ready S p data received" and run:
    "for_each (sign_phase2_step S p data coins' uk' kept (poly_point p * l + u1_zeta uk')
       (pmul S (generator S) (poly_point p * l + u1_zeta uk'))) received ([], []) =
     Inl (recoverable (party_index p) (MissingMulState j))"
    by (rule sign_phase2_missing)
  from for_each_error [OF run] obtain m acc where m: "m \<in> set received"
    "sign_phase2_step S p data coins' uk' kept (poly_point p * l + u1_zeta uk')
       (pmul S (generator S) (poly_point p * l + u1_zeta uk')) m acc =
     Inl (recoverable (party_index p) (MissingMulState j))" by blast
  from m(1) ready have "sender (t1_parties m) \<in> set (counterparties data)" by (simp add: phase2_ready_def)
  with sign_phase1_keeps [OF assms] m(2) show False
    by (auto simp: sign_phase2_step_def Let_def rbind_Inl_iff map_err_Inl_iff res_simps mul_abort_not_missing split: prod.splits)
qed

lemma sign_phase2_keeps:
  assumes "sign_phase1 S p data coins = Inr (uk, kept, transmit)"
    and "sign_phase2 S p data coins' uk' kept received = Inr (uk2, kept2, transmit2)"
    and "c \<in> set (counterparties data)"
  shows "bt_get kept2 c \<noteq> None"
proof -
  from assms(2) obtain l where ready: "phase2_ready S p data received" and run:
    "for_each (sign_phase2_step S p data coins' uk' kept (poly_point p * l + u1_zeta uk')
       (pmul S (generator S) (poly_point p * l + u1_zeta uk'))) received ([], []) = Inr (kept2, transmit2)"
    by (auto simp: sign_phase2_def Let_def rbind_Inr_iff sign_phase2_checks_Inr)
  have "\<exists>v. fst r = bt_insert ((sender \<circ> t1_parties) m) v keep \<and> True"
    if "sign_phase2_step S p data coins' uk' kept (poly_point p * l + u1_zeta uk')
       (pmul S (generator S) (poly_point p * l + u1_zeta uk')) m (keep, a) = Inr r" for m keep a r
    using that by (auto simp: sign_phase2_step_def Let_def rbind_Inr_iff)
  then have typed: "bt_typed ({} \<union> (sender \<circ> t1_parties) ` set received) (\<lambda>_ _. True) kept2"
    using run by (intro for_each_typed [OF _ bt_typed_empty]) auto
  let ?senders = "map (sender \<circ> t1_parties) received"
  have "set ?senders \<subseteq> set (counterparties data)" using ready by (auto simp: phase2_ready_def)
  moreover have "card (set ?senders) = card (set (counterparties data))"
    using ready sign_phase1_keeps [OF assms(1)] distinct_card [of ?senders] distinct_card [of "counterparties data"]
    by (simp add: phase2_ready_def)
  ultimately have "set ?senders = set (counterparties data)" by (intro card_subset_eq) simp_all
  with typed assms(3) show ?thesis by (auto simp: bt_typed_def dom_def)
qed

lemma sign_phase3_finds_states:
  assumes "sign_phase1 S p data coins = Inr (uk, kept, transmit)"
    and "sign_phase2 S p data coins' uk' kept received = Inr (uk2, kept2, transmit2)"
  shows "sign_phase3 S p data uk2' kept2 received2 \<noteq> Some (Inl (recoverable (party_index p) (MissingMulState j)))"
proof
  assume "sign_phase3 S p data uk2' kept2 received2 = Some (Inl (recoverable (party_index p) (MissingMulState j)))"
  then have "for_each (sign_phase3_step S p data kept2) received2 (phase3_start uk2') =
      Inl (recoverable (party_index p) (MissingMulState j))"
    by (auto simp: sign_phase3_def sign_phase3_sums_def Let_def rbind_Inl_iff recoverable_def
        split: sum.splits if_splits)
  from for_each_error [OF this] obtain m acc where m:
    "sign_phase3_step S p data kept2 m acc = Inl (recoverable (party_index p) (MissingMulState j))" by blast
  have "sender (t2_parties m) \<in> set (counterparties data) \<longrightarrow>
      bt_get kept2 (sender (t2_parties m)) \<noteq> None \<and> bt_get (mul_receivers p) (sender (t2_parties m)) \<noteq> None"
    using sign_phase2_keeps [OF assms] sign_phase1_keeps [OF assms(1)] by blast
  with m show False
    by (auto simp: sign_phase3_step_def check_message3_def check_gammas_def Let_def rbind_Inl_iff rbind_Inr_iff
        map_err_Inl_iff res_simps mul_abort_not_missing ban_not_recoverable split: if_splits)
qed

text \<open>C14: the invariant of parties.  However a party was generated or dealt, derived and refreshed, with
  whatever received data, it has for every other party of the key, in order, one zero-share seed and one
  multiplication state in each direction, and its derivation data repeat its share and key.  As a
  sender it holds a gadget of \<open>BATCH_SIZE\<close> elements and \<open>KAPPA\<close> correlation bits and seeds; as a receiver
  such a gadget and two vectors of seeds of one length, which is \<open>KAPPA\<close> when every base transfer it
  received had \<open>KAPPA\<close> proofs (\<open>full\<close>): the code does not check that, see C15.  So signing finds the state of
  every counterparty it has admitted, in phase 1 and, with whatever messages, in phases 2 and 3 of the
  same run.\<close>

theorem party_life_typed:
  fixes S :: "('s::field, 'p::ab_group_add) suite"
  assumes "party_life full S params me p"
  shows "party_wf full p \<and> party_parameters p = params \<and> party_index p = me \<and>
    (\<forall>data coins j. (\<forall>c \<in> set (counterparties data). as_u8 c \<noteq> 0) \<longrightarrow>
       sign_phase1 S p data coins \<noteq> Inl (recoverable me (MissingMulState j))) \<and>
    (\<forall>data coins uk kept transmit coins' uk' received j.
       sign_phase1 S p data coins = Inr (uk, kept, transmit) \<longrightarrow>
       sign_phase2 S p data coins' uk' kept received \<noteq> Inl (recoverable me (MissingMulState j))) \<and>
    (\<forall>data coins uk kept transmit coins' uk' received uk2 kept2 transmit2 uk2' received2 j.
       sign_phase1 S p data coins = Inr (uk, kept, transmit) \<longrightarrow>
       sign_phase2 S p data coins' uk' kept received = Inr (uk2, kept2, transmit2) \<longrightarrow>
       sign_phase3 S p data uk2' kept2 received2 \<noteq> Some (Inl (recoverable me (MissingMulState j))))"
proof -
  from party_life_wf [OF assms] have p: "party_wf full p" "party_parameters p = params" "me = party_index p" by simp_all
  show ?thesis
    unfolding p(3)
    using p(1,2) sign_phase1_finds_states [OF p(1)] sign_phase2_finds_states [of S p]
      sign_phase3_finds_states [of S p] by (intro conjI allI impI; simp)
qed

lemma sample_bits_sized: "bits_sized (dc_init (sample_dkg_coins i))"
  by (simp add: bits_sized_def sample_dkg_coins_def)

lemma party_life_typed_witness:
  "\<exists>p. party_life True init_suite sample_params (PartyIndex 2) p \<and> party_wf True p \<and>
     map index_counterparty (seeds (party_zero_share p)) = [PartyIndex 1, PartyIndex 3] \<and>
     (\<exists>mr. bt_get (mul_receivers p) (PartyIndex 3) = Some mr \<and> length (seeds1 (mr_ote_receiver mr)) = 256)"
proof -
  let ?all = "party_range sample_params"
  have two: "PartyIndex 2 \<in> set ?all" by (simp add: sample_party_range)
  obtain PC ZK ZT BK B2 ZK3 ZT3 MK MT B3 P where run: "\<forall>i \<in> set ?all.
      dkg_phase2 init_suite (dkg_data sample_params [1] i) (sample_dkg_coins i)
        (map (\<lambda>j. entry_for i (dkg_phase1 init_suite (dkg_data sample_params [1] j) (sample_dkg_coins j))) ?all) =
        Inr (secret_poly sample_params sample_dkg_coins (index_scalar i), PC i, ZK i, ZT i, BK i, B2 i) \<and>
      dkg_phase3 init_suite (dkg_data sample_params [1] i) (sample_dkg_coins i) (ZK i) (BK i) =
        Inr (ZK3 i, ZT3 i, MK i, MT i, B3 i) \<and>
      dkg_phase4 init_suite (dkg_data sample_params [1] i) (secret_poly sample_params sample_dkg_coins (index_scalar i))
        (map PC ?all) (ZK3 i) (inbox z2_parties ZT ?all i) (inbox z3_parties ZT3 ?all i) (MK i)
        (inbox mi_parties MT ?all i) (bt_tabulate B2 ?all) (bt_tabulate B3 ?all) (\<lambda>_. ''a'') =
        Inr (P i, dkg_package init_suite sample_params sample_dkg_coins)"
    using dkg_rounds [OF init_suite_ok init_suite_cyclic sample_params_ok(2) sample_dkg_coins_ok refl refl refl refl refl,
      where address_fn = "\<lambda>_. ''a''"] by blast
  have "batches_full (MT j)" if "j \<in> set ?all" for j
    using bspec [OF run that] mul_open_full [OF _ sample_bits_sized, of init_suite _ _ _ j]
    by (auto simp: dkg_phase3_def rbind_Inr_iff)
  then have full: "batches_full (inbox mi_parties MT ?all (PartyIndex 2))" by (rule inbox_full)
  note mine = bspec [OF run two]
  have life: "party_life True init_suite sample_params (PartyIndex 2) (P (PartyIndex 2))"
    by (rule party_life.generated [OF conjunct1 [OF mine] conjunct1 [OF conjunct2 [OF mine]] sample_bits_sized full
        conjunct2 [OF conjunct2 [OF mine]]])
  from party_life_typed [OF life] have wf: "party_wf True (P (PartyIndex 2))"
    and cps: "counterparties_of (P (PartyIndex 2)) = [PartyIndex 1, PartyIndex 3]"
    by (simp_all add: counterparties_of_def others_def sample_party_range)
  then obtain mr where "bt_get (mul_receivers (P (PartyIndex 2))) (PartyIndex 3) = Some mr" "receiver_sized True mr"
    unfolding party_wf_def by (metis bt_typed_get list.set_intros)
  with life wf cps show ?thesis
    by (intro exI [of _ "P (PartyIndex 2)"]) (auto simp: party_wf_def seeds_wf_def receiver_sized_def ote_sizes)
qed

section \<open>Base transfers of the wrong length\<close>

definition bt_map :: "('k \<Rightarrow> 'v \<Rightarrow> 'w) \<Rightarrow> ('k, 'v) btree \<Rightarrow> ('k, 'w) btree" where
  "bt_map f m = map (\<lambda>(k, v). (k, f k v)) m"

lemma bt_map_simps:
  "bt_map f [] = []" "bt_len (bt_map f m) = bt_len m"
  "bt_get (bt_map f m) k = map_option (f k) (bt_get m k)"
  "bt_contains (bt_map f m) k = bt_contains m k"
proof -
  show "bt_get (bt_map f m) k = map_option (f k) (bt_get m k)"
    by (induction m) (auto simp: bt_map_def bt_get_def)
  then show "bt_contains (bt_map f m) k = bt_contains m k" by (simp add: bt_contains_def)
qed (simp_all add: bt_map_def bt_len_def)

lemma bt_map_insert: "bt_insert k (f k v) (bt_map f m) = bt_map f (bt_insert k v m)"
  by (induction m) (auto simp: bt_map_def)

lemma collect_map:
  assumes "collect_by_sender me known parties ms = Inr t" and "\<And>m. parties (f m) = parties m"
  shows "collect_by_sender me known parties (map f ms) = Inr (bt_map (\<lambda>_. f) t)"
proof -
  have "for_each (collect_step me known parties) ms s = Inr t \<Longrightarrow>
      for_each (\<lambda>m. collect_step me known parties (f m)) ms (bt_map (\<lambda>_. f) s) = Inr (bt_map (\<lambda>_. f) t)" for s
  proof (induction ms arbitrary: s)
    case (Cons m ms)
    then obtain s' where s: "collect_step me known parties m s = Inr s'"
      "for_each (collect_step me known parties) ms s' = Inr t" by (auto simp: rbind_Inr_iff)
    then have "collect_step me known parties (f m) (bt_map (\<lambda>_. f) s) = Inr (bt_map (\<lambda>_. f) s')"
      by (auto simp: collect_step_def assms(2) bt_map_simps bt_map_insert [where f = "\<lambda>_. f"] Let_def split: if_splits)
    with Cons.IH [OF s(2)] show ?case by simp
  qed simp
  from this [of "[]"] assms(1) show ?thesis
    by (simp add: collect_by_sender_def for_each_map bt_map_simps)
qed

text \<open>A counterparty sends only the first \<open>n\<close> encryption proofs of its batch.\<close>

definition short_batch :: "party_index \<Rightarrow> nat \<Rightarrow> ('s, 'p) transmit_mul \<Rightarrow> ('s, 'p) transmit_mul" where
  "short_batch cheat n m =
     (if sender (mi_parties m) = cheat then m\<lparr>mi_enc_proofs := take n (mi_enc_proofs m)\<rparr> else m)"

definition short_receiver :: "nat \<Rightarrow> 's mul_receiver \<Rightarrow> 's mul_receiver" where
  "short_receiver n mr = mr\<lparr>mr_ote_receiver :=
     \<lparr>seeds0 = take n (seeds0 (mr_ote_receiver mr)), seeds1 = take n (seeds1 (mr_ote_receiver mr))\<rparr>\<rparr>"

definition shorten :: "party_index \<Rightarrow> nat \<Rightarrow> party_index \<Rightarrow> 's mul_receiver \<Rightarrow> 's mul_receiver" where
  "shorten cheat n j mr = (if j = cheat then short_receiver n mr else mr)"

lemma short_batch_sel [simp]:
  "mi_parties (short_batch c n m) = mi_parties m" "mi_seed (short_batch c n m) = mi_seed m"
  "mi_dlog_proof (short_batch c n m) = mi_dlog_proof m" "mi_nonce (short_batch c n m) = mi_nonce m"
  by (simp_all add: short_batch_def)

lemma map_res_take: "map_res f xs = Inr ys \<Longrightarrow> map_res f (take n xs) = Inr (take n ys)"
  by (simp add: map_res_Inr_iff)

lemma map_res_cong: "(\<And>x. x \<in> set xs \<Longrightarrow> f x = g x) \<Longrightarrow> map_res f xs = map_res g xs"
  by (induction xs) auto

lemma receiver_init_short:
  assumes "mul_receiver_init_phase2 S snd0 sid sd proofs nonce = Inr mr"
  shows "mul_receiver_init_phase2 S snd0 sid sd (take n proofs) nonce = Inr (short_receiver n mr)"
proof -
  let ?f = "\<lambda>ps i. ot_sender_phase2 S snd0 (batch_sid i sid) sd (ps ! i)"
  from assms obtain ms where ms: "map_res (?f proofs) [0..<length proofs] = Inr ms" "length proofs \<le> u16_MAX"
    "mr = \<lparr>mr_public_gadget = public_gadget S sid nonce, mr_ote_receiver = \<lparr>seeds0 = map fst ms, seeds1 = map snd ms\<rparr>\<rparr>"
    by (auto simp: mul_receiver_init_phase2_def ote_receiver_init_phase2_def ot_sender_phase2_batch_def rbind_Inr_iff
        check_batch_Inr)
  have upt: "take n [0..<length proofs] = [0..<min (length proofs) n]" by (simp add: take_upt min_def)
  have "map_res (?f (take n proofs)) [0..<min (length proofs) n] = map_res (?f proofs) [0..<min (length proofs) n]"
    by (rule map_res_cong) simp
  also have "\<dots> = Inr (take n ms)" using map_res_take [OF ms(1), of n] by (simp only: upt)
  finally show ?thesis
    using ms(2,3)
    by (simp add: mul_receiver_init_phase2_def ote_receiver_init_phase2_def ot_sender_phase2_batch_def check_batch_def
        short_receiver_def take_map)
qed

lemma mul_finish_short:
  assumes "mul_finish S me sid kept received = Inr (receivers, senders)"
  shows "mul_finish S me sid kept (map (short_batch cheat n) received) =
    Inr (bt_map (shorten cheat n) receivers, senders)"
proof -
  from assms obtain b where b: "collect_by_sender me (bt_contains kept) mi_parties received = Inr b" "bt_len b = bt_len kept"
    "for_each (mul_finish_step S me sid b) (bt_entries kept) ([], []) = Inr (receivers, senders)"
    by (auto simp: mul_finish_def rbind_Inr_iff split: if_splits)
  let ?b = "bt_map (\<lambda>_. short_batch cheat n) b"
  have step: "mul_finish_step S me sid ?b e (bt_map (shorten cheat n) m1, m2) = Inr (bt_map (shorten cheat n) r1, r2)"
    if "mul_finish_step S me sid b e (m1, m2) = Inr (r1, r2)" for e m1 m2 r1 r2
  proof -
    obtain j k where e: "e = (j, k)" by (cases e)
    from that obtain m v w where m: "bt_get b j = Some m"
      "mul_receiver_init_phase2 S (mik_ot_sender k) (init_mul_sid me j sid) (mi_seed m) (mi_enc_proofs m) (mik_nonce k) = Inr v"
      "mul_sender_init_phase2 S (init_mul_sid j me sid) (mik_correlation k) (mik_vec_r k) (mi_dlog_proof m) (mi_nonce m) = Inr w"
      "r1 = bt_insert j v m1" "r2 = bt_insert j w m2"
      unfolding e mul_finish_step_def prod.case rbind_Inr_iff map_err_Inr_iff ok_or_Inr_iff by blast
    have "sender (mi_parties m) = j" using collect_by_sender_invariant [OF b(1)] m(1) by blast
    then have "mul_receiver_init_phase2 S (mik_ot_sender k) (init_mul_sid me j sid) (mi_seed m)
        (mi_enc_proofs (short_batch cheat n m)) (mik_nonce k) = Inr (shorten cheat n j v)"
      using m(2) receiver_init_short [OF m(2)] by (cases "j = cheat") (simp_all add: short_batch_def shorten_def)
    then show ?thesis
      using m by (simp add: e mul_finish_step_def bt_map_simps bt_map_insert [where f = "shorten cheat n"])
  qed
  have "for_each (mul_finish_step S me sid b) es (m1, m2) = Inr (r1, r2) \<Longrightarrow>
      for_each (mul_finish_step S me sid ?b) es (bt_map (shorten cheat n) m1, m2) =
        Inr (bt_map (shorten cheat n) r1, r2)" for es m1 m2 r1 r2
  proof (induction es arbitrary: m1 m2)
    case (Cons e es)
    then obtain a1 a2 where "mul_finish_step S me sid b e (m1, m2) = Inr (a1, a2)"
      "for_each (mul_finish_step S me sid b) es (a1, a2) = Inr (r1, r2)" by (auto simp: rbind_Inr_iff)
    with Cons.IH step show ?case by simp
  qed simp
  from this [OF b(3)] b(2) collect_map [OF b(1), of "short_batch cheat n"] show ?thesis
    by (simp add: mul_finish_def bt_map_simps)
qed

lemma dkg_phase4_short:
  fixes S :: "('s::field, 'p::ab_group_add) suite"
  assumes "dkg_phase4 S data share pcs zk r2 r3 mk mr b2 b3 address_fn = Inr (p, pkg)"
  shows "dkg_phase4 S data share pcs zk r2 r3 mk (map (short_batch cheat n) mr) b2 b3 address_fn =
    Inr (p\<lparr>mul_receivers := bt_map (shorten cheat n) (mul_receivers p)\<rparr>, pkg)"
proof -
  from assms obtain key shares sds receivers senders code where r:
    "check_each (check_broadcast_version (sd_party_index data)) (bt_entries b2) = Inr ()"
    "step5 S (sd_parameters data) (sd_party_index data) (sd_session_id data) pcs = Inr (key, shares)"
    "\<not> (key = 0 \<or> key = generator S)" "\<not> (share = 0 \<or> share = 1)"
    "zero_seed_pairs S (sd_party_index data) zk r2 r3 = Inr sds"
    "mul_finish S (sd_party_index data) (sd_session_id data) mk mr = Inr (receivers, senders)"
    "for_each (chain_code_step S (sd_party_index data) b2 b3) (party_range (sd_parameters data))
       (replicate CHAIN_CODE_LEN 0) = Inr code"
    "dkg_finish data share key shares sds receivers senders code address_fn = (p, pkg)"
    by (auto simp: dkg_phase4_def Let_def rbind_Inr_iff map_err_Inr_iff split: if_splits)
  then show ?thesis
    using mul_finish_short [OF r(6), of cheat n] by (auto simp: dkg_phase4_def dkg_finish_def)
qed

lemma refresh_short_panics:
  fixes S :: "('s::field, 'p::ab_group_add) suite" and p :: "('s, 'p) party" and cheat :: party_index and n :: nat
  defines "p' \<equiv> p\<lparr>mul_receivers := bt_map (shorten cheat n) (mul_receivers p)\<rparr>"
  assumes "n < KAPPA" and run: "refresh_phase4 S p rsid corr pcs kept q2 q3 = (Inr q, old)"
    and cheat: "cheat \<in> index_counterparty ` set (seeds (party_zero_share q))"
  shows "refresh_phase4 S p' rsid corr pcs kept q2 q3 = (Inl Panicked, p')"
proof -
  from run obtain sds senders receivers share where r: "refresh_step5 S p rsid pcs = Inr ()"
    "zero_seed_pairs S (party_index p) kept q2 q3 = Inr sds"
    "for_each (refresh_mul_step S p rsid) sds ([], []) = Inr (senders, receivers)"
    "q = refreshed_party p rsid share (zero_share_initialize sds) senders receivers"
    using wipe_on_success_Inr [of p _ q] unfolding refresh_phase4_def
    by (auto simp: rbind_Inr_iff map_err_Inr_iff wipe_on_success_def split: sum.splits)
  have step_error: "e = Panicked" if "sp \<in> set sds" "refresh_mul_step S p' rsid sp st = Inl e" for sp st e
  proof -
    from for_each_Inr_each [OF r(3) that(1)] obtain ms mr where
      "bt_get (mul_senders p) (index_counterparty sp) = Some ms" "bt_get (mul_receivers p) (index_counterparty sp) = Some mr"
      by (auto simp: refresh_mul_step_def Let_def rbind_Inr_iff ok_or_Inr_iff split: prod.splits)
    with that(2) show ?thesis
      by (auto simp: refresh_mul_step_def p'_def bt_map_simps Let_def rbind_Inl_iff split: prod.splits
          dest: refresh_ote_error)
  qed
  obtain sp where sp: "sp \<in> set sds" "index_counterparty sp = cheat"
    using cheat r(4) by (auto simp: refreshed_party_def zero_share_initialize_def)
  have step_fails: "refresh_mul_step S p' rsid sp st \<noteq> Inr st'" for st st'
  proof
    assume "refresh_mul_step S p' rsid sp st = Inr st'"
    then obtain ms :: "'s mul_sender" and mr :: "'s mul_receiver" and a b where "refresh_ote S rsid (party_index p) cheat (seed sp)
        (ms_ote_sender ms, mr_ote_receiver (short_receiver n mr)) = Inr (a, b)"
      by (auto simp: refresh_mul_step_def p'_def bt_map_simps shorten_def sp(2) Let_def rbind_Inr_iff ok_or_Inr_iff
          split: prod.splits)
    with refresh_ote_lengths assms(2) show False by (fastforce simp: short_receiver_def)
  qed
  have "for_each (refresh_mul_step S p' rsid) sds ([], []) = Inl Panicked"
  proof (cases "for_each (refresh_mul_step S p' rsid) sds ([], [])")
    case (Inl e)
    with for_each_error [OF Inl] step_error show ?thesis by blast
  next
    case (Inr t)
    with for_each_Inr_each [OF Inr sp(1)] step_fails show ?thesis by blast
  qed
  moreover have same: "party_index p' = party_index p" "party_parameters p' = party_parameters p"
    by (simp_all add: p'_def)
  moreover have "refresh_step5 S p' rsid pcs = Inr ()"
    using r(1) unfolding refresh_step5_def same .
  ultimately show ?thesis
    using r(2) by (simp add: refresh_phase4_def wipe_on_success_def)
qed

text \<open>Signing with this counterparty aborts in phase 1, and the counterparty is not blamed for it.\<close>

lemma sign_short_aborts:
  fixes p :: "('s::field, 'p::ab_group_add) party" and n :: nat and cheat :: party_index
  defines "p' \<equiv> p\<lparr>mul_receivers := bt_map (shorten cheat n) (mul_receivers p)\<rparr>"
  assumes "n < KAPPA" and "cheat \<in> set (counterparties data)"
  shows "\<exists>e. sign_phase1 S p' data coins = Inl e \<and> abort_kind e = Recoverable"
proof -
  have "sign_phase1_step S p' data coins point cheat acc \<noteq> Inr acc'" for point acc acc'
  proof
    assume "sign_phase1_step S p' data coins point cheat acc = Inr acc'"
    then obtain mr :: "'s mul_receiver" and sid out where
      "mul_receiver_phase1 S (short_receiver n mr) (sc_choice_bits coins cheat) (sc_noise coins cheat) sid = Inr out"
      by (auto simp: sign_phase1_step_def p'_def bt_map_simps shorten_def Let_def rbind_Inr_iff ok_or_Inr_iff
          map_err_Inr_iff split: prod.splits)
    then have "length (seeds0 (mr_ote_receiver (short_receiver n mr))) = KAPPA"
      by (auto simp: mul_receiver_phase1_def ote_receiver_phase1_def Let_def rbind_Inr_iff map_err_Inr_iff
          split: if_splits)
    with assms(2) show False by (simp add: short_receiver_def)
  qed
  then have never: "sign_phase1 S p' data coins \<noteq> Inr out" for out
    using for_each_Inr_each [OF _ assms(3)] by (fastforce simp: sign_phase1_def Let_def rbind_Inr_iff)
  show ?thesis
  proof (cases "sign_phase1 S p' data coins")
    case (Inl e)
    from sign_phase1_error [OF Inl] Inl show ?thesis by blast
  next
    case (Inr out)
    with never show ?thesis by blast
  qed
qed

text \<open>C15: the size of the base transfer is not checked.  When a counterparty sends only the first \<open>n\<close> of its
  256 encryption proofs, phase 4 of key generation returns all the same, with the same package; but
  from then on every faster refresh that would have returned with this counterparty panics instead,
  and signing with it always aborts in phase 1, with an abort that blames nobody.\<close>

theorem short_base_ot_accepted:
  fixes S :: "('s::field, 'p::ab_group_add) suite"
  assumes "dkg_phase4 S data share pcs zk r2 r3 mk mr b2 b3 address_fn = Inr (p, pkg)" and "n < KAPPA"
  shows "\<exists>p'. dkg_phase4 S data share pcs zk r2 r3 mk (map (short_batch cheat n) mr) b2 b3 address_fn = Inr (p', pkg) \<and>
    (\<forall>rsid corr pcs' kept q2 q3 q old. refresh_phase4 S p rsid corr pcs' kept q2 q3 = (Inr q, old) \<and>
       cheat \<in> index_counterparty ` set (seeds (party_zero_share q)) \<longrightarrow>
       refresh_phase4 S p' rsid corr pcs' kept q2 q3 = (Inl Panicked, p')) \<and>
    (\<forall>data coins. cheat \<in> set (counterparties data) \<longrightarrow>
       (\<exists>e. sign_phase1 S p' data coins = Inl e \<and> abort_kind e = Recoverable))"
  using dkg_phase4_short [OF assms(1), of cheat n] refresh_short_panics [OF assms(2)] sign_short_aborts [OF assms(2)]
  by (intro exI [of _ "p\<lparr>mul_receivers := bt_map (shorten cheat n) (mul_receivers p)\<rparr>"]) blast

lemma short_base_ot_accepted_witness:
  "\<exists>share pcs zk r2 r3 mk mr b2 b3 p p' pkg pcs' kept q2 q3 q old.
     dkg_phase4 init_suite (dkg_data sample_params [1] (PartyIndex 2)) share pcs zk r2 r3 mk mr b2 b3 (\<lambda>_. ''a'') =
       Inr (p, pkg) \<and>
     dkg_phase4 init_suite (dkg_data sample_params [1] (PartyIndex 2)) share pcs zk r2 r3 mk
       (map (short_batch (PartyIndex 1) 0) mr) b2 b3 (\<lambda>_. ''a'') = Inr (p', pkg) \<and>
     refresh_phase4 init_suite p [1] 6 pcs' kept q2 q3 = (Inr q, old) \<and>
     refresh_phase4 init_suite p' [1] 6 pcs' kept q2 q3 = (Inl Panicked, p')"
proof -
  let ?all = "party_range sample_params"
  obtain PC ZK3 ZT ZT3 MK MT B2 B3 P where dkg: "\<forall>i \<in> set ?all.
      dkg_phase4 init_suite (dkg_data sample_params [1] i) (secret_poly sample_params sample_dkg_coins (index_scalar i))
        (map PC ?all) (ZK3 i) (inbox z2_parties ZT ?all i) (inbox z3_parties ZT3 ?all i) (MK i)
        (inbox mi_parties MT ?all i) (bt_tabulate B2 ?all) (bt_tabulate B3 ?all) (\<lambda>_. ''a'') =
        Inr (P i, dkg_package init_suite sample_params sample_dkg_coins)"
    and km: "key_material init_suite (secret_poly sample_params sample_dkg_coins) sample_params [1]
      (joint_chain_code sample_params sample_dkg_coins) (\<lambda>i j. ic_seed (dc_init (sample_dkg_coins i)) j) ?all P"
    using dkg_rounds [OF init_suite_ok init_suite_cyclic sample_params_ok(2) sample_dkg_coins_ok refl refl refl refl refl,
      where address_fn = "\<lambda>_. ''a''"] by blast
  obtain PC' K3 T2 T3 Q where refresh: "\<forall>i \<in> set ?all.
      refresh_phase4 init_suite (P i) [1] (correction_poly sample_params sample_refresh_coins (index_scalar i))
        (map PC' ?all) (K3 i) (inbox z2_parties T2 ?all i) (inbox z3_parties T3 ?all i) = (Inr (Q i), party_zeroize (P i))"
    and km': "key_material init_suite (\<lambda>x. secret_poly sample_params sample_dkg_coins x +
      correction_poly sample_params sample_refresh_coins x) sample_params [1]
      (joint_chain_code sample_params sample_dkg_coins) (\<lambda>i j. ic_seed (rc_init (sample_refresh_coins i)) j) ?all Q"
    using refresh_rounds [OF init_suite_ok init_suite_cyclic sample_params_ok(2) km sample_refresh_ok(1),
      of "\<lambda>_. ?all" "\<lambda>_. ?all" "\<lambda>_ xs. xs" "\<lambda>_ xs. xs"] by simp blast
  have two: "PartyIndex 2 \<in> set ?all" by (simp add: sample_party_range)
  have "correction_poly sample_params sample_refresh_coins (index_scalar (PartyIndex 2)) = 6"
    by (simp add: sample_correction index_scalar_def gf_eq_iff)
  note r = bspec [OF refresh two, unfolded this]
  have "party_zero_share (Q (PartyIndex 2)) = pairwise_seeds ?all (\<lambda>i j. ic_seed (rc_init (sample_refresh_coins i)) j) (PartyIndex 2)"
    by (rule key_materialD(10) [OF km' two])
  then have cheat: "PartyIndex 1 \<in> index_counterparty ` set (seeds (party_zero_share (Q (PartyIndex 2))))"
    by (simp add: pairwise_seeds_def sample_party_range generate_seed_pair_def zero_share_initialize_def)
  have "(0 :: nat) < KAPPA" by (simp add: ote_sizes)
  from short_base_ot_accepted [OF bspec [OF dkg two] this, of "PartyIndex 1"] obtain p' where
    "dkg_phase4 init_suite (dkg_data sample_params [1] (PartyIndex 2))
        (secret_poly sample_params sample_dkg_coins (index_scalar (PartyIndex 2))) (map PC ?all) (ZK3 (PartyIndex 2))
        (inbox z2_parties ZT ?all (PartyIndex 2)) (inbox z3_parties ZT3 ?all (PartyIndex 2)) (MK (PartyIndex 2))
        (map (short_batch (PartyIndex 1) 0) (inbox mi_parties MT ?all (PartyIndex 2))) (bt_tabulate B2 ?all)
        (bt_tabulate B3 ?all) (\<lambda>_. ''a'') = Inr (p', dkg_package init_suite sample_params sample_dkg_coins)"
    "refresh_phase4 init_suite p' [1] 6 (map PC' ?all) (K3 (PartyIndex 2)) (inbox z2_parties T2 ?all (PartyIndex 2))
       (inbox z3_parties T3 ?all (PartyIndex 2)) = (Inl Panicked, p')"
    using r cheat by blast
  with bspec [OF dkg two] r show ?thesis by - (intro exI conjI, assumption+)
qed

end
