(* ===== verification/Sign_Session.thy ===== *)
theory Sign_Session
  imports Signing_Run Signature Phases
begin

text \<open>
  \<open>protocols/sign_session.rs\<close>: the session object that runs the phases of signing in order.  What a phase
  keeps for the next one is taken out of its optional field before the next phase runs, so nothing
  that depends on the instance key is used twice, whether that phase returns, fails or panics.
\<close>

section \<open>The session and its operations\<close>

record ('s, 'p) sign_session =
  ss_party :: "('s, 'p) party"
  ss_data :: sign_data
  ss_phase1_to_2 :: "(('s, 'p) unique_keep1to2 \<times> (party_index, 's keep_phase1to2) btree) option"
  ss_phase2_to_3 :: "(('s, 'p) unique_keep2to3 \<times> (party_index, 's keep_phase2to3) btree) option"
  ss_x_coord :: "string option"

definition out_of_order :: "('s, 'p) party \<Rightarrow> string \<Rightarrow> abort" where
  "out_of_order p phase = recoverable (party_index p) (PhaseCalledOutOfOrder phase)"

definition SignSession_new ::
  "('s::field, 'p) suite \<Rightarrow> ('s, 'p) party \<Rightarrow> sign_data \<Rightarrow> 's sign_coins \<Rightarrow>
     abort + ('s, 'p) sign_session \<times> transmit_phase1to2 list" where
  "SignSession_new S p data coins =
     rbind (sign_phase1 S p data coins) (\<lambda>(unique_kept, kept, transmit).
       Inr (\<lparr>ss_party = p, ss_data = data, ss_phase1_to_2 = Some (unique_kept, kept),
             ss_phase2_to_3 = None, ss_x_coord = None\<rparr>, transmit))"

text \<open>\<open>take()\<close> empties the field first; the result of the call comes with the session after it.\<close>

definition SignSession_phase2 ::
  "('s::field, 'p) suite \<Rightarrow> 's sign_coins \<Rightarrow> transmit_phase1to2 list \<Rightarrow> ('s, 'p) sign_session \<Rightarrow>
     (abort + ('s, 'p) transmit_phase2to3 list) \<times> ('s, 'p) sign_session" where
  "SignSession_phase2 S coins received self =
     (case ss_phase1_to_2 self of
        None \<Rightarrow> (Inl (out_of_order (ss_party self) ''phase2 called out of order''), self)
      | Some (unique_kept, kept) \<Rightarrow>
          let self' = self\<lparr>ss_phase1_to_2 := None\<rparr>
          in case sign_phase2 S (ss_party self) (ss_data self) coins unique_kept kept received of
               Inl e \<Rightarrow> (Inl e, self')
             | Inr (new_unique, new_kept, transmit) \<Rightarrow>
                 (Inr transmit, self'\<lparr>ss_phase2_to_3 := Some (new_unique, new_kept)\<rparr>))"

text \<open>\<open>None\<close> is a panic of the phase.\<close>

definition SignSession_phase3 ::
  "('s::field, 'p::ab_group_add) suite \<Rightarrow> ('s, 'p) transmit_phase2to3 list \<Rightarrow> ('s, 'p) sign_session \<Rightarrow>
     (abort + 's broadcast3to4) option \<times> ('s, 'p) sign_session" where
  "SignSession_phase3 S received self =
     (case ss_phase2_to_3 self of
        None \<Rightarrow> (Some (Inl (out_of_order (ss_party self) ''phase3 called out of order'')), self)
      | Some (unique_kept, kept) \<Rightarrow>
          let self' = self\<lparr>ss_phase2_to_3 := None\<rparr>
          in case sign_phase3 S (ss_party self) (ss_data self) unique_kept kept received of
               None \<Rightarrow> (None, self')
             | Some (Inl e) \<Rightarrow> (Some (Inl e), self')
             | Some (Inr (x_coord, broadcast)) \<Rightarrow> (Some (Inr broadcast), self'\<lparr>ss_x_coord := Some x_coord\<rparr>))"

text \<open>Phase 4 takes \<open>self\<close> by value.  \<open>hex_error\<close> is the text of the \<open>hex\<close> library's error on a string it
  does not decode.\<close>

definition decode32 ::
  "('s, 'p) suite \<Rightarrow> (string \<Rightarrow> string) \<Rightarrow> ('s, 'p) party \<Rightarrow> string \<Rightarrow> string \<Rightarrow> abort + bytes" where
  "decode32 S hex_error p what str =
     ok_or (recoverable (party_index p) (InvalidHex (''invalid '' @ what @ '' hex: '' @ hex_error str)))
       (hex_decode_to_slice S 32 str)"

definition SignSession_phase4 ::
  "('s::field, 'p::ab_group_add) suite \<Rightarrow> (string \<Rightarrow> string) \<Rightarrow> 's broadcast3to4 list \<Rightarrow>
     ('s, 'p) sign_session \<Rightarrow> (abort + ecdsa_signature) option" where
  "SignSession_phase4 S hex_error received self =
     (case ss_x_coord self of
        None \<Rightarrow> Some (Inl (out_of_order (ss_party self) ''phase4 called out of order''))
      | Some x_coord \<Rightarrow>
          map_option (\<lambda>result. rbind result (\<lambda>(s_hex, rec_id).
              rbind (decode32 S hex_error (ss_party self) ''r'' x_coord) (\<lambda>r.
              rbind (decode32 S hex_error (ss_party self) ''s'' s_hex) (\<lambda>s.
                Inr \<lparr>sig_r = r, sig_s = s, sig_recovery_id = rec_id\<rparr>))))
            (sign_phase4 S (ss_party self) (ss_data self) x_coord received True))"

section \<open>The calls of a client\<close>

inductive sign_call ::
  "('s::field, 'p::ab_group_add) suite \<Rightarrow> ('s, 'p) sign_session option \<Rightarrow> phase_event \<Rightarrow>
     ('s, 'p) sign_session option \<Rightarrow> bool" for S where
  sign2_ran: "SignSession_phase2 S coins received self = (Inr out2, self') \<Longrightarrow>
    sign_call S (Some self) (Returned 2) (Some self')"
| sign2_failed: "SignSession_phase2 S coins received self = (Inl e, self') \<Longrightarrow> ss_phase1_to_2 self = Some uk \<Longrightarrow>
    sign_call S (Some self) (Failed 2) (Some self')"
| sign2_refused: "SignSession_phase2 S coins received self = (Inl e, self') \<Longrightarrow> ss_phase1_to_2 self = None \<Longrightarrow>
    sign_call S (Some self) (Refused 2) (Some self')"
| sign3_ran: "SignSession_phase3 S received3 self = (Some (Inr out3), self') \<Longrightarrow>
    sign_call S (Some self) (Returned 3) (Some self')"
| sign3_failed: "SignSession_phase3 S received3 self = (r3, self') \<Longrightarrow> (\<forall>out3. r3 \<noteq> Some (Inr out3)) \<Longrightarrow>
    ss_phase2_to_3 self = Some uk2 \<Longrightarrow> sign_call S (Some self) (Failed 3) (Some self')"
| sign3_refused: "SignSession_phase3 S received3 self = (r3, self') \<Longrightarrow> ss_phase2_to_3 self = None \<Longrightarrow>
    sign_call S (Some self) (Refused 3) (Some self')"
| sign4_ran: "SignSession_phase4 S hex_error received4 self = Some (Inr sig) \<Longrightarrow>
    sign_call S (Some self) (Returned 4) None"
| sign4_failed: "SignSession_phase4 S hex_error received4 self = r4 \<Longrightarrow> (\<forall>sig. r4 \<noteq> Some (Inr sig)) \<Longrightarrow>
    ss_x_coord self = Some x \<Longrightarrow> sign_call S (Some self) (Failed 4) None"
| sign4_refused: "SignSession_phase4 S hex_error received4 self = r4 \<Longrightarrow> ss_x_coord self = None \<Longrightarrow>
    sign_call S (Some self) (Refused 4) None"

inductive_cases sign_call_SomeE: "sign_call S (Some self) ev st"
inductive_cases sign_call_NoneE [elim!]: "sign_call S None ev st"

section \<open>The invariant\<close>

definition kept12 ::
  "('s::field, 'p) suite \<Rightarrow> ('s, 'p) party \<Rightarrow> sign_data \<Rightarrow>
     ('s, 'p) unique_keep1to2 \<times> (party_index, 's keep_phase1to2) btree \<Rightarrow> bool" where
  "kept12 S p data uk \<longleftrightarrow> (\<exists>coins t. sign_phase1 S p data coins = Inr (fst uk, snd uk, t))"

definition kept23 ::
  "('s::field, 'p) suite \<Rightarrow> ('s, 'p) party \<Rightarrow> sign_data \<Rightarrow>
     ('s, 'p) unique_keep2to3 \<times> (party_index, 's keep_phase2to3) btree \<Rightarrow> bool" where
  "kept23 S p data uk \<longleftrightarrow> (\<exists>uk1 coins received t. kept12 S p data uk1 \<and>
     sign_phase2 S p data coins (fst uk1) (snd uk1) received = Inr (fst uk, snd uk, t))"

definition known_x :: "('s::field, 'p::ab_group_add) suite \<Rightarrow> ('s, 'p) party \<Rightarrow> sign_data \<Rightarrow> string \<Rightarrow> bool" where
  "known_x S p data x \<longleftrightarrow> (\<exists>uk2 received b. kept23 S p data uk2 \<and>
     sign_phase3 S p data (fst uk2) (snd uk2) received = Some (Inr (x, b)))"

lemma kept23I:
  "kept12 S p data uk1 \<Longrightarrow> sign_phase2 S p data coins (fst uk1) (snd uk1) received = Inr (fst uk, snd uk, t) \<Longrightarrow>
     kept23 S p data uk"
  unfolding kept23_def by blast

lemma known_xI:
  "kept23 S p data uk \<Longrightarrow> sign_phase3 S p data (fst uk) (snd uk) received = Some (Inr (x, b)) \<Longrightarrow> known_x S p data x"
  unfolding known_x_def by blast

text \<open>At most one of the three fields is filled, and with what the phase before returned.\<close>

definition sign_session_ok ::
  "('s::field, 'p::ab_group_add) suite \<Rightarrow> ('s, 'p) party \<Rightarrow> sign_data \<Rightarrow> ('s, 'p) sign_session \<Rightarrow> bool" where
  "sign_session_ok S p data s \<longleftrightarrow> ss_party s = p \<and> ss_data s = data \<and>
     (case (ss_phase1_to_2 s, ss_phase2_to_3 s, ss_x_coord s) of
        (Some uk, None, None) \<Rightarrow> kept12 S p data uk
      | (None, Some uk, None) \<Rightarrow> kept23 S p data uk
      | (None, None, Some x) \<Rightarrow> known_x S p data x
      | (None, None, None) \<Rightarrow> True
      | _ \<Rightarrow> False)"

fun sign_stage :: "('s, 'p) sign_session option \<Rightarrow> nat" where
  "sign_stage None = 5"
| "sign_stage (Some s) = (if ss_phase1_to_2 s \<noteq> None then 2 else if ss_phase2_to_3 s \<noteq> None then 3
     else if ss_x_coord s \<noteq> None then 4 else 5)"

lemma new_session_ok:
  assumes "SignSession_new S p data coins = Inr (s, t)"
  shows "sign_session_ok S p data s" "sign_stage (Some s) = 2"
proof -
  from assms obtain u k where "sign_phase1 S p data coins = Inr (u, k, t)"
    "s = \<lparr>ss_party = p, ss_data = data, ss_phase1_to_2 = Some (u, k), ss_phase2_to_3 = None, ss_x_coord = None\<rparr>"
    by (auto simp: SignSession_new_def rbind_Inr_iff)
  then show "sign_session_ok S p data s" "sign_stage (Some s) = 2"
    by (simp_all add: sign_session_ok_def kept12_def) blast
qed

lemma sign2_result:
  assumes "SignSession_phase2 S coins received s = (r, s')"
  shows "ss_phase1_to_2 s = None \<and> s' = s \<and> (\<exists>e. r = Inl e) \<or>
    (\<exists>uk. ss_phase1_to_2 s = Some uk \<and>
      (case r of Inl _ \<Rightarrow> s' = s\<lparr>ss_phase1_to_2 := None\<rparr>
       | Inr t \<Rightarrow> \<exists>uk2. sign_phase2 S (ss_party s) (ss_data s) coins (fst uk) (snd uk) received =
             Inr (fst uk2, snd uk2, t) \<and> s' = s\<lparr>ss_phase1_to_2 := None, ss_phase2_to_3 := Some uk2\<rparr>))"
  using assms by (auto simp: SignSession_phase2_def Let_def split: option.splits prod.splits sum.splits)

lemma sign3_result:
  assumes "SignSession_phase3 S received s = (r, s')"
  shows "ss_phase2_to_3 s = None \<and> s' = s \<and> (\<exists>e. r = Some (Inl e)) \<or>
    (\<exists>uk. ss_phase2_to_3 s = Some uk \<and>
      (s' = s\<lparr>ss_phase2_to_3 := None\<rparr> \<and> (\<nexists>b. r = Some (Inr b)) \<or>
       (\<exists>x b. r = Some (Inr b) \<and> sign_phase3 S (ss_party s) (ss_data s) (fst uk) (snd uk) received = Some (Inr (x, b)) \<and>
          s' = s\<lparr>ss_phase2_to_3 := None, ss_x_coord := Some x\<rparr>)))"
  using assms by (auto simp: SignSession_phase3_def Let_def split: option.splits prod.splits sum.splits)

lemma sign2_ok:
  assumes "SignSession_phase2 S coins received s = (r, s')" and "sign_session_ok S p data s"
  shows "sign_session_ok S p data s'"
proof -
  from sign2_result [OF assms(1)] consider "s' = s"
    | uk where "ss_phase1_to_2 s = Some uk" "s' = s\<lparr>ss_phase1_to_2 := None\<rparr>"
    | uk uk2 t where "ss_phase1_to_2 s = Some uk"
        "sign_phase2 S (ss_party s) (ss_data s) coins (fst uk) (snd uk) received = Inr (fst uk2, snd uk2, t)"
        "s' = s\<lparr>ss_phase1_to_2 := None, ss_phase2_to_3 := Some uk2\<rparr>"
    by (cases r) auto
  then show ?thesis
  proof cases
    case (3 uk uk2 t)
    with assms(2) have "kept12 S p data uk" "ss_x_coord s = None" "ss_party s = p" "ss_data s = data"
      by (auto simp: sign_session_ok_def split: option.splits)
    with 3 kept23I [of S p data uk coins received uk2 t] have "kept23 S p data uk2" by simp
    with 3 \<open>ss_x_coord s = None\<close> \<open>ss_party s = p\<close> \<open>ss_data s = data\<close> show ?thesis
      by (simp add: sign_session_ok_def)
  qed (use assms(2) in \<open>auto simp: sign_session_ok_def split: option.splits\<close>)
qed

lemma sign3_ok:
  assumes "SignSession_phase3 S received s = (r, s')" and "sign_session_ok S p data s"
  shows "sign_session_ok S p data s'"
proof -
  from sign3_result [OF assms(1)] consider "s' = s"
    | uk where "ss_phase2_to_3 s = Some uk" "s' = s\<lparr>ss_phase2_to_3 := None\<rparr>"
    | uk x b where "ss_phase2_to_3 s = Some uk"
        "sign_phase3 S (ss_party s) (ss_data s) (fst uk) (snd uk) received = Some (Inr (x, b))"
        "s' = s\<lparr>ss_phase2_to_3 := None, ss_x_coord := Some x\<rparr>"
    by blast
  then show ?thesis
  proof cases
    case (3 uk x b)
    with assms(2) have "kept23 S p data uk" "ss_phase1_to_2 s = None" "ss_party s = p" "ss_data s = data"
      by (auto simp: sign_session_ok_def split: option.splits)
    with 3 known_xI [of S p data uk received x b] have "known_x S p data x" by simp
    with 3 \<open>ss_phase1_to_2 s = None\<close> \<open>ss_party s = p\<close> \<open>ss_data s = data\<close> show ?thesis
      by (simp add: sign_session_ok_def)
  qed (use assms(2) in \<open>auto simp: sign_session_ok_def split: option.splits\<close>)
qed

lemma sign_call_ok:
  assumes "sign_call S (Some s) ev (Some s')" and "sign_session_ok S p data s"
  shows "sign_session_ok S p data s'"
  using assms(1) by (rule sign_call_SomeE) (use sign2_ok sign3_ok assms(2) in blast)+

definition sign_live_ok ::
  "('s::field, 'p::ab_group_add) suite \<Rightarrow> ('s, 'p) party \<Rightarrow> sign_data \<Rightarrow> ('s, 'p) sign_session option \<Rightarrow> bool" where
  "sign_live_ok S p data st \<longleftrightarrow> (\<forall>s. st = Some s \<longrightarrow> sign_session_ok S p data s)"

lemma sign_call_live:
  assumes "sign_live_ok S p data st" and "sign_call S st ev st'"
  shows "sign_live_ok S p data st'"
  using assms sign_call_ok by (cases st; cases st') (auto simp: sign_live_ok_def)

lemma sign_stage_le: "sign_stage st \<le> 5"
  by (cases st) auto

lemma sign_stage_fields:
  assumes "sign_session_ok S p data s"
  shows "ss_phase1_to_2 s \<noteq> None \<longleftrightarrow> sign_stage (Some s) = 2"
    "ss_phase2_to_3 s \<noteq> None \<longleftrightarrow> sign_stage (Some s) = 3"
    "ss_x_coord s \<noteq> None \<longleftrightarrow> sign_stage (Some s) = 4"
  using assms by (auto simp: sign_session_ok_def split: option.splits if_splits)

text \<open>A call runs a phase exactly when the session is at its stage, and a failure is the end.\<close>

lemma sign_call_stage:
  assumes "sign_session_ok S p data s" and "sign_call S (Some s) ev st"
  shows "case ev of Returned k \<Rightarrow> sign_stage (Some s) = k \<and> sign_stage st = Suc k
    | Failed k \<Rightarrow> sign_stage (Some s) = k \<and> sign_stage st = 5
    | Refused k \<Rightarrow> sign_stage (Some s) \<noteq> k \<and> (st = Some s \<or> st = None)"
proof -
  note fields = sign_stage_fields [OF assms(1)]
  have empty: "ss_phase2_to_3 s = None \<and> ss_x_coord s = None" if "ss_phase1_to_2 s \<noteq> None"
    using assms(1) that by (auto simp: sign_session_ok_def split: option.splits)
  have empty3: "ss_phase1_to_2 s = None \<and> ss_x_coord s = None" if "ss_phase2_to_3 s \<noteq> None"
    using assms(1) that by (auto simp: sign_session_ok_def split: option.splits)
  show ?thesis
    using assms(2)
  proof (rule sign_call_SomeE)
    fix coins received self' out
    assume r: "ev = Returned 2" "st = Some self'" "SignSession_phase2 S coins received s = (Inr out, self')"
    with sign2_result [OF r(3)] empty show ?thesis by auto
  next
    fix coins received self' e uk
    assume r: "ev = Failed 2" "st = Some self'" "SignSession_phase2 S coins received s = (Inl e, self')"
      "ss_phase1_to_2 s = Some uk"
    with sign2_result [OF r(3)] empty show ?thesis by auto
  next
    fix coins received self' e
    assume r: "ev = Refused 2" "st = Some self'" "SignSession_phase2 S coins received s = (Inl e, self')"
      "ss_phase1_to_2 s = None"
    with sign2_result [OF r(3)] show ?thesis by auto
  next
    fix received self' out
    assume r: "ev = Returned 3" "st = Some self'" "SignSession_phase3 S received s = (Some (Inr out), self')"
    with sign3_result [OF r(3)] empty3 show ?thesis by auto
  next
    fix received self' r3 uk2
    assume r: "ev = Failed 3" "st = Some self'" "SignSession_phase3 S received s = (r3, self')"
      "\<forall>out3. r3 \<noteq> Some (Inr out3)" "ss_phase2_to_3 s = Some uk2"
    with sign3_result [OF r(3)] empty3 show ?thesis by auto
  next
    fix received self' r3
    assume r: "ev = Refused 3" "st = Some self'" "SignSession_phase3 S received s = (r3, self')"
      "ss_phase2_to_3 s = None"
    with sign3_result [OF r(3)] show ?thesis by auto
  next
    fix hex_error received sig
    assume r: "ev = Returned 4" "st = None" "SignSession_phase4 S hex_error received s = Some (Inr sig)"
    then have "ss_x_coord s \<noteq> None" by (auto simp: SignSession_phase4_def split: option.splits)
    with fields(3) r(1,2) show ?thesis by simp
  next
    fix x
    assume r: "ev = Failed 4" "st = None" "ss_x_coord s = Some x"
    with fields(3) show ?thesis by simp
  next
    assume r: "ev = Refused 4" "st = None" "ss_x_coord s = None"
    with fields(3) show ?thesis by simp
  qed
qed

lemma sign_call_advances:
  assumes "sign_live_ok S p data st" and "sign_call S st ev st'"
  shows "case phase_run ev of None \<Rightarrow> sign_stage st \<le> sign_stage st'
    | Some k \<Rightarrow> sign_stage st \<le> k \<and> k < sign_stage st'"
proof -
  from assms(2) obtain s where st: "st = Some s" by (cases st) auto
  with assms(1) have ok: "sign_session_ok S p data s" by (simp add: sign_live_ok_def)
  have le: "sign_stage (Some s) \<le> 5" by (rule sign_stage_le)
  have "k < 5" if "ev = Failed k" for k using assms(2) that by (auto simp: st elim: sign_call_SomeE)
  with sign_call_stage [OF ok assms(2) [unfolded st]] le st show ?thesis
    by (cases ev) (auto simp del: sign_stage.simps(2))
qed

interpretation sign_calls: phased_session "sign_call S" sign_stage "sign_live_ok S p data" 5
proof unfold_locales
  show "sign_live_ok S p data st'" if "sign_live_ok S p data st" "sign_call S st e st'" for st e st'
    using that by (rule sign_call_live)
  show "sign_stage st \<le> k \<and> k < sign_stage st'"
    if "sign_live_ok S p data st" "sign_call S st e st'" "phase_run e = Some k" for st e st' k
    using sign_call_advances [OF that(1,2)] that(3) by simp
  show "sign_stage st \<le> sign_stage st'"
    if "sign_live_ok S p data st" "sign_call S st e st'" "phase_run e = None" for st e st'
    using sign_call_advances [OF that(1,2)] that(3) by simp
  show "sign_stage st \<le> 5" for st :: "('a, 'b) sign_session option"
    by (rule sign_stage_le)
qed

section \<open>Properties\<close>

lemma sign_history_ok:
  assumes "SignSession_new S p data coins = Inr (s, t)" and "history (sign_call S) (Some s) es (Some s')"
  shows "sign_session_ok S p data s'"
  using sign_calls.inv_history [OF assms(2), of p data] new_session_ok(1) [OF assms(1)]
  by (simp add: sign_live_ok_def)

text \<open>The state of a signing session.  After any calls with any arguments, its party and data are those
  it was made with, at most one of its three fields is filled, and that one holds what the phases
  before it returned on this party and data, one on the output of the other.\<close>

theorem sign_session_invariant:
  fixes S :: "('s::field, 'p::ab_group_add) suite"
  assumes "SignSession_new S p data coins = Inr (s, t)" and "history (sign_call S) (Some s) es (Some s')"
  shows "ss_party s' = p \<and> ss_data s' = data \<and>
    (\<forall>uk. ss_phase1_to_2 s' = Some uk \<longrightarrow> kept12 S p data uk \<and> ss_phase2_to_3 s' = None \<and> ss_x_coord s' = None) \<and>
    (\<forall>uk. ss_phase2_to_3 s' = Some uk \<longrightarrow> kept23 S p data uk \<and> ss_phase1_to_2 s' = None \<and> ss_x_coord s' = None) \<and>
    (\<forall>x. ss_x_coord s' = Some x \<longrightarrow> known_x S p data x \<and> ss_phase1_to_2 s' = None \<and> ss_phase2_to_3 s' = None)"
  using sign_history_ok [OF assms] by (auto simp: sign_session_ok_def split: option.splits)

text \<open>C8: a signing session ends.  However often and in whatever order a client calls it, phases 2, 3 and 4
  run in this order and each at most once, whether they return, fail or panic; after at most three
  runs every call is refused.  So what depends on the instance key is used once.\<close>

theorem sign_session_runs_once:
  fixes S :: "('s::field, 'p::ab_group_add) suite"
  assumes "SignSession_new S p data coins = Inr (s, t)" and "history (sign_call S) (Some s) es st"
  shows "sorted_wrt (<) (phases_run es) \<and> set (phases_run es) \<subseteq> {2, 3, 4} \<and> length (phases_run es) \<le> 3"
proof -
  have live: "sign_live_ok S p data (Some s)" using new_session_ok(1) [OF assms(1)] by (simp add: sign_live_ok_def)
  have two: "sign_stage (Some s) = 2" by (rule new_session_ok(2) [OF assms(1)])
  have "k \<in> {2, 3, 4}" if "k \<in> set (phases_run es)" for k
  proof -
    have "2 \<le> k" "k < 5"
      using sign_calls.runs_between [OF assms(2) live] that two sign_stage_le [of st] by fastforce+
    then show ?thesis by auto
  qed
  moreover have "length (phases_run es) \<le> 3"
    using sign_calls.runs_bounded [OF assms(2) live] two by simp
  ultimately show ?thesis using sign_calls.runs_in_order [OF assms(2) live] by blast
qed

text \<open>C6: what a signing session returns.  A signature returned after any calls verifies under the public
  key of the party for the message of the session, has 32-byte components that its byte form joins,
  is in low-S form and carries the parity of the signature point as its recovery id; its first
  component is the x coordinate that phase 3 announced.\<close>

theorem sign_session_sound:
  fixes S :: "('s::field, 'p::ab_group_add) suite"
  assumes "suite_ok S" and "SignSession_new S p data coins = Inr (s, t)"
    and "history (sign_call S) (Some s) es (Some s')"
    and "SignSession_phase4 S hex_error received s' = Some (Inr sig)"
  shows "\<exists>r z. sig_r sig = to_repr S r \<and> sig_s sig = to_repr S z \<and> ecdsa_valid S (reduce_hash_bytes S (message_hash data)) (pk p) r z \<and>
    \<not> is_high S z \<and> to_bytes sig = to_repr S r @ to_repr S z \<and> length (to_bytes sig) = 64 \<and>
    sig_recovery_id sig = of_bool (point_enc S (pmul S (generator S) (reduce_hash_bytes S (message_hash data) / z) +
      pmul S (pk p) (r / z)) ! 0 = 3) \<and>
    (\<exists>x. known_x S p data x \<and> hex_decode_to_slice S 32 x = Some (to_repr S r))"
proof -
  have ok: "sign_session_ok S p data s'" by (rule sign_history_ok [OF assms(2,3)])
  obtain x s_hex rec_id where x: "ss_x_coord s' = Some x"
    and run: "sign_phase4 S p data x received True = Some (Inr (s_hex, rec_id))"
    and r: "hex_decode_to_slice S 32 x = Some (sig_r sig)" "hex_decode_to_slice S 32 s_hex = Some (sig_s sig)"
      "sig_recovery_id sig = rec_id"
    using assms(4) ok
    by (auto simp: SignSession_phase4_def rbind_Inr_iff decode32_def ok_or_Inr_iff sign_session_ok_def
        split: option.splits)
  from sign_phase4_result [OF assms(1), of p data x received True] run
  obtain q z where v: "verify_ecdsa_signature S (message_hash data) (pk p) x s_hex"
    "s_hex = hex_encode S (to_repr S z)" "\<not> is_high S z" "reduce_hex_bytes S x = Some q"
    "rec_id = of_bool (point_enc S (pmul S (generator S) (reduce_hash_bytes S (message_hash data) / z) +
      pmul S (pk p) (q / z)) ! 0 = 3)" by blast
  obtain a where a: "hex_decode_to_slice S 32 x = Some (to_repr S a)"
    "ecdsa_valid S (reduce_hash_bytes S (message_hash data)) (pk p) a z"
    using verify_decode [OF assms(1) v(1) [unfolded v(2)]] by blast
  have q: "q = a" using v(4) a(1) assms(1) by (simp add: reduce_hex_bytes_def field_bytes_len_def reduce_to_repr)
  have len: "length (to_repr S k) = 32" for k using assms(1) by (simp add: suite_ok_def scalar_ok_def)
  have s: "sig_r sig = to_repr S a" "sig_s sig = to_repr S z"
    using r a(1) v(2) hex_roundtrip [OF assms(1), of 32 "to_repr S z"] by (simp_all add: len)
  then have bytes: "to_bytes sig = to_repr S a @ to_repr S z"
    using to_bytes_eq [of sig] by (simp add: signature_ok_def len)
  have "known_x S p data x" using ok x by (auto simp: sign_session_ok_def split: option.splits)
  with s bytes a v(3,5) q r(3) len show ?thesis by (intro exI [of _ a] exI [of _ z]) auto
qed

section \<open>Honest sessions\<close>

lemma sign_sessions_run:
  fixes S :: "('s::field, 'p::ab_group_add) suite"
  assumes "suite_ok S" and "key_material S f params sid code half all P" and "length sid = ID_LEN"
    and "length sign = ID_LEN" and "set signers \<subseteq> set all" and "distinct signers"
    and "length signers = unat (threshold params)" and "sign_coins_ok signers C"
    and "k = (\<Sum>i \<in> set signers. sc_instance_key (C i))" and "k \<noteq> 0"
    and "(\<Sum>i \<in> set signers. sc_inversion_mask (C i)) \<noteq> 0"
    and "r = reduce_bytes S (x_bytes S (pmul S (generator S) k))"
    and "to_repr S r = x_bytes S (pmul S (generator S) k)" and "r \<noteq> 0"
    and "reduce_hash_bytes S hash + r * f 0 \<noteq> 0"
    and "\<forall>i xs. mset (order1 i xs) = mset xs" and "\<forall>i xs. mset (order2 i xs) = mset xs"
  shows "\<exists>S1 T1 S2 T2 S3 B sig z.
    (\<forall>i \<in> set signers.
      SignSession_new S (P i) (signing_data sign hash signers i) (C i) = Inr (S1 i, T1 i) \<and>
      SignSession_phase2 S (C i) (order1 i (inbox t1_parties T1 signers i)) (S1 i) = (Inr (T2 i), S2 i) \<and>
      SignSession_phase3 S (order2 i (inbox t2_parties T2 signers i)) (S2 i) = (Some (Inr (B i)), S3 i) \<and>
      (\<forall>bs. mset bs = mset (map B signers) \<longrightarrow> SignSession_phase4 S hex_error bs (S3 i) = Some (Inr sig))) \<and>
    sig_r sig = to_repr S r \<and> sig_s sig = to_repr S z \<and>
    (z = (reduce_hash_bytes S hash + r * f 0) / k \<or> z = - ((reduce_hash_bytes S hash + r * f 0) / k)) \<and>
    verify_ecdsa_signature S hash (pmul S (generator S) (f 0)) (hex_encode S (sig_r sig)) (hex_encode S (sig_s sig))"
proof -
  let ?D = "signing_data sign hash signers"
  from sign_rounds [OF assms, of True]
  obtain U1 K1 T1 U2 K2 T2 B z rec_id where run: "\<forall>i \<in> set signers.
      sign_phase1 S (P i) (?D i) (C i) = Inr (U1 i, K1 i, T1 i) \<and>
      sign_phase2 S (P i) (?D i) (C i) (U1 i) (K1 i) (order1 i (inbox t1_parties T1 signers i)) =
        Inr (U2 i, K2 i, T2 i) \<and>
      sign_phase3 S (P i) (?D i) (U2 i) (K2 i) (order2 i (inbox t2_parties T2 signers i)) =
        Some (Inr (hex_encode S (to_repr S r), B i)) \<and>
      (\<forall>bs. mset bs = mset (map B signers) \<longrightarrow>
        sign_phase4 S (P i) (?D i) (hex_encode S (to_repr S r)) bs True =
          Some (Inr (hex_encode S (to_repr S z), rec_id)))"
    and z: "z = (reduce_hash_bytes S hash + r * f 0) / k \<or> z = - ((reduce_hash_bytes S hash + r * f 0) / k)"
    and v: "verify_ecdsa_signature S hash (pmul S (generator S) (f 0)) (hex_encode S (to_repr S r))
      (hex_encode S (to_repr S z))" by blast
  let ?S1 = "\<lambda>i. \<lparr>ss_party = P i, ss_data = ?D i, ss_phase1_to_2 = Some (U1 i, K1 i),
    ss_phase2_to_3 = None, ss_x_coord = None\<rparr>"
  let ?S2 = "\<lambda>i. (?S1 i)\<lparr>ss_phase1_to_2 := None, ss_phase2_to_3 := Some (U2 i, K2 i)\<rparr>"
  let ?S3 = "\<lambda>i. (?S2 i)\<lparr>ss_phase2_to_3 := None, ss_x_coord := Some (hex_encode S (to_repr S r))\<rparr>"
  let ?sig = "\<lparr>sig_r = to_repr S r, sig_s = to_repr S z, sig_recovery_id = rec_id\<rparr>"
  have dec: "hex_decode_to_slice S 32 (hex_encode S (to_repr S a)) = Some (to_repr S a)" for a
    using assms(1) by (intro hex_roundtrip) (simp_all add: suite_ok_def scalar_ok_def)
  have "\<forall>i \<in> set signers.
      SignSession_new S (P i) (?D i) (C i) = Inr (?S1 i, T1 i) \<and>
      SignSession_phase2 S (C i) (order1 i (inbox t1_parties T1 signers i)) (?S1 i) = (Inr (T2 i), ?S2 i) \<and>
      SignSession_phase3 S (order2 i (inbox t2_parties T2 signers i)) (?S2 i) = (Some (Inr (B i)), ?S3 i) \<and>
      (\<forall>bs. mset bs = mset (map B signers) \<longrightarrow> SignSession_phase4 S hex_error bs (?S3 i) = Some (Inr ?sig))"
  proof
    fix i assume i: "i \<in> set signers"
    note r = bspec [OF run i]
    have "SignSession_new S (P i) (?D i) (C i) = Inr (?S1 i, T1 i)"
      using r by (simp add: SignSession_new_def)
    moreover have "SignSession_phase2 S (C i) (order1 i (inbox t1_parties T1 signers i)) (?S1 i) = (Inr (T2 i), ?S2 i)"
      using r by (simp add: SignSession_phase2_def)
    moreover have "SignSession_phase3 S (order2 i (inbox t2_parties T2 signers i)) (?S2 i) = (Some (Inr (B i)), ?S3 i)"
      using r by (simp add: SignSession_phase3_def)
    moreover have "\<forall>bs. mset bs = mset (map B signers) \<longrightarrow> SignSession_phase4 S hex_error bs (?S3 i) = Some (Inr ?sig)"
      using r by (simp add: SignSession_phase4_def decode32_def dec)
    ultimately show "SignSession_new S (P i) (?D i) (C i) = Inr (?S1 i, T1 i) \<and>
      SignSession_phase2 S (C i) (order1 i (inbox t1_parties T1 signers i)) (?S1 i) = (Inr (T2 i), ?S2 i) \<and>
      SignSession_phase3 S (order2 i (inbox t2_parties T2 signers i)) (?S2 i) = (Some (Inr (B i)), ?S3 i) \<and>
      (\<forall>bs. mset bs = mset (map B signers) \<longrightarrow> SignSession_phase4 S hex_error bs (?S3 i) = Some (Inr ?sig))"
      by blast
  qed
  with z v show ?thesis
    by (intro exI [of _ ?S1] exI [of _ T1] exI [of _ ?S2] exI [of _ T2] exI [of _ ?S3] exI [of _ B]
        exI [of _ ?sig] exI [of _ z]) simp
qed

text \<open>Two signers out of three, with instance keys that add up to 4.\<close>

lemma sample_sign_sessions:
  "\<exists>s1 t1 c r2 t2 s2 r3 b s3 r4 sig.
     SignSession_new sample_suite (sample_signer (PartyIndex 1))
       (signing_data (replicate 32 8) (gf_repr 3) [PartyIndex 1, PartyIndex 3] (PartyIndex 1)) c = Inr (s1, t1) \<and>
     SignSession_phase2 sample_suite c r2 s1 = (Inr t2, s2) \<and>
     SignSession_phase3 sample_suite r3 s2 = (Some (Inr b), s3) \<and>
     SignSession_phase4 sample_suite (\<lambda>_. []) r4 s3 = Some (Inr sig) \<and> sig_r sig = gf_repr 16"
proof -
  let ?signers = "[PartyIndex 1, PartyIndex 3]" and ?f = "\<lambda>x :: gf257. 7 + 5 * x"
  have facts: "length ?signers = unat (threshold \<lparr>threshold = 2, share_count = 3\<rparr>)"
    "sign_coins_ok ?signers sample_coins_of" "(4 :: gf257) = (\<Sum>i \<in> set ?signers. sc_instance_key (sample_coins_of i))"
    "(4 :: gf257) \<noteq> 0" "(\<Sum>i \<in> set ?signers. sc_inversion_mask (sample_coins_of i)) \<noteq> 0"
    "(16 :: gf257) \<noteq> 0" "set ?signers \<subseteq> set [PartyIndex 1, PartyIndex 2, PartyIndex 3]"
    "reduce_hash_bytes sample_suite (gf_repr 3) + 16 * ?f 0 \<noteq> 0"
    by (simp_all add: sign_coins_ok_def sample_coins_of_def sample_sign_coins_def mul_L_def reduce_hash_bytes_def gf_eq_iff)
  have x: "16 = reduce_bytes sample_suite (x_bytes sample_suite (pmul sample_suite (generator sample_suite) 4))"
    "to_repr sample_suite 16 = x_bytes sample_suite (pmul sample_suite (generator sample_suite) 4)"
    by (simp_all add: sample_suite_def)
  have enc: "to_repr sample_suite = gf_repr" by (simp add: sample_suite_def)
  let ?D = "signing_data (replicate 32 8) (gf_repr 3) ?signers"
  from sign_sessions_run [OF sample_suite_ok sample_key_material, of "replicate 32 8" ?signers sample_coins_of 4 16
      "gf_repr 3" "\<lambda>i. rev" "\<lambda>i xs. xs" "\<lambda>_. []"] facts x
  obtain S1 T1 S2 T2 S3 B sig where run: "\<forall>i \<in> set ?signers.
      SignSession_new sample_suite (sample_signer i) (?D i) (sample_coins_of i) = Inr (S1 i, T1 i) \<and>
      SignSession_phase2 sample_suite (sample_coins_of i) (rev (inbox t1_parties T1 ?signers i)) (S1 i) =
        (Inr (T2 i), S2 i) \<and>
      SignSession_phase3 sample_suite (inbox t2_parties T2 ?signers i) (S2 i) = (Some (Inr (B i)), S3 i) \<and>
      (\<forall>bs. mset bs = mset (map B ?signers) \<longrightarrow> SignSession_phase4 sample_suite (\<lambda>_. []) bs (S3 i) = Some (Inr sig))"
    and "sig_r sig = to_repr sample_suite 16"
    by (simp add: ID_LEN_def) blast
  moreover have "PartyIndex 1 \<in> set ?signers" by simp
  ultimately show ?thesis unfolding enc by blast
qed

lemma sign_session_invariant_witness:
  "\<exists>(s :: (gf257, gf257) sign_session) x. ss_x_coord s = Some x \<and> ss_phase1_to_2 s = None \<and> ss_phase2_to_3 s = None \<and>
     known_x sample_suite (sample_signer (PartyIndex 1))
       (signing_data (replicate 32 8) (gf_repr 3) [PartyIndex 1, PartyIndex 3] (PartyIndex 1)) x"
proof -
  from sample_sign_sessions obtain s1 t1 c r2 t2 s2 r3 b s3 r4 sig where
    n: "SignSession_new sample_suite (sample_signer (PartyIndex 1))
       (signing_data (replicate 32 8) (gf_repr 3) [PartyIndex 1, PartyIndex 3] (PartyIndex 1)) c = Inr (s1, t1)" and
    p2: "SignSession_phase2 sample_suite c r2 s1 = (Inr t2, s2)" and
    p3: "SignSession_phase3 sample_suite r3 s2 = (Some (Inr b), s3)" by blast
  have h: "history (sign_call sample_suite) (Some s1) [Returned 2, Returned 3] (Some s3)"
    unfolding history_simps by (intro exI conjI) (rule sign2_ran [OF p2] sign3_ran [OF p3] refl)+
  obtain x where "ss_x_coord s3 = Some x" using sign3_result [OF p3] by auto
  with sign_session_invariant [OF n h] show ?thesis by (intro exI [of _ s3] exI [of _ x]) simp
qed

lemma sign_session_runs_once_witness:
  "\<exists>s1 s2. history (sign_call sample_suite) (Some s1) [Returned 2, Refused 2] (Some s2) \<and>
     \<not> history (sign_call sample_suite) (Some s1) [Returned 2, Returned 2] (Some s2)"
proof -
  from sample_sign_sessions obtain s1 t1 c r2 t2 s2 where
    n: "SignSession_new sample_suite (sample_signer (PartyIndex 1))
       (signing_data (replicate 32 8) (gf_repr 3) [PartyIndex 1, PartyIndex 3] (PartyIndex 1)) c = Inr (s1, t1)" and
    p2: "SignSession_phase2 sample_suite c r2 s1 = (Inr t2, s2)" by blast
  from sign2_result [OF p2] have none: "ss_phase1_to_2 s2 = None" by auto
  then have r: "SignSession_phase2 sample_suite c r2 s2 = (Inl (out_of_order (ss_party s2) ''phase2 called out of order''), s2)"
    by (simp add: SignSession_phase2_def)
  have "history (sign_call sample_suite) (Some s1) [Returned 2, Refused 2] (Some s2)"
    unfolding history_simps by (intro exI conjI) (rule sign2_ran [OF p2] sign2_refused [OF r none] refl)+
  moreover have "\<not> history (sign_call sample_suite) (Some s1) [Returned 2, Returned 2] (Some s2)"
    using sign_session_runs_once [OF n, of "[Returned 2, Returned 2]" "Some s2"] by auto
  ultimately show ?thesis by (intro exI [of _ s1] exI [of _ s2] conjI)
qed

lemma sign_session_sound_witness:
  "\<exists>sig z. length (to_bytes sig) = 64 \<and> sig_r sig = gf_repr 16 \<and> sig_s sig = to_repr sample_suite z \<and>
     \<not> is_high sample_suite z \<and> ecdsa_valid sample_suite (reduce_hash_bytes sample_suite (gf_repr 3)) 7 16 z"
proof -
  let ?D = "signing_data (replicate 32 8) (gf_repr 3) [PartyIndex 1, PartyIndex 3] (PartyIndex 1)"
  from sample_sign_sessions obtain s1 t1 c r2 t2 s2 r3 b s3 r4 sig where
    n: "SignSession_new sample_suite (sample_signer (PartyIndex 1)) ?D c = Inr (s1, t1)" and
    p2: "SignSession_phase2 sample_suite c r2 s1 = (Inr t2, s2)" and
    p3: "SignSession_phase3 sample_suite r3 s2 = (Some (Inr b), s3)" and
    p4: "SignSession_phase4 sample_suite (\<lambda>_. []) r4 s3 = Some (Inr sig)" and r: "sig_r sig = gf_repr 16" by blast
  have h: "history (sign_call sample_suite) (Some s1) [Returned 2, Returned 3] (Some s3)"
    unfolding history_simps by (intro exI conjI) (rule sign2_ran [OF p2] sign3_ran [OF p3] refl)+
  from sign_session_sound [OF sample_suite_ok n h p4] obtain a z where a: "sig_r sig = to_repr sample_suite a"
    "sig_s sig = to_repr sample_suite z" "\<not> is_high sample_suite z" "length (to_bytes sig) = 64"
    "ecdsa_valid sample_suite (reduce_hash_bytes sample_suite (message_hash ?D)) (pk (sample_signer (PartyIndex 1))) a z"
    by blast
  have "to_repr sample_suite a = to_repr sample_suite 16" using a(1) r by (simp add: sample_suite_def)
  then have "a = 16" using sample_suite_ok reduce_to_repr by metis
  moreover have "message_hash ?D = gf_repr 3" "pk (sample_signer (PartyIndex 1)) = 7"
    by (simp_all add: signing_data_def sample_signer_def)
  ultimately show ?thesis using a r by auto
qed

end
