(* ===== verification/Lifecycle.thy ===== *)
theory Lifecycle
  imports Sign_Session Dkg_Session Re_Key
begin

text \<open>
  The life of a key, across components: key generation by sessions, derivation along a path, signing
  by sessions.  The hand-over is \<open>key_material\<close>, which key generation, re-keying and the refreshes
  establish, derivation keeps and signing needs.
\<close>

section \<open>Derivation keeps key material\<close>

lemma key_material_same_public:
  assumes "key_material S f params sid code half all P" and "i \<in> set all" and "j \<in> set all"
  shows "same_public (derivation_data (P i)) (derivation_data (P j))"
proof -
  note km = key_materialD [OF assms(1)]
  have "depth (derivation_data (P i)) = depth (derivation_data (P j))" by (rule km(14) [OF assms(3,2)])
  moreover have "dd_pk (derivation_data (P i)) = dd_pk (derivation_data (P j))"
    by (simp only: km(13) [OF assms(2)] km(13) [OF assms(3)] km(9) [OF assms(2)] km(9) [OF assms(3)])
  moreover have "chain_code (derivation_data (P i)) = chain_code (derivation_data (P j))"
    by (simp only: km(11) [OF assms(2)] km(11) [OF assms(3)])
  ultimately show ?thesis by (simp add: same_public_def)
qed

lemma derived_key_material:
  fixes S :: "('s::field, 'p::ab_group_add) suite"
  assumes "suite_ok S" and "key_material S f params sid code half all P" and "k \<in> set all"
    and "party_derive_from_path S (P k) path address_fn = Inr q"
  shows "\<exists>tweak code' Q. Q k = q \<and>
    (\<forall>i \<in> set all. party_derive_from_path S (P i) path address_fn = Inr (Q i)) \<and>
    key_material S (\<lambda>x. f x + tweak) params sid code' half all Q"
proof -
  note km = key_materialD [OF assms(2)]
  from assms(4) obtain d where d: "derive_from_path S (derivation_data (P k)) path = Inr d"
    by (auto simp: party_derive_from_path_def rbind_Inr_iff)
  have "\<exists>t e. derive_from_path S (derivation_data (P i)) path = Inr e \<and> same_public d e \<and>
      moved_by S t (derivation_data (P k)) d \<and> moved_by S t (derivation_data (P i)) e" if "i \<in> set all" for i
    using derive_path_same [OF assms(1) key_material_same_public [OF assms(2,3) that] d] by blast
  then obtain t E where E: "\<And>i. i \<in> set all \<Longrightarrow> derive_from_path S (derivation_data (P i)) path = Inr (E i)"
    "\<And>i. i \<in> set all \<Longrightarrow> same_public d (E i)" "\<And>i. i \<in> set all \<Longrightarrow> moved_by S (t i) (derivation_data (P k)) d"
    "\<And>i. i \<in> set all \<Longrightarrow> moved_by S (t i) (derivation_data (P i)) (E i)" by metis
  have t: "t i = t k" if "i \<in> set all" for i
    using E(3) [OF that] E(3) [OF assms(3)] by (simp add: moved_by_def)
  let ?Q = "\<lambda>i. party_with (P i) address_fn (E i)"
  have runs: "party_derive_from_path S (P i) path address_fn = Inr (?Q i)" if "i \<in> set all" for i
    using E(1) [OF that] by (simp add: party_derive_from_path_def)
  have moved: "dd_poly_point (E i) = f (index_scalar i) + t k \<and>
      dd_pk (E i) = pmul S (generator S) (f 0 + t k) \<and> chain_code (E i) = chain_code d \<and> depth (E i) = depth d"
    if "i \<in> set all" for i
    using E(2,4) [OF that] t [OF that] km(8,9,12,13) that assms(1)
    by (simp add: moved_by_def same_public_def pmul_add)
  have "0 < unat (threshold params)" using km(1) by (simp add: params_ok_def word_le_nat_alt)
  then have poly: "poly_lt (unat (threshold params)) (\<lambda>x. f x + t k)"
    by (intro poly_lt_add km(3) poly_lt_const)
  have "key_material S (\<lambda>x. f x + t k) params sid (chain_code d) half all ?Q"
  proof (rule key_materialI [OF km(1,2) poly])
    show "\<exists>ms mr. bt_get (mul_senders (?Q i)) j = Some ms \<and> bt_get (mul_receivers (?Q j)) i = Some mr \<and> mul_linked ms mr"
      if "i \<in> set all" "j \<in> set all - {i}" for i j
      using km(15) [OF that] by (simp add: party_with_def)
  qed (use moved km(4-7,10) in \<open>simp_all add: party_with_def\<close>)
  moreover have "?Q k = q" using runs [OF assms(3)] assms(4) by simp
  ultimately show ?thesis using runs by (intro exI [of _ "t k"] exI [of _ "chain_code d"] exI [of _ ?Q]) simp
qed

text \<open>C23: derivation keeps key material.  When one party of a key derives along a path, all do, and what
  they hold then is key material for the polynomial moved by one tweak: same parameters, session,
  seeds and multiplication states, a common new chain code and public key.\<close>

theorem derivation_keeps_key_material:
  fixes S :: "('s::field, 'p::ab_group_add) suite"
  assumes "suite_ok S" and "key_material S f params sid code half all P" and "k \<in> set all"
    and "party_derive_from_path S (P k) path address_fn = Inr q"
  shows "\<exists>tweak code' Q. Q k = q \<and>
    (\<forall>i \<in> set all. party_derive_from_path S (P i) path address_fn = Inr (Q i)) \<and>
    key_material S (\<lambda>x. f x + tweak) params sid code' half all Q"
  by (rule derived_key_material [OF assms])

text \<open>Three parties with the shares of 7 + 5 x; the tweak is 5.\<close>

lemma sample_signer_derives:
  "\<exists>q. party_derive_from_path tweak_suite (sample_signer i) (show_path [1]) (\<lambda>_. ''a'') = Inr q \<and> pk q = 12"
proof -
  obtain d' where "derive_child tweak_suite (derivation_data (sample_signer i)) 1 = Inr d'" "dd_pk d' = 12"
    using sample_derive_child by (auto simp: sample_signer_def)
  then show ?thesis
    by (simp add: party_derive_from_path_def derive_from_path_def sample_path party_with_def)
qed

lemma tweak_key_material:
  "key_material tweak_suite f params sid code half all P = key_material sample_suite f params sid code half all P"
  by (simp add: key_material_def tweak_suite_def)

lemma derivation_keeps_key_material_witness:
  "\<exists>tweak code Q. pk (Q (PartyIndex 1)) = 12 \<and>
     party_derive_from_path tweak_suite (sample_signer (PartyIndex 3)) (show_path [1]) (\<lambda>_. ''a'') =
       Inr (Q (PartyIndex 3)) \<and>
     key_material tweak_suite (\<lambda>x. 7 + 5 * x + tweak) \<lparr>threshold = 2, share_count = 3\<rparr> (replicate 32 9) code
       (\<lambda>i j. replicate 32 (as_u8 i)) [PartyIndex 1, PartyIndex 2, PartyIndex 3] Q"
proof -
  obtain q where q: "party_derive_from_path tweak_suite (sample_signer (PartyIndex 1)) (show_path [1]) (\<lambda>_. ''a'') = Inr q"
    "pk q = 12" using sample_signer_derives by blast
  have one: "PartyIndex 1 \<in> set [PartyIndex 1, PartyIndex 2, PartyIndex 3]" by simp
  from derivation_keeps_key_material [OF tweak_suite_ok sample_key_material [folded tweak_key_material] one q(1)] q(2)
  show ?thesis by (elim exE conjE) (intro exI conjI, auto)
qed

section \<open>From key generation to a signature\<close>

text \<open>All sessions of a key generation return, with these parties and this package.\<close>

definition dkg_sessions_return ::
  "('s::field, 'p::ab_group_add) suite \<Rightarrow> parameters \<Rightarrow> bytes \<Rightarrow> (party_index \<Rightarrow> 's dkg_coins) \<Rightarrow> ('p \<Rightarrow> string) \<Rightarrow>
     (party_index \<Rightarrow> ('s, 'p) party) \<Rightarrow> 'p public_key_package \<Rightarrow> bool" where
  "dkg_sessions_return S params sid C address_fn P pkg \<longleftrightarrow> (\<exists>frags PC ZT B2 S2 ZT3 MT B3 S3.
    \<forall>i \<in> set (party_range params).
      frags i = map (\<lambda>j. entry_for i (DkgSession_phase1 S (DkgSession_new params j sid) (C j))) (party_range params) \<and>
      DkgSession_phase2 S (C i) (frags i) (DkgSession_new params i sid) = (Inr (PC i, ZT i, B2 i), S2 i) \<and>
      DkgSession_phase3 S (C i) (S2 i) = (Inr (ZT3 i, MT i, B3 i), S3 i) \<and>
      DkgSession_phase4 S (S3 i) (map PC (party_range params)) (inbox z2_parties ZT (party_range params) i)
        (inbox z3_parties ZT3 (party_range params) i) (inbox mi_parties MT (party_range params) i)
        (bt_tabulate B2 (party_range params)) (bt_tabulate B3 (party_range params)) address_fn = Inr (P i, pkg))"

text \<open>All sessions of these signers return this signature.\<close>

definition sign_sessions_return ::
  "('s::field, 'p::ab_group_add) suite \<Rightarrow> (party_index \<Rightarrow> ('s, 'p) party) \<Rightarrow> bytes \<Rightarrow> bytes \<Rightarrow> party_index list \<Rightarrow>
     (party_index \<Rightarrow> 's sign_coins) \<Rightarrow> (string \<Rightarrow> string) \<Rightarrow> ecdsa_signature \<Rightarrow> bool" where
  "sign_sessions_return S P sign hash signers C hex_error sig \<longleftrightarrow> (\<exists>S1 T1 S2 T2 S3 B. \<forall>i \<in> set signers.
      SignSession_new S (P i) (signing_data sign hash signers i) (C i) = Inr (S1 i, T1 i) \<and>
      SignSession_phase2 S (C i) (inbox t1_parties T1 signers i) (S1 i) = (Inr (T2 i), S2 i) \<and>
      SignSession_phase3 S (inbox t2_parties T2 signers i) (S2 i) = (Some (Inr (B i)), S3 i) \<and>
      SignSession_phase4 S hex_error (map B signers) (S3 i) = Some (Inr sig))"

text \<open>C1: from key generation to a signature.  When the parties run the sessions of key generation and any
  threshold of them then runs signing sessions, all sessions return, unless a sampled value is
  degenerate; every signer returns one and the same signature, and it verifies under the public key
  that all parties hold and that is in the published package.\<close>

theorem generated_key_signs:
  fixes S :: "('s::field, 'p::ab_group_add) suite"
  assumes "suite_ok S" and "cyclic S" and "params_ok params" and "share_count params \<noteq> 255"
    and "dkg_coins_ok S params sid C" and "length sid = ID_LEN" and "length sign = ID_LEN"
    and "set signers \<subseteq> set (party_range params)" and "distinct signers"
    and "length signers = unat (threshold params)" and "sign_coins_ok signers D"
    and "k = (\<Sum>i \<in> set signers. sc_instance_key (D i))" and "k \<noteq> 0"
    and "(\<Sum>i \<in> set signers. sc_inversion_mask (D i)) \<noteq> 0"
    and "to_repr S r = x_bytes S (pmul S (generator S) k)" and "r \<noteq> 0"
    and "reduce_hash_bytes S hash + r * secret_poly params C 0 \<noteq> 0"
  shows "\<exists>P pkg sig. dkg_sessions_return S params sid C address_fn P pkg \<and>
    sign_sessions_return S P sign hash signers D hex_error sig \<and>
    (\<forall>i \<in> set (party_range params). pk (P i) = verifying_key pkg) \<and>
    verify_ecdsa_signature S hash (verifying_key pkg) (hex_encode S (sig_r sig)) (hex_encode S (sig_s sig))"
proof -
  have nw: "no_wrap params" using assms(3,4) by (simp add: no_wrap_def)
  obtain PC ZT B2 S2 ZT3 MT B3 S3 P where run: "\<forall>i \<in> set (party_range params).
      DkgSession_phase2 S (C i)
        (map (\<lambda>j. entry_for i (DkgSession_phase1 S (DkgSession_new params j sid) (C j))) (party_range params))
        (DkgSession_new params i sid) = (Inr (PC i, ZT i, B2 i), S2 i) \<and>
      DkgSession_phase3 S (C i) (S2 i) = (Inr (ZT3 i, MT i, B3 i), S3 i) \<and>
      DkgSession_phase4 S (S3 i) (map PC (party_range params)) (inbox z2_parties ZT (party_range params) i)
        (inbox z3_parties ZT3 (party_range params) i) (inbox mi_parties MT (party_range params) i)
        (bt_tabulate B2 (party_range params)) (bt_tabulate B3 (party_range params)) address_fn =
        Inr (P i, dkg_package S params C)"
    and km: "key_material S (secret_poly params C) params sid (joint_chain_code params C)
      (\<lambda>i j. ic_seed (dc_init (C i)) j) (party_range params) P"
    using dkg_sessions_run [OF assms(1,2) nw assms(5), of "\<lambda>_. party_range params" "\<lambda>_. party_range params"
        "\<lambda>_ xs. xs" "\<lambda>_ xs. xs" "\<lambda>_ xs. xs" address_fn] by simp blast
  have dkg: "dkg_sessions_return S params sid C address_fn P (dkg_package S params C)"
    unfolding dkg_sessions_return_def
    by (intro exI [of _ "\<lambda>i. map (\<lambda>j. entry_for i (DkgSession_phase1 S (DkgSession_new params j sid) (C j)))
          (party_range params)"] exI [of _ PC] exI [of _ ZT] exI [of _ B2] exI [of _ S2] exI [of _ ZT3]
          exI [of _ MT] exI [of _ B3] exI [of _ S3]) (use run in blast)
  have r: "r = reduce_bytes S (x_bytes S (pmul S (generator S) k))"
    using assms(1,15) by (metis reduce_to_repr)
  have id: "\<forall>i xs. mset ((\<lambda>_ xs. xs) i xs) = mset xs" by simp
  obtain S1 T1 S2 T2 S3 B sig z where sign: "\<forall>i \<in> set signers.
      SignSession_new S (P i) (signing_data sign hash signers i) (D i) = Inr (S1 i, T1 i) \<and>
      SignSession_phase2 S (D i) (inbox t1_parties T1 signers i) (S1 i) = (Inr (T2 i), S2 i) \<and>
      SignSession_phase3 S (inbox t2_parties T2 signers i) (S2 i) = (Some (Inr (B i)), S3 i) \<and>
      (\<forall>bs. mset bs = mset (map B signers) \<longrightarrow> SignSession_phase4 S hex_error bs (S3 i) = Some (Inr sig))"
    and v: "verify_ecdsa_signature S hash (pmul S (generator S) (secret_poly params C 0)) (hex_encode S (sig_r sig))
      (hex_encode S (sig_s sig))"
    using sign_sessions_run [OF assms(1) km assms(6-14) r assms(15-17) id id, of hex_error] by blast
  have "sign_sessions_return S P sign hash signers D hex_error sig"
    unfolding sign_sessions_return_def
    by (intro exI [of _ S1] exI [of _ T1] exI [of _ S2] exI [of _ T2] exI [of _ S3] exI [of _ B])
      (use sign in blast)
  moreover have "verifying_key (dkg_package S params C) = pmul S (generator S) (secret_poly params C 0)"
    by (simp add: dkg_package_def PublicKeyPackage_new_def)
  ultimately show ?thesis
    using dkg v key_materialD(9) [OF km] by (intro exI [of _ P] exI [of _ "dkg_package S params C"] exI [of _ sig]) simp
qed

lemma generated_key_signs_witness:
  "\<exists>P pkg sig. dkg_sessions_return init_suite sample_params (replicate 32 6) sample_dkg_coins (\<lambda>_. ''a'') P pkg \<and>
     sign_sessions_return init_suite P (replicate 32 8) (gf_repr 3) [PartyIndex 1, PartyIndex 3] sample_coins_of (\<lambda>_. []) sig \<and>
     verify_ecdsa_signature init_suite (gf_repr 3) (verifying_key pkg) (hex_encode init_suite (sig_r sig))
       (hex_encode init_suite (sig_s sig))"
proof -
  let ?signers = "[PartyIndex 1, PartyIndex 3]"
  have facts: "length ?signers = unat (threshold sample_params)" "distinct ?signers"
    "sign_coins_ok ?signers sample_coins_of" "(4 :: gf257) = (\<Sum>i \<in> set ?signers. sc_instance_key (sample_coins_of i))"
    "(4 :: gf257) \<noteq> 0" "(\<Sum>i \<in> set ?signers. sc_inversion_mask (sample_coins_of i)) \<noteq> 0"
    "(16 :: gf257) \<noteq> 0" "set ?signers \<subseteq> set (party_range sample_params)"
    "reduce_hash_bytes init_suite (gf_repr 3) + 16 * secret_poly sample_params sample_dkg_coins 0 \<noteq> 0"
    "to_repr init_suite 16 = x_bytes init_suite (pmul init_suite (generator init_suite) 4)"
    by (simp_all add: sign_coins_ok_def sample_coins_of_def sample_sign_coins_def mul_L_def reduce_hash_bytes_def
        gf_eq_iff sample_params_def sample_party_range [unfolded sample_params_def] sample_secret_poly [unfolded sample_params_def]
        init_suite_def sample_suite_def)
  have ids: "length (replicate 32 (6 :: 8 word)) = ID_LEN" "length (replicate 32 (8 :: 8 word)) = ID_LEN"
    by (simp_all add: ID_LEN_def)
  from generated_key_signs [OF init_suite_ok init_suite_cyclic sample_params_ok(1) sample_share_count
      sample_dkg_coins_any ids facts(8,2,1,3-6,10,7,9)]
  show ?thesis by blast
qed

end
