(* ===== verification/Key_Life.thy ===== *)
theory Key_Life
  imports Lifecycle
begin

text \<open>
  Keys that live on: generated by sessions or dealt by re-keying, then derived along paths and refreshed
  in either way, any number of times in any order, by honest parties.  After every such life the
  parties hold key material, so any threshold of them signs.
\<close>

section \<open>Runs of all parties\<close>

definition refresh_returns ::
  "('s::field, 'p::ab_group_add) suite \<Rightarrow> parameters \<Rightarrow> bytes \<Rightarrow> (party_index \<Rightarrow> 's refresh_coins) \<Rightarrow>
     (party_index \<Rightarrow> ('s, 'p) party) \<Rightarrow> (party_index \<Rightarrow> ('s, 'p) party) \<Rightarrow> bool" where
  "refresh_returns S params rsid C P Q \<longleftrightarrow> (\<exists>c PC K2 T2 K3 T3. \<forall>i \<in> set (party_range params).
     refresh_phase2 S (P i) (rc_proof (C i)) (rc_init (C i)) rsid
       (map (\<lambda>j. entry_for i (refresh_phase1 S (P j) (rc_polynomial (C j)))) (party_range params)) =
       Inr (c i, PC i, K2 i, T2 i) \<and>
     refresh_phase3 (P i) (K2 i) = Inr (K3 i, T3 i) \<and>
     fst (refresh_phase4 S (P i) rsid (c i) (map PC (party_range params)) (K3 i)
       (inbox z2_parties T2 (party_range params) i) (inbox z3_parties T3 (party_range params) i)) = Inr (Q i))"

definition refresh_complete_returns ::
  "('s::field, 'p::ab_group_add) suite \<Rightarrow> parameters \<Rightarrow> bytes \<Rightarrow> (party_index \<Rightarrow> 's refresh_coins) \<Rightarrow>
     (party_index \<Rightarrow> ('s, 'p) party) \<Rightarrow> (party_index \<Rightarrow> ('s, 'p) party) \<Rightarrow> bool" where
  "refresh_complete_returns S params rsid C P Q \<longleftrightarrow> (\<exists>c PC ZK ZT ZK3 ZT3 MK MT. \<forall>i \<in> set (party_range params).
     refresh_complete_phase2 S (P i) (rc_proof (C i)) (rc_init (C i)) rsid
       (map (\<lambda>j. entry_for i (refresh_complete_phase1 S (P j) (rc_polynomial (C j)))) (party_range params)) =
       Inr (c i, PC i, ZK i, ZT i) \<and>
     refresh_complete_phase3 S (P i) (rc_init (C i)) rsid (ZK i) = Inr (ZK3 i, ZT3 i, MK i, MT i) \<and>
     fst (refresh_complete_phase4 S (P i) rsid (c i) (map PC (party_range params)) (ZK3 i)
       (inbox z2_parties ZT (party_range params) i) (inbox z3_parties ZT3 (party_range params) i)
       (MK i) (inbox mi_parties MT (party_range params) i)) = Inr (Q i))"

text \<open>The life of a key under a session id.  The premises on samples exclude degenerate values only.\<close>

inductive key_life ::
  "('s::field, 'p::ab_group_add) suite \<Rightarrow> parameters \<Rightarrow> bytes \<Rightarrow> (party_index \<Rightarrow> ('s, 'p) party) \<Rightarrow> bool"
  for S params where
  generated: "dkg_coins_ok S params sid C \<Longrightarrow> dkg_sessions_return S params sid C address_fn P pkg \<Longrightarrow>
    key_life S params sid P"
| dealt: "(\<And>l h. length (rk_common_seed coins l h) = SECURITY) \<Longrightarrow>
    fst (re_key S coins params sid secret_key option_chain_code address_fn) = map P (party_range params) \<Longrightarrow>
    key_life S params sid P"
| derived: "key_life S params sid P \<Longrightarrow>
    (\<And>i. i \<in> set (party_range params) \<Longrightarrow> party_derive_from_path S (P i) path address_fn = Inr (Q i)) \<Longrightarrow>
    key_life S params sid Q"
| refreshed: "key_life S params sid P \<Longrightarrow>
    (\<And>i. i \<in> set (party_range params) \<Longrightarrow> poly_point (P i) = f (index_scalar i)) \<Longrightarrow>
    refresh_coins_ok S params rsid f C \<Longrightarrow> refresh_returns S params rsid C P Q \<Longrightarrow> key_life S params rsid Q"
| refreshed_completely: "key_life S params sid P \<Longrightarrow>
    (\<And>i. i \<in> set (party_range params) \<Longrightarrow> poly_point (P i) = f (index_scalar i)) \<Longrightarrow>
    refresh_coins_ok S params rsid f C \<Longrightarrow> init_coins_ok S rsid (party_range params) (\<lambda>i. rc_init (C i)) \<Longrightarrow>
    refresh_complete_returns S params rsid C P Q \<Longrightarrow> key_life S params rsid Q"

section \<open>A run has one outcome\<close>

lemma key_material_cong:
  assumes "\<And>i. i \<in> set all \<Longrightarrow> P i = Q i"
  shows "key_material S f params sid code half all P = key_material S f params sid code half all Q"
  using assms unfolding key_material_def by simp

lemma inbox_cong: "(\<And>j. j \<in> set all \<Longrightarrow> X j = Y j) \<Longrightarrow> inbox route X all i = inbox route Y all i"
  unfolding inbox_def by (metis map_cong)

lemma bt_tabulate_cong: "(\<And>j. j \<in> set ks \<Longrightarrow> f j = g j) \<Longrightarrow> bt_tabulate f ks = bt_tabulate g ks"
  by (simp add: bt_tabulate_def)

lemma refresh_coins_ok_cong:
  assumes "\<And>i. i \<in> set (party_range params) \<Longrightarrow> f (index_scalar i) = g (index_scalar i)"
  shows "refresh_coins_ok S params rsid f C = refresh_coins_ok S params rsid g C"
  using assms unfolding refresh_coins_ok_def by simp

lemma dkg_return_material:
  fixes S :: "('s::field, 'p::ab_group_add) suite"
  assumes "suite_ok S" and "cyclic S" and "no_wrap params" and "dkg_coins_ok S params sid C"
    and "dkg_sessions_return S params sid C address_fn P pkg"
  shows "\<exists>f code half. key_material S f params sid code half (party_range params) P"
proof -
  let ?all = "party_range params"
  let ?frags = "\<lambda>i. map (\<lambda>j. entry_for i (DkgSession_phase1 S (DkgSession_new params j sid) (C j))) ?all"
  obtain PC ZT B2 S2 ZT3 MT B3 S3 P' where run: "\<forall>i \<in> set ?all.
      DkgSession_phase2 S (C i) (?frags i) (DkgSession_new params i sid) = (Inr (PC i, ZT i, B2 i), S2 i) \<and>
      DkgSession_phase3 S (C i) (S2 i) = (Inr (ZT3 i, MT i, B3 i), S3 i) \<and>
      DkgSession_phase4 S (S3 i) (map PC ?all) (inbox z2_parties ZT ?all i) (inbox z3_parties ZT3 ?all i)
        (inbox mi_parties MT ?all i) (bt_tabulate B2 ?all) (bt_tabulate B3 ?all) address_fn =
        Inr (P' i, dkg_package S params C)"
    and km: "key_material S (secret_poly params C) params sid (joint_chain_code params C)
      (\<lambda>i j. ic_seed (dc_init (C i)) j) ?all P'"
    using dkg_sessions_run [OF assms(1-4) refl refl refl refl refl, of address_fn] by blast
  from assms(5) obtain frags PCa ZTa B2a S2a ZT3a MTa B3a S3a where other: "\<forall>i \<in> set ?all. frags i = ?frags i \<and>
      DkgSession_phase2 S (C i) (frags i) (DkgSession_new params i sid) = (Inr (PCa i, ZTa i, B2a i), S2a i) \<and>
      DkgSession_phase3 S (C i) (S2a i) = (Inr (ZT3a i, MTa i, B3a i), S3a i) \<and>
      DkgSession_phase4 S (S3a i) (map PCa ?all) (inbox z2_parties ZTa ?all i) (inbox z3_parties ZT3a ?all i)
        (inbox mi_parties MTa ?all i) (bt_tabulate B2a ?all) (bt_tabulate B3a ?all) address_fn = Inr (P i, pkg)"
    unfolding dkg_sessions_return_def by blast
  have p2: "PCa j = PC j" "ZTa j = ZT j" "B2a j = B2 j" "S2a j = S2 j" if "j \<in> set ?all" for j
    using bspec [OF run that] bspec [OF other that] by auto
  have p3: "ZT3a j = ZT3 j" "MTa j = MT j" "B3a j = B3 j" "S3a j = S3 j" if "j \<in> set ?all" for j
    using bspec [OF run that] bspec [OF other that] p2(4) [OF that] by auto
  have "map PCa ?all = map PC ?all" "inbox z2_parties ZTa ?all i = inbox z2_parties ZT ?all i"
    "inbox z3_parties ZT3a ?all i = inbox z3_parties ZT3 ?all i" "inbox mi_parties MTa ?all i = inbox mi_parties MT ?all i"
    "bt_tabulate B2a ?all = bt_tabulate B2 ?all" "bt_tabulate B3a ?all = bt_tabulate B3 ?all" for i
    by (auto simp: p2 p3 intro: inbox_cong bt_tabulate_cong)
  note same = this
  have "P i = P' i" if "i \<in> set ?all" for i
  proof -
    from bspec [OF other that] have "DkgSession_phase4 S (S3 i) (map PC ?all) (inbox z2_parties ZT ?all i)
        (inbox z3_parties ZT3 ?all i) (inbox mi_parties MT ?all i) (bt_tabulate B2 ?all) (bt_tabulate B3 ?all) address_fn =
        Inr (P i, pkg)" unfolding same p3(4) [OF that] by blast
    with bspec [OF run that] show ?thesis by simp
  qed
  from key_material_cong [of ?all P P', OF this] km show ?thesis by blast
qed

lemma refresh_return_material:
  fixes S :: "('s::field, 'p::ab_group_add) suite"
  assumes "suite_ok S" and "cyclic S" and "no_wrap params"
    and km: "key_material S f params sid code half (party_range params) P"
    and "refresh_coins_ok S params rsid f C" and "refresh_returns S params rsid C P Q"
  shows "\<exists>f' code half. key_material S f' params rsid code half (party_range params) Q"
proof -
  let ?all = "party_range params"
  let ?frags = "\<lambda>i. map (\<lambda>j. entry_for i (refresh_phase1 S (P j) (rc_polynomial (C j)))) ?all"
  obtain PC K2 T2 K3 T3 Q' where run: "\<forall>i \<in> set ?all.
      refresh_phase2 S (P i) (rc_proof (C i)) (rc_init (C i)) rsid (?frags i) =
        Inr (correction_poly params C (index_scalar i), PC i, K2 i, T2 i) \<and>
      refresh_phase3 (P i) (K2 i) = Inr (K3 i, T3 i) \<and>
      refresh_phase4 S (P i) rsid (correction_poly params C (index_scalar i)) (map PC ?all) (K3 i)
        (inbox z2_parties T2 ?all i) (inbox z3_parties T3 ?all i) = (Inr (Q' i), party_zeroize (P i)) \<and>
      pk (Q' i) = pk (P i)"
    and km': "key_material S (\<lambda>x. f x + correction_poly params C x) params rsid code
      (\<lambda>i j. ic_seed (rc_init (C i)) j) ?all Q'"
    using refresh_rounds [OF assms(1-5) refl refl refl refl] by blast
  from assms(6) obtain c PCa K2a T2a K3a T3a where other: "\<forall>i \<in> set ?all.
      refresh_phase2 S (P i) (rc_proof (C i)) (rc_init (C i)) rsid (?frags i) = Inr (c i, PCa i, K2a i, T2a i) \<and>
      refresh_phase3 (P i) (K2a i) = Inr (K3a i, T3a i) \<and>
      fst (refresh_phase4 S (P i) rsid (c i) (map PCa ?all) (K3a i) (inbox z2_parties T2a ?all i)
        (inbox z3_parties T3a ?all i)) = Inr (Q i)"
    unfolding refresh_returns_def by blast
  have p2: "c j = correction_poly params C (index_scalar j)" "PCa j = PC j" "K2a j = K2 j" "T2a j = T2 j"
    if "j \<in> set ?all" for j using bspec [OF run that] bspec [OF other that] by auto
  have p3: "K3a j = K3 j" "T3a j = T3 j" if "j \<in> set ?all" for j
    using bspec [OF run that] bspec [OF other that] p2(3) [OF that] by auto
  have same: "map PCa ?all = map PC ?all" "inbox z2_parties T2a ?all i = inbox z2_parties T2 ?all i"
    "inbox z3_parties T3a ?all i = inbox z3_parties T3 ?all i" for i
    by (auto simp: p2 p3 intro: inbox_cong)
  have "Q i = Q' i" if "i \<in> set ?all" for i
  proof -
    from bspec [OF other that] have "fst (refresh_phase4 S (P i) rsid (correction_poly params C (index_scalar i))
        (map PC ?all) (K3 i) (inbox z2_parties T2 ?all i) (inbox z3_parties T3 ?all i)) = Inr (Q i)"
      unfolding same p2(1) [OF that] p3(1) [OF that] by blast
    with bspec [OF run that] show ?thesis by simp
  qed
  from key_material_cong [of ?all Q Q', OF this] km' show ?thesis by blast
qed

lemma refresh_complete_return_material:
  fixes S :: "('s::field, 'p::ab_group_add) suite"
  assumes "suite_ok S" and "cyclic S" and "no_wrap params"
    and km: "key_material S f params sid code half (party_range params) P"
    and "refresh_coins_ok S params rsid f C" and "init_coins_ok S rsid (party_range params) (\<lambda>i. rc_init (C i))"
    and "refresh_complete_returns S params rsid C P Q"
  shows "\<exists>f' code half. key_material S f' params rsid code half (party_range params) Q"
proof -
  let ?all = "party_range params"
  let ?frags = "\<lambda>i. map (\<lambda>j. entry_for i (refresh_complete_phase1 S (P j) (rc_polynomial (C j)))) ?all"
  obtain PC ZK ZT ZK3 ZT3 MK MT Q' where run: "\<forall>i \<in> set ?all.
      refresh_complete_phase2 S (P i) (rc_proof (C i)) (rc_init (C i)) rsid (?frags i) =
        Inr (correction_poly params C (index_scalar i), PC i, ZK i, ZT i) \<and>
      refresh_complete_phase3 S (P i) (rc_init (C i)) rsid (ZK i) = Inr (ZK3 i, ZT3 i, MK i, MT i) \<and>
      refresh_complete_phase4 S (P i) rsid (correction_poly params C (index_scalar i)) (map PC ?all) (ZK3 i)
        (inbox z2_parties ZT ?all i) (inbox z3_parties ZT3 ?all i) (MK i) (inbox mi_parties MT ?all i) =
        (Inr (Q' i), party_zeroize (P i)) \<and> pk (Q' i) = pk (P i)"
    and km': "key_material S (\<lambda>x. f x + correction_poly params C x) params rsid code
      (\<lambda>i j. ic_seed (rc_init (C i)) j) ?all Q'"
    using refresh_complete_rounds [OF assms(1-6) refl refl refl refl refl] by blast
  from assms(7) obtain c PCa ZKa ZTa ZK3a ZT3a MKa MTa where other: "\<forall>i \<in> set ?all.
      refresh_complete_phase2 S (P i) (rc_proof (C i)) (rc_init (C i)) rsid (?frags i) = Inr (c i, PCa i, ZKa i, ZTa i) \<and>
      refresh_complete_phase3 S (P i) (rc_init (C i)) rsid (ZKa i) = Inr (ZK3a i, ZT3a i, MKa i, MTa i) \<and>
      fst (refresh_complete_phase4 S (P i) rsid (c i) (map PCa ?all) (ZK3a i) (inbox z2_parties ZTa ?all i)
        (inbox z3_parties ZT3a ?all i) (MKa i) (inbox mi_parties MTa ?all i)) = Inr (Q i)"
    unfolding refresh_complete_returns_def by blast
  have p2: "c j = correction_poly params C (index_scalar j)" "PCa j = PC j" "ZKa j = ZK j" "ZTa j = ZT j"
    if "j \<in> set ?all" for j using bspec [OF run that] bspec [OF other that] by auto
  have p3: "ZK3a j = ZK3 j" "ZT3a j = ZT3 j" "MKa j = MK j" "MTa j = MT j" if "j \<in> set ?all" for j
    using bspec [OF run that] bspec [OF other that] p2(3) [OF that] by auto
  have same: "map PCa ?all = map PC ?all" "inbox z2_parties ZTa ?all i = inbox z2_parties ZT ?all i"
    "inbox z3_parties ZT3a ?all i = inbox z3_parties ZT3 ?all i" "inbox mi_parties MTa ?all i = inbox mi_parties MT ?all i"
    for i by (auto simp: p2 p3 intro: inbox_cong)
  have "Q i = Q' i" if "i \<in> set ?all" for i
  proof -
    from bspec [OF other that] have "fst (refresh_complete_phase4 S (P i) rsid
        (correction_poly params C (index_scalar i)) (map PC ?all) (ZK3 i) (inbox z2_parties ZT ?all i)
        (inbox z3_parties ZT3 ?all i) (MK i) (inbox mi_parties MT ?all i)) = Inr (Q i)"
      unfolding same p2(1) [OF that] p3(1,3) [OF that] by blast
    with bspec [OF run that] show ?thesis by simp
  qed
  from key_material_cong [of ?all Q Q', OF this] km' show ?thesis by blast
qed

section \<open>Key material for life\<close>

lemma key_life_material:
  fixes S :: "('s::field, 'p::ab_group_add) suite"
  assumes "suite_ok S" and "cyclic S" and "no_wrap params" and "key_life S params sid P"
  shows "\<exists>f code half. key_material S f params sid code half (party_range params) P"
  using assms(4)
proof induction
  case (generated sid C address_fn P pkg)
  from dkg_return_material [OF assms(1-3) generated] show ?case .
next
  case (dealt coins sid secret_key option_chain_code address_fn P)
  have "params_ok params" using assms(3) by (simp add: no_wrap_def)
  from re_key_dealt [OF assms(1) this dealt(1) refl refl, where secret_key = secret_key and option_chain_code = option_chain_code
      and sid = sid and address_fn = address_fn]
  obtain P' f code where P': "fst (re_key S coins params sid secret_key option_chain_code address_fn) = map P' (party_range params)"
    "key_material S f params sid code (dealt_half coins) (party_range params) P'" by blast
  then have "\<And>i. i \<in> set (party_range params) \<Longrightarrow> P i = P' i" using dealt(2) by simp
  from key_material_cong [of _ P P', OF this] P'(2) show ?case by blast
next
  case (derived sid P path address_fn Q)
  then obtain f code half where km: "key_material S f params sid code half (party_range params) P" by blast
  have "2 \<le> unat (share_count params)"
    using assms(3) by (simp add: no_wrap_def params_ok_def word_le_nat_alt)
  then have one: "index_of_nat 1 \<in> set (party_range params)" by (simp add: party_range_def share_range_def)
  from derived_key_material [OF assms(1) km one derived(2) [OF one]] obtain t code' Q' where
    Q': "\<forall>i \<in> set (party_range params). party_derive_from_path S (P i) path address_fn = Inr (Q' i)"
    "key_material S (\<lambda>x. f x + t) params sid code' half (party_range params) Q'" by blast
  have "\<And>i. i \<in> set (party_range params) \<Longrightarrow> Q i = Q' i" using Q'(1) derived(2) by simp
  from key_material_cong [of _ Q Q', OF this] Q'(2) show ?case by blast
next
  case (refreshed sid P f rsid C Q)
  then obtain g code half where km: "key_material S g params sid code half (party_range params) P" by blast
  have "f (index_scalar i) = g (index_scalar i)" if "i \<in> set (party_range params)" for i
    using refreshed(2) [OF that] key_materialD(8) [OF km that] by simp
  with refreshed(3) refresh_coins_ok_cong [of params f g] have "refresh_coins_ok S params rsid g C" by blast
  from refresh_return_material [OF assms(1-3) km this refreshed(4)] show ?case .
next
  case (refreshed_completely sid P f rsid C Q)
  then obtain g code half where km: "key_material S g params sid code half (party_range params) P" by blast
  have "f (index_scalar i) = g (index_scalar i)" if "i \<in> set (party_range params)" for i
    using refreshed_completely(2) [OF that] key_materialD(8) [OF km that] by simp
  with refreshed_completely(3) refresh_coins_ok_cong [of params f g] have "refresh_coins_ok S params rsid g C" by blast
  from refresh_complete_return_material [OF assms(1-3) km this refreshed_completely(4,5)] show ?case .
qed

text \<open>C2: a key signs all its life.  However often a key was derived and refreshed, in either way, after it
  was generated or dealt, the parties share one public key and any threshold of them, unless a
  sampled value is degenerate, returns one signature from its signing sessions, which verifies under
  that key.\<close>

theorem key_life_signs:
  fixes S :: "('s::field, 'p::ab_group_add) suite"
  assumes "suite_ok S" and "cyclic S" and "params_ok params" and "share_count params \<noteq> 255"
    and "key_life S params sid P" and "length sid = ID_LEN" and "length sign = ID_LEN"
    and "set signers \<subseteq> set (party_range params)" and "distinct signers"
    and "length signers = unat (threshold params)" and "sign_coins_ok signers D"
    and "k = (\<Sum>i \<in> set signers. sc_instance_key (D i))" and "k \<noteq> 0"
    and "(\<Sum>i \<in> set signers. sc_inversion_mask (D i)) \<noteq> 0"
    and "to_repr S r = x_bytes S (pmul S (generator S) k)" and "r \<noteq> 0"
    and "\<forall>i \<in> set signers. pmul S (generator S) (reduce_hash_bytes S hash) + pmul S (pk (P i)) r \<noteq> 0"
  shows "\<exists>key sig. (\<forall>i \<in> set (party_range params). pk (P i) = key) \<and>
    sign_sessions_return S P sign hash signers D hex_error sig \<and>
    verify_ecdsa_signature S hash key (hex_encode S (sig_r sig)) (hex_encode S (sig_s sig))"
proof -
  have nw: "no_wrap params" using assms(3,4) by (simp add: no_wrap_def)
  from key_life_material [OF assms(1,2) nw assms(5)] obtain f code half where
    km: "key_material S f params sid code half (party_range params) P" by blast
  let ?key = "pmul S (generator S) (f 0)"
  have pk: "pk (P i) = ?key" if "i \<in> set (party_range params)" for i by (rule key_materialD(9) [OF km that])
  have "0 < unat (threshold params)" using assms(3) by (simp add: params_ok_def word_le_nat_alt)
  then obtain i where i: "i \<in> set signers" using assms(10) by (cases signers) auto
  have "pk (P i) = ?key" using pk i assms(8) by blast
  then have "pmul S (generator S) (reduce_hash_bytes S hash + r * f 0) =
      pmul S (generator S) (reduce_hash_bytes S hash) + pmul S (pk (P i)) r"
    by (simp add: pmul_add [OF assms(1)] pmul_pmul [OF assms(1)] mult.commute)
  then have nonzero: "reduce_hash_bytes S hash + r * f 0 \<noteq> 0"
    using bspec [OF assms(17) i] pmul_zero [OF assms(1)] by metis
  have r: "r = reduce_bytes S (x_bytes S (pmul S (generator S) k))"
    using assms(1,15) by (metis reduce_to_repr)
  have id: "\<forall>i xs. mset ((\<lambda>_ xs. xs) i xs) = mset xs" by simp
  obtain S1 T1 S2 T2 S3 B sig z where sign: "\<forall>i \<in> set signers.
      SignSession_new S (P i) (signing_data sign hash signers i) (D i) = Inr (S1 i, T1 i) \<and>
      SignSession_phase2 S (D i) (inbox t1_parties T1 signers i) (S1 i) = (Inr (T2 i), S2 i) \<and>
      SignSession_phase3 S (inbox t2_parties T2 signers i) (S2 i) = (Some (Inr (B i)), S3 i) \<and>
      (\<forall>bs. mset bs = mset (map B signers) \<longrightarrow> SignSession_phase4 S hex_error bs (S3 i) = Some (Inr sig))"
    and v: "verify_ecdsa_signature S hash ?key (hex_encode S (sig_r sig)) (hex_encode S (sig_s sig))"
    using sign_sessions_run [OF assms(1) km assms(6-14) r assms(15,16) nonzero id id, of hex_error] by blast
  have "sign_sessions_return S P sign hash signers D hex_error sig"
    unfolding sign_sessions_return_def
    by (intro exI [of _ S1] exI [of _ T1] exI [of _ S2] exI [of _ T2] exI [of _ S3] exI [of _ B])
      (use sign in blast)
  with pk v show ?thesis by blast
qed

text \<open>Three parties with threshold 2 generate a key, refresh it, and parties 1 and 3 sign.\<close>

lemma sample_generated_refreshed:
  "\<exists>P Q. key_life init_suite sample_params (replicate 32 6) P \<and>
     refresh_returns init_suite sample_params (replicate 32 5) sample_refresh_coins P Q \<and>
     key_life init_suite sample_params (replicate 32 5) Q \<and>
     (\<forall>i \<in> set (party_range sample_params). pk (Q i) = 7)"
proof -
  let ?all = "party_range sample_params"
  let ?f = "secret_poly sample_params sample_dkg_coins"
  obtain PC ZT B2 S2 ZT3 MT B3 S3 P where dkg: "\<forall>i \<in> set ?all.
      DkgSession_phase2 init_suite (sample_dkg_coins i)
        (map (\<lambda>j. entry_for i (DkgSession_phase1 init_suite (DkgSession_new sample_params j (replicate 32 6)) (sample_dkg_coins j))) ?all)
        (DkgSession_new sample_params i (replicate 32 6)) = (Inr (PC i, ZT i, B2 i), S2 i) \<and>
      DkgSession_phase3 init_suite (sample_dkg_coins i) (S2 i) = (Inr (ZT3 i, MT i, B3 i), S3 i) \<and>
      DkgSession_phase4 init_suite (S3 i) (map PC ?all) (inbox z2_parties ZT ?all i)
        (inbox z3_parties ZT3 ?all i) (inbox mi_parties MT ?all i)
        (bt_tabulate B2 ?all) (bt_tabulate B3 ?all) (\<lambda>_. ''a'') = Inr (P i, dkg_package init_suite sample_params sample_dkg_coins)"
    and km: "key_material init_suite ?f sample_params (replicate 32 6) (joint_chain_code sample_params sample_dkg_coins)
      (\<lambda>i j. ic_seed (dc_init (sample_dkg_coins i)) j) ?all P"
    using dkg_sessions_run [OF init_suite_ok init_suite_cyclic sample_params_ok(2) sample_dkg_coins_any
        refl refl refl refl refl, where sid = "replicate 32 6" and address_fn = "\<lambda>_. ''a''"] by blast
  have "dkg_sessions_return init_suite sample_params (replicate 32 6) sample_dkg_coins (\<lambda>_. ''a'') P
      (dkg_package init_suite sample_params sample_dkg_coins)"
    unfolding dkg_sessions_return_def
    by (intro exI [of _ "\<lambda>i. map (\<lambda>j. entry_for i (DkgSession_phase1 init_suite (DkgSession_new sample_params j (replicate 32 6))
          (sample_dkg_coins j))) ?all"] exI [of _ PC] exI [of _ ZT] exI [of _ B2] exI [of _ S2] exI [of _ ZT3]
          exI [of _ MT] exI [of _ B3] exI [of _ S3]) (use dkg in blast)
  from key_life.generated [OF sample_dkg_coins_any this]
  have life: "key_life init_suite sample_params (replicate 32 6) P" .
  obtain PC' K2 T2 K3 T3 Q where run: "\<forall>i \<in> set ?all.
      refresh_phase2 init_suite (P i) (rc_proof (sample_refresh_coins i)) (rc_init (sample_refresh_coins i)) (replicate 32 5)
        (map (\<lambda>j. entry_for i (refresh_phase1 init_suite (P j) (rc_polynomial (sample_refresh_coins j)))) ?all) =
        Inr (correction_poly sample_params sample_refresh_coins (index_scalar i), PC' i, K2 i, T2 i) \<and>
      refresh_phase3 (P i) (K2 i) = Inr (K3 i, T3 i) \<and>
      refresh_phase4 init_suite (P i) (replicate 32 5) (correction_poly sample_params sample_refresh_coins (index_scalar i))
        (map PC' ?all) (K3 i) (inbox z2_parties T2 ?all i) (inbox z3_parties T3 ?all i) = (Inr (Q i), party_zeroize (P i)) \<and>
      pk (Q i) = pk (P i)"
    using refresh_rounds [OF init_suite_ok init_suite_cyclic sample_params_ok(2) km sample_refresh_any(1) refl refl refl refl,
      where rsid = "replicate 32 5"] by blast
  have ret: "refresh_returns init_suite sample_params (replicate 32 5) sample_refresh_coins P Q"
    unfolding refresh_returns_def
    by (intro exI [of _ "\<lambda>i. correction_poly sample_params sample_refresh_coins (index_scalar i)"] exI [of _ PC'] exI [of _ K2]
        exI [of _ T2] exI [of _ K3] exI [of _ T3]) (use run in simp)
  have "key_life init_suite sample_params (replicate 32 5) Q"
    by (rule key_life.refreshed [OF life key_materialD(8) [OF km] sample_refresh_any(1) ret])
  moreover have "pk (Q i) = 7" if "i \<in> set ?all" for i
    using bspec [OF run that] key_materialD(9) [OF km that]
    by (simp add: sample_secret_poly init_suite_def sample_suite_def)
  ultimately show ?thesis using life ret by blast
qed

lemma key_life_signs_witness:
  "\<exists>P Q sig. key_life init_suite sample_params (replicate 32 6) P \<and>
     refresh_returns init_suite sample_params (replicate 32 5) sample_refresh_coins P Q \<and>
     sign_sessions_return init_suite Q (replicate 32 8) (gf_repr 3) [PartyIndex 1, PartyIndex 3] sample_coins_of (\<lambda>_. []) sig \<and>
     verify_ecdsa_signature init_suite (gf_repr 3) 7 (hex_encode init_suite (sig_r sig)) (hex_encode init_suite (sig_s sig))"
proof -
  let ?signers = "[PartyIndex 1, PartyIndex 3]"
  obtain P Q where life: "key_life init_suite sample_params (replicate 32 6) P"
    "refresh_returns init_suite sample_params (replicate 32 5) sample_refresh_coins P Q"
    "key_life init_suite sample_params (replicate 32 5) Q"
    and pk: "\<forall>i \<in> set (party_range sample_params). pk (Q i) = 7"
    using sample_generated_refreshed by blast
  have in_range: "set ?signers \<subseteq> set (party_range sample_params)" by (simp add: sample_party_range)
  have facts: "length ?signers = unat (threshold sample_params)" "distinct ?signers"
    "sign_coins_ok ?signers sample_coins_of" "(4 :: gf257) = (\<Sum>i \<in> set ?signers. sc_instance_key (sample_coins_of i))"
    "(4 :: gf257) \<noteq> 0" "(\<Sum>i \<in> set ?signers. sc_inversion_mask (sample_coins_of i)) \<noteq> 0" "(16 :: gf257) \<noteq> 0"
    "to_repr init_suite 16 = x_bytes init_suite (pmul init_suite (generator init_suite) 4)"
    by (simp_all add: sign_coins_ok_def sample_coins_of_def sample_sign_coins_def mul_L_def gf_eq_iff sample_params_def
        init_suite_def sample_suite_def)
  have nonzero: "\<forall>i \<in> set ?signers. pmul init_suite (generator init_suite) (reduce_hash_bytes init_suite (gf_repr 3)) +
      pmul init_suite (pk (Q i)) 16 \<noteq> 0"
    using pk in_range by (simp add: reduce_hash_bytes_def init_suite_def sample_suite_def gf_eq_iff)
  have ids: "length (replicate 32 (5 :: 8 word)) = ID_LEN" "length (replicate 32 (8 :: 8 word)) = ID_LEN"
    by (simp_all add: ID_LEN_def)
  from key_life_signs [OF init_suite_ok init_suite_cyclic sample_params_ok(1) sample_share_count life(3) ids in_range
      facts(2,1,3-6,8,7) nonzero]
  obtain key sig where sig: "\<forall>i \<in> set (party_range sample_params). pk (Q i) = key"
    "sign_sessions_return init_suite Q (replicate 32 8) (gf_repr 3) ?signers sample_coins_of (\<lambda>_. []) sig"
    "verify_ecdsa_signature init_suite (gf_repr 3) key (hex_encode init_suite (sig_r sig)) (hex_encode init_suite (sig_s sig))"
    by blast
  have one: "PartyIndex 1 \<in> set (party_range sample_params)" using in_range by simp
  have "key = 7" using bspec [OF sig(1) one] bspec [OF pk one] by (rule trans [OF sym])
  with sig life show ?thesis by blast
qed

end
