(* ===== verification/Harness.thy ===== *)
theory Harness
  imports Key_Life
begin

text \<open>
  The crate \<open>dkls23-benchmarks\<close>: programs that drive key generation, signing and both refreshes of
  all parties in one process, through the public interface of the core crate, routing the messages
  and counting their size through a \<open>Meter\<close>.  A panic (\<open>unwrap\<close> of an error, an index out of
  range, \<open>expect\<close>) is \<open>Inl Panicked\<close>.  What the library samples is given by party.
  The locales say what the runs rely on from a meter, and what follows for every meter.
\<close>

section \<open>Panics\<close>

definition unwrapped :: "'e + 'a \<Rightarrow> failure + 'a" where
  "unwrapped r = map_err (\<lambda>_. Panicked) r"

definition element :: "'a list \<Rightarrow> nat \<Rightarrow> failure + 'a" where
  "element xs i = (if i < length xs then Inr (xs ! i) else Inl Panicked)"

text \<open>\<open>PartyIndex::new(i as u8 + 1).unwrap()\<close>: an overflow gives 0, which is refused as well.\<close>

definition party_number :: "nat \<Rightarrow> failure + party_index" where
  "party_number i = unwrapped (PartyIndex_new (word_of_nat i + 1))"

text \<open>The range \<open>1..=n\<close> of bytes.\<close>

definition u8_upto :: "u8 \<Rightarrow> u8 list" where
  "u8_upto n = map word_of_nat [1..<Suc (unat n)]"

section \<open>Meters\<close>

text \<open>The messages whose serialized size is counted, one constructor per message type.\<close>

datatype ('s, 'p) wire_message =
    PolyFragments "'s list"
  | ZeroPhase2to4 transmit_zero2
  | ZeroPhase3to4 transmit_zero3
  | MulPhase3to4 "('s, 'p) transmit_mul"
  | SignPhase1to2 transmit_phase1to2
  | SignPhase2to3 "('s, 'p) transmit_phase2to3"
  | SignBroadcast3to4 "'s broadcast3to4"

record ('s, 'p, 'm) meter =
  meter_record :: "('s, 'p) wire_message list \<Rightarrow> 'm \<Rightarrow> failure + 'm"
  meter_end_round :: "'m \<Rightarrow> 'm"

definition NoMeter :: "('s, 'p, unit) meter" where
  "NoMeter = \<lparr>meter_record = \<lambda>_ _. Inr (), meter_end_round = \<lambda>_. ()\<rparr>"

record wire_meter =
  wm_bytes :: u64
  wm_rounds :: u32

definition wire_meter_default :: wire_meter where
  "wire_meter_default = \<lparr>wm_bytes = 0, wm_rounds = 0\<rparr>"

text \<open>\<open>serialized_size\<close> is the one of the \<open>bincode\<close> library, \<open>None\<close> its error.
  The counters wrap around, as in the release build that the metrics are run with.\<close>

definition WireMeter :: "(('s, 'p) wire_message \<Rightarrow> u64 option) \<Rightarrow> ('s, 'p, wire_meter) meter" where
  "WireMeter serialized_size =
     \<lparr>meter_record = for_each (\<lambda>m self. rbind (unwrap (serialized_size m)) (\<lambda>size.
        Inr (self\<lparr>wm_bytes := wm_bytes self + size\<rparr>))),
      meter_end_round = \<lambda>self. self\<lparr>wm_rounds := wm_rounds self + 1\<rparr>\<rparr>"

text \<open>\<open>for v in batches { meter.record(v) }\<close>\<close>

definition record_batches ::
  "('s, 'p, 'm) meter \<Rightarrow> ('a \<Rightarrow> ('s, 'p) wire_message) \<Rightarrow> 'a list list \<Rightarrow> 'm \<Rightarrow> failure + 'm" where
  "record_batches M con batches m = for_each (\<lambda>v. meter_record M (map con v)) batches m"

section \<open>Routing\<close>

definition messages_for :: "party_index \<Rightarrow> 'm list list \<Rightarrow> ('m \<Rightarrow> party_index) \<Rightarrow> 'm list" where
  "messages_for receiver_idx all recv_of = filter (\<lambda>m. recv_of m = receiver_idx) (concat all)"

text \<open>What each of the parties \<open>1..=n\<close> receives.\<close>

definition route_messages :: "('m \<Rightarrow> parties_message) \<Rightarrow> u8 \<Rightarrow> 'm list list \<Rightarrow> failure + 'm list list" where
  "route_messages route n all =
     map_res (\<lambda>i. rbind (unwrapped (PartyIndex_new i)) (\<lambda>pi.
       Inr (messages_for pi all (\<lambda>m. receiver (route m))))) (u8_upto n)"

text \<open>Column \<open>j\<close> of the rows goes to party \<open>j\<close>.\<close>

definition push_fragment :: "'s list \<Rightarrow> nat \<Rightarrow> 's list list \<Rightarrow> failure + 's list list" where
  "push_fragment row j poly_fragments =
     rbind (element poly_fragments j) (\<lambda>column. rbind (element row j) (\<lambda>fragment.
       Inr (poly_fragments[j := column @ [fragment]])))"

definition transpose_fragments :: "nat \<Rightarrow> 's list list \<Rightarrow> failure + 's list list" where
  "transpose_fragments n rows = for_each (\<lambda>row. for_each (push_fragment row) [0..<n]) rows (replicate n [])"

section \<open>Key generation\<close>

definition session_party :: "('s, 'p) dkg_session \<Rightarrow> party_index" where
  "session_party session = sd_party_index (ds_data session)"

definition dkg_new_sessions :: "parameters \<Rightarrow> bytes \<Rightarrow> failure + ('s, 'p) dkg_session list" where
  "dkg_new_sessions params sid =
     map_res (\<lambda>i. rbind (unwrapped (PartyIndex_new (i + 1))) (\<lambda>pi. Inr (DkgSession_new params pi sid)))
       (u8_range 0 (share_count params))"

definition run_dkg_phase2 ::
  "('s::field, 'p) suite \<Rightarrow> (party_index \<Rightarrow> 's dkg_coins) \<Rightarrow> 's list list \<Rightarrow> nat \<times> ('s, 'p) dkg_session \<Rightarrow>
     ('s, 'p) dkg_session list \<times> ('s, 'p) proof_commitment list \<times> transmit_zero2 list list \<times>
       (party_index, broadcast_derivation2) btree \<Rightarrow>
     failure + ('s, 'p) dkg_session list \<times> ('s, 'p) proof_commitment list \<times> transmit_zero2 list list \<times>
       (party_index, broadcast_derivation2) btree" where
  "run_dkg_phase2 S C poly_fragments = (\<lambda>(i, session) (sessions, proofs_commitments, zero_transmit, bip_broadcast).
     rbind (element poly_fragments i) (\<lambda>fragments.
     case DkgSession_phase2 S (C (session_party session)) fragments session of (result, session') \<Rightarrow>
     rbind (unwrapped result) (\<lambda>(proof_commitment, transmit, bip).
     rbind (party_number i) (\<lambda>pi.
       Inr (sessions @ [session'], proofs_commitments @ [proof_commitment], zero_transmit @ [transmit],
            bt_insert pi bip bip_broadcast)))))"

definition run_dkg_phase3 ::
  "('s::field, 'p::ab_group_add) suite \<Rightarrow> (party_index \<Rightarrow> 's dkg_coins) \<Rightarrow> nat \<times> ('s, 'p) dkg_session \<Rightarrow>
     ('s, 'p) dkg_session list \<times> transmit_zero3 list list \<times> ('s, 'p) transmit_mul list list \<times>
       (party_index, broadcast_derivation3) btree \<Rightarrow>
     failure + ('s, 'p) dkg_session list \<times> transmit_zero3 list list \<times> ('s, 'p) transmit_mul list list \<times>
       (party_index, broadcast_derivation3) btree" where
  "run_dkg_phase3 S C = (\<lambda>(i, session) (sessions, zero_transmit, mul_transmit, bip_broadcast).
     case DkgSession_phase3 S (C (session_party session)) session of (result, session') \<Rightarrow>
     rbind (unwrapped result) (\<lambda>(zero, mul, bip).
     rbind (party_number i) (\<lambda>pi.
       Inr (sessions @ [session'], zero_transmit @ [zero], mul_transmit @ [mul], bt_insert pi bip bip_broadcast))))"

definition run_dkg_phase4 ::
  "('s::field, 'p::ab_group_add) suite \<Rightarrow> ('s, 'p) proof_commitment list \<Rightarrow> transmit_zero2 list list \<Rightarrow>
     transmit_zero3 list list \<Rightarrow> ('s, 'p) transmit_mul list list \<Rightarrow> (party_index, broadcast_derivation2) btree \<Rightarrow>
     (party_index, broadcast_derivation3) btree \<Rightarrow> nat \<times> ('s, 'p) dkg_session \<Rightarrow> failure + ('s, 'p) party" where
  "run_dkg_phase4 S proofs_commitments zero_received2 zero_received3 mul_received bip2 bip3 = (\<lambda>(i, session).
     rbind (element zero_received2 i) (\<lambda>z2.
     rbind (element zero_received3 i) (\<lambda>z3.
     rbind (element mul_received i) (\<lambda>mul.
     rbind (unwrapped (DkgSession_phase4 S session proofs_commitments z2 z3 mul bip2 bip3 (\<lambda>_. [])))
       (\<lambda>(party, _). Inr party)))))"

definition run_dkg ::
  "('s::field, 'p::ab_group_add) suite \<Rightarrow> (party_index \<Rightarrow> 's dkg_coins) \<Rightarrow> parameters \<Rightarrow> bytes \<Rightarrow>
     ('s, 'p, 'm) meter \<Rightarrow> 'm \<Rightarrow> failure + ('s, 'p) party list \<times> 'm" where
  "run_dkg S C params sid M m =
     rbind (dkg_new_sessions params sid) (\<lambda>sessions.
     rbind (transpose_fragments (unat (share_count params))
       (map (\<lambda>s. DkgSession_phase1 S s (C (session_party s))) sessions)) (\<lambda>poly_fragments.
     rbind (meter_record M (map PolyFragments poly_fragments) m) (\<lambda>m.
     rbind (for_each (run_dkg_phase2 S C poly_fragments) (enumerate 0 sessions) ([], [], [], []))
       (\<lambda>(sessions, proofs_commitments, zero_transmit2, bip2).
     rbind (route_messages z2_parties (share_count params) zero_transmit2) (\<lambda>zero_received2.
     rbind (record_batches M ZeroPhase2to4 zero_transmit2 (meter_end_round M m)) (\<lambda>m.
     rbind (for_each (run_dkg_phase3 S C) (enumerate 0 sessions) ([], [], [], []))
       (\<lambda>(sessions, zero_transmit3, mul_transmit, bip3).
     rbind (route_messages z3_parties (share_count params) zero_transmit3) (\<lambda>zero_received3.
     rbind (route_messages mi_parties (share_count params) mul_transmit) (\<lambda>mul_received.
     rbind (record_batches M ZeroPhase3to4 zero_transmit3 (meter_end_round M m)) (\<lambda>m.
     rbind (record_batches M MulPhase3to4 mul_transmit m) (\<lambda>m.
     rbind (map_res (run_dkg_phase4 S proofs_commitments zero_received2 zero_received3 mul_received bip2 bip3)
       (enumerate 0 sessions)) (\<lambda>parties.
       Inr (parties, meter_end_round M m)))))))))))))"

section \<open>Refresh\<close>

text \<open>Both refreshes take the parties by \<open>&mut\<close>: the result holds the refreshed parties and what is left
  of the old ones.\<close>

definition run_complete_phase2 ::
  "('s::field, 'p) suite \<Rightarrow> (party_index \<Rightarrow> 's refresh_coins) \<Rightarrow> bytes \<Rightarrow> 's list list \<Rightarrow> nat \<times> ('s, 'p) party \<Rightarrow>
     's list \<times> ('s, 'p) proof_commitment list \<times> (party_index, keep_zero2) btree list \<times> transmit_zero2 list list \<Rightarrow>
     failure + 's list \<times> ('s, 'p) proof_commitment list \<times> (party_index, keep_zero2) btree list \<times>
       transmit_zero2 list list" where
  "run_complete_phase2 S C refresh_sid poly_fragments = (\<lambda>(i, p) (correction_values, proofs_commitments, kept, transmit).
     rbind (element poly_fragments i) (\<lambda>fragments.
     rbind (unwrapped (refresh_complete_phase2 S p (rc_proof (C (party_index p))) (rc_init (C (party_index p)))
       refresh_sid fragments)) (\<lambda>(cv, pc, k, t).
       Inr (correction_values @ [cv], proofs_commitments @ [pc], kept @ [k], transmit @ [t]))))"

definition run_complete_phase3 ::
  "('s::field, 'p::ab_group_add) suite \<Rightarrow> (party_index \<Rightarrow> 's refresh_coins) \<Rightarrow> bytes \<Rightarrow>
     (party_index, keep_zero2) btree list \<Rightarrow> nat \<times> ('s, 'p) party \<Rightarrow>
     (party_index, keep_zero3) btree list \<times> transmit_zero3 list list \<times>
       (party_index, ('s, 'p) keep_mul) btree list \<times> ('s, 'p) transmit_mul list list \<Rightarrow>
     failure + (party_index, keep_zero3) btree list \<times> transmit_zero3 list list \<times>
       (party_index, ('s, 'p) keep_mul) btree list \<times> ('s, 'p) transmit_mul list list" where
  "run_complete_phase3 S C refresh_sid zero_kept = (\<lambda>(i, p) (zks, zts, mks, mts).
     rbind (element zero_kept i) (\<lambda>kept.
     rbind (unwrapped (refresh_complete_phase3 S p (rc_init (C (party_index p))) refresh_sid kept)) (\<lambda>(zk, zt, mk, mt).
       Inr (zks @ [zk], zts @ [zt], mks @ [mk], mts @ [mt]))))"

text \<open>\<open>unwrap\<close> of the result, then the refreshed party is pushed; the old one is the wiped one.\<close>

definition keep_refreshed ::
  "(failure + ('s, 'p) party) \<times> ('s, 'p) party \<Rightarrow> ('s, 'p) party list \<times> ('s, 'p) party list \<Rightarrow>
     failure + ('s, 'p) party list \<times> ('s, 'p) party list" where
  "keep_refreshed outcome acc = (case (outcome, acc) of ((result, old), (refreshed, olds)) \<Rightarrow>
     rbind (unwrapped result) (\<lambda>party. Inr (refreshed @ [party], olds @ [old])))"

definition run_complete_phase4 ::
  "('s::field, 'p::ab_group_add) suite \<Rightarrow> bytes \<Rightarrow> 's list \<Rightarrow> ('s, 'p) proof_commitment list \<Rightarrow>
     (party_index, keep_zero3) btree list \<Rightarrow> transmit_zero2 list list \<Rightarrow> transmit_zero3 list list \<Rightarrow>
     (party_index, ('s, 'p) keep_mul) btree list \<Rightarrow> ('s, 'p) transmit_mul list list \<Rightarrow> nat \<times> ('s, 'p) party \<Rightarrow>
     ('s, 'p) party list \<times> ('s, 'p) party list \<Rightarrow> failure + ('s, 'p) party list \<times> ('s, 'p) party list" where
  "run_complete_phase4 S refresh_sid correction_values proofs_commitments zero_kept zero_received2 zero_received3
     mul_kept mul_received = (\<lambda>(i, p) acc.
     rbind (element correction_values i) (\<lambda>cv.
     rbind (element zero_kept i) (\<lambda>zk.
     rbind (element zero_received2 i) (\<lambda>z2.
     rbind (element zero_received3 i) (\<lambda>z3.
     rbind (element mul_kept i) (\<lambda>mk.
     rbind (element mul_received i) (\<lambda>mul.
       keep_refreshed (refresh_complete_phase4 S p refresh_sid cv proofs_commitments zk z2 z3 mk mul) acc)))))))"

definition run_refresh_complete ::
  "('s::field, 'p::ab_group_add) suite \<Rightarrow> (party_index \<Rightarrow> 's refresh_coins) \<Rightarrow> ('s, 'p) party list \<Rightarrow> bytes \<Rightarrow>
     ('s, 'p, 'm) meter \<Rightarrow> 'm \<Rightarrow> failure + (('s, 'p) party list \<times> ('s, 'p) party list) \<times> 'm" where
  "run_refresh_complete S C parties refresh_sid M m =
     rbind (transpose_fragments (length parties)
       (map (\<lambda>p. refresh_complete_phase1 S p (rc_polynomial (C (party_index p)))) parties)) (\<lambda>poly_fragments.
     rbind (meter_record M (map PolyFragments poly_fragments) m) (\<lambda>m.
     rbind (for_each (run_complete_phase2 S C refresh_sid poly_fragments) (enumerate 0 parties) ([], [], [], []))
       (\<lambda>(correction_values, proofs_commitments, zero_kept2, zero_transmit2).
     rbind (route_messages z2_parties (word_of_nat (length parties)) zero_transmit2) (\<lambda>zero_received2.
     rbind (record_batches M ZeroPhase2to4 zero_transmit2 (meter_end_round M m)) (\<lambda>m.
     rbind (for_each (run_complete_phase3 S C refresh_sid zero_kept2) (enumerate 0 parties) ([], [], [], []))
       (\<lambda>(zero_kept3, zero_transmit3, mul_kept, mul_transmit).
     rbind (route_messages z3_parties (word_of_nat (length parties)) zero_transmit3) (\<lambda>zero_received3.
     rbind (route_messages mi_parties (word_of_nat (length parties)) mul_transmit) (\<lambda>mul_received.
     rbind (record_batches M ZeroPhase3to4 zero_transmit3 (meter_end_round M m)) (\<lambda>m.
     rbind (record_batches M MulPhase3to4 mul_transmit m) (\<lambda>m.
     rbind (for_each (run_complete_phase4 S refresh_sid correction_values proofs_commitments zero_kept3
         zero_received2 zero_received3 mul_kept mul_received) (enumerate 0 parties) ([], [])) (\<lambda>refreshed.
       Inr (refreshed, meter_end_round M m))))))))))))"

definition run_fast_phase2 ::
  "('s::field, 'p) suite \<Rightarrow> (party_index \<Rightarrow> 's refresh_coins) \<Rightarrow> bytes \<Rightarrow> 's list list \<Rightarrow> nat \<times> ('s, 'p) party \<Rightarrow>
     's list \<times> ('s, 'p) proof_commitment list \<times> (party_index, keep_refresh2) btree list \<times> transmit_refresh2 list list \<Rightarrow>
     failure + 's list \<times> ('s, 'p) proof_commitment list \<times> (party_index, keep_refresh2) btree list \<times>
       transmit_refresh2 list list" where
  "run_fast_phase2 S C refresh_sid poly_fragments = (\<lambda>(i, p) (correction_values, proofs_commitments, kept, transmit).
     rbind (element poly_fragments i) (\<lambda>fragments.
     rbind (unwrapped (refresh_phase2 S p (rc_proof (C (party_index p))) (rc_init (C (party_index p)))
       refresh_sid fragments)) (\<lambda>(cv, pc, k, t).
       Inr (correction_values @ [cv], proofs_commitments @ [pc], kept @ [k], transmit @ [t]))))"

definition run_fast_phase3 ::
  "(party_index, keep_refresh2) btree list \<Rightarrow> nat \<times> ('s, 'p) party \<Rightarrow>
     (party_index, keep_refresh3) btree list \<times> transmit_refresh3 list list \<Rightarrow>
     failure + (party_index, keep_refresh3) btree list \<times> transmit_refresh3 list list" where
  "run_fast_phase3 kept2 = (\<lambda>(i, p) (kept, transmit).
     rbind (element kept2 i) (\<lambda>k2.
     rbind (unwrapped (refresh_phase3 p k2)) (\<lambda>(k, t). Inr (kept @ [k], transmit @ [t]))))"

definition run_fast_phase4 ::
  "('s::field, 'p::ab_group_add) suite \<Rightarrow> bytes \<Rightarrow> 's list \<Rightarrow> ('s, 'p) proof_commitment list \<Rightarrow>
     (party_index, keep_refresh3) btree list \<Rightarrow> transmit_refresh2 list list \<Rightarrow> transmit_refresh3 list list \<Rightarrow>
     nat \<times> ('s, 'p) party \<Rightarrow> ('s, 'p) party list \<times> ('s, 'p) party list \<Rightarrow>
     failure + ('s, 'p) party list \<times> ('s, 'p) party list" where
  "run_fast_phase4 S refresh_sid correction_values proofs_commitments kept received2 received3 = (\<lambda>(i, p) acc.
     rbind (element correction_values i) (\<lambda>cv.
     rbind (element kept i) (\<lambda>k.
     rbind (element received2 i) (\<lambda>r2.
     rbind (element received3 i) (\<lambda>r3.
       keep_refreshed (refresh_phase4 S p refresh_sid cv proofs_commitments k r2 r3) acc)))))"

definition run_refresh_fast ::
  "('s::field, 'p::ab_group_add) suite \<Rightarrow> (party_index \<Rightarrow> 's refresh_coins) \<Rightarrow> ('s, 'p) party list \<Rightarrow> bytes \<Rightarrow>
     ('s, 'p, 'm) meter \<Rightarrow> 'm \<Rightarrow> failure + (('s, 'p) party list \<times> ('s, 'p) party list) \<times> 'm" where
  "run_refresh_fast S C parties refresh_sid M m =
     rbind (transpose_fragments (length parties)
       (map (\<lambda>p. refresh_phase1 S p (rc_polynomial (C (party_index p)))) parties)) (\<lambda>poly_fragments.
     rbind (meter_record M (map PolyFragments poly_fragments) m) (\<lambda>m.
     rbind (for_each (run_fast_phase2 S C refresh_sid poly_fragments) (enumerate 0 parties) ([], [], [], []))
       (\<lambda>(correction_values, proofs_commitments, kept2, transmit2).
     rbind (route_messages z2_parties (word_of_nat (length parties)) transmit2) (\<lambda>received2.
     rbind (record_batches M ZeroPhase2to4 transmit2 (meter_end_round M m)) (\<lambda>m.
     rbind (for_each (run_fast_phase3 kept2) (enumerate 0 parties) ([], [])) (\<lambda>(kept3, transmit3).
     rbind (route_messages z3_parties (word_of_nat (length parties)) transmit3) (\<lambda>received3.
     rbind (record_batches M ZeroPhase3to4 transmit3 (meter_end_round M m)) (\<lambda>m.
     rbind (for_each (run_fast_phase4 S refresh_sid correction_values proofs_commitments kept3 received2 received3)
         (enumerate 0 parties) ([], [])) (\<lambda>refreshed.
       Inr (refreshed, meter_end_round M m))))))))))"

section \<open>Signing\<close>

text \<open>The parties \<open>1..=threshold\<close> sign; every map is keyed by the number of the party.\<close>

definition run_sign_data ::
  "u8 list \<Rightarrow> bytes \<Rightarrow> bytes \<Rightarrow> u8 \<Rightarrow> (u8, sign_data) btree \<Rightarrow> failure + (u8, sign_data) btree" where
  "run_sign_data executing sign hash pidx data =
     rbind (map_res (\<lambda>i. unwrapped (PartyIndex_new i)) (filter (\<lambda>i. i \<noteq> pidx) executing)) (\<lambda>cps.
       Inr (bt_insert pidx \<lparr>sign_id = sign, counterparties = cps, message_hash = hash\<rparr> data))"

definition run_sign_phase1 ::
  "('s::field, 'p) suite \<Rightarrow> (u8 \<Rightarrow> 's sign_coins) \<Rightarrow> ('s, 'p) party list \<Rightarrow> (u8, sign_data) btree \<Rightarrow> u8 \<Rightarrow>
     (u8, ('s, 'p) sign_session) btree \<times> (u8, transmit_phase1to2 list) btree \<Rightarrow>
     failure + (u8, ('s, 'p) sign_session) btree \<times> (u8, transmit_phase1to2 list) btree" where
  "run_sign_phase1 S D parties data pidx = (\<lambda>(sessions, transmit).
     rbind (element parties (unat (pidx - 1))) (\<lambda>party.
     rbind (unwrap (bt_get data pidx)) (\<lambda>sign_data.
     rbind (unwrapped (SignSession_new S party sign_data (D pidx))) (\<lambda>(session, messages).
       Inr (bt_insert pidx session sessions, bt_insert pidx messages transmit)))))"

definition bt_values :: "('k, 'v) btree \<Rightarrow> 'v list" where
  "bt_values m = map snd (bt_entries m)"

text \<open>The routing of a round of signing.\<close>

definition run_sign_route ::
  "('m \<Rightarrow> parties_message) \<Rightarrow> (u8, 'm list) btree \<Rightarrow> u8 \<Rightarrow> (u8, 'm list) btree \<Rightarrow> failure + (u8, 'm list) btree" where
  "run_sign_route route transmit pidx received =
     rbind (unwrapped (PartyIndex_new pidx)) (\<lambda>pi.
       Inr (bt_insert pidx (filter (\<lambda>m. receiver (route m) = pi) (concat (bt_values transmit))) received))"

text \<open>\<open>get_mut\<close>: the session after the call stays in the map.\<close>

definition run_sign_phase2 ::
  "('s::field, 'p) suite \<Rightarrow> (u8 \<Rightarrow> 's sign_coins) \<Rightarrow> (u8, transmit_phase1to2 list) btree \<Rightarrow> u8 \<Rightarrow>
     (u8, ('s, 'p) sign_session) btree \<times> (u8, ('s, 'p) transmit_phase2to3 list) btree \<Rightarrow>
     failure + (u8, ('s, 'p) sign_session) btree \<times> (u8, ('s, 'p) transmit_phase2to3 list) btree" where
  "run_sign_phase2 S D received pidx = (\<lambda>(sessions, transmit).
     rbind (unwrap (bt_get sessions pidx)) (\<lambda>session.
     rbind (unwrap (bt_get received pidx)) (\<lambda>messages.
     case SignSession_phase2 S (D pidx) messages session of (result, session') \<Rightarrow>
     rbind (unwrapped result) (\<lambda>t. Inr (bt_insert pidx session' sessions, bt_insert pidx t transmit)))))"

text \<open>A phase that panics and a phase whose error is unwrapped both panic.\<close>

definition run_sign_phase3 ::
  "('s::field, 'p::ab_group_add) suite \<Rightarrow> (u8, ('s, 'p) transmit_phase2to3 list) btree \<Rightarrow> u8 \<Rightarrow>
     (u8, ('s, 'p) sign_session) btree \<times> 's broadcast3to4 list \<Rightarrow>
     failure + (u8, ('s, 'p) sign_session) btree \<times> 's broadcast3to4 list" where
  "run_sign_phase3 S received pidx = (\<lambda>(sessions, broadcasts).
     rbind (unwrap (bt_get sessions pidx)) (\<lambda>session.
     rbind (unwrap (bt_get received pidx)) (\<lambda>messages.
     case SignSession_phase3 S messages session of (outcome, session') \<Rightarrow>
     rbind (unwrap outcome) (\<lambda>result.
     rbind (unwrapped result) (\<lambda>b. Inr (bt_insert pidx session' sessions, broadcasts @ [b]))))))"

definition run_sign_phase4 ::
  "('s::field, 'p::ab_group_add) suite \<Rightarrow> (string \<Rightarrow> string) \<Rightarrow> u8 list \<Rightarrow> (u8, ('s, 'p) sign_session) btree \<Rightarrow>
     's broadcast3to4 list \<Rightarrow> failure + ecdsa_signature" where
  "run_sign_phase4 S hex_error executing sessions broadcasts =
     rbind (element executing 0) (\<lambda>first.
     rbind (unwrap (bt_get sessions first)) (\<lambda>session.
     rbind (unwrap (SignSession_phase4 S hex_error broadcasts session)) unwrapped))"

definition run_sign ::
  "('s::field, 'p::ab_group_add) suite \<Rightarrow> (u8 \<Rightarrow> 's sign_coins) \<Rightarrow> (string \<Rightarrow> string) \<Rightarrow> ('s, 'p) party list \<Rightarrow> u8 \<Rightarrow>
     bytes \<Rightarrow> bytes \<Rightarrow> ('s, 'p, 'm) meter \<Rightarrow> 'm \<Rightarrow> failure + ecdsa_signature \<times> 'm" where
  "run_sign S D hex_error parties thr sign hash M m =
     (let executing = u8_upto thr in
      rbind (for_each (run_sign_data executing sign hash) executing []) (\<lambda>data.
      rbind (for_each (run_sign_phase1 S D parties data) executing ([], [])) (\<lambda>(sessions, transmit1).
      rbind (record_batches M SignPhase1to2 (bt_values transmit1) m) (\<lambda>m.
      rbind (for_each (run_sign_route t1_parties transmit1) executing []) (\<lambda>received1.
      rbind (for_each (run_sign_phase2 S D received1) executing (sessions, [])) (\<lambda>(sessions, transmit2).
      rbind (record_batches M SignPhase2to3 (bt_values transmit2) (meter_end_round M m)) (\<lambda>m.
      rbind (for_each (run_sign_route t2_parties transmit2) executing []) (\<lambda>received2.
      rbind (for_each (run_sign_phase3 S received2) executing (sessions, [])) (\<lambda>(sessions, broadcasts).
      rbind (meter_record M (map SignBroadcast3to4 broadcasts) (meter_end_round M m)) (\<lambda>m.
      rbind (run_sign_phase4 S hex_error executing sessions broadcasts) (\<lambda>sig.
        Inr (sig, meter_end_round M m))))))))))))"

section \<open>What every meter has in common\<close>

text \<open>Two runs of the same program under two meters: if the first returns, the second returns the same,
  with a related meter.\<close>

definition same_run :: "('m \<Rightarrow> 'n \<Rightarrow> bool) \<Rightarrow> failure + 'a \<times> 'm \<Rightarrow> failure + 'a \<times> 'n \<Rightarrow> bool" where
  "same_run R r r' \<longleftrightarrow> (\<forall>x m. r = Inr (x, m) \<longrightarrow> (\<exists>n. r' = Inr (x, n) \<and> R m n))"

named_theorems run_rules \<open>rules for runs under two meters, or under one that counts\<close>

lemma same_run_return [run_rules]: "R m n \<Longrightarrow> same_run R (Inr (x, m)) (Inr (x, n))"
  by (simp add: same_run_def)

lemma same_run_bind [run_rules]:
  "(\<And>y. same_run R (f y) (g y)) \<Longrightarrow> same_run R (rbind a f) (rbind a g)"
  by (cases a) (simp_all add: same_run_def)

lemma same_run_pair [run_rules]:
  "(\<And>x y. same_run R (f x y) (g x y)) \<Longrightarrow> same_run R (case_prod f p) (case_prod g p)"
  by (cases p) simp

text \<open>A run that starts with \<open>k\<close> rounds on the meter ends with \<open>l\<close>.\<close>

definition ends_after :: "('m \<Rightarrow> u32) \<Rightarrow> u32 \<Rightarrow> failure + 'a \<times> 'm \<Rightarrow> bool" where
  "ends_after rounds l r \<longleftrightarrow> (\<forall>x m. r = Inr (x, m) \<longrightarrow> rounds m = l)"

lemma ends_after_return: "rounds m = l \<Longrightarrow> ends_after rounds l (Inr (x, m))"
  by (simp add: ends_after_def)

lemma ends_after_bind: "(\<And>y. ends_after rounds l (f y)) \<Longrightarrow> ends_after rounds l (rbind a f)"
  by (cases a) (simp_all add: ends_after_def)

lemma ends_after_pair: "(\<And>x y. ends_after rounds l (f x y)) \<Longrightarrow> ends_after rounds l (case_prod f p)"
  by (cases p) simp

locale meter_simulation =
  fixes M :: "('s::field, 'p::ab_group_add, 'm) meter"
    and N :: "('s, 'p, 'n) meter"
    and related :: "'m \<Rightarrow> 'n \<Rightarrow> bool"
  assumes record_related: "meter_record M msgs m = Inr m' \<Longrightarrow> related m n \<Longrightarrow>
      \<exists>n'. meter_record N msgs n = Inr n' \<and> related m' n'"
    and end_round_related: "related m n \<Longrightarrow> related (meter_end_round M m) (meter_end_round N n)"
begin

lemma record_bind:
  assumes "related m n" and "\<And>m n. related m n \<Longrightarrow> same_run related (f m) (g n)"
  shows "same_run related (rbind (meter_record M msgs m) f) (rbind (meter_record N msgs n) g)"
proof (cases "meter_record M msgs m")
  case (Inr m')
  from record_related [OF Inr assms(1)] obtain n' where "meter_record N msgs n = Inr n'" "related m' n'" by blast
  with Inr assms(2) show ?thesis by simp
qed (simp add: same_run_def)

lemma batches_related:
  "record_batches M con batches m = Inr m' \<Longrightarrow> related m n \<Longrightarrow>
     \<exists>n'. record_batches N con batches n = Inr n' \<and> related m' n'"
proof (induction batches arbitrary: m n)
  case (Cons v vs)
  from Cons.prems(1) obtain m1 where m1: "meter_record M (map con v) m = Inr m1" "record_batches M con vs m1 = Inr m'"
    by (auto simp: record_batches_def rbind_Inr_iff)
  from record_related [OF m1(1) Cons.prems(2)] obtain n1 where n1: "meter_record N (map con v) n = Inr n1" "related m1 n1"
    by blast
  from Cons.IH [OF m1(2) n1(2)] n1(1) show ?case by (simp add: record_batches_def)
qed (simp add: record_batches_def)

lemma batches_bind:
  assumes "related m n" and "\<And>m n. related m n \<Longrightarrow> same_run related (f m) (g n)"
  shows "same_run related (rbind (record_batches M con batches m) f) (rbind (record_batches N con batches n) g)"
proof (cases "record_batches M con batches m")
  case (Inr m')
  from batches_related [OF Inr assms(1)] obtain n' where "record_batches N con batches n = Inr n'" "related m' n'"
    by blast
  with Inr assms(2) show ?thesis by simp
qed (simp add: same_run_def)

lemma run_dkg_same: "related m n \<Longrightarrow> same_run related (run_dkg S C params sid M m) (run_dkg S C params sid N n)"
  unfolding run_dkg_def
  by (intro record_bind batches_bind end_round_related run_rules) assumption+

lemma run_refresh_complete_same: "related m n \<Longrightarrow>
    same_run related (run_refresh_complete S C parties rsid M m) (run_refresh_complete S C parties rsid N n)"
  unfolding run_refresh_complete_def
  by (intro record_bind batches_bind end_round_related run_rules) assumption+

lemma run_refresh_fast_same: "related m n \<Longrightarrow>
    same_run related (run_refresh_fast S C parties rsid M m) (run_refresh_fast S C parties rsid N n)"
  unfolding run_refresh_fast_def
  by (intro record_bind batches_bind end_round_related run_rules) assumption+

lemma run_sign_same: "related m n \<Longrightarrow>
    same_run related (run_sign S D hex_error parties thr sign hash M m) (run_sign S D hex_error parties thr sign hash N n)"
  unfolding run_sign_def Let_def
  by (intro record_bind batches_bind end_round_related run_rules) assumption+

end

locale counting_meter =
  fixes M :: "('s::field, 'p::ab_group_add, 'm) meter"
    and rounds :: "'m \<Rightarrow> u32"
  assumes record_rounds: "meter_record M msgs m = Inr m' \<Longrightarrow> rounds m' = rounds m"
    and end_round_rounds: "rounds (meter_end_round M m) = rounds m + 1"
begin

lemma record_counts:
  assumes "\<And>m'. rounds m' = rounds m \<Longrightarrow> ends_after rounds l (f m')"
  shows "ends_after rounds l (rbind (meter_record M msgs m) f)"
proof (cases "meter_record M msgs m")
  case (Inr m')
  with assms [OF record_rounds [OF Inr]] show ?thesis by simp
qed (simp add: ends_after_def)

lemma batches_rounds: "record_batches M con batches m = Inr m' \<Longrightarrow> rounds m' = rounds m"
  unfolding record_batches_def
  by (erule for_each_invariant [where P = "\<lambda>m'. rounds m' = rounds m"]) (auto dest: record_rounds)

lemma batches_counts:
  assumes "\<And>m'. rounds m' = rounds m \<Longrightarrow> ends_after rounds l (f m')"
  shows "ends_after rounds l (rbind (record_batches M con batches m) f)"
proof (cases "record_batches M con batches m")
  case (Inr m')
  with assms [OF batches_rounds [OF Inr]] show ?thesis by simp
qed (simp add: ends_after_def)

lemmas counts = record_counts batches_counts ends_after_return ends_after_bind ends_after_pair

lemma run_dkg_rounds: "ends_after rounds (rounds m + 3) (run_dkg S C params sid M m)"
  unfolding run_dkg_def by (intro counts) (simp add: end_round_rounds)

lemma run_refresh_complete_rounds: "ends_after rounds (rounds m + 3) (run_refresh_complete S C parties rsid M m)"
  unfolding run_refresh_complete_def by (intro counts) (simp add: end_round_rounds)

lemma run_refresh_fast_rounds: "ends_after rounds (rounds m + 3) (run_refresh_fast S C parties rsid M m)"
  unfolding run_refresh_fast_def by (intro counts) (simp add: end_round_rounds)

lemma run_sign_rounds: "ends_after rounds (rounds m + 3) (run_sign S D hex_error parties thr sign hash M m)"
  unfolding run_sign_def Let_def by (intro counts) (simp add: end_round_rounds)

end

section \<open>The meters\<close>

text \<open>A meter that keeps the messages themselves, and their total size.\<close>

definition TraceMeter :: "('s, 'p, ('s, 'p) wire_message list) meter" where
  "TraceMeter = \<lparr>meter_record = \<lambda>msgs sent. Inr (sent @ msgs), meter_end_round = \<lambda>sent. sent\<rparr>"

definition total_size :: "(('s, 'p) wire_message \<Rightarrow> u64 option) \<Rightarrow> ('s, 'p) wire_message list \<Rightarrow> u64" where
  "total_size serialized_size sent = (\<Sum>msg \<leftarrow> sent. the (serialized_size msg))"

lemma wire_record:
  assumes "meter_record (WireMeter sizes) msgs m = Inr m'"
  shows "wm_bytes m' = wm_bytes m + total_size sizes msgs \<and> wm_rounds m' = wm_rounds m"
  using assms
proof (induction msgs arbitrary: m)
  case (Cons msg msgs)
  from Cons.prems obtain k where k: "sizes msg = Some k"
    "meter_record (WireMeter sizes) msgs (m\<lparr>wm_bytes := wm_bytes m + k\<rparr>) = Inr m'"
    by (cases "sizes msg") (auto simp: WireMeter_def res_simps)
  from Cons.IH [OF k(2)] k(1) show ?case by (simp add: total_size_def add.assoc)
qed (simp add: WireMeter_def total_size_def)

lemma wire_record_total:
  assumes "\<And>msg. sizes msg \<noteq> None"
  shows "\<exists>m'. meter_record (WireMeter sizes) msgs m = Inr m'"
proof (induction msgs arbitrary: m)
  case (Cons msg msgs)
  obtain k where "sizes msg = Some k" using assms by blast
  with Cons.IH [of "m\<lparr>wm_bytes := wm_bytes m + k\<rparr>"] show ?case by (simp add: WireMeter_def res_simps)
qed (simp add: WireMeter_def)

interpretation wire_rounds: counting_meter "WireMeter sizes" wm_rounds
  by unfold_locales (use wire_record in blast, simp add: WireMeter_def)

interpretation wire_trace: meter_simulation "WireMeter sizes" TraceMeter
    "\<lambda>m sent. wm_bytes m = start + total_size sizes sent"
  by unfold_locales (auto simp: TraceMeter_def total_size_def add.assoc dest: wire_record, simp add: WireMeter_def)

interpretation wire_none: meter_simulation "WireMeter sizes" NoMeter "\<lambda>_ _. True"
  by unfold_locales (simp_all add: NoMeter_def)

interpretation none_wire: meter_simulation NoMeter "WireMeter (\<lambda>msg. Some (sizes msg))" "\<lambda>_ _. True"
  by unfold_locales (simp_all add: wire_record_total)

end
