(* ===== verification/Harness_Runs.thy ===== *)
theory Harness_Runs
  imports Harness Addresses
begin

text \<open>
  What the harness of \<open>dkls23-benchmarks\<close> establishes: with honest parties and no degenerate samples the
  runs of \<open>Harness\<close> return, without a panic, what the honest runs of the protocol return, so the
  programs built from them (the correctness example, the crate's refresh test and the metrics of the
  binary) do what they announce.
\<close>

section \<open>Loops over the parties\<close>

lemma for_each_fold:
  "(\<And>x acc. x \<in> set xs \<Longrightarrow> step x acc = Inr (upd x acc)) \<Longrightarrow> for_each step xs acc = Inr (fold upd xs acc)"
  by (induction xs arbitrary: acc) auto

lemma fold_snoc2:
  "fold (\<lambda>x (a, b). (a @ [f x], b @ [g x])) xs (a, b) = (a @ map f xs, b @ map g xs)"
  by (induction xs arbitrary: a b) auto

lemma fold_snoc4:
  "fold (\<lambda>x (a, b, c, d). (a @ [f x], b @ [g x], c @ [h x], d @ [k x])) xs (a, b, c, d) =
     (a @ map f xs, b @ map g xs, c @ map h xs, d @ map k xs)"
  by (induction xs arbitrary: a b c d) auto

lemma fold_snoc3_insert:
  "fold (\<lambda>x (a, b, c, m). (a @ [f x], b @ [g x], c @ [h x], bt_insert (key x) (v x) m)) xs (a, b, c, m) =
     (a @ map f xs, b @ map g xs, c @ map h xs, fold (\<lambda>x. bt_insert (key x) (v x)) xs m)"
  by (induction xs arbitrary: a b c m) auto

lemma element_nth [simp]: "i < length xs \<Longrightarrow> element xs i = Inr (xs ! i)"
  by (simp add: element_def)

lemma unwrapped_simps [simp]: "unwrapped (Inr x) = Inr x" "unwrapped (Inl e) = Inl Panicked"
  by (simp_all add: unwrapped_def)

lemma PartyIndex_new_of_nat: "0 < i \<Longrightarrow> i < 256 \<Longrightarrow> PartyIndex_new (word_of_nat i) = Inr (index_of_nat i)"
  by (simp add: PartyIndex_new_def index_of_nat_def word_of_nat_eq_iff [of i 0, simplified] take_bit_nat_eq_self)

lemma party_number_eq: "Suc i < 256 \<Longrightarrow> party_number i = Inr (index_of_nat (Suc i))"
  using PartyIndex_new_of_nat [of "Suc i"] by (simp add: party_number_def add.commute)

text \<open>The parties by position.\<close>

lemma party_range_upt: "party_range params = map (\<lambda>i. index_of_nat (Suc i)) [0..<unat (share_count params)]"
  by (simp add: party_range_def share_range_def map_Suc_upt [symmetric] del: upt_Suc)

lemma length_party_range [simp]: "length (party_range params) = unat (share_count params)"
  by (simp add: party_range_upt)

lemma nth_party_range [simp]: "i < unat (share_count params) \<Longrightarrow> party_range params ! i = index_of_nat (Suc i)"
  by (simp add: party_range_upt)

lemma share_count_bound: "i < unat (share_count params) \<Longrightarrow> Suc i < 256"
  using unat_byte_less [of "share_count params"] by simp

lemma index_in_range: "i < unat (share_count params) \<Longrightarrow> index_of_nat (Suc i) \<in> set (party_range params)"
  by (simp add: party_range_upt)

lemma entry_for_index: "Suc i < 256 \<Longrightarrow> entry_for (index_of_nat (Suc i)) xs = xs ! i"
  by (simp add: entry_for_def)

lemma enumerate_parties:
  "enumerate 0 (map g (party_range params)) = map (\<lambda>i. (i, g (index_of_nat (Suc i)))) [0..<unat (share_count params)]"
  by (rule nth_equalityI) (simp_all add: nth_enumerate_eq)

lemma parties_map: "map (\<lambda>i. g (index_of_nat (Suc i))) [0..<unat (share_count params)] = map g (party_range params)"
  by (simp add: party_range_upt)

text \<open>A loop over the parties whose maps are keyed by the position.\<close>

lemma fold_parties_insert:
  "fold (\<lambda>i. bt_insert (index_of_nat (Suc i)) (g (index_of_nat (Suc i)))) [0..<unat (share_count params)] [] =
     bt_tabulate g (party_range params)"
proof -
  have "fold (\<lambda>k. bt_insert k (g k)) (party_range params) [] = bt_tabulate g (party_range params)"
    by (rule fold_tabulate [OF refl sorted_party_range])
  then show ?thesis by (simp add: party_range_upt fold_map comp_def)
qed

text \<open>The transposition.\<close>

lemma push_row:
  assumes "length pf = n" and "n \<le> length row" and "k \<le> n"
  shows "for_each (push_fragment row) [0..<k] pf =
    Inr (map (\<lambda>j. if j < k then pf ! j @ [row ! j] else pf ! j) [0..<n])"
  using assms(3)
proof (induction k)
  case 0
  then show ?case using map_nth [of pf] assms(1) by simp
next
  case (Suc k)
  let ?pf = "map (\<lambda>j. if j < k then pf ! j @ [row ! j] else pf ! j) [0..<n]"
  have "push_fragment row k ?pf = Inr (?pf[k := pf ! k @ [row ! k]])"
    using Suc.prems assms(2) by (simp add: push_fragment_def)
  moreover have "?pf[k := pf ! k @ [row ! k]] = map (\<lambda>j. if j < Suc k then pf ! j @ [row ! j] else pf ! j) [0..<n]"
    using Suc.prems by (intro nth_equalityI) (auto simp: nth_list_update less_Suc_eq)
  ultimately show ?case using Suc by (simp add: for_each_append)
qed

lemma transpose_rows:
  assumes "\<And>row. row \<in> set rows \<Longrightarrow> n \<le> length row"
  shows "transpose_fragments n rows = Inr (map (\<lambda>j. map (\<lambda>row. row ! j) rows) [0..<n])"
proof -
  have "for_each (\<lambda>row. for_each (push_fragment row) [0..<n]) rows pf = Inr (map (\<lambda>j. pf ! j @ map (\<lambda>row. row ! j) rows) [0..<n])"
    if "length pf = n" for pf
    using that assms
  proof (induction rows arbitrary: pf)
    case Nil
    then show ?case using map_nth [of pf] by simp
  next
    case (Cons row rows)
    have "for_each (push_fragment row) [0..<n] pf = Inr (map (\<lambda>j. pf ! j @ [row ! j]) [0..<n])"
      using push_row [of pf n row n] Cons.prems by simp
    with Cons show ?case by simp
  qed
  from this [of "replicate n []"] show ?thesis by (simp add: transpose_fragments_def)
qed

lemma transpose_parties:
  assumes "\<And>j. j \<in> set (party_range params) \<Longrightarrow> length (row j) = unat (share_count params)"
  shows "transpose_fragments (unat (share_count params)) (map row (party_range params)) =
    Inr (map (\<lambda>i. map (\<lambda>j. entry_for i (row j)) (party_range params)) (party_range params))"
proof -
  have "transpose_fragments (unat (share_count params)) (map row (party_range params)) =
      Inr (map (\<lambda>j. map (\<lambda>row. row ! j) (map row (party_range params))) [0..<unat (share_count params)])"
    using assms by (intro transpose_rows) auto
  also have "\<dots> = Inr (map (\<lambda>i. map (\<lambda>j. entry_for i (row j)) (party_range params)) (party_range params))"
    by (auto intro!: nth_equalityI simp: entry_for_index [OF share_count_bound [of _ params]])
  finally show ?thesis .
qed

text \<open>Routing is delivery: the inbox of every party, in the order of the senders.\<close>

lemma messages_for_inbox: "messages_for i (map sent all) (\<lambda>m. receiver (route m)) = inbox route sent all i"
  by (simp add: messages_for_def inbox_def)

lemma u8_upto_parties: "map_res (\<lambda>i. rbind (unwrapped (PartyIndex_new i)) f) (u8_upto (share_count params)) =
    map_res f (party_range params)"
proof -
  have "map_res (\<lambda>i. rbind (unwrapped (PartyIndex_new i)) f) (map word_of_nat ks) = map_res f (map index_of_nat ks)"
    if "set ks \<subseteq> set (share_range params)" for ks
    using that
  proof (induction ks)
    case (Cons k ks)
    then show ?case using PartyIndex_new_of_nat [of k] share_range_bound [of k params] by simp
  qed simp
  from this [of "share_range params"] show ?thesis by (simp add: u8_upto_def party_range_def share_range_def del: upt_Suc)
qed

lemma route_parties:
  "route_messages route (share_count params) (map sent (party_range params)) =
     Inr (map (inbox route sent (party_range params)) (party_range params))"
  unfolding route_messages_def u8_upto_parties by (rule map_res_total) (simp add: messages_for_inbox)

lemma NoMeter_simps [simp]:
  "meter_record NoMeter msgs m = Inr ()" "meter_end_round NoMeter m = ()" "record_batches NoMeter con batches m = Inr ()"
proof -
  show "meter_record NoMeter msgs m = Inr ()" "meter_end_round NoMeter m = ()" by (simp_all add: NoMeter_def)
  show "record_batches NoMeter con batches m = Inr ()"
    by (induction batches) (simp_all add: record_batches_def NoMeter_def)
qed

lemma parties_loop:
  assumes "\<And>i acc. i < unat (share_count params) \<Longrightarrow>
      step (i, s (index_of_nat (Suc i))) acc = Inr (upd (index_of_nat (Suc i)) acc)"
  shows "for_each step (enumerate 0 (map s (party_range params))) acc = Inr (fold upd (party_range params) acc)"
proof -
  have "for_each (\<lambda>i. step (i, s (index_of_nat (Suc i)))) [0..<unat (share_count params)] acc =
      Inr (fold (\<lambda>i. upd (index_of_nat (Suc i))) [0..<unat (share_count params)] acc)"
    by (rule for_each_fold) (use assms in simp)
  then show ?thesis
    by (simp only: enumerate_parties for_each_map) (simp add: party_range_upt fold_map comp_def)
qed

text \<open>The three kinds of loops: with a map, with four vectors, with two vectors.\<close>

lemma parties_loop_map:
  assumes "\<And>i a b c m. i < unat (share_count params) \<Longrightarrow> step (i, s (index_of_nat (Suc i))) (a, b, c, m) =
      Inr (a @ [f (index_of_nat (Suc i))], b @ [g (index_of_nat (Suc i))], c @ [h (index_of_nat (Suc i))],
           bt_insert (index_of_nat (Suc i)) (v (index_of_nat (Suc i))) m)"
  shows "for_each step (enumerate 0 (map s (party_range params))) ([], [], [], []) =
    Inr (map f (party_range params), map g (party_range params), map h (party_range params),
         bt_tabulate v (party_range params))"
proof -
  have "for_each step (enumerate 0 (map s (party_range params))) ([], [], [], []) =
      Inr (fold (\<lambda>x (a, b, c, m). (a @ [f x], b @ [g x], c @ [h x], bt_insert x (v x) m)) (party_range params) ([], [], [], []))"
    by (rule parties_loop) (use assms in auto)
  then show ?thesis by (simp add: fold_snoc3_insert fold_tabulate [OF refl sorted_party_range])
qed

lemma parties_loop4:
  assumes "\<And>i a b c d. i < unat (share_count params) \<Longrightarrow> step (i, s (index_of_nat (Suc i))) (a, b, c, d) =
      Inr (a @ [f (index_of_nat (Suc i))], b @ [g (index_of_nat (Suc i))], c @ [h (index_of_nat (Suc i))],
           d @ [k (index_of_nat (Suc i))])"
  shows "for_each step (enumerate 0 (map s (party_range params))) ([], [], [], []) =
    Inr (map f (party_range params), map g (party_range params), map h (party_range params), map k (party_range params))"
proof -
  have "for_each step (enumerate 0 (map s (party_range params))) ([], [], [], []) =
      Inr (fold (\<lambda>x (a, b, c, d). (a @ [f x], b @ [g x], c @ [h x], d @ [k x])) (party_range params) ([], [], [], []))"
    by (rule parties_loop) (use assms in auto)
  then show ?thesis by (simp add: fold_snoc4)
qed

lemma parties_loop2:
  assumes "\<And>i a b. i < unat (share_count params) \<Longrightarrow> step (i, s (index_of_nat (Suc i))) (a, b) =
      Inr (a @ [f (index_of_nat (Suc i))], b @ [g (index_of_nat (Suc i))])"
  shows "for_each step (enumerate 0 (map s (party_range params))) ([], []) =
    Inr (map f (party_range params), map g (party_range params))"
proof -
  have "for_each step (enumerate 0 (map s (party_range params))) ([], []) =
      Inr (fold (\<lambda>x (a, b). (a @ [f x], b @ [g x])) (party_range params) ([], []))"
    by (rule parties_loop) (use assms in auto)
  then show ?thesis by (simp add: fold_snoc2)
qed

section \<open>Key generation\<close>

lemma new_sessions:
  "dkg_new_sessions params sid = Inr (map (\<lambda>i. DkgSession_new params i sid) (party_range params))"
proof -
  have word: "PartyIndex_new (1 + word_of_nat i) = Inr (PartyIndex (1 + word_of_nat i))"
    if "i < unat (share_count params)" for i
    using PartyIndex_new_of_nat [of "Suc i"] share_count_bound [OF that] by (simp add: index_of_nat_def)
  have range: "u8_range 0 (share_count params) = map word_of_nat [0..<unat (share_count params)]"
    by (simp add: u8_range_def)
  have "dkg_new_sessions params sid =
      Inr (map (\<lambda>w. DkgSession_new params (PartyIndex (w + 1)) sid) (map word_of_nat [0..<unat (share_count params)]))"
    unfolding dkg_new_sessions_def range
    by (rule map_res_total) (auto simp: word add.commute)
  then show ?thesis by (simp add: party_range_upt comp_def index_of_nat_def add.commute)
qed

lemma session_party_new [simp]: "session_party (DkgSession_new params i sid) = i"
  by (simp add: session_party_def DkgSession_new_def)

lemma session_party_kept:
  "DkgSession_phase2 S c frags s = (Inr out, s') \<Longrightarrow> session_party s' = session_party s"
  using phase2_Inr [of S c frags s out s'] by (auto simp: session_party_def)

lemma length_phase1 [simp]: "length (DkgSession_phase1 S s c) = unat (share_count (sd_parameters (ds_data s)))"
  by (simp add: DkgSession_phase1_def dkg_phase1_def step2_def Let_def share_range_def)

lemma run_dkg_honest:
  fixes S :: "('s::field, 'p::ab_group_add) suite"
  assumes "suite_ok S" and "cyclic S" and "no_wrap params" and "dkg_coins_ok S params sid C"
  shows "\<exists>P. run_dkg S C params sid NoMeter () = Inr (map P (party_range params), ()) \<and>
    key_material S (secret_poly params C) params sid (joint_chain_code params C)
      (\<lambda>i j. ic_seed (dc_init (C i)) j) (party_range params) P"
proof -
  let ?all = "party_range params" and ?N = "\<lambda>i. DkgSession_new params i sid :: ('s, 'p) dkg_session"
  let ?frags = "\<lambda>i. map (\<lambda>j. entry_for i (DkgSession_phase1 S (?N j) (C j))) ?all"
  obtain PC ZT B2 S2 ZT3 MT B3 S3 P where run: "\<forall>i \<in> set ?all.
      DkgSession_phase2 S (C i) (?frags i) (?N i) = (Inr (PC i, ZT i, B2 i), S2 i) \<and>
      DkgSession_phase3 S (C i) (S2 i) = (Inr (ZT3 i, MT i, B3 i), S3 i) \<and>
      DkgSession_phase4 S (S3 i) (map PC ?all) (inbox z2_parties ZT ?all i) (inbox z3_parties ZT3 ?all i)
        (inbox mi_parties MT ?all i) (bt_tabulate B2 ?all) (bt_tabulate B3 ?all) (\<lambda>_. []) =
        Inr (P i, dkg_package S params C)"
    and km: "key_material S (secret_poly params C) params sid (joint_chain_code params C)
      (\<lambda>i j. ic_seed (dc_init (C i)) j) ?all P"
    using dkg_sessions_run [OF assms refl refl refl refl refl, where address_fn = "\<lambda>_. []"] by blast
  have party2: "session_party (S2 i) = i" if "i \<in> set ?all" for i
    using session_party_kept [OF conjunct1 [OF bspec [OF run that]]] by simp
  note at = bspec [OF run index_in_range] and number = party_number_eq [OF share_count_bound [of _ params]]
  have frags: "transpose_fragments (unat (share_count params))
      (map (\<lambda>s. DkgSession_phase1 S s (C (session_party s))) (map ?N ?all)) = Inr (map ?frags ?all)"
    using transpose_parties [of params "\<lambda>j. DkgSession_phase1 S (?N j) (C j)"]
    by (simp add: comp_def) (simp add: DkgSession_new_def)
  have phase2: "for_each (run_dkg_phase2 S C (map ?frags ?all)) (enumerate 0 (map ?N ?all)) ([], [], [], []) =
      Inr (map S2 ?all, map PC ?all, map ZT ?all, bt_tabulate B2 ?all)"
    by (rule parties_loop_map) (simp add: run_dkg_phase2_def at number)
  have phase3: "for_each (run_dkg_phase3 S C) (enumerate 0 (map S2 ?all)) ([], [], [], []) =
      Inr (map S3 ?all, map ZT3 ?all, map MT ?all, bt_tabulate B3 ?all)"
    by (rule parties_loop_map) (simp add: run_dkg_phase3_def party2 at number index_in_range)
  have phase4: "map_res (run_dkg_phase4 S (map PC ?all) (map (inbox z2_parties ZT ?all) ?all)
      (map (inbox z3_parties ZT3 ?all) ?all) (map (inbox mi_parties MT ?all) ?all) (bt_tabulate B2 ?all) (bt_tabulate B3 ?all))
      (enumerate 0 (map S3 ?all)) = Inr (map P ?all)"
  proof -
    have "map_res (run_dkg_phase4 S (map PC ?all) (map (inbox z2_parties ZT ?all) ?all)
        (map (inbox z3_parties ZT3 ?all) ?all) (map (inbox mi_parties MT ?all) ?all) (bt_tabulate B2 ?all) (bt_tabulate B3 ?all))
        (enumerate 0 (map S3 ?all)) = Inr (map (\<lambda>(i, _). P (index_of_nat (Suc i))) (enumerate 0 (map S3 ?all)))"
      by (rule map_res_total) (auto simp: enumerate_parties run_dkg_phase4_def at)
    then show ?thesis by (simp add: enumerate_parties comp_def parties_map)
  qed
  have "run_dkg S C params sid NoMeter () = Inr (map P ?all, ())"
    unfolding run_dkg_def new_sessions rbind.simps frags NoMeter_simps phase2 prod.case route_parties phase3 phase4
    by (rule refl)
  with km show ?thesis by blast
qed

section \<open>Refreshes\<close>

lemma length_refresh_phase1 [simp]:
  "length (refresh_phase1 S p c) = unat (share_count (party_parameters p))"
  "length (refresh_complete_phase1 S p c) = unat (share_count (party_parameters p))"
  by (simp_all add: refresh_phase1_def refresh_complete_phase1_def step2_def Let_def share_range_def)

lemma run_refresh_fast_honest:
  fixes S :: "('s::field, 'p::ab_group_add) suite"
  assumes "suite_ok S" and "cyclic S" and "no_wrap params"
    and km: "key_material S f params sid cc half (party_range params) P"
    and "refresh_coins_ok S params rsid f C"
  shows "\<exists>Q. run_refresh_fast S C (map P (party_range params)) rsid NoMeter () =
      Inr ((map Q (party_range params), map (\<lambda>i. party_zeroize (P i)) (party_range params)), ()) \<and>
    (\<forall>i \<in> set (party_range params). pk (Q i) = pk (P i)) \<and>
    key_material S (\<lambda>x. f x + correction_poly params C x) params rsid cc
      (\<lambda>i j. ic_seed (rc_init (C i)) j) (party_range params) Q"
proof -
  let ?all = "party_range params" and ?cv = "\<lambda>i. correction_poly params C (index_scalar i)"
  let ?frags = "\<lambda>i. map (\<lambda>j. entry_for i (refresh_phase1 S (P j) (rc_polynomial (C j)))) ?all"
  obtain PC K2 T2 K3 T3 Q where run: "\<forall>i \<in> set ?all.
      refresh_phase2 S (P i) (rc_proof (C i)) (rc_init (C i)) rsid (?frags i) = Inr (?cv i, PC i, K2 i, T2 i) \<and>
      refresh_phase3 (P i) (K2 i) = Inr (K3 i, T3 i) \<and>
      refresh_phase4 S (P i) rsid (?cv i) (map PC ?all) (K3 i)
        (inbox z2_parties T2 ?all i) (inbox z3_parties T3 ?all i) = (Inr (Q i), party_zeroize (P i)) \<and>
      pk (Q i) = pk (P i)"
    and km': "key_material S (\<lambda>x. f x + correction_poly params C x) params rsid cc
      (\<lambda>i j. ic_seed (rc_init (C i)) j) ?all Q"
    using refresh_rounds [OF assms refl refl refl refl] by blast
  note at = bspec [OF run index_in_range]
  note me = key_material_party(1,2) [OF km index_in_range]
  have mine: "party_index (P j) = j" "length (refresh_phase1 S (P j) c) = unat (share_count params)" if "j \<in> set ?all" for j c
    using key_material_party(1,2) [OF km that] by simp_all
  have frags: "transpose_fragments (length (map P ?all))
      (map (\<lambda>p. refresh_phase1 S p (rc_polynomial (C (party_index p)))) (map P ?all)) = Inr (map ?frags ?all)"
  proof -
    have rows: "map (\<lambda>p. refresh_phase1 S p (rc_polynomial (C (party_index p)))) (map P ?all) =
        map (\<lambda>j. refresh_phase1 S (P j) (rc_polynomial (C j))) ?all"
      using mine(1) by simp
    show ?thesis
      unfolding rows using transpose_parties [of params "\<lambda>j. refresh_phase1 S (P j) (rc_polynomial (C j))"] mine(2) by simp
  qed
  have phase2: "for_each (run_fast_phase2 S C rsid (map ?frags ?all)) (enumerate 0 (map P ?all)) ([], [], [], []) =
      Inr (map ?cv ?all, map PC ?all, map K2 ?all, map T2 ?all)"
    by (rule parties_loop4) (simp add: run_fast_phase2_def at me)
  have phase3: "for_each (run_fast_phase3 (map K2 ?all)) (enumerate 0 (map P ?all)) ([], []) =
      Inr (map K3 ?all, map T3 ?all)"
    by (rule parties_loop2) (simp add: run_fast_phase3_def at)
  have phase4: "for_each (run_fast_phase4 S rsid (map ?cv ?all) (map PC ?all) (map K3 ?all)
        (map (inbox z2_parties T2 ?all) ?all) (map (inbox z3_parties T3 ?all) ?all)) (enumerate 0 (map P ?all)) ([], []) =
      Inr (map Q ?all, map (\<lambda>i. party_zeroize (P i)) ?all)"
    by (rule parties_loop2) (simp add: run_fast_phase4_def keep_refreshed_def at)
  have n: "word_of_nat (length (map P ?all)) = share_count params" by simp
  have "run_refresh_fast S C (map P ?all) rsid NoMeter () =
      Inr ((map Q ?all, map (\<lambda>i. party_zeroize (P i)) ?all), ())"
    unfolding run_refresh_fast_def frags rbind.simps NoMeter_simps phase2 prod.case n route_parties phase3 phase4
    by (rule refl)
  with run km' show ?thesis by blast
qed

lemma run_refresh_complete_honest:
  fixes S :: "('s::field, 'p::ab_group_add) suite"
  assumes "suite_ok S" and "cyclic S" and "no_wrap params"
    and km: "key_material S f params sid cc half (party_range params) P"
    and "refresh_coins_ok S params rsid f C"
    and "init_coins_ok S rsid (party_range params) (\<lambda>i. rc_init (C i))"
  shows "\<exists>Q. run_refresh_complete S C (map P (party_range params)) rsid NoMeter () =
      Inr ((map Q (party_range params), map (\<lambda>i. party_zeroize (P i)) (party_range params)), ()) \<and>
    (\<forall>i \<in> set (party_range params). pk (Q i) = pk (P i)) \<and>
    key_material S (\<lambda>x. f x + correction_poly params C x) params rsid cc
      (\<lambda>i j. ic_seed (rc_init (C i)) j) (party_range params) Q"
proof -
  let ?all = "party_range params" and ?cv = "\<lambda>i. correction_poly params C (index_scalar i)"
  let ?frags = "\<lambda>i. map (\<lambda>j. entry_for i (refresh_complete_phase1 S (P j) (rc_polynomial (C j)))) ?all"
  obtain PC ZK ZT ZK3 ZT3 MK MT Q where run: "\<forall>i \<in> set ?all.
      refresh_complete_phase2 S (P i) (rc_proof (C i)) (rc_init (C i)) rsid (?frags i) =
        Inr (?cv i, PC i, ZK i, ZT i) \<and>
      refresh_complete_phase3 S (P i) (rc_init (C i)) rsid (ZK i) = Inr (ZK3 i, ZT3 i, MK i, MT i) \<and>
      refresh_complete_phase4 S (P i) rsid (?cv i) (map PC ?all) (ZK3 i)
        (inbox z2_parties ZT ?all i) (inbox z3_parties ZT3 ?all i) (MK i) (inbox mi_parties MT ?all i) =
        (Inr (Q i), party_zeroize (P i)) \<and> pk (Q i) = pk (P i)"
    and km': "key_material S (\<lambda>x. f x + correction_poly params C x) params rsid cc
      (\<lambda>i j. ic_seed (rc_init (C i)) j) ?all Q"
    using refresh_complete_rounds [OF assms refl refl refl refl refl] by blast
  note at = bspec [OF run index_in_range]
  note me = key_material_party(1,2) [OF km index_in_range]
  have mine: "party_index (P j) = j" "length (refresh_complete_phase1 S (P j) c) = unat (share_count params)"
    if "j \<in> set ?all" for j c
    using key_material_party(1,2) [OF km that] by simp_all
  have frags: "transpose_fragments (length (map P ?all))
      (map (\<lambda>p. refresh_complete_phase1 S p (rc_polynomial (C (party_index p)))) (map P ?all)) = Inr (map ?frags ?all)"
  proof -
    have rows: "map (\<lambda>p. refresh_complete_phase1 S p (rc_polynomial (C (party_index p)))) (map P ?all) =
        map (\<lambda>j. refresh_complete_phase1 S (P j) (rc_polynomial (C j))) ?all"
      using mine(1) by simp
    show ?thesis
      unfolding rows using transpose_parties [of params "\<lambda>j. refresh_complete_phase1 S (P j) (rc_polynomial (C j))"] mine(2) by simp
  qed
  have phase2: "for_each (run_complete_phase2 S C rsid (map ?frags ?all)) (enumerate 0 (map P ?all)) ([], [], [], []) =
      Inr (map ?cv ?all, map PC ?all, map ZK ?all, map ZT ?all)"
    by (rule parties_loop4) (simp add: run_complete_phase2_def at me)
  have phase3: "for_each (run_complete_phase3 S C rsid (map ZK ?all)) (enumerate 0 (map P ?all)) ([], [], [], []) =
      Inr (map ZK3 ?all, map ZT3 ?all, map MK ?all, map MT ?all)"
    by (rule parties_loop4) (simp add: run_complete_phase3_def at me)
  have phase4: "for_each (run_complete_phase4 S rsid (map ?cv ?all) (map PC ?all) (map ZK3 ?all)
        (map (inbox z2_parties ZT ?all) ?all) (map (inbox z3_parties ZT3 ?all) ?all) (map MK ?all)
        (map (inbox mi_parties MT ?all) ?all)) (enumerate 0 (map P ?all)) ([], []) =
      Inr (map Q ?all, map (\<lambda>i. party_zeroize (P i)) ?all)"
    by (rule parties_loop2) (simp add: run_complete_phase4_def keep_refreshed_def at)
  have n: "word_of_nat (length (map P ?all)) = share_count params" by simp
  have "run_refresh_complete S C (map P ?all) rsid NoMeter () =
      Inr ((map Q ?all, map (\<lambda>i. party_zeroize (P i)) ?all), ())"
    unfolding run_refresh_complete_def frags rbind.simps NoMeter_simps phase2 prod.case n route_parties phase3 phase4
    by (rule refl)
  with run km' show ?thesis by blast
qed

section \<open>Signing\<close>

text \<open>The first \<open>thr\<close> parties, which sign.\<close>

definition first_parties :: "u8 \<Rightarrow> party_index list" where
  "first_parties thr = map PartyIndex (u8_upto thr)"

lemma set_u8_upto: "w \<in> set (u8_upto n) \<longleftrightarrow> w \<noteq> 0 \<and> w \<le> n"
proof
  assume "w \<in> set (u8_upto n)"
  then obtain k where k: "w = word_of_nat k" "1 \<le> k" "k \<le> unat n" by (auto simp: u8_upto_def)
  then have "unat w = k" using unat_byte_less [of n] by (simp add: unsigned_of_nat take_bit_nat_eq_self)
  with k show "w \<noteq> 0 \<and> w \<le> n" by (auto simp: word_le_nat_alt)
next
  assume "w \<noteq> 0 \<and> w \<le> n"
  then have "0 < unat w" "unat w \<le> unat n" by (simp_all add: word_le_nat_alt unat_gt_0)
  then have "unat w \<in> set [1..<Suc (unat n)]" unfolding set_upt by simp
  then have "word_of_nat (unat w) \<in> set (u8_upto n)" unfolding u8_upto_def set_map by (rule imageI)
  then show "w \<in> set (u8_upto n)" by simp
qed

lemma sorted_u8_upto: "sorted_wrt (<) (u8_upto n)"
proof -
  have "sorted_wrt (\<lambda>i j. (word_of_nat i :: u8) < word_of_nat j) [1..<Suc (unat n)]"
  proof (rule sorted_wrt_mono_rel [OF _ sorted_wrt_upt])
    fix i j assume "i \<in> set [1..<Suc (unat n)]" "j \<in> set [1..<Suc (unat n)]" "i < j"
    then show "(word_of_nat i :: u8) < word_of_nat j"
      using unat_byte_less [of n] by (simp add: word_less_nat_alt unsigned_of_nat take_bit_nat_eq_self del: upt_Suc)
  qed
  then show ?thesis by (simp add: u8_upto_def sorted_wrt_map del: upt_Suc)
qed

lemma first_parties_facts:
  assumes "params_ok params"
  shows "set (first_parties (threshold params)) \<subseteq> set (party_range params)"
    "distinct (first_parties (threshold params))" "length (first_parties (threshold params)) = unat (threshold params)"
proof -
  have "threshold params \<le> share_count params" using assms by (simp add: params_ok_def)
  then show "set (first_parties (threshold params)) \<subseteq> set (party_range params)"
    by (auto simp: first_parties_def set_u8_upto set_party_range word_le_nat_alt Suc_le_eq unat_gt_0)
  have "distinct (u8_upto (threshold params))" using sorted_u8_upto by (simp add: strict_sorted_iff)
  then show "distinct (first_parties (threshold params))" by (simp add: first_parties_def distinct_map inj_on_def)
  show "length (first_parties (threshold params)) = unat (threshold params)"
    by (simp add: first_parties_def u8_upto_def)
qed

lemma for_each_tabulate1:
  assumes "\<And>k m. k \<in> set ks \<Longrightarrow> step k m = Inr (bt_insert k (f k) m)" and "sorted_wrt (<) ks"
  shows "for_each step ks [] = Inr (bt_tabulate f ks)"
  using for_each_fold [of ks step "\<lambda>k. bt_insert k (f k)" "[]"] assms(1) fold_tabulate [OF refl assms(2)] by simp

text \<open>A loop that takes every entry of a full map and puts another in its place.\<close>

lemma for_each_visit:
  assumes "\<And>k m acc. k \<in> set ks \<Longrightarrow> bt_get m k = Some (f k) \<Longrightarrow>
      step k (m, acc) = Inr (bt_insert k (g k) m, push k acc)"
    and "sorted_wrt (<) ks"
  shows "for_each step ks (bt_tabulate f ks, acc) = Inr (bt_tabulate g ks, fold push ks acc)"
proof -
  have "\<exists>m'. for_each step qs (m, acc) = Inr (m', fold push qs acc) \<and> bt_ok m' \<and>
      (\<forall>k. bt_get m' k = (if k \<in> set qs then Some (g k) else bt_get m k))"
    if "set qs \<subseteq> set ks" "distinct qs" "bt_ok m" "\<And>k. k \<in> set qs \<Longrightarrow> bt_get m k = Some (f k)" for qs m acc
    using that
  proof (induction qs arbitrary: m acc)
    case (Cons q qs)
    let ?m = "bt_insert q (g q) m"
    have "bt_ok ?m" by (rule bt.invar_insert [OF Cons.prems(3)])
    moreover have "bt_get ?m k = Some (f k)" if "k \<in> set qs" for k
      using that Cons.prems by (auto simp: bt.get_insert)
    ultimately obtain m' where m': "for_each step qs (?m, push q acc) = Inr (m', fold push qs (push q acc))" "bt_ok m'"
      "\<And>k. bt_get m' k = (if k \<in> set qs then Some (g k) else bt_get ?m k)"
      using Cons.IH [of ?m "push q acc"] Cons.prems by auto
    have "step q (m, acc) = Inr (?m, push q acc)" using assms(1) Cons.prems by simp
    with m' Cons.prems(3) show ?case by (auto simp: bt.get_insert)
  qed simp
  from this [of ks "bt_tabulate f ks" acc] assms(2) obtain m' where m':
    "for_each step ks (bt_tabulate f ks, acc) = Inr (m', fold push ks acc)" "bt_ok m'"
    "\<And>k. bt_get m' k = (if k \<in> set ks then Some (g k) else bt_get (bt_tabulate f ks) k)"
    by (auto simp: bt_tabulate_ok bt_get_tabulate strict_sorted_iff)
  have "m' = bt_tabulate g ks"
    using m'(2,3) by (intro bt_eqI bt_tabulate_ok assms(2)) (simp_all add: fun_eq_iff bt_get_tabulate)
  with m'(1) show ?thesis by simp
qed

lemma fold_snoc: "fold (\<lambda>x acc. acc @ [f x]) xs acc = acc @ map f xs"
  by (induction xs arbitrary: acc) auto

lemma bt_values_tabulate: "bt_values (bt_tabulate f ks) = map f ks"
  by (simp add: bt_values_def bt_entries_tabulate comp_def)

text \<open>The data of a signer, and the routing of a round.\<close>

lemma sign_data_loop:
  "for_each (run_sign_data (u8_upto thr) sign hash) (u8_upto thr) [] =
     Inr (bt_tabulate (\<lambda>w. signing_data sign hash (first_parties thr) (PartyIndex w)) (u8_upto thr))"
proof (rule for_each_tabulate1 [OF _ sorted_u8_upto])
  fix w and m :: "(u8, sign_data) btree"
  assume "w \<in> set (u8_upto thr)"
  have "map_res (\<lambda>i. unwrapped (PartyIndex_new i)) (filter (\<lambda>i. i \<noteq> w) (u8_upto thr)) =
      Inr (map PartyIndex (filter (\<lambda>i. i \<noteq> w) (u8_upto thr)))"
    by (rule map_res_total) (auto simp: PartyIndex_new_def set_u8_upto)
  moreover have "map PartyIndex (filter (\<lambda>i. i \<noteq> w) (u8_upto thr)) = others (first_parties thr) (PartyIndex w)"
    by (simp add: others_def first_parties_def filter_map comp_def)
  ultimately show "run_sign_data (u8_upto thr) sign hash w m =
      Inr (bt_insert w (signing_data sign hash (first_parties thr) (PartyIndex w)) m)"
    by (simp add: run_sign_data_def signing_data_def)
qed

lemma sign_route_loop:
  "for_each (run_sign_route route (bt_tabulate (\<lambda>w. T (PartyIndex w)) (u8_upto thr))) (u8_upto thr) [] =
     Inr (bt_tabulate (\<lambda>w. inbox route T (first_parties thr) (PartyIndex w)) (u8_upto thr))"
  by (rule for_each_tabulate1 [OF _ sorted_u8_upto])
    (simp add: run_sign_route_def PartyIndex_new_def set_u8_upto bt_values_tabulate inbox_def first_parties_def comp_def)

text \<open>Samples of the signers with which no value of the protocol is degenerate.\<close>

definition sign_samples_ok ::
  "('s::field, 'p::ab_group_add) suite \<Rightarrow> party_index list \<Rightarrow> (u8 \<Rightarrow> 's sign_coins) \<Rightarrow> bytes \<Rightarrow> 'p \<Rightarrow> bool" where
  "sign_samples_ok S signers D hash key \<longleftrightarrow> sign_coins_ok signers (\<lambda>i. D (as_u8 i)) \<and>
     (\<Sum>i \<in> set signers. sc_inversion_mask (D (as_u8 i))) \<noteq> 0 \<and>
     (let k = \<Sum>i \<in> set signers. sc_instance_key (D (as_u8 i));
          r = reduce_bytes S (x_bytes S (pmul S (generator S) k))
      in k \<noteq> 0 \<and> to_repr S r = x_bytes S (pmul S (generator S) k) \<and> r \<noteq> 0 \<and>
         pmul S (generator S) (reduce_hash_bytes S hash) + pmul S key r \<noteq> 0)"

lemma run_sign_honest:
  fixes S :: "('s::field, 'p::ab_group_add) suite"
  assumes "suite_ok S" and km: "key_material S f params sid cc half (party_range params) P"
    and "length sid = ID_LEN" and "length sign = ID_LEN"
    and samples: "sign_samples_ok S (first_parties (threshold params)) D hash (pmul S (generator S) (f 0))"
  shows "\<exists>sig. run_sign S D hex_error (map P (party_range params)) (threshold params) sign hash NoMeter () =
      Inr (sig, ()) \<and>
    verify_ecdsa_signature S hash (pmul S (generator S) (f 0)) (hex_encode S (sig_r sig)) (hex_encode S (sig_s sig))"
proof -
  let ?all = "party_range params" and ?E = "u8_upto (threshold params)"
    and ?signers = "first_parties (threshold params)" and ?D = "\<lambda>i. D (as_u8 i)"
  let ?k = "\<Sum>i \<in> set ?signers. sc_instance_key (?D i)"
  let ?r = "reduce_bytes S (x_bytes S (pmul S (generator S) ?k))"
  have ok: "params_ok params" by (rule key_materialD(1) [OF km])
  note sg = first_parties_facts [OF ok]
  from samples have c: "sign_coins_ok ?signers ?D" "(\<Sum>i \<in> set ?signers. sc_inversion_mask (?D i)) \<noteq> 0" "?k \<noteq> 0"
    "to_repr S ?r = x_bytes S (pmul S (generator S) ?k)" "?r \<noteq> 0"
    "pmul S (generator S) (reduce_hash_bytes S hash) + pmul S (pmul S (generator S) (f 0)) ?r \<noteq> 0"
    by (simp_all add: sign_samples_ok_def Let_def)
  have "pmul S (generator S) (reduce_hash_bytes S hash + ?r * f 0) \<noteq> 0"
    using c(6) by (simp add: pmul_add [OF assms(1)] pmul_pmul [OF assms(1)] mult.commute)
  then have nonzero: "reduce_hash_bytes S hash + ?r * f 0 \<noteq> 0" using pmul_zero [OF assms(1)] by metis
  have id: "\<forall>i xs. mset ((\<lambda>_ xs. xs) i xs) = mset xs" by simp
  obtain S1 T1 S2 T2 S3 B sig z where run: "\<forall>i \<in> set ?signers.
      SignSession_new S (P i) (signing_data sign hash ?signers i) (?D i) = Inr (S1 i, T1 i) \<and>
      SignSession_phase2 S (?D i) (inbox t1_parties T1 ?signers i) (S1 i) = (Inr (T2 i), S2 i) \<and>
      SignSession_phase3 S (inbox t2_parties T2 ?signers i) (S2 i) = (Some (Inr (B i)), S3 i) \<and>
      (\<forall>bs. mset bs = mset (map B ?signers) \<longrightarrow> SignSession_phase4 S hex_error bs (S3 i) = Some (Inr sig))"
    and v: "verify_ecdsa_signature S hash (pmul S (generator S) (f 0)) (hex_encode S (sig_r sig)) (hex_encode S (sig_s sig))"
    using sign_sessions_run [OF assms(1) km assms(3,4) sg c(1) refl c(3,2) refl c(4,5) nonzero id id, of hex_error] by blast
  have at: "SignSession_new S (P (PartyIndex w)) (signing_data sign hash ?signers (PartyIndex w)) (D w) =
      Inr (S1 (PartyIndex w), T1 (PartyIndex w)) \<and>
    SignSession_phase2 S (D w) (inbox t1_parties T1 ?signers (PartyIndex w)) (S1 (PartyIndex w)) =
      (Inr (T2 (PartyIndex w)), S2 (PartyIndex w)) \<and>
    SignSession_phase3 S (inbox t2_parties T2 ?signers (PartyIndex w)) (S2 (PartyIndex w)) =
      (Some (Inr (B (PartyIndex w))), S3 (PartyIndex w)) \<and>
    SignSession_phase4 S hex_error (map B ?signers) (S3 (PartyIndex w)) = Some (Inr sig)" if "w \<in> set ?E" for w
    using bspec [OF run, of "PartyIndex w"] that by (simp add: first_parties_def)
  let ?tab = "\<lambda>g. bt_tabulate (\<lambda>w. g (PartyIndex w)) ?E"
  have party: "element (map P ?all) (unat (w - 1)) = Inr (P (PartyIndex w))" if "w \<in> set ?E" for w
  proof -
    have w: "0 < unat w" "unat w \<le> unat (share_count params)"
      using that ok by (auto simp: set_u8_upto params_ok_def word_le_nat_alt unat_gt_0)
    then have "unat (w - 1) = unat w - 1" by (intro unat_minus_one) (auto simp: unat_gt_0)
    with w show ?thesis by (simp add: index_of_nat_def)
  qed
  have phase1: "for_each (run_sign_phase1 S D (map P ?all)
        (bt_tabulate (\<lambda>w. signing_data sign hash ?signers (PartyIndex w)) ?E)) ?E ([], []) = Inr (?tab S1, ?tab T1)"
    by (rule for_each_tabulate2 [OF _ sorted_u8_upto])
      (simp add: run_sign_phase1_def party bt_get_tabulate unwrap_simps at)
  have phase2: "for_each (run_sign_phase2 S D (?tab (inbox t1_parties T1 ?signers))) ?E (?tab S1, []) =
      Inr (?tab S2, fold (\<lambda>w. bt_insert w (T2 (PartyIndex w))) ?E [])"
    by (rule for_each_visit [OF _ sorted_u8_upto])
      (simp add: run_sign_phase2_def bt_get_tabulate unwrap_simps at)
  have phase3: "for_each (run_sign_phase3 S (?tab (inbox t2_parties T2 ?signers))) ?E (?tab S2, []) =
      Inr (?tab S3, fold (\<lambda>w acc. acc @ [B (PartyIndex w)]) ?E [])"
    by (rule for_each_visit [OF _ sorted_u8_upto])
      (simp add: run_sign_phase3_def bt_get_tabulate unwrap_simps at)
  have first: "0 < length ?E" using ok by (simp add: u8_upto_def params_ok_def word_le_nat_alt)
  then have "?E ! 0 \<in> set ?E" by (rule nth_mem)
  then have phase4: "run_sign_phase4 S hex_error ?E (?tab S3) (map B ?signers) = Inr sig"
    using first by (simp add: run_sign_phase4_def bt_get_tabulate unwrap_simps at)
  have sent: "fold (\<lambda>w. bt_insert w (T2 (PartyIndex w))) ?E [] = ?tab T2"
    "fold (\<lambda>w acc. acc @ [B (PartyIndex w)]) ?E [] = map B ?signers"
    by (simp_all add: fold_tabulate [OF refl sorted_u8_upto] fold_snoc first_parties_def)
  have "run_sign S D hex_error (map P ?all) (threshold params) sign hash NoMeter () = Inr (sig, ())"
    unfolding run_sign_def Let_def sign_data_loop rbind.simps phase1 prod.case NoMeter_simps sign_route_loop phase2 sent
      phase3 phase4
    by (rule refl)
  with v show ?thesis by blast
qed

section \<open>The programs\<close>

definition assert_that :: "bool \<Rightarrow> failure + unit" where
  "assert_that b = (if b then Inr () else Inl Panicked)"

text \<open>\<open>examples/verify_e2e.rs\<close>: the block of one curve, and the program, which runs it on both and
  prints the address of each key.\<close>

definition e2e_run ::
  "('s::field, 'p::ab_group_add) suite \<Rightarrow> (party_index \<Rightarrow> 's dkg_coins) \<Rightarrow> (u8 \<Rightarrow> 's sign_coins) \<Rightarrow>
     (string \<Rightarrow> string) \<Rightarrow> parameters \<Rightarrow> bytes \<Rightarrow> bytes \<Rightarrow> bytes \<Rightarrow> failure + 'p" where
  "e2e_run S C D hex_error params session sign msg =
     rbind (run_dkg S C params session NoMeter ()) (\<lambda>(parties, _).
     rbind (run_sign S D hex_error parties 2 sign msg NoMeter ()) (\<lambda>(sig, _).
     rbind (element parties 0) (\<lambda>first.
     rbind (assert_that (verify_ecdsa_signature S msg (pk first) (hex_encode S (sig_r sig)) (hex_encode S (sig_s sig))))
       (\<lambda>_. Inr (pk first)))))"

definition verify_e2e ::
  "('s::field, 'p::ab_group_add) suite \<Rightarrow> ('t::field, 'q::ab_group_add) suite \<Rightarrow> 'p address_lib \<Rightarrow> 'q address_lib \<Rightarrow>
     (party_index \<Rightarrow> 's dkg_coins) \<Rightarrow> (u8 \<Rightarrow> 's sign_coins) \<Rightarrow> (party_index \<Rightarrow> 't dkg_coins) \<Rightarrow> (u8 \<Rightarrow> 't sign_coins) \<Rightarrow>
     (string \<Rightarrow> string) \<Rightarrow> failure + string \<times> string" where
  "verify_e2e S T L K C D C' D' hex_error =
     (let session = replicate 32 7; sign = replicate 32 9;
          msg = tagged_hash S (ascii ''dkls23-bench/verify-e2e'') [ascii ''hello world'']
      in rbind (unwrapped (Parameters_new 2 2)) (\<lambda>params.
         rbind (e2e_run S C D hex_error params session sign msg) (\<lambda>key.
         rbind (e2e_run T C' D' hex_error params session sign msg) (\<lambda>key'.
           Inr (compute_eth_address L key, compute_sui_address K key')))))"

text \<open>The test of \<open>refresh.rs\<close>, for either refresh.\<close>

definition refresh_preserves_pk_and_signing ::
  "('s::field, 'p::ab_group_add) suite \<Rightarrow> (party_index \<Rightarrow> 's dkg_coins) \<Rightarrow> (party_index \<Rightarrow> 's refresh_coins) \<Rightarrow>
     (u8 \<Rightarrow> 's sign_coins) \<Rightarrow> (string \<Rightarrow> string) \<Rightarrow> bool \<Rightarrow> failure + unit" where
  "refresh_preserves_pk_and_signing S C R D hex_error fast =
     rbind (unwrapped (Parameters_new 2 2)) (\<lambda>params.
     rbind (run_dkg S C params (replicate 32 7) NoMeter ()) (\<lambda>(parties, _).
     rbind (element parties 0) (\<lambda>before.
     rbind (if fast then run_refresh_fast S R parties (replicate 32 5) NoMeter ()
            else run_refresh_complete S R parties (replicate 32 5) NoMeter ()) (\<lambda>((refreshed, _), _).
     rbind (element refreshed 0) (\<lambda>first.
     rbind (assert_that (pk before = pk first)) (\<lambda>_.
     rbind (element refreshed 1) (\<lambda>second.
     rbind (assert_that (pk first = pk second)) (\<lambda>_.
     let msg = tagged_hash S (ascii ''dkls23-bench'') [ascii ''post-refresh''] in
     rbind (run_sign S D hex_error refreshed 2 (replicate 32 9) msg NoMeter ()) (\<lambda>(sig, _).
       assert_that (verify_ecdsa_signature S msg (pk first) (hex_encode S (sig_r sig)) (hex_encode S (sig_s sig))))))))))))"

text \<open>\<open>bin/metrics.rs\<close>: one row per operation; the three other operations work on keys of their own.
  Each run samples anew: \<open>C i\<close> are the samples of the run \<open>i\<close> of key generation.\<close>

record metrics_row =
  row_op :: string
  row_curve :: string
  row_bytes :: u64
  row_rounds :: u32

definition metrics_row_of :: "string \<Rightarrow> string \<Rightarrow> wire_meter \<Rightarrow> metrics_row" where
  "metrics_row_of op curve m = \<lparr>row_op = op, row_curve = curve, row_bytes = wm_bytes m, row_rounds = wm_rounds m\<rparr>"

definition measure_curve ::
  "('s::field, 'p::ab_group_add) suite \<Rightarrow> (('s, 'p) wire_message \<Rightarrow> u64 option) \<Rightarrow> (nat \<Rightarrow> party_index \<Rightarrow> 's dkg_coins) \<Rightarrow>
     (u8 \<Rightarrow> 's sign_coins) \<Rightarrow> (party_index \<Rightarrow> 's refresh_coins) \<Rightarrow> (party_index \<Rightarrow> 's refresh_coins) \<Rightarrow>
     (string \<Rightarrow> string) \<Rightarrow> string \<Rightarrow> parameters \<Rightarrow> failure + metrics_row list" where
  "measure_curve S sizes C D R R' hex_error curve params =
     (let sid = replicate 32 7; rsid = replicate 32 5; sign = replicate 32 9;
          msg = tagged_hash S (ascii ''bench'') [ascii ''m''] in
      rbind (run_dkg S (C 0) params sid (WireMeter sizes) wire_meter_default) (\<lambda>(_, m0).
      rbind (run_dkg S (C 1) params sid NoMeter ()) (\<lambda>(parties, _).
      rbind (run_sign S D hex_error parties 2 sign msg (WireMeter sizes) wire_meter_default) (\<lambda>(_, m1).
      rbind (run_dkg S (C 2) params sid NoMeter ()) (\<lambda>(parties, _).
      rbind (run_refresh_complete S R parties rsid (WireMeter sizes) wire_meter_default) (\<lambda>(_, m2).
      rbind (run_dkg S (C 3) params sid NoMeter ()) (\<lambda>(parties, _).
      rbind (run_refresh_fast S R' parties rsid (WireMeter sizes) wire_meter_default) (\<lambda>(_, m3).
        Inr [metrics_row_of ''dkg'' curve m0, metrics_row_of ''sign'' curve m1,
             metrics_row_of ''refresh_complete'' curve m2, metrics_row_of ''refresh_fast'' curve m3]))))))))"

text \<open>The rows of both curves, which the program prints.\<close>

definition metrics_rows ::
  "(parameters \<Rightarrow> failure + metrics_row list) \<Rightarrow> (parameters \<Rightarrow> failure + metrics_row list) \<Rightarrow> failure + metrics_row list" where
  "metrics_rows measure_k256 measure_p256 =
     rbind (unwrapped (Parameters_new 2 2)) (\<lambda>params.
     rbind (measure_k256 params) (\<lambda>rows.
     rbind (measure_p256 params) (\<lambda>more_rows. Inr (rows @ more_rows))))"

section \<open>Properties\<close>

lemma harness_rounds:
  fixes S :: "('s::field, 'p::ab_group_add) suite"
  assumes "suite_ok S" and "cyclic S" and "params_ok params" and "share_count params \<noteq> 255"
    and "dkg_coins_ok S params sid C" and "refresh_coins_ok S params rsid (secret_poly params C) R"
    and "fast \<or> init_coins_ok S rsid (party_range params) (\<lambda>i. rc_init (R i))"
    and "length rsid = ID_LEN" and "length sign = ID_LEN"
    and "sign_samples_ok S (first_parties (threshold params)) D hash (pmul S (generator S) (secret_poly params C 0))"
  shows "\<exists>P Q sig. run_dkg S C params sid NoMeter () = Inr (map P (party_range params), ()) \<and>
    (if fast then run_refresh_fast S R (map P (party_range params)) rsid NoMeter ()
     else run_refresh_complete S R (map P (party_range params)) rsid NoMeter ()) =
      Inr ((map Q (party_range params), map (\<lambda>i. party_zeroize (P i)) (party_range params)), ()) \<and>
    run_sign S D hex_error (map Q (party_range params)) (threshold params) sign hash NoMeter () = Inr (sig, ()) \<and>
    (\<forall>i \<in> set (party_range params). pk (P i) = pmul S (generator S) (secret_poly params C 0) \<and> pk (Q i) = pk (P i)) \<and>
    verify_ecdsa_signature S hash (pmul S (generator S) (secret_poly params C 0))
      (hex_encode S (sig_r sig)) (hex_encode S (sig_s sig))"
proof -
  let ?all = "party_range params" and ?f = "secret_poly params C"
  have nw: "no_wrap params" using assms(3,4) by (simp add: no_wrap_def)
  obtain P where P: "run_dkg S C params sid NoMeter () = Inr (map P ?all, ())"
    and km: "key_material S ?f params sid (joint_chain_code params C) (\<lambda>i j. ic_seed (dc_init (C i)) j) ?all P"
    using run_dkg_honest [OF assms(1,2) nw assms(5)] by blast
  obtain Q where Q: "(if fast then run_refresh_fast S R (map P ?all) rsid NoMeter ()
     else run_refresh_complete S R (map P ?all) rsid NoMeter ()) =
      Inr ((map Q ?all, map (\<lambda>i. party_zeroize (P i)) ?all), ())" "\<forall>i \<in> set ?all. pk (Q i) = pk (P i)"
    and km': "key_material S (\<lambda>x. ?f x + correction_poly params R x) params rsid (joint_chain_code params C)
      (\<lambda>i j. ic_seed (rc_init (R i)) j) ?all Q"
  proof (cases fast)
    case True
    with that run_refresh_fast_honest [OF assms(1,2) nw km assms(6)] show ?thesis by auto
  next
    case False
    with assms(7) have "init_coins_ok S rsid ?all (\<lambda>i. rc_init (R i))" by simp
    with False that run_refresh_complete_honest [OF assms(1,2) nw km assms(6)] show ?thesis by auto
  qed
  have key: "?f 0 + correction_poly params R 0 = ?f 0" by (simp add: correction_poly_0)
  obtain sig where "run_sign S D hex_error (map Q ?all) (threshold params) sign hash NoMeter () = Inr (sig, ())"
    "verify_ecdsa_signature S hash (pmul S (generator S) (?f 0)) (hex_encode S (sig_r sig)) (hex_encode S (sig_s sig))"
    using run_sign_honest [OF assms(1) km' assms(8,9), unfolded key, OF assms(10), of hex_error] by blast
  with P Q key_materialD(9) [OF km] show ?thesis by (intro exI [of _ P] exI [of _ Q] exI [of _ sig]) simp
qed

text \<open>C3: the harness runs the protocol from key generation through a refresh to a signature.  With honest
  samples that are not degenerate, for any parameters, none of its \<open>unwrap\<close>s and indices panics:
  key generation returns one party per index, either refresh returns as many with the same public
  key and leaves the old parties wiped, and the signature of the first \<open>threshold\<close> parties verifies
  under that key.\<close>

theorem harness_signs:
  fixes S :: "('s::field, 'p::ab_group_add) suite"
  assumes "suite_ok S" and "cyclic S" and "params_ok params" and "share_count params \<noteq> 255"
    and "dkg_coins_ok S params sid C" and "refresh_coins_ok S params rsid (secret_poly params C) R"
    and "fast \<or> init_coins_ok S rsid (party_range params) (\<lambda>i. rc_init (R i))"
    and "length rsid = ID_LEN" and "length sign = ID_LEN"
    and "sign_samples_ok S (first_parties (threshold params)) D hash (pmul S (generator S) (secret_poly params C 0))"
  shows "\<exists>parties refreshed sig. run_dkg S C params sid NoMeter () = Inr (parties, ()) \<and>
    (if fast then run_refresh_fast S R parties rsid NoMeter () else run_refresh_complete S R parties rsid NoMeter ()) =
      Inr ((refreshed, map party_zeroize parties), ()) \<and>
    run_sign S D hex_error refreshed (threshold params) sign hash NoMeter () = Inr (sig, ()) \<and>
    length parties = unat (share_count params) \<and> map pk refreshed = map pk parties \<and>
    (\<forall>p \<in> set parties. pk p = pmul S (generator S) (secret_poly params C 0) \<and>
      verify_ecdsa_signature S hash (pk p) (hex_encode S (sig_r sig)) (hex_encode S (sig_s sig)))"
proof -
  let ?all = "party_range params"
  from harness_rounds [OF assms, of hex_error] obtain P Q sig where
    run: "run_dkg S C params sid NoMeter () = Inr (map P ?all, ())"
      "(if fast then run_refresh_fast S R (map P ?all) rsid NoMeter ()
        else run_refresh_complete S R (map P ?all) rsid NoMeter ()) =
        Inr ((map Q ?all, map (\<lambda>i. party_zeroize (P i)) ?all), ())"
      "run_sign S D hex_error (map Q ?all) (threshold params) sign hash NoMeter () = Inr (sig, ())"
    and key: "\<forall>i \<in> set ?all. pk (P i) = pmul S (generator S) (secret_poly params C 0) \<and> pk (Q i) = pk (P i)"
      "verify_ecdsa_signature S hash (pmul S (generator S) (secret_poly params C 0))
        (hex_encode S (sig_r sig)) (hex_encode S (sig_s sig))" by blast
  have wiped: "map party_zeroize (map P ?all) = map (\<lambda>i. party_zeroize (P i)) ?all" by simp
  show ?thesis
    by (rule exI [of _ "map P ?all"], rule exI [of _ "map Q ?all"], rule exI [of _ sig], unfold wiped)
      (use run key in auto)
qed

lemma harness_sample_sign:
  "sign_samples_ok init_suite (first_parties (threshold sample_params)) (\<lambda>w. sample_coins_of (PartyIndex w)) (be_bytes 32 9)
     (pmul init_suite (generator init_suite) (secret_poly sample_params sample_dkg_coins 0))"
proof -
  have signers: "set (first_parties (threshold sample_params)) = {PartyIndex 1, PartyIndex 2}"
    by (auto simp: first_parties_def u8_upto_def sample_params_def upt_rec)
  have hash: "gf_reduce (be_bytes 32 9) = 9" by (simp add: gf_reduce_def of_be_be_bytes gf_eq_iff)
  show ?thesis
    unfolding sign_samples_ok_def signers sample_secret_poly
    by (simp add: sign_coins_ok_def signers sample_coins_of_def sample_sign_coins_def mul_L_def gf_eq_iff Let_def
        init_suite_def sample_suite_def reduce_hash_bytes_def hash)
qed

text \<open>Three parties with threshold 2 generate a key, refresh it completely, and the first two sign.\<close>

lemma harness_signs_witness:
  "\<exists>parties refreshed sig. run_dkg init_suite sample_dkg_coins sample_params (replicate 32 7) NoMeter () = Inr (parties, ()) \<and>
     run_refresh_complete init_suite sample_refresh_coins parties (replicate 32 5) NoMeter () =
       Inr ((refreshed, map party_zeroize parties), ()) \<and>
     run_sign init_suite (\<lambda>w. sample_coins_of (PartyIndex w)) (\<lambda>_. []) refreshed 2 (replicate 32 9) (be_bytes 32 9) NoMeter () =
       Inr (sig, ()) \<and> length parties = 3"
proof -
  have ids: "length (replicate 32 (5 :: 8 word)) = ID_LEN" "length (replicate 32 (9 :: 8 word)) = ID_LEN"
    by (simp_all add: ID_LEN_def)
  have params: "threshold sample_params = 2" "unat (share_count sample_params) = 3" by (simp_all add: sample_params_def)
  from harness_signs [OF init_suite_ok init_suite_cyclic sample_params_ok(1) sample_share_count sample_dkg_coins_any
      sample_refresh_any(1) disjI2 [OF sample_refresh_any(2)] ids harness_sample_sign,
      where fast = False and hex_error = "\<lambda>_. []" and sid = "replicate 32 7"]
  show ?thesis unfolding params by auto
qed

text \<open>The programs that check correctness pass.\<close>

lemma first_party: "params_ok params \<Longrightarrow> element (map P (party_range params)) 0 = Inr (P (index_of_nat 1))"
  by (simp add: params_ok_def word_le_nat_alt)

lemma e2e_run_passes:
  fixes S :: "('s::field, 'p::ab_group_add) suite"
  assumes "suite_ok S" and "cyclic S" and "params_ok params" and "share_count params \<noteq> 255" and "threshold params = 2"
    and "dkg_coins_ok S params session C" and "length session = ID_LEN" and "length sign = ID_LEN"
    and "sign_samples_ok S (first_parties 2) D msg (pmul S (generator S) (secret_poly params C 0))"
  shows "e2e_run S C D hex_error params session sign msg = Inr (pmul S (generator S) (secret_poly params C 0))"
proof -
  let ?all = "party_range params"
  have nw: "no_wrap params" using assms(3,4) by (simp add: no_wrap_def)
  obtain P where P: "run_dkg S C params session NoMeter () = Inr (map P ?all, ())"
    and km: "key_material S (secret_poly params C) params session (joint_chain_code params C)
      (\<lambda>i j. ic_seed (dc_init (C i)) j) ?all P"
    using run_dkg_honest [OF assms(1,2) nw assms(6)] by blast
  obtain sig where sig: "run_sign S D hex_error (map P ?all) 2 sign msg NoMeter () = Inr (sig, ())"
    "verify_ecdsa_signature S msg (pmul S (generator S) (secret_poly params C 0)) (hex_encode S (sig_r sig))
      (hex_encode S (sig_s sig))"
    using run_sign_honest [OF assms(1) km assms(7,8), unfolded assms(5), OF assms(9), of hex_error] by blast
  have "0 < unat (share_count params)" using assms(3) by (simp add: params_ok_def word_le_nat_alt)
  then have "pk (P (index_of_nat 1)) = pmul S (generator S) (secret_poly params C 0)"
    using key_materialD(9) [OF km index_in_range [of 0 params]] by simp
  with P sig show ?thesis by (simp add: e2e_run_def first_party [OF assms(3)] assert_that_def)
qed

lemma verify_e2e_passes:
  fixes S :: "('s::field, 'p::ab_group_add) suite" and T :: "('t::field, 'q::ab_group_add) suite"
  defines "params \<equiv> \<lparr>threshold = 2, share_count = 2\<rparr>"
    and "msg \<equiv> tagged_hash S (ascii ''dkls23-bench/verify-e2e'') [ascii ''hello world'']"
  assumes "suite_ok S" and "cyclic S" and "suite_ok T" and "cyclic T"
    and "dkg_coins_ok S params (replicate 32 7) C" and "dkg_coins_ok T params (replicate 32 7) C'"
    and "sign_samples_ok S (first_parties 2) D msg (pmul S (generator S) (secret_poly params C 0))"
    and "sign_samples_ok T (first_parties 2) D' msg (pmul T (generator T) (secret_poly params C' 0))"
  shows "verify_e2e S T L K C D C' D' hex_error =
    Inr (compute_eth_address L (pmul S (generator S) (secret_poly params C 0)),
         compute_sui_address K (pmul T (generator T) (secret_poly params C' 0)))"
proof -
  have params: "Parameters_new 2 2 = Inr params" "params_ok params" "share_count params \<noteq> 255" "threshold params = 2"
    by (simp_all add: params_def Parameters_new_def params_ok_def)
  have ids: "length (replicate 32 b) = ID_LEN" for b :: byte by (simp add: ID_LEN_def)
  show ?thesis
    using e2e_run_passes [OF assms(3,4) params(2-4) assms(7) ids ids assms(9), of hex_error]
      e2e_run_passes [OF assms(5,6) params(2-4) assms(8) ids ids assms(10), of hex_error]
    by (simp add: verify_e2e_def Let_def params(1) msg_def)
qed

lemma refresh_test_passes:
  fixes S :: "('s::field, 'p::ab_group_add) suite"
  defines "params \<equiv> \<lparr>threshold = 2, share_count = 2\<rparr>"
  assumes "suite_ok S" and "cyclic S" and "dkg_coins_ok S params (replicate 32 7) C"
    and "refresh_coins_ok S params (replicate 32 5) (secret_poly params C) R"
    and "fast \<or> init_coins_ok S (replicate 32 5) (party_range params) (\<lambda>i. rc_init (R i))"
    and "sign_samples_ok S (first_parties 2) D (tagged_hash S (ascii ''dkls23-bench'') [ascii ''post-refresh''])
      (pmul S (generator S) (secret_poly params C 0))"
  shows "refresh_preserves_pk_and_signing S C R D hex_error fast = Inr ()"
proof -
  have params: "Parameters_new 2 2 = Inr params" "params_ok params" "share_count params \<noteq> 255" "threshold params = 2"
    "unat (share_count params) = 2"
    by (simp_all add: params_def Parameters_new_def params_ok_def)
  have ids: "length (replicate 32 b) = ID_LEN" for b :: byte by (simp add: ID_LEN_def)
  let ?all = "party_range params"
  from harness_rounds [OF assms(2,3) params(2,3) assms(4,5,6) ids ids, unfolded params(4), OF assms(7), of hex_error 9]
  obtain P Q sig where run: "run_dkg S C params (replicate 32 7) NoMeter () = Inr (map P ?all, ())"
      "(if fast then run_refresh_fast S R (map P ?all) (replicate 32 5) NoMeter ()
        else run_refresh_complete S R (map P ?all) (replicate 32 5) NoMeter ()) =
        Inr ((map Q ?all, map (\<lambda>i. party_zeroize (P i)) ?all), ())"
      "run_sign S D hex_error (map Q ?all) 2 (replicate 32 9)
        (tagged_hash S (ascii ''dkls23-bench'') [ascii ''post-refresh'']) NoMeter () = Inr (sig, ())"
    and key: "\<forall>i \<in> set ?all. pk (P i) = pmul S (generator S) (secret_poly params C 0) \<and> pk (Q i) = pk (P i)"
      "verify_ecdsa_signature S (tagged_hash S (ascii ''dkls23-bench'') [ascii ''post-refresh''])
        (pmul S (generator S) (secret_poly params C 0)) (hex_encode S (sig_r sig)) (hex_encode S (sig_s sig))" by blast
  have keys: "pk (P (index_of_nat (Suc i))) = pmul S (generator S) (secret_poly params C 0) \<and>
      pk (Q (index_of_nat (Suc i))) = pmul S (generator S) (secret_poly params C 0)" if "i < 2" for i
    using bspec [OF key(1) index_in_range [of i params]] that params(5) by simp
  note k = keys [of 0, simplified] keys [of 1, simplified]
  have second: "element (map F ?all) 1 = Inr (F (index_of_nat 2))" for F :: "party_index \<Rightarrow> ('s, 'p) party"
    using params(5) by (simp add: numeral_2_eq_2)
  show ?thesis
    unfolding refresh_preserves_pk_and_signing_def params(1) unwrapped_simps rbind.simps run(1) prod.case
      first_party [OF params(2)] run(2) second Let_def run(3)
    using k key(2) by (simp add: assert_that_def numeral_2_eq_2)
qed

end
