(* ===== verification/Harness_Traffic.thy ===== *)
theory Harness_Traffic
  imports Harness_Runs
begin

text \<open>
  Which messages the meters of \<open>dkls23-benchmarks\<close> count.  A run that returns has run the phases of the
  protocol at every party, and what it passed to its meter is, round by round, what these phases
  returned for transmission: \<open>dkg_traffic\<close>, \<open>sign_traffic\<close> and the two of refresh say this without the
  loops, routing and meters of the harness.  Proof commitments and derivation broadcasts are not
  counted.  From this follows what the rows of the metrics mean.
\<close>

section \<open>Loops that have returned\<close>

text \<open>A loop that has returned has filed, for every element, what its step computed.\<close>

lemma for_each_choose:
  assumes "for_each step ks s = Inr t" and "distinct ks" and "I ks s"
    and "\<And>k ks s r. I (k # ks) s \<Longrightarrow> step k s = Inr r \<Longrightarrow> \<exists>y. ok k y \<and> r = upd k y s \<and> I ks r"
  shows "\<exists>Y. (\<forall>k \<in> set ks. ok k (Y k)) \<and> t = fold (\<lambda>k. upd k (Y k)) ks s"
  using assms(1-3)
proof (induction ks arbitrary: s)
  case (Cons k ks)
  from Cons.prems(1) obtain r where r: "step k s = Inr r" "for_each step ks r = Inr t" by (auto simp: rbind_Inr_iff)
  from assms(4) [OF Cons.prems(3) r(1)] obtain y where y: "ok k y" "r = upd k y s" "I ks r" by blast
  have "distinct ks" using Cons.prems(2) by simp
  from Cons.IH [OF r(2) this y(3)] obtain Y where
    Y: "\<forall>k \<in> set ks. ok k (Y k)" "t = fold (\<lambda>k. upd k (Y k)) ks r" by (elim exE conjE) (rule that)
  have "fold (\<lambda>j. upd j ((Y(k := y)) j)) ks r = fold (\<lambda>j. upd j (Y j)) ks r"
    using Cons.prems(2) by (intro fold_cong) auto
  with Y y Cons.prems(2) show ?case by (intro exI [of _ "Y(k := y)"] conjI) simp_all
qed simp

lemma for_each_choose_all:
  assumes "for_each step ks s = Inr t" and "distinct ks"
    and "\<And>k s r. k \<in> set ks \<Longrightarrow> step k s = Inr r \<Longrightarrow> \<exists>y. ok k y \<and> r = upd k y s"
  shows "\<exists>Y. (\<forall>k \<in> set ks. ok k (Y k)) \<and> t = fold (\<lambda>k. upd k (Y k)) ks s"
  by (rule for_each_choose [where I = "\<lambda>qs _. set qs \<subseteq> set ks", OF assms(1,2)]) (use assms(3) in simp_all)

text \<open>The position of a party in the vectors of the harness.\<close>

definition position :: "party_index \<Rightarrow> nat" where
  "position i = unat (as_u8 i) - 1"

lemma enumerate_position:
  "enumerate 0 (map g (party_range params)) = map (\<lambda>i. (position i, g i)) (party_range params)"
proof -
  have "position (index_of_nat (Suc i)) = i" if "i < unat (share_count params)" for i
  proof -
    have "unat (word_of_nat (Suc i) :: u8) = Suc i"
      using share_count_bound [OF that] by (simp add: unat_of_nat take_bit_nat_eq_self del: of_nat_Suc)
    then show ?thesis by (simp add: position_def index_of_nat_def)
  qed
  then show ?thesis by (intro nth_equalityI) (simp_all add: nth_enumerate_eq)
qed

lemma position_bound: "i \<in> set (party_range params) \<Longrightarrow> position i < unat (share_count params)"
  by (auto simp: position_def set_party_range)

lemma element_position [simp]:
  "i \<in> set (party_range params) \<Longrightarrow> element (map g (party_range params)) (position i) = Inr (g i)"
  using position_bound [of i params] by (simp add: position_def set_party_range index_of_nat_def)

lemma number_position: "i \<in> set (party_range params) \<Longrightarrow> party_number (position i) = Inr i"
  using unat_byte_less [of "as_u8 i"] by (simp add: position_def set_party_range party_number_eq index_of_nat_def)

text \<open>The three kinds of loops over the parties.\<close>

lemma returned_loop_map:
  assumes "for_each step (enumerate 0 (map s (party_range params))) ([], [], [], []) = Inr out"
    and "\<And>i a b c m r. i \<in> set (party_range params) \<Longrightarrow> step (position i, s i) (a, b, c, m) = Inr r \<Longrightarrow>
      \<exists>f g h v. ok i f g h v \<and> r = (a @ [f], b @ [g], c @ [h], bt_insert i v m)"
  obtains F G H V where "\<forall>i \<in> set (party_range params). ok i (F i) (G i) (H i) (V i)"
    "out = (map F (party_range params), map G (party_range params), map H (party_range params), bt_tabulate V (party_range params))"
proof -
  let ?ok = "\<lambda>i (f, g, h, v). ok i f g h v"
    and ?upd = "\<lambda>i (f, g, h, v) (a, b, c, m). (a @ [f], b @ [g], c @ [h], bt_insert i v m)"
  have "for_each (\<lambda>i. step (position i, s i)) (party_range params) ([], [], [], []) = Inr out"
    using assms(1) by (simp only: enumerate_position for_each_map)
  then have "\<exists>Y. (\<forall>i \<in> set (party_range params). ?ok i (Y i)) \<and>
      out = fold (\<lambda>i. ?upd i (Y i)) (party_range params) ([], [], [], [])"
    by (rule for_each_choose_all [OF _ distinct_party_range]) (force dest: assms(2))
  then obtain Y where Y: "\<forall>i \<in> set (party_range params). ?ok i (Y i)"
    "out = fold (\<lambda>i. ?upd i (Y i)) (party_range params) ([], [], [], [])" by blast
  have "(\<lambda>i. ?upd i (Y i)) = (\<lambda>i (a, b, c, m). (a @ [fst (Y i)], b @ [fst (snd (Y i))], c @ [fst (snd (snd (Y i)))],
      bt_insert i (snd (snd (snd (Y i)))) m))"
    by (auto simp: fun_eq_iff split_beta)
  with Y show thesis
    by (intro that [of "\<lambda>i. fst (Y i)" "\<lambda>i. fst (snd (Y i))" "\<lambda>i. fst (snd (snd (Y i)))" "\<lambda>i. snd (snd (snd (Y i)))"])
      (auto simp: split_beta fold_snoc3_insert fold_tabulate [OF refl sorted_party_range])
qed

lemma returned_loop4:
  assumes "for_each step (enumerate 0 (map s (party_range params))) ([], [], [], []) = Inr out"
    and "\<And>i a b c d r. i \<in> set (party_range params) \<Longrightarrow> step (position i, s i) (a, b, c, d) = Inr r \<Longrightarrow>
      \<exists>f g h k. ok i f g h k \<and> r = (a @ [f], b @ [g], c @ [h], d @ [k])"
  obtains F G H K where "\<forall>i \<in> set (party_range params). ok i (F i) (G i) (H i) (K i)"
    "out = (map F (party_range params), map G (party_range params), map H (party_range params), map K (party_range params))"
proof -
  let ?ok = "\<lambda>i (f, g, h, k). ok i f g h k"
    and ?upd = "\<lambda>i (f, g, h, k) (a, b, c, d). (a @ [f], b @ [g], c @ [h], d @ [k])"
  have "for_each (\<lambda>i. step (position i, s i)) (party_range params) ([], [], [], []) = Inr out"
    using assms(1) by (simp only: enumerate_position for_each_map)
  then have "\<exists>Y. (\<forall>i \<in> set (party_range params). ?ok i (Y i)) \<and>
      out = fold (\<lambda>i. ?upd i (Y i)) (party_range params) ([], [], [], [])"
    by (rule for_each_choose_all [OF _ distinct_party_range]) (force dest: assms(2))
  then obtain Y where Y: "\<forall>i \<in> set (party_range params). ?ok i (Y i)"
    "out = fold (\<lambda>i. ?upd i (Y i)) (party_range params) ([], [], [], [])" by blast
  have "(\<lambda>i. ?upd i (Y i)) = (\<lambda>i (a, b, c, d). (a @ [fst (Y i)], b @ [fst (snd (Y i))], c @ [fst (snd (snd (Y i)))],
      d @ [snd (snd (snd (Y i)))]))"
    by (auto simp: fun_eq_iff split_beta)
  with Y show thesis
    by (intro that [of "\<lambda>i. fst (Y i)" "\<lambda>i. fst (snd (Y i))" "\<lambda>i. fst (snd (snd (Y i)))" "\<lambda>i. snd (snd (snd (Y i)))"])
      (auto simp: split_beta fold_snoc4)
qed

lemma returned_loop2:
  assumes "for_each step (enumerate 0 (map s (party_range params))) ([], []) = Inr out"
    and "\<And>i a b r. i \<in> set (party_range params) \<Longrightarrow> step (position i, s i) (a, b) = Inr r \<Longrightarrow>
      \<exists>f g. ok i f g \<and> r = (a @ [f], b @ [g])"
  obtains F G where "\<forall>i \<in> set (party_range params). ok i (F i) (G i)"
    "out = (map F (party_range params), map G (party_range params))"
proof -
  let ?ok = "\<lambda>i (f, g). ok i f g" and ?upd = "\<lambda>i (f, g) (a, b). (a @ [f], b @ [g])"
  have "for_each (\<lambda>i. step (position i, s i)) (party_range params) ([], []) = Inr out"
    using assms(1) by (simp only: enumerate_position for_each_map)
  then have "\<exists>Y. (\<forall>i \<in> set (party_range params). ?ok i (Y i)) \<and> out = fold (\<lambda>i. ?upd i (Y i)) (party_range params) ([], [])"
    by (rule for_each_choose_all [OF _ distinct_party_range]) (force dest: assms(2))
  then obtain Y where Y: "\<forall>i \<in> set (party_range params). ?ok i (Y i)"
    "out = fold (\<lambda>i. ?upd i (Y i)) (party_range params) ([], [])" by blast
  have "(\<lambda>i. ?upd i (Y i)) = (\<lambda>i (a, b). (a @ [fst (Y i)], b @ [snd (Y i)]))" by (auto simp: fun_eq_iff split_beta)
  with Y show thesis
    by (intro that [of "\<lambda>i. fst (Y i)" "\<lambda>i. snd (Y i)"]) (auto simp: split_beta fold_snoc2)
qed

lemma map_res_returned:
  assumes "map_res f xs = Inr ys"
  shows "ys = map (\<lambda>x. projr (f x)) xs" and "\<forall>x \<in> set xs. f x = Inr (projr (f x))"
  using assms by (induction xs arbitrary: ys) (auto simp: rbind_Inr_iff)

lemma TraceMeter_simps [simp]:
  "meter_record TraceMeter msgs sent = Inr (sent @ msgs)" "meter_end_round TraceMeter sent = sent"
  "record_batches TraceMeter con batches sent = Inr (sent @ map con (concat batches))"
proof -
  show "meter_record TraceMeter msgs sent = Inr (sent @ msgs)" "meter_end_round TraceMeter sent = sent"
    by (simp_all add: TraceMeter_def)
  show "record_batches TraceMeter con batches sent = Inr (sent @ map con (concat batches))"
    by (induction batches arbitrary: sent) (simp_all add: record_batches_def TraceMeter_def)
qed

interpretation none_trace: meter_simulation NoMeter TraceMeter "\<lambda>_ _. True"
  by unfold_locales simp_all

section \<open>Key generation\<close>

text \<open>The column of fragments that is put together for party \<open>i\<close>, its own included, and what the phases
  transmit from one party to another, round by round.  The proof commitments and the two broadcasts
  of phases 2 and 3 are returned too, and not counted.\<close>

definition dkg_fragments ::
  "('s::field, 'p) suite \<Rightarrow> (party_index \<Rightarrow> 's dkg_coins) \<Rightarrow> parameters \<Rightarrow> bytes \<Rightarrow> party_index \<Rightarrow> 's list" where
  "dkg_fragments S C params sid i =
     map (\<lambda>j. entry_for i (DkgSession_phase1 S (DkgSession_new params j sid) (C j))) (party_range params)"

definition dkg_traffic ::
  "('s::field, 'p::ab_group_add) suite \<Rightarrow> (party_index \<Rightarrow> 's dkg_coins) \<Rightarrow> parameters \<Rightarrow> bytes \<Rightarrow>
     ('s, 'p) wire_message list \<Rightarrow> bool" where
  "dkg_traffic S C params sid sent \<longleftrightarrow> (\<exists>PC ZT B2 S2 ZT3 MT B3 S3.
     (\<forall>i \<in> set (party_range params).
        DkgSession_phase2 S (C i) (dkg_fragments S C params sid i) (DkgSession_new params i sid) =
          (Inr (PC i, ZT i, B2 i), S2 i) \<and>
        DkgSession_phase3 S (C i) (S2 i) = (Inr (ZT3 i, MT i, B3 i), S3 i)) \<and>
     sent = map (\<lambda>i. PolyFragments (dkg_fragments S C params sid i)) (party_range params) @
       map ZeroPhase2to4 (concat (map ZT (party_range params))) @
       map ZeroPhase3to4 (concat (map ZT3 (party_range params))) @
       map MulPhase3to4 (concat (map MT (party_range params))))"

text \<open>The parties a run of key generation returns.\<close>

definition parties_of_key :: "parameters \<Rightarrow> ('s, 'p) party list \<Rightarrow> (party_index \<Rightarrow> ('s, 'p) party) \<Rightarrow> bool" where
  "parties_of_key params keys P \<longleftrightarrow> keys = map P (party_range params) \<and>
     (\<forall>i \<in> set (party_range params). party_index (P i) = i \<and> party_parameters (P i) = params)"

lemma dkg_phase4_party:
  assumes "dkg_phase4 S data share pcs zk r2 r3 mk mr b2 b3 address_fn = Inr (p, pkg)"
  shows "party_index p = sd_party_index data \<and> party_parameters p = sd_parameters data"
  using assms by (auto simp: dkg_phase4_def dkg_finish_def Let_def rbind_Inr_iff map_err_Inr_iff split: if_splits)

lemma session_data_kept:
  "DkgSession_phase2 S c frags s = (Inr out, s') \<Longrightarrow> ds_data s' = ds_data s"
  "DkgSession_phase3 S c s = (Inr out3, s') \<Longrightarrow> ds_data s' = ds_data s"
  using phase2_Inr [of S c frags s out s'] phase3_Inr [of S c s out3 s'] by auto

lemma unwrapped_Inr: "unwrapped r = Inr x \<longleftrightarrow> r = Inr x"
  by (cases r) simp_all

lemma run_dkg_phase4_party:
  assumes "run_dkg_phase4 S pcs r2 r3 mr b2 b3 (k, s) = Inr p"
  shows "party_index p = sd_party_index (ds_data s) \<and> party_parameters p = sd_parameters (ds_data s)"
proof -
  from assms obtain z2 z3 ms pkg where "DkgSession_phase4 S s pcs z2 z3 ms b2 b3 (\<lambda>_. []) = Inr (p, pkg)"
    by (auto simp: run_dkg_phase4_def rbind_Inr_iff unwrapped_Inr)
  from phase4_Inr [OF this] show ?thesis by (elim exE conjE) (rule dkg_phase4_party, simp)
qed

lemma run_dkg_phase2_returned:
  fixes S :: "('s::field, 'p::ab_group_add) suite"
  assumes "for_each (run_dkg_phase2 S C (map frags (party_range params)))
      (enumerate 0 (map N (party_range params))) ([], [], [], []) = Inr out"
    and "\<And>i. session_party (N i) = i"
  obtains S2 PC ZT B2 where "\<forall>i \<in> set (party_range params).
      DkgSession_phase2 S (C i) (frags i) (N i) = (Inr (PC i, ZT i, B2 i), S2 i)"
    "out = (map S2 (party_range params), map PC (party_range params), map ZT (party_range params),
      bt_tabulate B2 (party_range params))"
proof (rule returned_loop_map [OF assms(1), where ok = "\<lambda>i s pc zt b.
    DkgSession_phase2 S (C i) (frags i) (N i) = (Inr (pc, zt, b), s)"])
  fix i a b c m r
  assume "i \<in> set (party_range params)"
    "run_dkg_phase2 S C (map frags (party_range params)) (position i, N i) (a, b, c, m) = Inr r"
  then show "\<exists>s pc zt bip. DkgSession_phase2 S (C i) (frags i) (N i) = (Inr (pc, zt, bip), s) \<and>
      r = (a @ [s], b @ [pc], c @ [zt], bt_insert i bip m)"
    by (auto simp: run_dkg_phase2_def assms(2) number_position rbind_Inr_iff unwrapped_Inr split: prod.splits)
qed (rule that)

lemma run_dkg_phase3_returned:
  fixes S :: "('s::field, 'p::ab_group_add) suite"
  assumes "for_each (run_dkg_phase3 S C) (enumerate 0 (map S2 (party_range params))) ([], [], [], []) = Inr out"
    and "\<And>i. i \<in> set (party_range params) \<Longrightarrow> session_party (S2 i) = i"
  obtains S3 ZT3 MT B3 where
    "\<forall>i \<in> set (party_range params). DkgSession_phase3 S (C i) (S2 i) = (Inr (ZT3 i, MT i, B3 i), S3 i)"
    "out = (map S3 (party_range params), map ZT3 (party_range params), map MT (party_range params),
      bt_tabulate B3 (party_range params))"
proof (rule returned_loop_map [OF assms(1), where ok = "\<lambda>i s zt mt b.
    DkgSession_phase3 S (C i) (S2 i) = (Inr (zt, mt, b), s)"])
  fix i a b c m r
  assume "i \<in> set (party_range params)" "run_dkg_phase3 S C (position i, S2 i) (a, b, c, m) = Inr r"
  then show "\<exists>s zt mt bip. DkgSession_phase3 S (C i) (S2 i) = (Inr (zt, mt, bip), s) \<and>
      r = (a @ [s], b @ [zt], c @ [mt], bt_insert i bip m)"
    by (auto simp: run_dkg_phase3_def assms(2) number_position rbind_Inr_iff unwrapped_Inr split: prod.splits)
qed (rule that)

lemma run_dkg_phase4_returned:
  assumes "map_res (run_dkg_phase4 S pcs r2 r3 mr b2 b3) (enumerate 0 (map S3 (party_range params))) = Inr keys"
    and "\<And>i. i \<in> set (party_range params) \<Longrightarrow> ds_data (S3 i) = ds_data (DkgSession_new params i sid :: ('s, 'p) dkg_session)"
  shows "\<exists>P. parties_of_key params keys P"
proof -
  note ks = map_res_returned [OF assms(1) [unfolded enumerate_position]]
  let ?P = "\<lambda>i. projr (run_dkg_phase4 S pcs r2 r3 mr b2 b3 (position i, S3 i))"
  have "party_index (?P i) = i \<and> party_parameters (?P i) = params" if i: "i \<in> set (party_range params)" for i
  proof -
    from ks(2) i have "run_dkg_phase4 S pcs r2 r3 mr b2 b3 (position i, S3 i) = Inr (?P i)" by simp
    from run_dkg_phase4_party [OF this] assms(2) [OF i] show ?thesis by (simp add: DkgSession_new_def)
  qed
  with ks(1) show ?thesis by (intro exI [of _ ?P]) (simp add: parties_of_key_def comp_def)
qed

lemma run_dkg_sent:
  fixes S :: "('s::field, 'p::ab_group_add) suite"
  assumes "run_dkg S C params sid TraceMeter [] = Inr (keys, sent)"
  shows "dkg_traffic S C params sid sent \<and> (\<exists>P. parties_of_key params keys P)"
proof -
  let ?all = "party_range params" and ?N = "\<lambda>i. DkgSession_new params i sid :: ('s, 'p) dkg_session"
  let ?frags = "dkg_fragments S C params sid"
  have frags: "transpose_fragments (unat (share_count params))
      (map (\<lambda>s. DkgSession_phase1 S s (C (session_party s))) (map ?N ?all)) = Inr (map ?frags ?all)"
    using transpose_parties [of params "\<lambda>j. DkgSession_phase1 S (?N j) (C j)"]
    by (simp add: comp_def dkg_fragments_def [abs_def]) (simp add: DkgSession_new_def)
  obtain out2 out3 where
    run2: "for_each (run_dkg_phase2 S C (map ?frags ?all)) (enumerate 0 (map ?N ?all)) ([], [], [], []) = Inr out2"
    and run3: "for_each (run_dkg_phase3 S C) (enumerate 0 (fst out2)) ([], [], [], []) = Inr out3"
    and sent: "sent = map PolyFragments (map ?frags ?all) @ map ZeroPhase2to4 (concat (fst (snd (snd out2)))) @
      map ZeroPhase3to4 (concat (fst (snd out3))) @ map MulPhase3to4 (concat (fst (snd (snd out3))))"
    and keys: "\<exists>pcs r2 r3 mr b2 b3. map_res (run_dkg_phase4 S pcs r2 r3 mr b2 b3) (enumerate 0 (fst out3)) = Inr keys"
    using assms unfolding run_dkg_def new_sessions rbind.simps frags TraceMeter_simps case_prod_beta rbind_Inr_iff
    by - (elim exE conjE, rule that, assumption, assumption, force, simp, intro exI, simp)
  obtain S2 PC ZT B2 where p2: "\<forall>i \<in> set ?all.
      DkgSession_phase2 S (C i) (?frags i) (?N i) = (Inr (PC i, ZT i, B2 i), S2 i)"
    and out2: "out2 = (map S2 ?all, map PC ?all, map ZT ?all, bt_tabulate B2 ?all)"
    by (rule run_dkg_phase2_returned [OF run2]) simp
  have run3': "for_each (run_dkg_phase3 S C) (enumerate 0 (map S2 ?all)) ([], [], [], []) = Inr out3"
    using run3 out2 by simp
  have party2: "session_party (S2 i) = i" if "i \<in> set ?all" for i
    using session_party_kept [OF bspec [OF p2 that]] by simp
  obtain S3 ZT3 MT B3 where p3: "\<forall>i \<in> set ?all. DkgSession_phase3 S (C i) (S2 i) = (Inr (ZT3 i, MT i, B3 i), S3 i)"
    and out3: "out3 = (map S3 ?all, map ZT3 ?all, map MT ?all, bt_tabulate B3 ?all)"
    by (rule run_dkg_phase3_returned [OF run3' party2])
  have "dkg_traffic S C params sid sent"
    unfolding dkg_traffic_def using p2 p3 sent
    by (intro exI [of _ PC] exI [of _ ZT] exI [of _ B2] exI [of _ S2] exI [of _ ZT3] exI [of _ MT] exI [of _ B3]
        exI [of _ S3]) (simp add: out2 out3 comp_def)
  moreover have "ds_data (S3 i) = ds_data (?N i)" if "i \<in> set ?all" for i
    using session_data_kept(1) [OF bspec [OF p2 that]] session_data_kept(2) [OF bspec [OF p3 that]] by simp
  then have "\<exists>P. parties_of_key params keys P"
    using keys out3 by (auto intro: run_dkg_phase4_returned)
  ultimately show ?thesis by blast
qed

text \<open>How many messages these are: a column for each of the \<open>n\<close> parties, and three messages for each ordered pair.\<close>

lemma for_each_grows:
  assumes "for_each step ks st = Inr r"
    and "\<And>k st r. step k st = Inr r \<Longrightarrow> length (snd r) = Suc (length (snd st))"
  shows "length (snd r) = length (snd st) + length ks"
  using assms(1) by (induction ks arbitrary: st) (auto simp: rbind_Inr_iff dest: assms(2))

lemma mul_open_length:
  assumes "mul_open S params me sid coins = Inr (kept, transmit)"
  shows "length transmit = length (others (party_range params) me)"
proof -
  have "for_each (mul_open_step S me sid coins) (others (party_range params) me) ([], []) = Inr (kept, transmit)"
    using assms unfolding mul_open_def for_each_skip others_def .
  moreover have "length (snd r) = Suc (length (snd st))" if "mul_open_step S me sid coins k st = Inr r" for k st r
    using that unfolding mul_open_step_def by (auto simp: rbind_Inr_iff split: prod.splits)
  ultimately show ?thesis by (auto dest: for_each_grows)
qed

lemma dkg_phases_lengths:
  assumes "DkgSession_phase2 S c frags (DkgSession_new params i sid) = (Inr (pc, zt, b2), s2)"
    and "DkgSession_phase3 S c s2 = (Inr (zt3, mt, b3), s3)"
  shows "length zt = length (others (party_range params) i) \<and> length zt3 = length (others (party_range params) i) \<and>
    length mt = length (others (party_range params) i)"
proof -
  let ?ks = "others (party_range params) i"
  from phase2_Inr [OF assms(1)] obtain share zk bk where
    p2: "dkg_phase2 S (dkg_data params sid i) c frags = Inr (share, pc, zk, zt, bk, b2)"
    and s2: "ds_zero_kept_2to3 s2 = Some zk" "ds_bip_kept_2to3 s2 = Some bk" "ds_data s2 = dkg_data params sid i"
    by (auto simp: DkgSession_new_def dkg_data_def)
  from p2 have zero: "zk = bt_tabulate (zero_keep2 (dc_init c)) ?ks" "zt = map (zero_message2 S (dc_init c) i) ?ks"
    unfolding dkg_phase2_def case_prod_beta by (auto simp: rbind_Inr_iff zero_commit_honest dkg_data_def)
  from phase3_Inr [OF assms(2)] s2 obtain zk3 mk where
    p3: "dkg_phase3 S (dkg_data params sid i) c zk bk = Inr (zk3, zt3, mk, mt, b3)" by auto
  then have "length zt3 = length ?ks" "length mt = length ?ks"
    by (auto simp: dkg_phase3_def rbind_Inr_iff zero zero_open_honest sorted_others sorted_party_range dkg_data_def
        dest!: mul_open_length)
  with zero show ?thesis by simp
qed

lemma length_concat_map: "(\<And>x. x \<in> set xs \<Longrightarrow> length (f x) = k) \<Longrightarrow> length (concat (map f xs)) = length xs * k"
  by (induction xs) simp_all

lemma dkg_traffic_length:
  assumes "dkg_traffic S C params sid sent"
  shows "length sent = unat (share_count params) + 3 * (unat (share_count params) * (unat (share_count params) - 1))"
proof -
  let ?all = "party_range params"
  from assms obtain PC ZT B2 S2 ZT3 MT B3 S3 where phases: "\<forall>i \<in> set ?all.
        DkgSession_phase2 S (C i) (dkg_fragments S C params sid i) (DkgSession_new params i sid) =
          (Inr (PC i, ZT i, B2 i), S2 i) \<and> DkgSession_phase3 S (C i) (S2 i) = (Inr (ZT3 i, MT i, B3 i), S3 i)"
    and sent: "sent = map (\<lambda>i. PolyFragments (dkg_fragments S C params sid i)) ?all @
       map ZeroPhase2to4 (concat (map ZT ?all)) @ map ZeroPhase3to4 (concat (map ZT3 ?all)) @
       map MulPhase3to4 (concat (map MT ?all))"
    unfolding dkg_traffic_def by blast
  have "length (ZT i) = unat (share_count params) - 1 \<and> length (ZT3 i) = unat (share_count params) - 1 \<and>
      length (MT i) = unat (share_count params) - 1" if "i \<in> set ?all" for i
    using dkg_phases_lengths [OF conjunct1 [OF bspec [OF phases that]] conjunct2 [OF bspec [OF phases that]]]
      length_others [OF distinct_party_range that] by simp
  then show ?thesis by (simp add: sent length_concat_map [where k = "unat (share_count params) - 1"])
qed

section \<open>Refreshes\<close>

text \<open>The parties \<open>P\<close> refresh; the fragments and the transmissions of the two refreshes.\<close>

definition refresh_complete_fragments ::
  "('s::field, 'p) suite \<Rightarrow> (party_index \<Rightarrow> 's refresh_coins) \<Rightarrow> parameters \<Rightarrow> (party_index \<Rightarrow> ('s, 'p) party) \<Rightarrow>
     party_index \<Rightarrow> 's list" where
  "refresh_complete_fragments S C params P i =
     map (\<lambda>j. entry_for i (refresh_complete_phase1 S (P j) (rc_polynomial (C j)))) (party_range params)"

definition refresh_complete_traffic ::
  "('s::field, 'p::ab_group_add) suite \<Rightarrow> (party_index \<Rightarrow> 's refresh_coins) \<Rightarrow> parameters \<Rightarrow>
     (party_index \<Rightarrow> ('s, 'p) party) \<Rightarrow> bytes \<Rightarrow> ('s, 'p) wire_message list \<Rightarrow> bool" where
  "refresh_complete_traffic S C params P rsid sent \<longleftrightarrow> (\<exists>cv PC ZK ZT ZK3 ZT3 MK MT.
     (\<forall>i \<in> set (party_range params).
        refresh_complete_phase2 S (P i) (rc_proof (C i)) (rc_init (C i)) rsid
          (refresh_complete_fragments S C params P i) = Inr (cv i, PC i, ZK i, ZT i) \<and>
        refresh_complete_phase3 S (P i) (rc_init (C i)) rsid (ZK i) = Inr (ZK3 i, ZT3 i, MK i, MT i)) \<and>
     sent = map (\<lambda>i. PolyFragments (refresh_complete_fragments S C params P i)) (party_range params) @
       map ZeroPhase2to4 (concat (map ZT (party_range params))) @
       map ZeroPhase3to4 (concat (map ZT3 (party_range params))) @
       map MulPhase3to4 (concat (map MT (party_range params))))"

definition refresh_fast_fragments ::
  "('s::field, 'p) suite \<Rightarrow> (party_index \<Rightarrow> 's refresh_coins) \<Rightarrow> parameters \<Rightarrow> (party_index \<Rightarrow> ('s, 'p) party) \<Rightarrow>
     party_index \<Rightarrow> 's list" where
  "refresh_fast_fragments S C params P i =
     map (\<lambda>j. entry_for i (refresh_phase1 S (P j) (rc_polynomial (C j)))) (party_range params)"

definition refresh_fast_traffic ::
  "('s::field, 'p::ab_group_add) suite \<Rightarrow> (party_index \<Rightarrow> 's refresh_coins) \<Rightarrow> parameters \<Rightarrow>
     (party_index \<Rightarrow> ('s, 'p) party) \<Rightarrow> bytes \<Rightarrow> ('s, 'p) wire_message list \<Rightarrow> bool" where
  "refresh_fast_traffic S C params P rsid sent \<longleftrightarrow> (\<exists>cv PC K2 T2 K3 T3.
     (\<forall>i \<in> set (party_range params).
        refresh_phase2 S (P i) (rc_proof (C i)) (rc_init (C i)) rsid (refresh_fast_fragments S C params P i) =
          Inr (cv i, PC i, K2 i, T2 i) \<and>
        refresh_phase3 (P i) (K2 i) = Inr (K3 i, T3 i)) \<and>
     sent = map (\<lambda>i. PolyFragments (refresh_fast_fragments S C params P i)) (party_range params) @
       map ZeroPhase2to4 (concat (map T2 (party_range params))) @
       map ZeroPhase3to4 (concat (map T3 (party_range params))))"

lemma refresh_columns:
  assumes "\<forall>i \<in> set (party_range params). party_index (P i) = i"
    and "\<And>j c. j \<in> set (party_range params) \<Longrightarrow> length (phase1 (P j) c) = unat (share_count params)"
  shows "transpose_fragments (length (map P (party_range params)))
      (map (\<lambda>p. phase1 p (rc_polynomial (C (party_index p)))) (map P (party_range params))) =
    Inr (map (\<lambda>i. map (\<lambda>j. entry_for i (phase1 (P j) (rc_polynomial (C j)))) (party_range params)) (party_range params))"
proof -
  have rows: "map (\<lambda>p. phase1 p (rc_polynomial (C (party_index p)))) (map P (party_range params)) =
      map (\<lambda>j. phase1 (P j) (rc_polynomial (C j))) (party_range params)"
    using assms(1) by simp
  show ?thesis
    unfolding rows using transpose_parties [of params "\<lambda>j. phase1 (P j) (rc_polynomial (C j))"] assms(2) by simp
qed

lemma run_refresh_complete_sent:
  fixes S :: "('s::field, 'p::ab_group_add) suite"
  assumes "run_refresh_complete S C keys rsid TraceMeter [] = Inr (out, sent)" and "parties_of_key params keys P"
  shows "refresh_complete_traffic S C params P rsid sent"
proof -
  let ?all = "party_range params" and ?frags = "refresh_complete_fragments S C params P"
  have keys: "keys = map P ?all" and mine: "\<forall>i \<in> set ?all. party_index (P i) = i"
    and len: "\<And>j c. j \<in> set ?all \<Longrightarrow> length (refresh_complete_phase1 S (P j) c) = unat (share_count params)"
    using assms(2) by (simp_all add: parties_of_key_def)
  have frags: "transpose_fragments (length keys)
      (map (\<lambda>p. refresh_complete_phase1 S p (rc_polynomial (C (party_index p)))) keys) = Inr (map ?frags ?all)"
    unfolding keys refresh_complete_fragments_def [abs_def] by (rule refresh_columns [where ?phase1.0 = "refresh_complete_phase1 S", OF mine len])
  obtain out2 out3 where
    run2: "for_each (run_complete_phase2 S C rsid (map ?frags ?all)) (enumerate 0 (map P ?all)) ([], [], [], []) = Inr out2"
    and run3: "for_each (run_complete_phase3 S C rsid (fst (snd (snd out2)))) (enumerate 0 (map P ?all)) ([], [], [], []) =
      Inr out3"
    and sent: "sent = map PolyFragments (map ?frags ?all) @ map ZeroPhase2to4 (concat (snd (snd (snd out2)))) @
      map ZeroPhase3to4 (concat (fst (snd out3))) @ map MulPhase3to4 (concat (snd (snd (snd out3))))"
    using assms(1) unfolding run_refresh_complete_def frags rbind.simps TraceMeter_simps case_prod_beta rbind_Inr_iff
    unfolding keys by - (elim exE conjE, rule that, assumption, assumption, force)
  obtain cv PC ZK ZT where p2: "\<forall>i \<in> set ?all.
      refresh_complete_phase2 S (P i) (rc_proof (C i)) (rc_init (C i)) rsid (?frags i) = Inr (cv i, PC i, ZK i, ZT i)"
    and out2: "out2 = (map cv ?all, map PC ?all, map ZK ?all, map ZT ?all)"
  proof (rule returned_loop4 [OF run2, where ok = "\<lambda>i v pc zk zt.
      refresh_complete_phase2 S (P i) (rc_proof (C i)) (rc_init (C i)) rsid (?frags i) = Inr (v, pc, zk, zt)"])
    fix i a b c d r
    assume i: "i \<in> set ?all"
      and "run_complete_phase2 S C rsid (map ?frags ?all) (position i, P i) (a, b, c, d) = Inr r"
    moreover have "party_index (P i) = i" using mine i by simp
    ultimately show "\<exists>v pc zk zt. refresh_complete_phase2 S (P i) (rc_proof (C i)) (rc_init (C i)) rsid (?frags i) =
        Inr (v, pc, zk, zt) \<and> r = (a @ [v], b @ [pc], c @ [zk], d @ [zt])"
      by (auto simp: run_complete_phase2_def rbind_Inr_iff unwrapped_Inr)
  qed (rule that)
  have run3': "for_each (run_complete_phase3 S C rsid (map ZK ?all)) (enumerate 0 (map P ?all)) ([], [], [], []) = Inr out3"
    using run3 out2 by simp
  obtain ZK3 ZT3 MK MT where p3: "\<forall>i \<in> set ?all.
      refresh_complete_phase3 S (P i) (rc_init (C i)) rsid (ZK i) = Inr (ZK3 i, ZT3 i, MK i, MT i)"
    and out3: "out3 = (map ZK3 ?all, map ZT3 ?all, map MK ?all, map MT ?all)"
  proof (rule returned_loop4 [OF run3', where ok = "\<lambda>i zk zt mk mt.
      refresh_complete_phase3 S (P i) (rc_init (C i)) rsid (ZK i) = Inr (zk, zt, mk, mt)"])
    fix i a b c d r
    assume i: "i \<in> set ?all"
      and "run_complete_phase3 S C rsid (map ZK ?all) (position i, P i) (a, b, c, d) = Inr r"
    moreover have "party_index (P i) = i" using mine i by simp
    ultimately show "\<exists>zk zt mk mt. refresh_complete_phase3 S (P i) (rc_init (C i)) rsid (ZK i) = Inr (zk, zt, mk, mt) \<and>
        r = (a @ [zk], b @ [zt], c @ [mk], d @ [mt])"
      by (auto simp: run_complete_phase3_def rbind_Inr_iff unwrapped_Inr)
  qed (rule that)
  show ?thesis
    unfolding refresh_complete_traffic_def using p2 p3 sent
    by (intro exI [of _ cv] exI [of _ PC] exI [of _ ZK] exI [of _ ZT] exI [of _ ZK3] exI [of _ ZT3] exI [of _ MK]
        exI [of _ MT]) (simp add: out2 out3 comp_def)
qed

lemma run_refresh_fast_sent:
  fixes S :: "('s::field, 'p::ab_group_add) suite"
  assumes "run_refresh_fast S C keys rsid TraceMeter [] = Inr (out, sent)" and "parties_of_key params keys P"
  shows "refresh_fast_traffic S C params P rsid sent"
proof -
  let ?all = "party_range params" and ?frags = "refresh_fast_fragments S C params P"
  have keys: "keys = map P ?all" and mine: "\<forall>i \<in> set ?all. party_index (P i) = i"
    and len: "\<And>j c. j \<in> set ?all \<Longrightarrow> length (refresh_phase1 S (P j) c) = unat (share_count params)"
    using assms(2) by (simp_all add: parties_of_key_def)
  have frags: "transpose_fragments (length keys)
      (map (\<lambda>p. refresh_phase1 S p (rc_polynomial (C (party_index p)))) keys) = Inr (map ?frags ?all)"
    unfolding keys refresh_fast_fragments_def [abs_def] by (rule refresh_columns [where ?phase1.0 = "refresh_phase1 S", OF mine len])
  obtain out2 out3 where
    run2: "for_each (run_fast_phase2 S C rsid (map ?frags ?all)) (enumerate 0 (map P ?all)) ([], [], [], []) = Inr out2"
    and run3: "for_each (run_fast_phase3 (fst (snd (snd out2)))) (enumerate 0 (map P ?all)) ([], []) = Inr out3"
    and sent: "sent = map PolyFragments (map ?frags ?all) @ map ZeroPhase2to4 (concat (snd (snd (snd out2)))) @
      map ZeroPhase3to4 (concat (snd out3))"
    using assms(1) unfolding run_refresh_fast_def frags rbind.simps TraceMeter_simps case_prod_beta rbind_Inr_iff
    unfolding keys by - (elim exE conjE, rule that, assumption, assumption, force)
  obtain cv PC K2 T2 where p2: "\<forall>i \<in> set ?all.
      refresh_phase2 S (P i) (rc_proof (C i)) (rc_init (C i)) rsid (?frags i) = Inr (cv i, PC i, K2 i, T2 i)"
    and out2: "out2 = (map cv ?all, map PC ?all, map K2 ?all, map T2 ?all)"
  proof (rule returned_loop4 [OF run2, where ok = "\<lambda>i v pc k t.
      refresh_phase2 S (P i) (rc_proof (C i)) (rc_init (C i)) rsid (?frags i) = Inr (v, pc, k, t)"])
    fix i a b c d r
    assume i: "i \<in> set ?all" and "run_fast_phase2 S C rsid (map ?frags ?all) (position i, P i) (a, b, c, d) = Inr r"
    moreover have "party_index (P i) = i" using mine i by simp
    ultimately show "\<exists>v pc k t. refresh_phase2 S (P i) (rc_proof (C i)) (rc_init (C i)) rsid (?frags i) =
        Inr (v, pc, k, t) \<and> r = (a @ [v], b @ [pc], c @ [k], d @ [t])"
      by (auto simp: run_fast_phase2_def rbind_Inr_iff unwrapped_Inr)
  qed (rule that)
  have run3': "for_each (run_fast_phase3 (map K2 ?all)) (enumerate 0 (map P ?all)) ([], []) = Inr out3"
    using run3 out2 by simp
  obtain K3 T3 where p3: "\<forall>i \<in> set ?all. refresh_phase3 (P i) (K2 i) = Inr (K3 i, T3 i)"
    and out3: "out3 = (map K3 ?all, map T3 ?all)"
  proof (rule returned_loop2 [OF run3', where ok = "\<lambda>i k t. refresh_phase3 (P i) (K2 i) = Inr (k, t)"])
    fix i a b r
    assume i: "i \<in> set ?all" and "run_fast_phase3 (map K2 ?all) (position i, P i) (a, b) = Inr r"
    then show "\<exists>k t. refresh_phase3 (P i) (K2 i) = Inr (k, t) \<and> r = (a @ [k], b @ [t])"
      by (auto simp: run_fast_phase3_def rbind_Inr_iff unwrapped_Inr)
  qed (rule that)
  show ?thesis
    unfolding refresh_fast_traffic_def using p2 p3 sent
    by (intro exI [of _ cv] exI [of _ PC] exI [of _ K2] exI [of _ T2] exI [of _ K3] exI [of _ T3])
      (simp add: out2 out3 comp_def)
qed

section \<open>Signing\<close>

text \<open>The signers are the first \<open>thr\<close> parties; what they return for transmission in each round, the
  broadcasts of phase 3 included, which are the only messages of the third round.\<close>

definition sign_traffic ::
  "('s::field, 'p::ab_group_add) suite \<Rightarrow> (u8 \<Rightarrow> 's sign_coins) \<Rightarrow> (party_index \<Rightarrow> ('s, 'p) party) \<Rightarrow> u8 \<Rightarrow> bytes \<Rightarrow>
     bytes \<Rightarrow> ('s, 'p) wire_message list \<Rightarrow> bool" where
  "sign_traffic S D P thr sign hash sent \<longleftrightarrow> (\<exists>S1 T1 S2 T2 S3 B.
     (\<forall>i \<in> set (first_parties thr).
        SignSession_new S (P i) (signing_data sign hash (first_parties thr) i) (D (as_u8 i)) = Inr (S1 i, T1 i) \<and>
        SignSession_phase2 S (D (as_u8 i)) (inbox t1_parties T1 (first_parties thr) i) (S1 i) = (Inr (T2 i), S2 i) \<and>
        SignSession_phase3 S (inbox t2_parties T2 (first_parties thr) i) (S2 i) = (Some (Inr (B i)), S3 i)) \<and>
     sent = map SignPhase1to2 (concat (map T1 (first_parties thr))) @
       map SignPhase2to3 (concat (map T2 (first_parties thr))) @
       map SignBroadcast3to4 (map B (first_parties thr)))"

lemma fold_insert2:
  "fold (\<lambda>k (a, b). (bt_insert k (f k) a, bt_insert k (g k) b)) ks (a, b) =
     (fold (\<lambda>k. bt_insert k (f k)) ks a, fold (\<lambda>k. bt_insert k (g k)) ks b)"
  by (induction ks arbitrary: a b) auto

lemma fold_insert_snoc:
  "fold (\<lambda>k (a, b). (bt_insert k (f k) a, b @ [g k])) ks (a, b) = (fold (\<lambda>k. bt_insert k (f k)) ks a, b @ map g ks)"
  by (induction ks arbitrary: a b) auto

lemma get_fold_insert:
  assumes "bt_ok m"
  shows "bt_ok (fold (\<lambda>k. bt_insert k (f k)) ks m) \<and>
    bt_get (fold (\<lambda>k. bt_insert k (f k)) ks m) j = (if j \<in> set ks then Some (f j) else bt_get m j)"
  using assms by (induction ks arbitrary: m) (auto simp: bt.get_insert bt.invar_insert)

text \<open>A loop whose step takes the entry of its key and puts another in its place.\<close>

lemma visit_choose:
  assumes "for_each step ks (m, acc) = Inr t" and "distinct ks" and "bt_ok m"
    and "\<And>k. k \<in> set ks \<Longrightarrow> bt_get m k = Some (f k)"
    and "\<And>k m a r. k \<in> set ks \<Longrightarrow> bt_get m k = Some (f k) \<Longrightarrow> step k (m, a) = Inr r \<Longrightarrow>
      \<exists>s y. ok k s y \<and> r = (bt_insert k s m, push k y a)"
  shows "\<exists>F Y. (\<forall>k \<in> set ks. ok k (F k) (Y k)) \<and> t = fold (\<lambda>k (m, a). (bt_insert k (F k) m, push k (Y k) a)) ks (m, acc)"
proof -
  let ?I = "\<lambda>qs (m, a). set qs \<subseteq> set ks \<and> distinct qs \<and> bt_ok m \<and> (\<forall>k \<in> set qs. bt_get m k = Some (f k))"
  have "\<exists>Z. (\<forall>k \<in> set ks. case Z k of (s, y) \<Rightarrow> ok k s y) \<and>
      t = fold (\<lambda>k. case Z k of (s, y) \<Rightarrow> (\<lambda>(m, a). (bt_insert k s m, push k y a))) ks (m, acc)"
  proof (rule for_each_choose [where I = ?I and ok = "\<lambda>k (s, y). ok k s y" and
        upd = "\<lambda>k (s, y) (m, a). (bt_insert k s m, push k y a)", OF assms(1,2)])
    show "?I ks (m, acc)" using assms(2-4) by simp
  next
    fix k qs st r
    assume I: "?I (k # qs) st" and r: "step k st = Inr r"
    obtain m' a where st: "st = (m', a)" by fastforce
    from assms(5) [of k m' a r] I r obtain s y where "ok k s y" "r = (bt_insert k s m', push k y a)"
      by (auto simp: st)
    with I show "\<exists>z. (case z of (s, y) \<Rightarrow> ok k s y) \<and> r = (case z of (s, y) \<Rightarrow> \<lambda>(m, a). (bt_insert k s m, push k y a)) st \<and> ?I qs r"
      by (intro exI [of _ "(s, y)"]) (auto simp: st bt.get_insert bt.invar_insert)
  qed
  then obtain Z where Z: "\<forall>k \<in> set ks. case Z k of (s, y) \<Rightarrow> ok k s y"
    "t = fold (\<lambda>k. case Z k of (s, y) \<Rightarrow> (\<lambda>(m, a). (bt_insert k s m, push k y a))) ks (m, acc)" by blast
  have "(\<lambda>k. case Z k of (s, y) \<Rightarrow> (\<lambda>(m, a). (bt_insert k s m, push k y a))) =
      (\<lambda>k (m, a). (bt_insert k (fst (Z k)) m, push k (snd (Z k)) a))"
    by (auto simp: fun_eq_iff split_beta)
  with Z show ?thesis
    by (intro exI [of _ "\<lambda>k. fst (Z k)"] exI [of _ "\<lambda>k. snd (Z k)"]) (simp add: split_beta)
qed

lemma signer_element:
  assumes "element (map P (party_range params)) (unat (w - 1)) = Inr p" and "w \<noteq> 0"
  shows "p = P (PartyIndex w)"
proof -
  have w: "unat (w - 1) = unat w - 1" "0 < unat w" using assms(2) by (simp_all add: unat_minus_one unat_gt_0)
  with assms(1) show ?thesis by (auto simp: element_def index_of_nat_def split: if_splits)
qed

lemma distinct_u8_upto: "distinct (u8_upto thr)"
  using sorted_u8_upto by (simp add: strict_sorted_iff)

text \<open>The three loops of the signers, whose maps are keyed by their numbers.\<close>

lemma run_sign_phase1_returned:
  fixes S :: "('s::field, 'p::ab_group_add) suite"
  assumes "for_each (run_sign_phase1 S D (map P (party_range params)) (bt_tabulate data (u8_upto thr))) (u8_upto thr) ([], []) =
      Inr out"
  obtains S1 T1 where
    "\<forall>w \<in> set (u8_upto thr). SignSession_new S (P (PartyIndex w)) (data w) (D w) = Inr (S1 (PartyIndex w), T1 (PartyIndex w))"
    "out = (bt_tabulate (\<lambda>w. S1 (PartyIndex w)) (u8_upto thr), bt_tabulate (\<lambda>w. T1 (PartyIndex w)) (u8_upto thr))"
proof -
  let ?E = "u8_upto thr" and ?ok = "\<lambda>w (s, t). SignSession_new S (P (PartyIndex w)) (data w) (D w) = Inr (s, t)"
    and ?upd = "\<lambda>w (s, t) (a, b). (bt_insert w s a, bt_insert w t b)"
  have "\<exists>Y. (\<forall>w \<in> set ?E. ?ok w (Y w)) \<and> out = fold (\<lambda>w. ?upd w (Y w)) ?E ([], [])"
  proof (rule for_each_choose_all [OF assms distinct_u8_upto])
    fix w st r
    assume w: "w \<in> set ?E" and r: "run_sign_phase1 S D (map P (party_range params)) (bt_tabulate data ?E) w st = Inr r"
    obtain a b where st: "st = (a, b)" by fastforce
    from w have "w \<noteq> 0" by (simp add: set_u8_upto)
    with w r obtain s t where "SignSession_new S (P (PartyIndex w)) (data w) (D w) = Inr (s, t)"
      "r = (bt_insert w s a, bt_insert w t b)"
      by (auto simp: st run_sign_phase1_def rbind_Inr_iff unwrapped_Inr unwrap_simps bt_get_tabulate
          dest: signer_element)
    then show "\<exists>y. ?ok w y \<and> r = ?upd w y st" by (intro exI [of _ "(s, t)"]) (simp add: st)
  qed
  then obtain Y where Y: "\<forall>w \<in> set ?E. ?ok w (Y w)" "out = fold (\<lambda>w. ?upd w (Y w)) ?E ([], [])" by blast
  have "(\<lambda>w. ?upd w (Y w)) = (\<lambda>w (a, b). (bt_insert w (fst (Y w)) a, bt_insert w (snd (Y w)) b))"
    by (auto simp: fun_eq_iff split_beta)
  with Y show thesis
    by (intro that [of "\<lambda>i. fst (Y (as_u8 i))" "\<lambda>i. snd (Y (as_u8 i))"])
      (auto simp: split_beta fold_insert2 fold_tabulate [OF refl sorted_u8_upto])
qed

lemma run_sign_phase2_returned:
  fixes S :: "('s::field, 'p::ab_group_add) suite"
  assumes "for_each (run_sign_phase2 S D (bt_tabulate inb (u8_upto thr))) (u8_upto thr)
      (bt_tabulate (\<lambda>w. S1 (PartyIndex w)) (u8_upto thr), []) = Inr out"
  obtains S2 T2 where
    "\<forall>w \<in> set (u8_upto thr). SignSession_phase2 S (D w) (inb w) (S1 (PartyIndex w)) = (Inr (T2 (PartyIndex w)), S2 (PartyIndex w))"
    "snd out = bt_tabulate (\<lambda>w. T2 (PartyIndex w)) (u8_upto thr)" "bt_ok (fst out)"
    "\<And>w. w \<in> set (u8_upto thr) \<Longrightarrow> bt_get (fst out) w = Some (S2 (PartyIndex w))"
proof -
  let ?E = "u8_upto thr" and ?m = "bt_tabulate (\<lambda>w. S1 (PartyIndex w)) (u8_upto thr)"
  have "\<exists>F Y. (\<forall>w \<in> set ?E. SignSession_phase2 S (D w) (inb w) (S1 (PartyIndex w)) = (Inr (Y w), F w)) \<and>
      out = fold (\<lambda>w (m, a). (bt_insert w (F w) m, bt_insert w (Y w) a)) ?E (?m, [])"
  proof (rule visit_choose [OF assms distinct_u8_upto, where f = "\<lambda>w. S1 (PartyIndex w)" and push = bt_insert and
        ok = "\<lambda>w s t. SignSession_phase2 S (D w) (inb w) (S1 (PartyIndex w)) = (Inr t, s)"])
    fix w m a r
    assume "w \<in> set ?E" "bt_get m w = Some (S1 (PartyIndex w))" "run_sign_phase2 S D (bt_tabulate inb ?E) w (m, a) = Inr r"
    then show "\<exists>s y. SignSession_phase2 S (D w) (inb w) (S1 (PartyIndex w)) = (Inr y, s) \<and>
        r = (bt_insert w s m, bt_insert w y a)"
      by (auto simp: run_sign_phase2_def rbind_Inr_iff unwrapped_Inr unwrap_simps bt_get_tabulate split: prod.splits)
  qed (simp_all add: bt_tabulate_ok sorted_u8_upto bt_get_tabulate)
  then obtain F Y where Y: "\<forall>w \<in> set ?E. SignSession_phase2 S (D w) (inb w) (S1 (PartyIndex w)) = (Inr (Y w), F w)"
    "out = fold (\<lambda>w (m, a). (bt_insert w (F w) m, bt_insert w (Y w) a)) ?E (?m, [])" by blast
  with get_fold_insert [of ?m F ?E] show thesis
    by (intro that [of "\<lambda>i. Y (as_u8 i)" "\<lambda>i. F (as_u8 i)"])
      (simp_all add: fold_insert2 fold_tabulate [OF refl sorted_u8_upto] bt_tabulate_ok sorted_u8_upto)
qed

lemma run_sign_phase3_returned:
  fixes S :: "('s::field, 'p::ab_group_add) suite"
  assumes "for_each (run_sign_phase3 S (bt_tabulate inb (u8_upto thr))) (u8_upto thr) (m, []) = Inr out"
    and "bt_ok m" and "\<And>w. w \<in> set (u8_upto thr) \<Longrightarrow> bt_get m w = Some (S2 (PartyIndex w))"
  obtains S3 B where
    "\<forall>w \<in> set (u8_upto thr). SignSession_phase3 S (inb w) (S2 (PartyIndex w)) = (Some (Inr (B (PartyIndex w))), S3 (PartyIndex w))"
    "snd out = map (\<lambda>w. B (PartyIndex w)) (u8_upto thr)"
proof -
  let ?E = "u8_upto thr"
  have "\<exists>F Y. (\<forall>w \<in> set ?E. SignSession_phase3 S (inb w) (S2 (PartyIndex w)) = (Some (Inr (Y w)), F w)) \<and>
      out = fold (\<lambda>w (m, a). (bt_insert w (F w) m, a @ [Y w])) ?E (m, [])"
  proof (rule visit_choose [OF assms(1) distinct_u8_upto assms(2), where f = "\<lambda>w. S2 (PartyIndex w)" and
        push = "\<lambda>w y a. a @ [y]" and ok = "\<lambda>w s b. SignSession_phase3 S (inb w) (S2 (PartyIndex w)) = (Some (Inr b), s)"])
    fix w m a r
    assume "w \<in> set ?E" "bt_get m w = Some (S2 (PartyIndex w))" "run_sign_phase3 S (bt_tabulate inb ?E) w (m, a) = Inr r"
    then show "\<exists>s y. SignSession_phase3 S (inb w) (S2 (PartyIndex w)) = (Some (Inr y), s) \<and> r = (bt_insert w s m, a @ [y])"
      by (auto simp: run_sign_phase3_def rbind_Inr_iff unwrapped_Inr unwrap_simps bt_get_tabulate split: prod.splits)
  qed (simp add: assms(3))
  then obtain F Y where "\<forall>w \<in> set ?E. SignSession_phase3 S (inb w) (S2 (PartyIndex w)) = (Some (Inr (Y w)), F w)"
    "out = fold (\<lambda>w (m, a). (bt_insert w (F w) m, a @ [Y w])) ?E (m, [])" by blast
  then show thesis
    by (intro that [of "\<lambda>i. Y (as_u8 i)" "\<lambda>i. F (as_u8 i)"]) (simp_all add: fold_insert_snoc)
qed

lemma run_sign_sent:
  fixes S :: "('s::field, 'p::ab_group_add) suite"
  assumes "run_sign S D hex_error keys thr sign hash TraceMeter [] = Inr (sig, sent)" and "parties_of_key params keys P"
  shows "sign_traffic S D P thr sign hash sent"
proof -
  let ?E = "u8_upto thr" and ?signers = "first_parties thr"
  let ?data = "\<lambda>w. signing_data sign hash ?signers (PartyIndex w)"
  have keys: "keys = map P (party_range params)" using assms(2) by (simp add: parties_of_key_def)
  obtain out1 out2 out3 received1 received2 where
    run1: "for_each (run_sign_phase1 S D (map P (party_range params)) (bt_tabulate ?data ?E)) ?E ([], []) = Inr out1"
    and route1: "for_each (run_sign_route t1_parties (snd out1)) ?E [] = Inr received1"
    and run2: "for_each (run_sign_phase2 S D received1) ?E (fst out1, []) = Inr out2"
    and route2: "for_each (run_sign_route t2_parties (snd out2)) ?E [] = Inr received2"
    and run3: "for_each (run_sign_phase3 S received2) ?E (fst out2, []) = Inr out3"
    and sent: "sent = map SignPhase1to2 (concat (bt_values (snd out1))) @
      map SignPhase2to3 (concat (bt_values (snd out2))) @ map SignBroadcast3to4 (snd out3)"
    using assms(1) unfolding run_sign_def Let_def sign_data_loop rbind.simps TraceMeter_simps case_prod_beta rbind_Inr_iff keys
    by - (elim exE conjE, rule that, assumption, assumption, assumption, assumption, assumption, force)
  obtain S1 T1 where p1: "\<forall>w \<in> set ?E. SignSession_new S (P (PartyIndex w)) (?data w) (D w) = Inr (S1 (PartyIndex w), T1 (PartyIndex w))"
    and out1: "out1 = (bt_tabulate (\<lambda>w. S1 (PartyIndex w)) ?E, bt_tabulate (\<lambda>w. T1 (PartyIndex w)) ?E)"
    by (rule run_sign_phase1_returned [OF run1])
  have run2': "for_each (run_sign_phase2 S D (bt_tabulate (\<lambda>w. inbox t1_parties T1 ?signers (PartyIndex w)) ?E)) ?E
      (bt_tabulate (\<lambda>w. S1 (PartyIndex w)) ?E, []) = Inr out2"
    using run2 route1 sign_route_loop [of t1_parties T1 thr] by (simp add: out1)
  obtain S2 T2 where p2: "\<forall>w \<in> set ?E. SignSession_phase2 S (D w) (inbox t1_parties T1 ?signers (PartyIndex w))
      (S1 (PartyIndex w)) = (Inr (T2 (PartyIndex w)), S2 (PartyIndex w))"
    and out2: "snd out2 = bt_tabulate (\<lambda>w. T2 (PartyIndex w)) ?E" "bt_ok (fst out2)"
      "\<And>w. w \<in> set ?E \<Longrightarrow> bt_get (fst out2) w = Some (S2 (PartyIndex w))"
    by (rule run_sign_phase2_returned [where ?S1.0 = S1, OF run2']) (rule that)
  have run3': "for_each (run_sign_phase3 S (bt_tabulate (\<lambda>w. inbox t2_parties T2 ?signers (PartyIndex w)) ?E)) ?E
      (fst out2, []) = Inr out3"
    using run3 route2 sign_route_loop [of t2_parties T2 thr] by (simp add: out2(1))
  obtain S3 B where p3: "\<forall>w \<in> set ?E. SignSession_phase3 S (inbox t2_parties T2 ?signers (PartyIndex w))
      (S2 (PartyIndex w)) = (Some (Inr (B (PartyIndex w))), S3 (PartyIndex w))"
    and out3: "snd out3 = map (\<lambda>w. B (PartyIndex w)) ?E"
    by (rule run_sign_phase3_returned [OF run3' out2(2,3)])
  show ?thesis
    unfolding sign_traffic_def using p1 p2 p3 sent
    by (intro exI [of _ S1] exI [of _ T1] exI [of _ S2] exI [of _ T2] exI [of _ S3] exI [of _ B])
      (simp add: out1 out2(1) out3 bt_values_tabulate first_parties_def comp_def)
qed

section \<open>What the metrics report\<close>

lemma metered:
  assumes "same_run (\<lambda>m sent. wm_bytes m = 0 + total_size sizes sent) r r'"
    and "ends_after wm_rounds (wm_rounds wire_meter_default + 3) r" and "r = Inr (x, m)"
  shows "\<exists>sent. r' = Inr (x, sent) \<and> metrics_row_of op curve m =
    \<lparr>row_op = op, row_curve = curve, row_bytes = total_size sizes sent, row_rounds = 3\<rparr>"
  using assms by (auto simp: same_run_def ends_after_def metrics_row_of_def wire_meter_default_def)

lemma run_pairE:
  assumes "rbind r (\<lambda>(x, m). f x m) = Inr y"
  obtains x m where "r = Inr (x, m)" "f x m = Inr y"
  using assms by (auto simp: rbind_Inr_iff)

lemma unmetered: "wm_bytes wire_meter_default = 0 + total_size sizes []"
  by (simp add: wire_meter_default_def total_size_def)

lemmas metered_runs =
  metered [OF wire_trace.run_dkg_same [OF unmetered] wire_rounds.run_dkg_rounds]
  metered [OF wire_trace.run_sign_same [OF unmetered] wire_rounds.run_sign_rounds]
  metered [OF wire_trace.run_refresh_complete_same [OF unmetered] wire_rounds.run_refresh_complete_rounds]
  metered [OF wire_trace.run_refresh_fast_same [OF unmetered] wire_rounds.run_refresh_fast_rounds]

lemma unmetered_parties:
  assumes "run_dkg S C params sid NoMeter () = Inr (keys, ())"
  obtains P where "parties_of_key params keys P"
proof -
  have "same_run (\<lambda>_ _. True) (run_dkg S C params sid NoMeter ()) (run_dkg S C params sid TraceMeter [])"
    by (rule none_trace.run_dkg_same) simp
  with assms obtain sent where "run_dkg S C params sid TraceMeter [] = Inr (keys, sent)" by (auto simp: same_run_def)
  from run_dkg_sent [OF this] that show thesis by blast
qed

text \<open>C39: the metrics are those of the runs.  Whenever the measurement of a curve returns, its four rows, in
  this order, report three rounds each, and as bytes, up to the width of the counter, the sum of the
  serialized sizes of certain messages of the same run, each counted once, whatever the meter does: of
  key generation and of the complete refresh the columns of fragments, the messages of the zero shares
  of phases 2 and 3 and those of the multiplications; of the faster refresh the same without
  multiplications; of signing the messages of phases 1 and 2 and the broadcasts of phase 3.  They are
  what the phases return when every party runs them on what is delivered to it.  Not counted are the
  proof commitments and the broadcasts of the derivation data, as \<open>docs/BENCHMARKS.md\<close> says.\<close>

theorem metrics_report:
  fixes S :: "('s::field, 'p::ab_group_add) suite"
  assumes "measure_curve S sizes C D R R' hex_error curve params = Inr rows"
  shows "\<exists>keys keys1 keys2 keys3 P1 P2 P3 sig out2 out3 sent0 sent1 sent2 sent3.
    run_dkg S (C 0) params (replicate 32 7) TraceMeter [] = Inr (keys, sent0) \<and>
    run_dkg S (C 1) params (replicate 32 7) NoMeter () = Inr (keys1, ()) \<and>
    run_sign S D hex_error keys1 2 (replicate 32 9) (tagged_hash S (ascii ''bench'') [ascii ''m'']) TraceMeter [] =
      Inr (sig, sent1) \<and>
    run_dkg S (C 2) params (replicate 32 7) NoMeter () = Inr (keys2, ()) \<and>
    run_refresh_complete S R keys2 (replicate 32 5) TraceMeter [] = Inr (out2, sent2) \<and>
    run_dkg S (C 3) params (replicate 32 7) NoMeter () = Inr (keys3, ()) \<and>
    run_refresh_fast S R' keys3 (replicate 32 5) TraceMeter [] = Inr (out3, sent3) \<and>
    parties_of_key params keys1 P1 \<and> parties_of_key params keys2 P2 \<and> parties_of_key params keys3 P3 \<and>
    dkg_traffic S (C 0) params (replicate 32 7) sent0 \<and>
    sign_traffic S D P1 2 (replicate 32 9) (tagged_hash S (ascii ''bench'') [ascii ''m'']) sent1 \<and>
    refresh_complete_traffic S R params P2 (replicate 32 5) sent2 \<and>
    refresh_fast_traffic S R' params P3 (replicate 32 5) sent3 \<and>
    rows = map (\<lambda>(op, sent). \<lparr>row_op = op, row_curve = curve, row_bytes = total_size sizes sent, row_rounds = 3\<rparr>)
      [(''dkg'', sent0), (''sign'', sent1), (''refresh_complete'', sent2), (''refresh_fast'', sent3)]"
proof -
  from assms obtain keys m0 keys1 sig m1 keys2 out2 m2 keys3 out3 m3 where run:
    "run_dkg S (C 0) params (replicate 32 7) (WireMeter sizes) wire_meter_default = Inr (keys, m0)"
    "run_dkg S (C 1) params (replicate 32 7) NoMeter () = Inr (keys1, ())"
    "run_sign S D hex_error keys1 2 (replicate 32 9) (tagged_hash S (ascii ''bench'') [ascii ''m'']) (WireMeter sizes)
      wire_meter_default = Inr (sig, m1)"
    "run_dkg S (C 2) params (replicate 32 7) NoMeter () = Inr (keys2, ())"
    "run_refresh_complete S R keys2 (replicate 32 5) (WireMeter sizes) wire_meter_default = Inr (out2, m2)"
    "run_dkg S (C 3) params (replicate 32 7) NoMeter () = Inr (keys3, ())"
    "run_refresh_fast S R' keys3 (replicate 32 5) (WireMeter sizes) wire_meter_default = Inr (out3, m3)"
    and rows: "rows = [metrics_row_of ''dkg'' curve m0, metrics_row_of ''sign'' curve m1,
      metrics_row_of ''refresh_complete'' curve m2, metrics_row_of ''refresh_fast'' curve m3]"
    unfolding measure_curve_def Let_def by (elim run_pairE) simp
  obtain P1 P2 P3 where P: "parties_of_key params keys1 P1" "parties_of_key params keys2 P2" "parties_of_key params keys3 P3"
    using unmetered_parties [OF run(2)] unmetered_parties [OF run(4)] unmetered_parties [OF run(6)] by metis
  obtain sent0 where s0: "run_dkg S (C 0) params (replicate 32 7) TraceMeter [] = Inr (keys, sent0)"
    "metrics_row_of ''dkg'' curve m0 =
      \<lparr>row_op = ''dkg'', row_curve = curve, row_bytes = total_size sizes sent0, row_rounds = 3\<rparr>"
    using metered_runs(1) [OF run(1), of "''dkg''" curve] by blast
  obtain sent1 where s1: "run_sign S D hex_error keys1 2 (replicate 32 9) (tagged_hash S (ascii ''bench'') [ascii ''m''])
      TraceMeter [] = Inr (sig, sent1)" "metrics_row_of ''sign'' curve m1 =
      \<lparr>row_op = ''sign'', row_curve = curve, row_bytes = total_size sizes sent1, row_rounds = 3\<rparr>"
    using metered_runs(2) [OF run(3), of "''sign''" curve] by blast
  obtain sent2 where s2: "run_refresh_complete S R keys2 (replicate 32 5) TraceMeter [] = Inr (out2, sent2)"
    "metrics_row_of ''refresh_complete'' curve m2 =
      \<lparr>row_op = ''refresh_complete'', row_curve = curve, row_bytes = total_size sizes sent2, row_rounds = 3\<rparr>"
    using metered_runs(3) [OF run(5), of "''refresh_complete''" curve] by blast
  obtain sent3 where s3: "run_refresh_fast S R' keys3 (replicate 32 5) TraceMeter [] = Inr (out3, sent3)"
    "metrics_row_of ''refresh_fast'' curve m3 =
      \<lparr>row_op = ''refresh_fast'', row_curve = curve, row_bytes = total_size sizes sent3, row_rounds = 3\<rparr>"
    using metered_runs(4) [OF run(7), of "''refresh_fast''" curve] by blast
  note sent = conjunct1 [OF run_dkg_sent [OF s0(1)]] run_sign_sent [OF s1(1) P(1)]
    run_refresh_complete_sent [OF s2(1) P(2)] run_refresh_fast_sent [OF s3(1) P(3)]
  have "rows = map (\<lambda>(op, sent). \<lparr>row_op = op, row_curve = curve, row_bytes = total_size sizes sent, row_rounds = 3\<rparr>)
      [(''dkg'', sent0), (''sign'', sent1), (''refresh_complete'', sent2), (''refresh_fast'', sent3)]"
    using rows s0(2) s1(2) s2(2) s3(2) by simp
  with run(2,4,6) s0(1) s1(1) s2(1) s3(1) P sent show ?thesis by (intro exI conjI)
qed

text \<open>It does return, when every message has a size and the samples of its seven runs are honest.\<close>

lemma wired:
  assumes "same_run (\<lambda>_ _. True) r r'" and "r = Inr (x, m)"
  shows "\<exists>m'. r' = Inr (x, m')"
  using assms by (simp add: same_run_def)

lemma measure_curve_returns:
  fixes S :: "('s::field, 'p::ab_group_add) suite"
  assumes "suite_ok S" and "cyclic S" and "params_ok params" and "share_count params \<noteq> 255" and "threshold params = 2"
    and "\<And>i. dkg_coins_ok S params (replicate 32 7) (C i)"
    and "refresh_coins_ok S params (replicate 32 5) (secret_poly params (C 2)) R"
    and "init_coins_ok S (replicate 32 5) (party_range params) (\<lambda>i. rc_init (R i))"
    and "refresh_coins_ok S params (replicate 32 5) (secret_poly params (C 3)) R'"
    and "sign_samples_ok S (first_parties 2) D (tagged_hash S (ascii ''bench'') [ascii ''m''])
      (pmul S (generator S) (secret_poly params (C 1) 0))"
  shows "\<exists>rows. measure_curve S (\<lambda>msg. Some (sizes msg)) C D R R' hex_error curve params = Inr rows"
proof -
  let ?all = "party_range params" and ?M = "WireMeter (\<lambda>msg. Some (sizes msg))"
  have nw: "no_wrap params" using assms(3,4) by (simp add: no_wrap_def)
  have ids: "length (replicate 32 b) = ID_LEN" for b :: byte by (simp add: ID_LEN_def)
  note dkg = run_dkg_honest [OF assms(1,2) nw assms(6)]
  obtain P0 where P0: "run_dkg S (C 0) params (replicate 32 7) NoMeter () = Inr (map P0 ?all, ())" using dkg by blast
  obtain P1 where P1: "run_dkg S (C 1) params (replicate 32 7) NoMeter () = Inr (map P1 ?all, ())"
    and km1: "key_material S (secret_poly params (C 1)) params (replicate 32 7) (joint_chain_code params (C 1))
      (\<lambda>i j. ic_seed (dc_init (C 1 i)) j) ?all P1" using dkg by blast
  obtain P2 where P2: "run_dkg S (C 2) params (replicate 32 7) NoMeter () = Inr (map P2 ?all, ())"
    and km2: "key_material S (secret_poly params (C 2)) params (replicate 32 7) (joint_chain_code params (C 2))
      (\<lambda>i j. ic_seed (dc_init (C 2 i)) j) ?all P2" using dkg by blast
  obtain P3 where P3: "run_dkg S (C 3) params (replicate 32 7) NoMeter () = Inr (map P3 ?all, ())"
    and km3: "key_material S (secret_poly params (C 3)) params (replicate 32 7) (joint_chain_code params (C 3))
      (\<lambda>i j. ic_seed (dc_init (C 3 i)) j) ?all P3" using dkg by blast
  obtain m0 where m0: "run_dkg S (C 0) params (replicate 32 7) ?M wire_meter_default = Inr (map P0 ?all, m0)"
    using wired [OF none_wire.run_dkg_same P0] by blast
  obtain sig m1 where m1: "run_sign S D hex_error (map P1 ?all) 2 (replicate 32 9)
      (tagged_hash S (ascii ''bench'') [ascii ''m'']) ?M wire_meter_default = Inr (sig, m1)"
    using run_sign_honest [OF assms(1) km1 ids ids, unfolded assms(5), OF assms(10), of hex_error]
      wired [OF none_wire.run_sign_same] by blast
  obtain out2 m2 where m2: "run_refresh_complete S R (map P2 ?all) (replicate 32 5) ?M wire_meter_default = Inr (out2, m2)"
    using run_refresh_complete_honest [OF assms(1,2) nw km2 assms(7,8)] wired [OF none_wire.run_refresh_complete_same]
    by blast
  obtain out3 m3 where m3: "run_refresh_fast S R' (map P3 ?all) (replicate 32 5) ?M wire_meter_default = Inr (out3, m3)"
    using run_refresh_fast_honest [OF assms(1,2) nw km3 assms(9)] wired [OF none_wire.run_refresh_fast_same] by blast
  show ?thesis
    unfolding measure_curve_def Let_def m0 P1 m1 P2 m2 P3 m3 rbind.simps prod.case by blast
qed

lemma metrics_report_witness:
  "\<exists>rows. measure_curve init_suite (\<lambda>_. Some 34) (\<lambda>_. sample_dkg_coins) (\<lambda>w. sample_coins_of (PartyIndex w))
      sample_refresh_coins sample_refresh_coins (\<lambda>_. []) ''secp256k1'' sample_params = Inr rows \<and>
    map row_op rows = [''dkg'', ''sign'', ''refresh_complete'', ''refresh_fast''] \<and> map row_rounds rows = [3, 3, 3, 3] \<and>
    row_bytes (hd rows) = 34 * 21"
proof -
  have hash: "tagged_hash init_suite (ascii ''bench'') [ascii ''m''] = be_bytes 32 9"
    by (simp add: tagged_hash_def hash_bytes_def init_suite_def)
  have thr: "threshold sample_params = 2" by (simp add: sample_params_def)
  obtain rows where rows: "measure_curve init_suite (\<lambda>_. Some 34) (\<lambda>_. sample_dkg_coins)
      (\<lambda>w. sample_coins_of (PartyIndex w)) sample_refresh_coins sample_refresh_coins (\<lambda>_. []) ''secp256k1'' sample_params = Inr rows"
    using measure_curve_returns [OF init_suite_ok init_suite_cyclic sample_params_ok(1) sample_share_count thr
      sample_dkg_coins_any sample_refresh_any sample_refresh_any(1) harness_sample_sign [unfolded thr, folded hash],
      where sizes = "\<lambda>_. 34"] by blast
  from metrics_report [OF rows] obtain sent0 sent1 sent2 sent3 :: "(gf257, gf257) wire_message list" where
    sent0: "dkg_traffic init_suite sample_dkg_coins sample_params (replicate 32 7) sent0" and
    r: "rows = map (\<lambda>(op, sent). \<lparr>row_op = op, row_curve = ''secp256k1'', row_bytes = total_size (\<lambda>_. Some 34) sent,
      row_rounds = 3\<rparr>) [(''dkg'', sent0), (''sign'', sent1), (''refresh_complete'', sent2), (''refresh_fast'', sent3)]"
    by (elim exE conjE) (rule that)
  have "length sent0 = 21" using dkg_traffic_length [OF sent0] by (simp add: sample_params_def)
  then have "total_size (\<lambda>_. Some 34) sent0 = 34 * 21" by (simp add: total_size_def sum_list_triv)
  with r have "map row_op rows = [''dkg'', ''sign'', ''refresh_complete'', ''refresh_fast''] \<and>
      map row_rounds rows = [3, 3, 3, 3] \<and> row_bytes (hd rows) = 34 * 21" by simp
  with rows show ?thesis by (intro exI [of _ rows] conjI) simp_all
qed

end
