(* ===== verification/Spec2Isabelle.thy ===== *)
theory Spec2Isabelle
  imports Derivation Ecdsa Shamir Key_Material Signing Signing_Run Dkg Refresh Messages Signature Phases Addresses
    Party_Types Dkg_Session Sign_Session Re_Key Lifecycle Key_Life Harness Harness_Runs Harness_Traffic
begin

text \<open>
  A verification library of the DKLs23 threshold-ECDSA crates: \<open>dkls23-core\<close> (the protocols),
  \<open>dkls23-secp256k1\<close> and \<open>dkls23-secp256r1\<close> (addresses), and \<open>dkls23-benchmarks\<close> (a harness that drives them).  Paths below are relative to
  \<open>dkls23-core/src\<close> unless a crate is named.

  The program.  A group of parties generates an ECDSA key of which each holds a share; any threshold of
  them signs together without rebuilding the key.  Key generation (\<open>protocols/dkg.rs\<close>) runs four phases:
  the parties exchange points of random polynomials, prove that they know their sums, check that all
  committed points lie on one polynomial, and meanwhile set up, for every pair, a common seed for
  shares of zero and a two-party multiplication in both directions.  Signing
  (\<open>protocols/signing.rs\<close>) runs four phases on what key generation left: pairwise multiplications turn
  the shares of the key and of the instance key into shares of a signature.  Refresh, re-keying and
  derivation replace the shares of a key.  Below the protocols are the multiplication
  (\<open>utilities/multiplication.rs\<close>), on a correlated oblivious transfer (\<open>utilities/ot/extension.rs\<close>),
  on a base oblivious transfer (\<open>utilities/ot/base.rs\<close>), on zero-knowledge proofs
  (\<open>utilities/proofs.rs\<close>), on commitments and tagged hashes.  Sessions (\<open>dkg_session.rs\<close>,
  \<open>sign_session.rs\<close>) hand a client the phases in order.

  Theories, from the bottom.

  \<^item> \<open>Prelude\<close>: results (\<open>Result\<close> is a sum, \<open>?\<close> is \<open>rbind\<close>, an early return in a loop is \<open>for_each\<close>,
    \<open>check_each\<close> or \<open>map_res\<close>), bytes and their encodings.  \<open>Ordered_Map\<close>: \<open>BTreeMap\<close>, with the locale
    \<open>ordered_map\<close> interpreted as \<open>bt\<close>.  \<open>Suite\<close>: the back end (curve, SHA-256, HMAC, RIPEMD-160, hex) as the
    record \<open>suite\<close>, its documented laws as \<open>suite_ok\<close>.  \<open>Sample_Suite\<close>: a field of 257 elements that meets
    the laws, for the witnesses.
  \<^item> \<open>Hashes\<close>: \<open>utilities/hashes.rs\<close> and \<open>oracle_tags.rs\<close>; the encoding under each hash is injective.
  \<^item> \<open>Commits\<close>: \<open>utilities/commits.rs\<close>; locale \<open>commitment_scheme\<close>, interpreted for bytes and for points.
  \<^item> \<open>Protocol_Types\<close>: \<open>protocols.rs\<close>: indices, parameters, aborts and their text, routing, the public key
    package; \<open>collect_by_sender\<close> is the receiving loop of every phase 4.
  \<^item> \<open>Zero_Shares\<close>: \<open>utilities/zero_shares.rs\<close>; the shares of any set of signers sum to zero.
  \<^item> \<open>Proofs\<close>: \<open>utilities/proofs.rs\<close>; locale \<open>sigma_protocol\<close>, interpreted for Schnorr's protocol and for
    Chaum and Pedersen's; completeness and special soundness of the composed proofs.
  \<^item> \<open>Base_OT\<close>: \<open>utilities/ot.rs\<close>, \<open>ot/base.rs\<close>.  \<open>Field_Mul\<close> and \<open>OT_Extension\<close>: \<open>ot/extension.rs\<close>, first
    its multiplication in GF(2^208), shown equal to the carry-less product modulo the polynomial, then
    the extension with its consistency check and its wire format.  \<open>Correlated_OT\<close> is the locale the
    extension provides, interpreted as \<open>ote\<close>.
  \<^item> \<open>Multiplication\<close>: \<open>utilities/multiplication.rs\<close>, proved from \<open>correlated_ot\<close>; \<open>Two_Party_Mul\<close> is the
    locale it provides to signing, interpreted as \<open>mul\<close>.
  \<^item> \<open>Derivation\<close>: \<open>protocols/derivation.rs\<close> and the record \<open>Party\<close> (\<open>party\<close>).  \<open>Shamir\<close>: polynomials of bounded
    degree and interpolation.  \<open>Key_Material\<close>: \<open>key_material\<close>, the specification of what the parties of one
    key hold together, and \<open>inbox\<close>, the delivery of messages.
  \<^item> \<open>Dkg_Steps\<close>, \<open>Dkg_Init\<close>, \<open>Dkg\<close>: \<open>protocols/dkg.rs\<close>, its steps on polynomials, the initialization of the
    pairs, and the phases.  \<open>Refresh\<close>: both refreshes of \<open>protocols/refresh.rs\<close>.  \<open>Re_Key\<close>:
    \<open>protocols/re_key.rs\<close>.
  \<^item> \<open>Ecdsa\<close>, \<open>Signing\<close>: \<open>protocols/signing.rs\<close>, with the specification \<open>ecdsa_valid\<close>.  \<open>Signing_Run\<close>: an honest
    run.  \<open>Signature\<close>: \<open>protocols/signature.rs\<close>.
  \<^item> \<open>Phases\<close>: the locale \<open>phased_session\<close> of objects whose calls run phases in order, interpreted in
    \<open>Dkg_Session\<close> and \<open>Sign_Session\<close>, the models of \<open>protocols/dkg_session.rs\<close> and \<open>sign_session.rs\<close>.
  \<^item> \<open>Messages\<close>: \<open>protocols/messages.rs\<close>, whose reader of frames is a partial function on a build \<open>target\<close> (the
    width of \<open>usize\<close> and whether overflow panics).  \<open>Addresses\<close>: the \<open>lib.rs\<close> of the two curve crates.
  \<^item> \<open>Party_Types\<close>: the invariant of one party under any received data.  \<open>Lifecycle\<close> and \<open>Key_Life\<close>: the
    composition, from key generation over derivations and refreshes to signatures.
  \<^item> \<open>Harness\<close>: the runs of \<open>dkls23-benchmarks\<close> (\<open>src/dkg.rs\<close>, \<open>refresh.rs\<close>, \<open>sign.rs\<close>, \<open>route.rs\<close>), which drive all
    parties in one process, and its meters (\<open>meter.rs\<close>); the locales \<open>meter_simulation\<close> (a run does not depend
    on its meter) and \<open>counting_meter\<close> (a run has three rounds), interpreted for the meters of the crate.
    \<open>Harness_Runs\<close>: honest runs do not panic and the example \<open>verify_e2e.rs\<close> and the refresh test do what
    they announce; the program \<open>bin/metrics.rs\<close> is modelled there.  \<open>Harness_Traffic\<close>: which messages of a run the
    harness shows its meter (\<open>dkg_traffic\<close>, \<open>sign_traffic\<close>, \<open>refresh_complete_traffic\<close>, \<open>refresh_fast_traffic\<close>), and so what
    the metrics count.

  State and operations.  Every struct is a record with the fields of the source, every enum a datatype.
  A method on \<open>&mut self\<close> returns its result and the new state; a method on \<open>self\<close> leaves none (a
  consumed session is \<open>None\<close>).  Whatever the code draws from its random number generator is an argument,
  grouped in the records named coins; a theorem that needs good samples says so (\<open>coins_ok\<close>,
  \<open>dkg_coins_ok\<close>, \<open>sign_coins_ok\<close>, \<open>refresh_coins_ok\<close>: sampled vectors have their length, no sampled value is
  degenerate, no proof search is exhausted).  In \<open>party_life\<close> a flag \<open>full\<close> records whether every base transfer a
  party received had \<open>KAPPA\<close> proofs, which the code does not check.  Aborts are values on the left; a panic is \<open>None\<close> in the
  phases of signing, \<open>Panicked\<close> in those of key generation and refresh and in the harness, and \<open>Panic\<close> in the
  reader of frames, so that no theorem can
  overlook one.

  What the lemmas show.  For every protocol: that an honest run returns, at every party and in any order
  of delivery, with the right result (\<open>dkg_honest_run\<close>, \<open>sign_honest_run\<close>, the two of refresh, \<open>ote_correct\<close>,
  \<open>mul_correct\<close>, \<open>base_ot_batch_correct\<close>, the proofs); that what is returned under arbitrary received data is
  safe (\<open>sign_phase4_sound\<close>, \<open>sign_session_sound\<close>, \<open>step5_refines\<close>, \<open>refresh_keeps_key\<close>, \<open>party_life_typed\<close>); which
  errors are recoverable and which blame a counterparty, and on what evidence; that sessions run each
  phase at most once.  \<open>key_material\<close> is the contract between components: key generation and re-keying
  establish it, derivation and the refreshes keep it, signing needs it; \<open>generated_key_signs\<close>,
  \<open>key_life_signs\<close> and, for the programs of the harness, \<open>harness_signs\<close> are the compositions.  Five theorems
  state where the code stops short of what it means to do: \<open>step5_own_index_unverified\<close>,
  \<open>dkg_255_parties_fail\<close>, \<open>short_base_ot_accepted\<close>, \<open>mul_gadget_not_checked\<close> and, for 32-bit targets,
  \<open>find_in_stream_refines\<close>.

  Bounds and loops.  Integers have their width where it matters: party indices and thresholds are 8-bit
  words, and the ranges of step 5 wrap around as in a build without overflow checks (with the checks,
  the only wrapping case, 255 parties, panics instead).  Lengths in frames are 32-bit, counters of
  hashes 16-bit, limbs and the byte count of a meter 64-bit.  The offsets of the reader of frames are \<open>usize\<close> of a \<open>target\<close>:
  64-bit (\<open>native\<close>), 32-bit (\<open>wasm32\<close>, which the repository builds for as well) or any other width from 32
  on, with overflow that wraps around or panics; its theorems assume of a stream only that it is a slice
  of that target, shorter than half its address space.  Elsewhere \<open>usize\<close> holds lengths and positions of
  data in memory, which do not overflow it, and is \<open>nat\<close>.  Loops are structural, except the splitting of
  a matrix (recursion with a measure), the reader of frames (a partial function: \<open>None\<close> is a loop that does not
  end, which takes a wrapped offset), the sampling of a nonzero scalar (a partial function on an
  infinite tape, defined as soon as the tape has a nonzero entry), and the pseudo-random generator,
  which is bounded by three iterations: each adds 32 bytes and 78 are needed.

  Parameters and hypotheses.  Code outside the repository is an argument: the \<open>suite\<close>, \<open>wire\<close> (one bincode
  codec per message type, with \<open>wire_ok\<close>, its round trip), \<open>address_lib\<close> (hashes and text encodings of
  addresses, with \<open>address_lib_ok\<close>), the address function of a party.  \<open>cyclic\<close> says that the generator
  generates the group.  No theorem assumes that a hash is collision free: where security rests on it,
  the conclusion is that the inputs agree or a collision is exhibited.

  Not modelled.  \<open>utilities/rng.rs\<close> only chooses the generator of the \<open>rand\<close> crate.  \<open>curve.rs\<close> and \<open>lib.rs\<close> are
  trait bounds, re-exports and build guards; the bounds appear as \<open>suite\<close>, the constants are defined
  where they are used.  Serde implementations are derived, except the two for matrices, which are
  modelled.  The wiping of memory on drop has no observable effect; wiping that a caller can see
  (\<open>party_zeroize\<close>, \<open>DkgSession_zeroize\<close>) is modelled.  The implementations of \<open>AddressScheme\<close> only call the
  modelled functions.  Of the benchmarks, \<open>benches/dkls.rs\<close>, which registers the modelled runs with \<open>criterion\<close>, and the
  printing of rows are left out; the scripts under \<open>tools\<close> check the citations of the documentation.  Timing, probabilities and the secrecy of values are outside this kind of model.
\<close>

end
